(* ===== verification/Prelude.thy ===== *)
theory Prelude
  imports Main "HOL-Library.Word" "HOL-Library.Monad_Syntax"
begin

text \<open>
  Shared vocabulary of the development: the machine types of the kernel, the reading of
  \<^verbatim>\<open>assert\<close>, \<^verbatim>\<open>panic\<close> and null dereferences as the value \<open>None\<close> of an option
  monad, and the generic lemmas on options, lists and words that the component theories use.

  A kernel function that can stop the machine has a result in the option type.
  \<open>None\<close> stands for: a failed \<^verbatim>\<open>assert\<close> (the builds without \<^verbatim>\<open>NDEBUG\<close>), a
  \<^verbatim>\<open>panic\<close>, a dereference of the null pointer, or a loop that never ends (a spinning lock,
  a cyclic list). Errors that the kernel reports to its caller are ordinary values:
  a null or \<open>False\<close> result with the error code stored in the modelled \<^verbatim>\<open>errno\<close>.
\<close>

unbundle bit_operations_syntax

subsection \<open>Machine types\<close>

type_synonym u64 = "64 word"
type_synonym addr = "64 word" \<comment> \<open>\<^verbatim>\<open>uintptr_t\<close>; 0 is the null pointer\<close>
type_synonym byte = "8 word"

named_theorems kernel_defs "definitions of kernel operations, unfolded by component proofs"
named_theorems monad_simps "rewrite rules for the option monad"

subsection \<open>Assertions and panics in the option monad\<close>

definition cassert :: "bool \<Rightarrow> unit option" where
  "cassert b = (if b then Some () else None)"

lemma cassert_True [simp]: "cassert True = Some ()"
  by (simp add: cassert_def)

lemma cassert_False [simp]: "cassert False = None"
  by (simp add: cassert_def)

lemma bind_cassert [simp, monad_simps]:
  "Option.bind (cassert b) f = (if b then f () else None)"
  by (simp add: cassert_def)

lemma bind_if [monad_simps]:
  "Option.bind (if b then m else n) f = (if b then Option.bind m f else Option.bind n f)"
  by simp

lemma bind_Some_iff [monad_simps]:
  "(Option.bind m f = Some y) \<longleftrightarrow> (\<exists>x. m = Some x \<and> f x = Some y)"
  by (cases m) auto

lemma if_None_Some_iff [simp]:
  "((if b then m else None) = Some y) \<longleftrightarrow> b \<and> m = Some y"
  "((if b then None else m) = Some y) \<longleftrightarrow> \<not> b \<and> m = Some y"
  by auto

text \<open>Local names of the source (\<open>let\<close>) are unfolded by the simplifier.\<close>

declare Let_def [simp]

subsection \<open>Ends of lists with a default\<close>

text \<open>
  A linked list is read through the pointer that leads into it: the first element, or the
  default (usually null) of the empty list.
\<close>

definition hd0 :: "'a list \<Rightarrow> 'a \<Rightarrow> 'a" where
  "hd0 xs d = (case xs of [] \<Rightarrow> d | x # _ \<Rightarrow> x)"

definition last0 :: "'a \<Rightarrow> 'a list \<Rightarrow> 'a" where
  "last0 d xs = (if xs = [] then d else last xs)"

lemma hd0_simps [simp]: "hd0 [] d = d" "hd0 (x # xs) d = x"
  by (simp_all add: hd0_def)

lemma last0_simps [simp]: "last0 d [] = d" "last0 d (xs @ [x]) = x" "last0 d (x # xs) = last0 x xs"
  by (simp_all add: last0_def)

lemma hd0_append: "hd0 (xs @ ys) d = hd0 xs (hd0 ys d)"
  by (cases xs) simp_all

lemma last0_append [simp]: "last0 d (xs @ ys) = last0 (last0 d xs) ys"
  by (induction xs arbitrary: d) simp_all

lemma hd0_in_set: "xs \<noteq> [] \<Longrightarrow> hd0 xs d \<in> set xs"
  by (cases xs) simp_all

lemma last0_in_set: "xs \<noteq> [] \<Longrightarrow> last0 d xs \<in> set xs"
  by (simp add: last0_def)

lemma hd0_eq_default: "d \<notin> set xs \<Longrightarrow> hd0 xs d = d \<longleftrightarrow> xs = []"
  by (cases xs) auto

lemma last0_eq_default: "d \<notin> set xs \<Longrightarrow> last0 d xs = d \<longleftrightarrow> xs = []"
  by (metis last0_in_set last0_simps(1))

subsection \<open>Words as naturals\<close>

lemma unat_of_nat_u64: "n < 2 ^ 64 \<Longrightarrow> unat (of_nat n :: u64) = n"
  by (simp add: unsigned_of_nat take_bit_nat_eq_self)

lemma unat_u64_less: "unat (x :: u64) < 2 ^ 64"
  using unsigned_less [of x] by simp

lemma word_unatI: "unat x = unat y \<Longrightarrow> x = y"
  by (simp add: unsigned_word_eqI)

end
