(* ===== verification/Align.thy ===== *)
theory Align
  imports Prelude
begin

text \<open>
  The alignment helpers of \<^verbatim>\<open>include/kernel/align.h\<close>, at the 64-bit type every kernel use
  instantiates them with. Both functions compute in wrap-around arithmetic: rounding up is
  right only while \<open>value + align - 1\<close> stays below \<open>2 ^ 64\<close>, and the lemmas say so.
\<close>

definition round_up :: "u64 \<Rightarrow> u64 \<Rightarrow> u64" where
  "round_up value align =
     (if align = 0 then value else (value + align - 1) div align * align)"

definition round_down :: "u64 \<Rightarrow> u64 \<Rightarrow> u64" where
  "round_down value align = (if align = 0 then value else value div align * align)"

subsection \<open>Arithmetic on naturals\<close>

definition nat_round_up :: "nat \<Rightarrow> nat \<Rightarrow> nat" where
  "nat_round_up v a = (v + a - 1) div a * a"

lemma nat_round_up_ge: "0 < a \<Longrightarrow> v \<le> nat_round_up v a"
proof -
  assume a: "0 < a"
  have "v + a - 1 < (v + a - 1) div a * a + a"
    using dividend_less_div_times [OF a, of "v + a - 1"] by (simp add: add.commute)
  then show ?thesis
    unfolding nat_round_up_def using a by linarith
qed

lemma nat_round_up_less: "0 < a \<Longrightarrow> nat_round_up v a < v + a"
proof -
  assume a: "0 < a"
  have "(v + a - 1) div a * a \<le> v + a - 1"
    by simp
  then show ?thesis
    unfolding nat_round_up_def using a by linarith
qed

lemma nat_round_up_dvd: "a dvd nat_round_up v a"
  by (simp add: nat_round_up_def)

lemma nat_round_up_least:
  assumes "v \<le> m" "a dvd m" "0 < a"
  shows "nat_round_up v a \<le> m"
proof -
  from assms(2) obtain k where k: "m = a * k" by (rule dvdE)
  have "v + a - 1 \<le> m + (a - 1)" using assms by linarith
  then have "(v + a - 1) div a \<le> (m + (a - 1)) div a"
    by (rule div_le_mono)
  also have "\<dots> = k" using assms(3) k by (simp only: div_mult_self4) simp
  finally show ?thesis using k
    by (simp add: nat_round_up_def mult.commute)
qed

lemma nat_round_up_id: "a dvd v \<Longrightarrow> 0 < a \<Longrightarrow> nat_round_up v a = v"
  by (meson le_antisym nat_round_up_ge nat_round_up_least order_refl)

subsection \<open>The 64-bit functions\<close>

lemma unat_word_mult_div: "unat ((x :: 'a::len word) div y * y) = unat x div unat y * unat y"
proof -
  have "unat x div unat y * unat y \<le> unat x" by simp
  also have "\<dots> < 2 ^ LENGTH('a)" by (rule unsigned_less)
  finally have "unat x div unat y * unat y < 2 ^ LENGTH('a)" .
  then show ?thesis
    by (simp add: unat_mult_lem [THEN iffD1] unat_div)
qed

lemma unat_round_down: "unat (round_down v a) = (if a = 0 then unat v else unat v div unat a * unat a)"
  by (simp add: round_down_def unat_word_mult_div)

lemma unat_round_up:
  assumes "a \<noteq> 0" "unat v + unat a \<le> 2 ^ 64"
  shows "unat (round_up v a) = nat_round_up (unat v) (unat a)"
proof -
  have a: "0 < unat a" using assms(1) by (simp add: unat_gt_0)
  have "v + a - 1 = of_nat (unat v + unat a - 1)"
    using a by (simp add: of_nat_diff)
  moreover have "unat v + unat a - 1 < 2 ^ 64" using assms(2) a by linarith
  ultimately have "unat (v + a - 1) = unat v + unat a - 1"
    by (simp add: take_bit_nat_eq_self unsigned_of_nat)
  then show ?thesis
    using assms(1) by (simp add: round_up_def unat_word_mult_div nat_round_up_def)
qed

lemma round_down_le: "unat (round_down v a) \<le> unat v"
  by (simp add: unat_round_down)

lemma round_down_idem: "round_down (round_down v a) a = round_down v a"
proof -
  have "unat (round_down (round_down v a) a) = unat (round_down v a)"
    by (cases "a = 0") (simp_all add: unat_round_down unat_gt_0)
  then show ?thesis by (simp add: unsigned_word_eqI)
qed

text \<open>
  Rounding up. While the sum \<open>value + align\<close> does not pass \<open>2 ^ 64\<close>,
  \<open>round_up\<close> returns the least multiple of the alignment that is not below the value.
\<close>

theorem round_up_correct:
  assumes "a \<noteq> 0" "unat v + unat a \<le> 2 ^ 64"
  shows "unat a dvd unat (round_up v a) \<and> unat v \<le> unat (round_up v a) \<and>
    unat (round_up v a) < unat v + unat a \<and>
    (\<forall>m. unat v \<le> m \<and> unat a dvd m \<longrightarrow> unat (round_up v a) \<le> m)"
  using assms
  by (simp add: unat_round_up nat_round_up_dvd nat_round_up_ge nat_round_up_less
      nat_round_up_least unat_gt_0)

theorem round_up_correct_witness:
  "unat (4096 :: u64) dvd unat (round_up 5000 4096) \<and> 5000 \<le> unat (round_up 5000 4096) \<and>
   unat (round_up 5000 4096) < 9096"
  using round_up_correct [of 4096 5000] by simp

end
