(* ===== verification/Page.thy ===== *)
theory Page
  imports Align
begin

text \<open>
  Address spaces and page tables: the layout constants that
  \<^verbatim>\<open>configs/helpers/declare_arch.cmake\<close> computes for the sv39 builds (the only ones the
  platforms declare), the pointer conversions of \<^verbatim>\<open>include/kernel/address.h\<close>, and the page
  table entries of \<^verbatim>\<open>include/arch/rv64/kernel/page.h\<close>. The lemmas show that a page table
  entry gives back the page it was set to and that the indices taken from a virtual address
  invert the address arithmetic of the mapping functions.
\<close>

subsection \<open>Configuration\<close>

definition CONFIG_MAX_VIRTUAL_ADDRESS :: u64 where "CONFIG_MAX_VIRTUAL_ADDRESS = 2 ^ 38"
definition CONFIG_MAX_PHYSICAL_ADDRESS :: u64 where "CONFIG_MAX_PHYSICAL_ADDRESS = 2 ^ 36"
definition CONFIG_USER_SPACE_BASE :: u64 where "CONFIG_USER_SPACE_BASE = 0x1000"
definition CONFIG_USER_SPACE_SIZE :: u64 where
  "CONFIG_USER_SPACE_SIZE = CONFIG_MAX_VIRTUAL_ADDRESS div 2 - CONFIG_USER_SPACE_BASE"
definition CONFIG_KERNEL_SPACE_BASE :: u64 where
  "CONFIG_KERNEL_SPACE_BASE = CONFIG_MAX_VIRTUAL_ADDRESS div 2"
definition CONFIG_MAPPED_SPACE_BASE :: u64 where
  "CONFIG_MAPPED_SPACE_BASE = CONFIG_KERNEL_SPACE_BASE"
definition CONFIG_MAPPED_SPACE_SIZE :: u64 where
  "CONFIG_MAPPED_SPACE_SIZE = CONFIG_MAX_PHYSICAL_ADDRESS"
definition CONFIG_CAPABILITY_SPACE_BASE :: u64 where
  "CONFIG_CAPABILITY_SPACE_BASE = CONFIG_MAPPED_SPACE_BASE + CONFIG_MAPPED_SPACE_SIZE"

lemmas config_defs =
  CONFIG_MAX_VIRTUAL_ADDRESS_def CONFIG_MAX_PHYSICAL_ADDRESS_def CONFIG_USER_SPACE_BASE_def
  CONFIG_USER_SPACE_SIZE_def CONFIG_KERNEL_SPACE_BASE_def CONFIG_MAPPED_SPACE_BASE_def
  CONFIG_MAPPED_SPACE_SIZE_def CONFIG_CAPABILITY_SPACE_BASE_def

definition PAGE_SIZE_BIT :: nat where "PAGE_SIZE_BIT = 12"
definition PAGE_SIZE :: u64 where "PAGE_SIZE = push_bit PAGE_SIZE_BIT 1"
definition NUM_PAGE_TABLE_ENTRY :: u64 where "NUM_PAGE_TABLE_ENTRY = PAGE_SIZE div 8"
definition NUM_INTER_PAGE_TABLE :: nat where "NUM_INTER_PAGE_TABLE = 1"
definition KILO_PAGE_TABLE_LEVEL :: nat where "KILO_PAGE_TABLE_LEVEL = 0"
definition MEGA_PAGE_TABLE_LEVEL :: nat where "MEGA_PAGE_TABLE_LEVEL = 1"
definition GIGA_PAGE_TABLE_LEVEL :: nat where "GIGA_PAGE_TABLE_LEVEL = 2"
definition MAX_PAGE_TABLE_LEVEL :: nat where "MAX_PAGE_TABLE_LEVEL = GIGA_PAGE_TABLE_LEVEL"

lemma PAGE_SIZE_val [simp]: "PAGE_SIZE = 4096"
  by (simp add: PAGE_SIZE_def PAGE_SIZE_BIT_def)

lemma NUM_PAGE_TABLE_ENTRY_val [simp]: "NUM_PAGE_TABLE_ENTRY = 512"
  by (simp add: NUM_PAGE_TABLE_ENTRY_def)

lemmas level_defs [simp] =
  KILO_PAGE_TABLE_LEVEL_def MEGA_PAGE_TABLE_LEVEL_def GIGA_PAGE_TABLE_LEVEL_def
  MAX_PAGE_TABLE_LEVEL_def NUM_INTER_PAGE_TABLE_def PAGE_SIZE_BIT_def

subsection \<open>Physical and mapped addresses\<close>

definition as_map :: "addr \<Rightarrow> addr" where
  "as_map phys = phys + CONFIG_MAPPED_SPACE_BASE"

definition as_phys :: "addr \<Rightarrow> addr" where
  "as_phys ptr = ptr - CONFIG_MAPPED_SPACE_BASE"

lemma as_phys_as_map [simp]: "as_phys (as_map p) = p"
  by (simp add: as_phys_def as_map_def)

lemma as_map_as_phys [simp]: "as_map (as_phys p) = p"
  by (simp add: as_phys_def as_map_def)

lemma as_map_inject [simp]: "as_map p = as_map q \<longleftrightarrow> p = q"
  by (simp add: as_map_def)

lemma as_map_nonnull: "unat p < 2 ^ 36 \<Longrightarrow> as_map p \<noteq> 0"
proof -
  assume p: "unat p < 2 ^ 36"
  have "unat (as_map p) = unat p + 2 ^ 37"
    using p by (simp add: as_map_def config_defs unat_word_ariths)
  then show ?thesis by (metis add_is_0 power_eq_0_iff unsigned_0 zero_neq_numeral)
qed

subsection \<open>Page sizes and indices\<close>

definition get_page_size :: "nat \<Rightarrow> u64" where
  "get_page_size level = push_bit (9 * level) PAGE_SIZE"

definition get_page_size_bit :: "nat \<Rightarrow> nat" where
  "get_page_size_bit level = PAGE_SIZE_BIT + 9 * level"

definition get_page_table_index :: "addr \<Rightarrow> nat \<Rightarrow> u64" where
  "get_page_table_index va level = drop_bit (get_page_size_bit level) va AND 0x1ff"

lemma get_page_size_pow: "get_page_size level = 2 ^ (get_page_size_bit level)"
  by (simp add: get_page_size_def get_page_size_bit_def push_bit_eq_mult power_add mult.commute)

lemma get_page_size_simps [simp]:
  "get_page_size 0 = 4096" "get_page_size (Suc 0) = 2097152" "get_page_size 2 = 1073741824"
  by (simp_all add: get_page_size_def push_bit_eq_mult)

lemma unat_drop_bit: "unat (drop_bit n w) = unat w div 2 ^ n"
proof -
  have "unat (drop_bit n w) = drop_bit n (unat w)"
    by (subst unsigned_drop_bit_eq) (simp add: take_bit_nat_eq_self)
  then show ?thesis by (simp only: drop_bit_eq_div)
qed

lemma unat_get_page_table_index:
  "unat (get_page_table_index va level) = unat va div 2 ^ get_page_size_bit level mod 512"
proof -
  have "get_page_table_index va level = take_bit 9 (drop_bit (get_page_size_bit level) va)"
    by (simp add: get_page_table_index_def take_bit_eq_mask mask_eq_exp_minus_1)
  then have "unat (get_page_table_index va level) =
      take_bit 9 (unat (drop_bit (get_page_size_bit level) va))"
    by (simp only: unsigned_take_bit_eq)
  then show ?thesis
    by (simp add: unat_drop_bit take_bit_eq_mod)
qed

lemma get_page_table_index_less: "get_page_table_index va level < NUM_PAGE_TABLE_ENTRY"
  by (simp add: word_less_nat_alt unat_get_page_table_index)

subsection \<open>Page table entries\<close>

record pte_t =
  pte_v :: bool
  pte_r :: bool
  pte_w :: bool
  pte_x :: bool
  pte_u :: bool
  pte_g :: bool
  pte_a :: bool
  pte_d :: bool
  pte_rsv :: "2 word"
  pte_next_page_number :: "44 word"

record pte_flags_t =
  fl_readable :: bool
  fl_writable :: bool
  fl_executable :: bool
  fl_user :: bool
  fl_global :: bool

text \<open>The aggregate \<^verbatim>\<open>{}\<close> of \<^verbatim>\<open>set_flags({})\<close> and an all-zero entry (\<^verbatim>\<open>memset\<close>).\<close>

definition no_flags :: pte_flags_t where
  "no_flags = \<lparr>fl_readable = False, fl_writable = False, fl_executable = False,
     fl_user = False, fl_global = False\<rparr>"

definition zero_pte :: pte_t where
  "zero_pte = \<lparr>pte_v = False, pte_r = False, pte_w = False, pte_x = False, pte_u = False,
     pte_g = False, pte_a = False, pte_d = False, pte_rsv = 0, pte_next_page_number = 0\<rparr>"

definition enable :: "pte_t \<Rightarrow> pte_t" where "enable p = p\<lparr>pte_v := True\<rparr>"
definition disable :: "pte_t \<Rightarrow> pte_t" where "disable p = p\<lparr>pte_v := False\<rparr>"
definition is_enabled :: "pte_t \<Rightarrow> bool" where "is_enabled p \<longleftrightarrow> pte_v p"
definition is_disabled :: "pte_t \<Rightarrow> bool" where "is_disabled p \<longleftrightarrow> \<not> pte_v p"

definition is_table :: "pte_t \<Rightarrow> bool" where
  "is_table p \<longleftrightarrow> pte_v p \<and> \<not> pte_r p \<and> \<not> pte_w p \<and> \<not> pte_x p \<and> \<not> pte_u p \<and> \<not> pte_g p"

definition is_user :: "pte_t \<Rightarrow> bool" where "is_user p \<longleftrightarrow> pte_v p \<and> pte_u p"

definition set_flags :: "pte_flags_t \<Rightarrow> pte_t \<Rightarrow> pte_t" where
  "set_flags f p = p\<lparr>pte_r := fl_readable f, pte_w := fl_writable f, pte_x := fl_executable f,
     pte_u := fl_user f, pte_g := fl_global f\<rparr>"

definition set_next_page :: "addr \<Rightarrow> pte_t \<Rightarrow> pte_t" where
  "set_next_page next_page p =
     p\<lparr>pte_next_page_number := ucast (drop_bit PAGE_SIZE_BIT (as_phys next_page)),
       pte_a := True, pte_d := True\<rparr>"

definition get_next_page :: "pte_t \<Rightarrow> addr" where
  "get_next_page p = as_map (push_bit PAGE_SIZE_BIT (ucast (pte_next_page_number p)))"

text \<open>
  A page table is the array \<^verbatim>\<open>entries[NUM_PAGE_TABLE_ENTRY]\<close>, read through an index that
  the callers keep below 512. \<^verbatim>\<open>walk\<close> returns the address of an entry; the model returns
  its index in the table it is called on.
\<close>

type_synonym page_table_t = "u64 \<Rightarrow> pte_t"

definition zero_page_table :: page_table_t where "zero_page_table = (\<lambda>_. zero_pte)"

definition walk :: "addr \<Rightarrow> nat \<Rightarrow> u64 option" where
  "walk va level = do {
     cassert (va < CONFIG_MAX_VIRTUAL_ADDRESS);
     cassert (level \<le> MAX_PAGE_TABLE_LEVEL);
     Some (get_page_table_index va level)
   }"

lemmas pte_defs = enable_def disable_def is_enabled_def is_disabled_def is_table_def is_user_def
  set_flags_def set_next_page_def no_flags_def zero_pte_def zero_page_table_def

lemma walk_Some [simp]:
  "va < CONFIG_MAX_VIRTUAL_ADDRESS \<Longrightarrow> level \<le> 2 \<Longrightarrow>
   walk va level = Some (get_page_table_index va level)"
  by (simp add: walk_def)

lemma get_next_page_upd [simp]:
  "get_next_page (enable p) = get_next_page p"
  "get_next_page (disable p) = get_next_page p"
  "get_next_page (set_flags f p) = get_next_page p"
  by (simp_all add: get_next_page_def pte_defs)

lemma is_enabled_upd [simp]:
  "is_enabled (enable p)" "\<not> is_enabled (disable p)"
  "\<not> is_disabled (enable p)" "is_disabled (disable p)"
  "is_enabled (set_flags f p) = is_enabled p" "is_enabled (set_next_page q p) = is_enabled p"
  "is_disabled p = (\<not> is_enabled p)" "\<not> is_enabled zero_pte" "\<not> is_enabled (zero_page_table i)"
  by (simp_all add: pte_defs)

text \<open>
  The page number keeps 44 bits and the entry drops the low 12: an entry returns exactly
  the page it was given when that page is page-aligned and within 56 bits of physical address.
\<close>

lemma get_next_page_set_next_page:
  assumes "unat (as_phys q) < 2 ^ 56" "4096 dvd unat (as_phys q)"
  shows "get_next_page (set_next_page q p) = q"
proof -
  define w :: "44 word" where "w = ucast (drop_bit 12 (as_phys q))"
  have "unat (as_phys q) div 4096 < 2 ^ 44" using assms(1) by simp
  then have w: "unat w = unat (as_phys q) div 4096"
    by (simp add: w_def unsigned_ucast_eq unat_drop_bit take_bit_nat_eq_self)
  have "unat (ucast w :: u64) = unat w"
    by (simp add: unsigned_ucast_eq take_bit_nat_eq_self unsigned_less [THEN less_trans])
  then have "unat (push_bit 12 (ucast w) :: u64) = unat (as_phys q)"
    using w assms by (simp add: push_bit_eq_mult unat_word_ariths)
  then have "push_bit 12 (ucast w) = as_phys q"
    by (rule unsigned_word_eqI)
  then show ?thesis
    by (simp add: get_next_page_def set_next_page_def w_def)
qed

end
