(* ===== verification/Caps.thy ===== *)
theory Caps
  imports Page
begin

text \<open>
  Capabilities: \<^verbatim>\<open>union capability_t\<close> of \<^verbatim>\<open>include/kernel/cap.h\<close> as a datatype, one
  constructor for each value of its tag field, with the payload structs as records. The bit
  fields keep their widths, so a store truncates as it does in the kernel. The constructors
  \<^verbatim>\<open>make_*_cap\<close> return \<open>None\<close> where an \<^verbatim>\<open>assert\<close> of the source fails.
  The numbering of \<^verbatim>\<open>cap_type_t\<close> belongs to libcaprese and is not used here.
\<close>

datatype cap_type_t =
    CAP_NULL | CAP_MEM | CAP_TASK | CAP_ENDPOINT | CAP_PAGE_TABLE | CAP_VIRT_PAGE
  | CAP_CAP_SPACE | CAP_ID | CAP_ZOMBIE | CAP_UNKNOWN

record memory_cap =
  mem_device :: bool
  mem_size :: "36 word"
  mem_phys_addr :: "36 word"
  mem_used_size :: "36 word"

record task_cap =
  tc_killable :: bool
  tc_switchable :: bool
  tc_suspendable :: bool
  tc_resumable :: bool
  tc_register_gettable :: bool
  tc_register_settable :: bool
  tc_kill_notifiable :: bool
  tc_task :: addr

record endpoint_cap =
  ec_sendable :: bool
  ec_receivable :: bool
  ec_endpoint :: addr

record page_table_cap =
  pt_mapped :: bool
  pt_level :: "2 word"
  pt_virt_addr_base :: "38 word"
  pt_table :: addr
  pt_parent_table :: addr

record virt_page_cap =
  vp_mapped :: bool
  vp_device :: bool
  vp_readable :: bool
  vp_writable :: bool
  vp_executable :: bool
  vp_level :: "2 word"
  vp_index :: "9 word"
  vp_phys_addr :: "36 word"
  vp_address :: addr
  vp_parent_table :: addr

record cap_space_cap =
  cs_used :: bool
  cs_space :: addr

record id_cap =
  id_val1 :: "59 word"
  id_val2 :: u64
  id_val3 :: u64

datatype capability_t =
    NullCap
  | MemoryCap memory_cap
  | TaskCap task_cap
  | EndpointCap endpoint_cap
  | PageTableCap page_table_cap
  | VirtPageCap virt_page_cap
  | CapSpaceCap cap_space_cap
  | IdCap id_cap
  | ZombieCap

fun get_cap_type :: "capability_t \<Rightarrow> cap_type_t" where
  "get_cap_type NullCap = CAP_NULL"
| "get_cap_type (MemoryCap _) = CAP_MEM"
| "get_cap_type (TaskCap _) = CAP_TASK"
| "get_cap_type (EndpointCap _) = CAP_ENDPOINT"
| "get_cap_type (PageTableCap _) = CAP_PAGE_TABLE"
| "get_cap_type (VirtPageCap _) = CAP_VIRT_PAGE"
| "get_cap_type (CapSpaceCap _) = CAP_CAP_SPACE"
| "get_cap_type (IdCap _) = CAP_ID"
| "get_cap_type ZombieCap = CAP_ZOMBIE"

fun get_cap_size :: "cap_type_t \<Rightarrow> u64" where
  "get_cap_size CAP_NULL = 0"
| "get_cap_size CAP_MEM = 0"
| "get_cap_size CAP_TASK = PAGE_SIZE"
| "get_cap_size CAP_ENDPOINT = 64"
| "get_cap_size CAP_PAGE_TABLE = PAGE_SIZE"
| "get_cap_size CAP_VIRT_PAGE = PAGE_SIZE"
| "get_cap_size CAP_CAP_SPACE = PAGE_SIZE"
| "get_cap_size CAP_ID = 0"
| "get_cap_size CAP_ZOMBIE = 0"
| "get_cap_size CAP_UNKNOWN = - 1"

fun get_cap_align :: "cap_type_t \<Rightarrow> u64" where
  "get_cap_align CAP_NULL = 0"
| "get_cap_align CAP_MEM = 1"
| "get_cap_align CAP_TASK = PAGE_SIZE"
| "get_cap_align CAP_ENDPOINT = 8"
| "get_cap_align CAP_PAGE_TABLE = PAGE_SIZE"
| "get_cap_align CAP_VIRT_PAGE = PAGE_SIZE"
| "get_cap_align CAP_CAP_SPACE = PAGE_SIZE"
| "get_cap_align CAP_ID = 0"
| "get_cap_align CAP_ZOMBIE = 0"
| "get_cap_align CAP_UNKNOWN = - 1"

subsection \<open>Constructors\<close>

definition make_null_cap :: capability_t where "make_null_cap = NullCap"

definition make_memory_cap :: "bool \<Rightarrow> u64 \<Rightarrow> addr \<Rightarrow> capability_t option" where
  "make_memory_cap device sz base_addr = do {
     cassert (base_addr < CONFIG_MAX_PHYSICAL_ADDRESS);
     cassert (sz < CONFIG_MAX_PHYSICAL_ADDRESS);
     Some (MemoryCap \<lparr>mem_device = device, mem_size = ucast sz,
       mem_phys_addr = ucast base_addr, mem_used_size = 0\<rparr>)
   }"

definition TASK_CAP_KILLABLE :: "32 word" where "TASK_CAP_KILLABLE = push_bit 0 1"
definition TASK_CAP_SWITCHABLE :: "32 word" where "TASK_CAP_SWITCHABLE = push_bit 1 1"
definition TASK_CAP_SUSPENDABLE :: "32 word" where "TASK_CAP_SUSPENDABLE = push_bit 2 1"
definition TASK_CAP_RESUMABLE :: "32 word" where "TASK_CAP_RESUMABLE = push_bit 3 1"
definition TASK_CAP_REGISTER_GETTABLE :: "32 word" where "TASK_CAP_REGISTER_GETTABLE = push_bit 4 1"
definition TASK_CAP_REGISTER_SETTABLE :: "32 word" where "TASK_CAP_REGISTER_SETTABLE = push_bit 5 1"
definition TASK_CAP_KILL_NOTIFIABLE :: "32 word" where "TASK_CAP_KILL_NOTIFIABLE = push_bit 6 1"

lemmas task_cap_flag_defs =
  TASK_CAP_KILLABLE_def TASK_CAP_SWITCHABLE_def TASK_CAP_SUSPENDABLE_def TASK_CAP_RESUMABLE_def
  TASK_CAP_REGISTER_GETTABLE_def TASK_CAP_REGISTER_SETTABLE_def TASK_CAP_KILL_NOTIFIABLE_def

definition make_task_cap :: "32 word \<Rightarrow> addr \<Rightarrow> capability_t option" where
  "make_task_cap flags task = do {
     cassert (task \<noteq> 0);
     Some (TaskCap \<lparr>
       tc_killable = (flags AND TASK_CAP_KILLABLE \<noteq> 0),
       tc_switchable = (flags AND TASK_CAP_SWITCHABLE \<noteq> 0),
       tc_suspendable = (flags AND TASK_CAP_SUSPENDABLE \<noteq> 0),
       tc_resumable = (flags AND TASK_CAP_RESUMABLE \<noteq> 0),
       tc_register_gettable = (flags AND TASK_CAP_REGISTER_GETTABLE \<noteq> 0),
       tc_register_settable = (flags AND TASK_CAP_REGISTER_SETTABLE \<noteq> 0),
       tc_kill_notifiable = (flags AND TASK_CAP_KILL_NOTIFIABLE \<noteq> 0),
       tc_task = task\<rparr>)
   }"

definition make_endpoint_cap :: "addr \<Rightarrow> capability_t option" where
  "make_endpoint_cap endpoint = do {
     cassert (endpoint \<noteq> 0);
     Some (EndpointCap \<lparr>ec_sendable = True, ec_receivable = True, ec_endpoint = endpoint\<rparr>)
   }"

definition make_page_table_cap :: "addr \<Rightarrow> bool \<Rightarrow> nat \<Rightarrow> addr \<Rightarrow> addr \<Rightarrow> capability_t option" where
  "make_page_table_cap page_table mapped level virt_addr_base parent_table = do {
     cassert (page_table \<noteq> 0);
     cassert (\<not> mapped \<or> virt_addr_base mod get_page_size (level + 1) = 0);
     cassert (\<not> mapped \<or> level = MAX_PAGE_TABLE_LEVEL \<or> parent_table \<noteq> 0);
     Some (PageTableCap \<lparr>pt_mapped = mapped, pt_level = of_nat level,
       pt_virt_addr_base = ucast virt_addr_base, pt_table = page_table,
       pt_parent_table = parent_table\<rparr>)
   }"

definition make_virt_page_cap ::
  "bool \<Rightarrow> bool \<Rightarrow> bool \<Rightarrow> bool \<Rightarrow> bool \<Rightarrow> nat \<Rightarrow> addr \<Rightarrow> addr \<Rightarrow> addr \<Rightarrow> capability_t option" where
  "make_virt_page_cap device readable writable executable mapped level phys_addr virt_addr parent_table = do {
     cassert (phys_addr < CONFIG_MAX_PHYSICAL_ADDRESS);
     cassert (level \<le> MAX_PAGE_TABLE_LEVEL);
     Some (VirtPageCap \<lparr>vp_mapped = mapped, vp_device = device, vp_readable = readable,
       vp_writable = writable, vp_executable = executable, vp_level = of_nat level,
       vp_index = ucast (get_page_table_index virt_addr level), vp_phys_addr = ucast phys_addr,
       vp_address = virt_addr, vp_parent_table = parent_table\<rparr>)
   }"

definition make_cap_space_cap :: "addr \<Rightarrow> bool \<Rightarrow> capability_t option" where
  "make_cap_space_cap cap_space used = do {
     cassert (cap_space \<noteq> 0);
     Some (CapSpaceCap \<lparr>cs_used = used, cs_space = cap_space\<rparr>)
   }"

definition make_id_cap :: "u64 \<Rightarrow> u64 \<Rightarrow> u64 \<Rightarrow> capability_t option" where
  "make_id_cap val1 val2 val3 = do {
     cassert (val1 < 2 ^ 59);
     Some (IdCap \<lparr>id_val1 = ucast val1, id_val2 = val2, id_val3 = val3\<rparr>)
   }"

definition make_zombie_cap :: capability_t where "make_zombie_cap = ZombieCap"

lemmas make_cap_defs =
  make_null_cap_def make_memory_cap_def make_task_cap_def make_endpoint_cap_def
  make_page_table_cap_def make_virt_page_cap_def make_cap_space_cap_def make_id_cap_def
  make_zombie_cap_def

lemma get_cap_type_iff [simp]:
  "get_cap_type c = CAP_NULL \<longleftrightarrow> c = NullCap"
  "get_cap_type c = CAP_ZOMBIE \<longleftrightarrow> c = ZombieCap"
  "get_cap_type c = CAP_MEM \<longleftrightarrow> (\<exists>m. c = MemoryCap m)"
  "get_cap_type c = CAP_TASK \<longleftrightarrow> (\<exists>t. c = TaskCap t)"
  "get_cap_type c = CAP_ENDPOINT \<longleftrightarrow> (\<exists>e. c = EndpointCap e)"
  "get_cap_type c = CAP_PAGE_TABLE \<longleftrightarrow> (\<exists>p. c = PageTableCap p)"
  "get_cap_type c = CAP_VIRT_PAGE \<longleftrightarrow> (\<exists>v. c = VirtPageCap v)"
  "get_cap_type c = CAP_CAP_SPACE \<longleftrightarrow> (\<exists>p. c = CapSpaceCap p)"
  "get_cap_type c = CAP_ID \<longleftrightarrow> (\<exists>i. c = IdCap i)"
  "get_cap_type c \<noteq> CAP_UNKNOWN"
  by (cases c; simp)+

lemma unat_ucast_36 [simp]: "unat (ucast (w :: 36 word) :: u64) = unat w"
  by (simp add: unsigned_ucast_eq take_bit_nat_eq_self unsigned_less [THEN less_trans])

lemma unat_ucast_64_36: "unat (w :: u64) < 2 ^ 36 \<Longrightarrow> unat (ucast w :: 36 word) = unat w"
  by (simp add: unsigned_ucast_eq take_bit_nat_eq_self)

lemma ucast_64_36_64: "unat (w :: u64) < 2 ^ 36 \<Longrightarrow> ucast (ucast w :: 36 word) = w"
proof (rule word_unat_eq_iff [THEN iffD2])
  assume "unat w < 2 ^ 36"
  then show "unat (ucast (ucast w :: 36 word) :: u64) = unat w"
    by (metis unat_ucast_36 unat_ucast_64_36)
qed

end
