(* ===== verification/Lock.thy ===== *)
theory Lock
  imports Prelude
begin

text \<open>
  The locks of \<^verbatim>\<open>src/kernel/lock.cpp\<close>. The first part is the view of one core: a lock
  operation as a function on the lock's fields, where spinning forever is \<open>None\<close>. The
  second part is the view of several cores: each atomic access of \<^verbatim>\<open>lock\<close>, \<^verbatim>\<open>try_lock\<close> and
  \<^verbatim>\<open>unlock\<close> is a step of one core, any core may move next, and the lock guarantees mutual exclusion
  between tasks with different, non-zero thread ids. The idle tasks all have thread id 0
  (\<^verbatim>\<open>init_idle_task\<close> never assigns one), the value that marks a free lock; the last
  property shows that the lock does not exclude anybody then.
\<close>

type_synonym tid_t = "32 word"

record spinlock_t =
  sl_state :: bool

record recursive_spinlock_t =
  rl_state :: bool
  rl_owner :: tid_t
  rl_count :: "32 word"

definition free_lock :: recursive_spinlock_t where
  "free_lock = \<lparr>rl_state = False, rl_owner = 0, rl_count = 0\<rparr>"

subsection \<open>One core\<close>

definition spinlock_lock :: "spinlock_t \<Rightarrow> spinlock_t option" where
  "spinlock_lock l = (if sl_state l then None else Some (l\<lparr>sl_state := True\<rparr>))"

definition spinlock_unlock :: "spinlock_t \<Rightarrow> spinlock_t" where
  "spinlock_unlock l = l\<lparr>sl_state := False\<rparr>"

definition spinlock_try_lock :: "spinlock_t \<Rightarrow> bool \<times> spinlock_t" where
  "spinlock_try_lock l = (\<not> sl_state l, l\<lparr>sl_state := True\<rparr>)"

definition rlock :: "tid_t \<Rightarrow> recursive_spinlock_t \<Rightarrow> recursive_spinlock_t option" where
  "rlock current_tid l =
     (if rl_owner l = current_tid then Some (l\<lparr>rl_count := rl_count l + 1\<rparr>)
      else if rl_state l then None
      else if rl_owner l = 0 then
        Some (l\<lparr>rl_state := True, rl_owner := current_tid, rl_count := 1\<rparr>)
      else None)"

definition runlock :: "tid_t \<Rightarrow> recursive_spinlock_t \<Rightarrow> recursive_spinlock_t option" where
  "runlock current_tid l =
     (if rl_owner l \<noteq> current_tid then None
      else let l = l\<lparr>rl_count := rl_count l - 1\<rparr> in
        if rl_count l = 0 then Some (l\<lparr>rl_owner := 0, rl_state := False\<rparr>) else Some l)"

definition rtry_lock :: "tid_t \<Rightarrow> recursive_spinlock_t \<Rightarrow> bool \<times> recursive_spinlock_t" where
  "rtry_lock current_tid l =
     (if rl_owner l = current_tid then (True, l\<lparr>rl_count := rl_count l + 1\<rparr>)
      else if rl_state l then (False, l)
      else let l = l\<lparr>rl_state := True\<rparr> in
        if rl_owner l = 0 then (True, l\<lparr>rl_owner := current_tid, rl_count := 1\<rparr>)
        else (True, l))"

text \<open>The states a lock takes between operations: free, or held with a positive count.\<close>

definition lock_wf :: "recursive_spinlock_t \<Rightarrow> bool" where
  "lock_wf l \<longleftrightarrow> (if rl_owner l = 0 then l = free_lock else rl_state l \<and> rl_count l \<noteq> 0)"

lemma lock_wf_free [simp]: "lock_wf free_lock"
  by (simp add: lock_wf_def free_lock_def)

lemma lock_wf_owner_0: "lock_wf l \<Longrightarrow> rl_owner l = 0 \<longleftrightarrow> l = free_lock"
  by (auto simp: lock_wf_def free_lock_def split: if_splits)

text \<open>
  A scope guarded by the lock that does not switch tasks gives the lock back as it found it,
  so such a scope is no more than the test that the lock can be taken.
\<close>

lemma rlock_runlock:
  assumes "lock_wf l" "tid \<noteq> 0" "rlock tid l = Some l'"
  shows "runlock tid l' = Some l"
  using assms
  by (auto simp: rlock_def runlock_def lock_wf_def free_lock_def split: if_splits)

lemma rlock_free [simp]: "tid \<noteq> 0 \<Longrightarrow> rlock tid free_lock \<noteq> None"
  by (simp add: rlock_def free_lock_def)

lemma rlock_blocked:
  assumes "lock_wf l"
  shows "rlock tid l = None \<longleftrightarrow> rl_owner l \<noteq> 0 \<and> rl_owner l \<noteq> tid"
  using assms by (auto simp: rlock_def lock_wf_def free_lock_def)

text \<open>
  One core's view of the recursive lock. On a lock in a proper state, \<open>rlock\<close> by a task
  with a non-zero id either spins forever, exactly when another task owns the lock, or takes
  it, and then \<open>runlock\<close> by the same task succeeds and restores the lock.
\<close>

theorem rlock_runlock_scope:
  assumes "lock_wf l" "tid \<noteq> 0"
  shows "(rlock tid l = None) = (rl_owner l \<noteq> 0 \<and> rl_owner l \<noteq> tid) \<and>
    (rlock tid l \<noteq> None \<longrightarrow> Option.bind (rlock tid l) (runlock tid) = Some l)"
  using assms rlock_runlock rlock_blocked by (fastforce simp: bind_eq_Some_conv)

theorem rlock_runlock_scope_witness:
  "lock_wf \<lparr>rl_state = True, rl_owner = 7, rl_count = 2\<rparr> \<and>
   Option.bind (rlock 7 \<lparr>rl_state = True, rl_owner = 7, rl_count = 2\<rparr>) (runlock 7) =
     Some \<lparr>rl_state = True, rl_owner = 7, rl_count = 2\<rparr>"
proof -
  let ?l = "\<lparr>rl_state = True, rl_owner = 7, rl_count = 2\<rparr>"
  have h: "lock_wf ?l" "(7::tid_t) \<noteq> 0" "rlock 7 ?l \<noteq> None"
    by (simp_all add: lock_wf_def rlock_def)
  from rlock_runlock_scope [OF h(1,2)] h(1,3) show ?thesis by blast
qed

subsection \<open>Several cores\<close>

text \<open>
  \<open>cpc\<close> says how far a core is in the lock operations: outside; about to set the flag;
  holding the flag and about to read the owner; about to store the owner; about to store the
  count; inside the critical section; in \<^verbatim>\<open>unlock\<close>, about to clear the owner; about to clear
  the flag; in \<^verbatim>\<open>try_lock\<close>, about to set the flag once; holding the flag and about to read the
  owner. The last stores of \<^verbatim>\<open>lock\<close> and \<^verbatim>\<open>try_lock\<close> are the same. A core inside may take and
  release the lock again. \<^verbatim>\<open>try_lock\<close> returns true also when it finds an owner after it set the
  flag (\<open>try_busy\<close>), and then the core is inside without owning the lock.
\<close>

datatype lock_pc = Out | Spin | Chk_Owner | Set_Owner | Set_Count | In | Clr_Owner | Clr_State | Try | Try_Owner

record 'c lock_sys =
  the_lock :: recursive_spinlock_t
  cpc :: "'c \<Rightarrow> lock_pc"

definition init_lock_sys :: "'c lock_sys" where
  "init_lock_sys = \<lparr>the_lock = free_lock, cpc = (\<lambda>_. Out)\<rparr>"

text \<open>
  The cores are the elements of a type \<open>'c\<close>, so that the results hold for any number of them;
  they run tasks whose thread ids are given by \<open>tid\<close>.
\<close>

inductive lock_step :: "('c \<Rightarrow> tid_t) \<Rightarrow> 'c lock_sys \<Rightarrow> 'c lock_sys \<Rightarrow> bool" for tid where
  lock_owned: "cpc s i \<in> {Out, In} \<Longrightarrow> rl_owner (the_lock s) = tid i \<Longrightarrow>
    lock_step tid s (s\<lparr>the_lock := (the_lock s)\<lparr>rl_count := rl_count (the_lock s) + 1\<rparr>,
      cpc := (cpc s)(i := In)\<rparr>)"
| lock_enter: "cpc s i = Out \<Longrightarrow> rl_owner (the_lock s) \<noteq> tid i \<Longrightarrow>
    lock_step tid s (s\<lparr>cpc := (cpc s)(i := Spin)\<rparr>)"
| tas_success: "cpc s i = Spin \<Longrightarrow> \<not> rl_state (the_lock s) \<Longrightarrow>
    lock_step tid s (s\<lparr>the_lock := (the_lock s)\<lparr>rl_state := True\<rparr>, cpc := (cpc s)(i := Chk_Owner)\<rparr>)"
| tas_fail: "cpc s i = Spin \<Longrightarrow> rl_state (the_lock s) \<Longrightarrow> lock_step tid s s"
| chk_free: "cpc s i = Chk_Owner \<Longrightarrow> rl_owner (the_lock s) = 0 \<Longrightarrow>
    lock_step tid s (s\<lparr>cpc := (cpc s)(i := Set_Owner)\<rparr>)"
| chk_again: "cpc s i = Chk_Owner \<Longrightarrow> rl_owner (the_lock s) \<noteq> 0 \<Longrightarrow>
    lock_step tid s (s\<lparr>cpc := (cpc s)(i := Spin)\<rparr>)"
| set_owner: "cpc s i = Set_Owner \<Longrightarrow>
    lock_step tid s (s\<lparr>the_lock := (the_lock s)\<lparr>rl_owner := tid i\<rparr>, cpc := (cpc s)(i := Set_Count)\<rparr>)"
| set_count: "cpc s i = Set_Count \<Longrightarrow>
    lock_step tid s (s\<lparr>the_lock := (the_lock s)\<lparr>rl_count := 1\<rparr>, cpc := (cpc s)(i := In)\<rparr>)"
| unlock_more: "cpc s i = In \<Longrightarrow> rl_owner (the_lock s) = tid i \<Longrightarrow> rl_count (the_lock s) - 1 \<noteq> 0 \<Longrightarrow>
    lock_step tid s (s\<lparr>the_lock := (the_lock s)\<lparr>rl_count := rl_count (the_lock s) - 1\<rparr>\<rparr>)"
| unlock_last: "cpc s i = In \<Longrightarrow> rl_owner (the_lock s) = tid i \<Longrightarrow> rl_count (the_lock s) - 1 = 0 \<Longrightarrow>
    lock_step tid s (s\<lparr>the_lock := (the_lock s)\<lparr>rl_count := 0\<rparr>, cpc := (cpc s)(i := Clr_Owner)\<rparr>)"
| clr_owner: "cpc s i = Clr_Owner \<Longrightarrow>
    lock_step tid s (s\<lparr>the_lock := (the_lock s)\<lparr>rl_owner := 0\<rparr>, cpc := (cpc s)(i := Clr_State)\<rparr>)"
| clr_state: "cpc s i = Clr_State \<Longrightarrow>
    lock_step tid s (s\<lparr>the_lock := (the_lock s)\<lparr>rl_state := False\<rparr>, cpc := (cpc s)(i := Out)\<rparr>)"
| try_owned: "cpc s i \<in> {Out, In} \<Longrightarrow> rl_owner (the_lock s) = tid i \<Longrightarrow>
    lock_step tid s (s\<lparr>the_lock := (the_lock s)\<lparr>rl_count := rl_count (the_lock s) + 1\<rparr>,
      cpc := (cpc s)(i := In)\<rparr>)"
| try_enter: "cpc s i = Out \<Longrightarrow> rl_owner (the_lock s) \<noteq> tid i \<Longrightarrow>
    lock_step tid s (s\<lparr>cpc := (cpc s)(i := Try)\<rparr>)"
| try_fail: "cpc s i = Try \<Longrightarrow> rl_state (the_lock s) \<Longrightarrow>
    lock_step tid s (s\<lparr>cpc := (cpc s)(i := Out)\<rparr>)"
| try_success: "cpc s i = Try \<Longrightarrow> \<not> rl_state (the_lock s) \<Longrightarrow>
    lock_step tid s (s\<lparr>the_lock := (the_lock s)\<lparr>rl_state := True\<rparr>, cpc := (cpc s)(i := Try_Owner)\<rparr>)"
| try_free: "cpc s i = Try_Owner \<Longrightarrow> rl_owner (the_lock s) = 0 \<Longrightarrow>
    lock_step tid s (s\<lparr>cpc := (cpc s)(i := Set_Owner)\<rparr>)"
| try_busy: "cpc s i = Try_Owner \<Longrightarrow> rl_owner (the_lock s) \<noteq> 0 \<Longrightarrow>
    lock_step tid s (s\<lparr>cpc := (cpc s)(i := In)\<rparr>)"

inductive lock_reachable :: "('c \<Rightarrow> tid_t) \<Rightarrow> 'c lock_sys \<Rightarrow> bool" for tid where
  lock_start: "lock_reachable tid init_lock_sys"
| lock_next: "lock_reachable tid s \<Longrightarrow> lock_step tid s t \<Longrightarrow> lock_reachable tid t"

text \<open>
  The invariant: the flag is up exactly when some core is past its test-and-set; that core is
  the only one; and the owner field names it from \<open>Set_Count\<close> to \<open>Clr_Owner\<close>, and is 0
  otherwise.
\<close>

definition holding :: "lock_pc set" where
  "holding = {Chk_Owner, Set_Owner, Set_Count, In, Clr_Owner, Clr_State, Try_Owner}"

definition owning :: "lock_pc set" where
  "owning = {Set_Count, In, Clr_Owner}"

definition lock_inv :: "('c \<Rightarrow> tid_t) \<Rightarrow> 'c lock_sys \<Rightarrow> bool" where
  "lock_inv tid s \<longleftrightarrow>
     (\<forall>i j. cpc s i \<in> holding \<and> cpc s j \<in> holding \<longrightarrow> i = j) \<and>
     (\<forall>i. cpc s i \<in> holding \<longrightarrow> rl_state (the_lock s)) \<and>
     (\<forall>i. cpc s i \<in> owning \<longrightarrow> rl_owner (the_lock s) = tid i) \<and>
     (rl_owner (the_lock s) \<noteq> 0 \<longrightarrow> (\<exists>i. cpc s i \<in> owning \<and> rl_owner (the_lock s) = tid i))"

lemma owning_holding: "p \<in> owning \<Longrightarrow> p \<in> holding"
  by (auto simp: owning_def holding_def)

lemma lock_inv_init: "lock_inv tid init_lock_sys"
  by (simp add: lock_inv_def init_lock_sys_def holding_def owning_def free_lock_def)

lemma lock_invD:
  assumes "lock_inv tid s"
  shows "cpc s i \<in> holding \<Longrightarrow> cpc s j \<in> holding \<Longrightarrow> i = j"
    and "cpc s i \<in> holding \<Longrightarrow> rl_state (the_lock s)"
    and "cpc s i \<in> owning \<Longrightarrow> rl_owner (the_lock s) = tid i"
    and "rl_owner (the_lock s) \<noteq> 0 \<Longrightarrow> \<exists>i. cpc s i \<in> owning \<and> rl_owner (the_lock s) = tid i"
  using assms unfolding lock_inv_def by blast+

lemma holding_simps [simp]:
  "Out \<notin> holding" "Spin \<notin> holding" "Chk_Owner \<in> holding" "Set_Owner \<in> holding" "Set_Count \<in> holding"
  "In \<in> holding" "Clr_Owner \<in> holding" "Clr_State \<in> holding" "Try \<notin> holding" "Try_Owner \<in> holding"
  "Out \<notin> owning" "Spin \<notin> owning" "Chk_Owner \<notin> owning" "Set_Owner \<notin> owning" "Set_Count \<in> owning"
  "In \<in> owning" "Clr_Owner \<in> owning" "Clr_State \<notin> owning" "Try \<notin> owning" "Try_Owner \<notin> owning"
  by (simp_all add: holding_def owning_def)

text \<open>A step of a core that holds the flag leaves every other core outside.\<close>

lemma lock_inv_update:
  assumes "lock_inv tid s" "cpc s i \<in> holding \<or> (\<forall>j. cpc s j \<notin> holding)"
    and "p \<in> holding \<Longrightarrow> rl_state l"
    and "p \<in> owning \<Longrightarrow> rl_owner l = tid i"
    and "rl_owner l \<noteq> 0 \<Longrightarrow> p \<in> owning"
  shows "lock_inv tid (s\<lparr>the_lock := l, cpc := (cpc s)(i := p)\<rparr>)"
proof -
  have "cpc s j \<notin> holding" if "j \<noteq> i" for j
    using assms(2) that lock_invD(1) [OF assms(1), of i j] by blast
  moreover from this have "cpc s j \<notin> owning" if "j \<noteq> i" for j
    using that owning_holding by blast
  ultimately show ?thesis
    using assms(3-5) by (auto simp: lock_inv_def split: if_splits)
qed

lemma not_held_free:
  assumes "lock_inv tid s" "\<not> rl_state (the_lock s)"
  shows "cpc s j \<notin> holding" "rl_owner (the_lock s) = 0"
  using assms(2) lock_invD(2,4) [OF assms(1)] owning_holding by blast+

lemma lock_inv_spin:
  assumes "lock_inv tid s" "cpc s i \<notin> holding" "p \<notin> holding"
  shows "lock_inv tid (s\<lparr>cpc := (cpc s)(i := p)\<rparr>)"
proof -
  have "cpc s i \<notin> owning" "p \<notin> owning" using assms(2,3) owning_holding by blast+
  then have "((cpc s)(i := p)) j \<in> holding \<longleftrightarrow> cpc s j \<in> holding"
    "((cpc s)(i := p)) j \<in> owning \<longleftrightarrow> cpc s j \<in> owning" for j
    using assms(2,3) by auto
  with assms(1) show ?thesis unfolding lock_inv_def by simp
qed

lemma lock_inv_owned:
  assumes "lock_inv tid s" "inj tid" "\<And>i. tid i \<noteq> 0" "cpc s i \<in> {Out, In}" "rl_owner (the_lock s) = tid i"
  shows "lock_inv tid (s\<lparr>the_lock := (the_lock s)\<lparr>rl_count := n\<rparr>, cpc := (cpc s)(i := In)\<rparr>)"
proof -
  obtain j where "cpc s j \<in> owning" "tid j = tid i" using assms(1,3,5) unfolding lock_inv_def by metis
  with assms(2) have "cpc s i \<in> owning" by (simp add: inj_eq)
  with assms(4) have "cpc s i = In" by (auto simp: owning_def)
  then have "(cpc s)(i := In) = cpc s" by auto
  with assms(1) show ?thesis by (simp add: lock_inv_def)
qed

text \<open>A core that holds the flag and is not recorded as the owner finds no owner.\<close>

lemma lock_inv_no_owner:
  assumes "lock_inv tid s" "cpc s i \<in> holding" "cpc s i \<notin> owning"
  shows "rl_owner (the_lock s) = 0"
  using lock_invD(1,4) [OF assms(1)] assms(2,3) owning_holding by metis

lemma lock_step_inv:
  assumes "lock_step tid s t" "lock_inv tid s" "inj tid" "\<And>i. tid i \<noteq> 0"
  shows "lock_inv tid t"
  using assms
proof (induction rule: lock_step.induct)
  case (lock_owned s i)
  then show ?case by (intro lock_inv_owned) auto
next
  case (lock_enter s i)
  then show ?case using lock_inv_spin [of tid s i Spin] by simp
next
  case (tas_success s i)
  then show ?case using not_held_free [of tid s] by (intro lock_inv_update) auto
next
  case (chk_free s i)
  then show ?case
    using lock_inv_update [of tid s i Set_Owner "the_lock s"] lock_invD(2) [of tid s i] by simp
next
  case (chk_again s i)
  then show ?case using lock_inv_no_owner [of tid s i] by simp
next
  case (set_owner s i)
  then show ?case using lock_invD(2) [of tid s i] by (intro lock_inv_update) auto
next
  case (set_count s i)
  then show ?case using lock_invD(2,3) [of tid s i] by (intro lock_inv_update) auto
next
  case (unlock_more s i)
  then show ?case by (simp add: lock_inv_def)
next
  case (unlock_last s i)
  then show ?case using lock_invD(2) [of tid s i] by (intro lock_inv_update) auto
next
  case (clr_owner s i)
  then show ?case using lock_invD(2) [of tid s i] by (intro lock_inv_update) auto
next
  case (clr_state s i)
  then show ?case using lock_inv_no_owner [of tid s i] by (intro lock_inv_update) auto
next
  case (try_owned s i)
  then show ?case by (intro lock_inv_owned) auto
next
  case (try_enter s i)
  then show ?case using lock_inv_spin [of tid s i Try] by simp
next
  case (try_fail s i)
  then show ?case using lock_inv_spin [of tid s i Out] by simp
next
  case (try_success s i)
  then show ?case using not_held_free [of tid s] by (intro lock_inv_update) auto
next
  case (try_free s i)
  then show ?case
    using lock_inv_update [of tid s i Set_Owner "the_lock s"] lock_invD(2) [of tid s i] by simp
next
  case (try_busy s i)
  then show ?case using lock_inv_no_owner [of tid s i] by simp
qed

lemma lock_reachable_inv:
  assumes "lock_reachable tid s" "inj tid" "\<And>i. tid i \<noteq> 0"
  shows "lock_inv tid s"
  using assms by (induction rule: lock_reachable.induct) (auto intro: lock_inv_init lock_step_inv)

text \<open>
  C25: mutual exclusion. When the cores run tasks with pairwise different non-zero thread ids, no interleaving
  of the atomic steps of \<^verbatim>\<open>lock\<close>, \<^verbatim>\<open>try_lock\<close> and \<^verbatim>\<open>unlock\<close> leads to a state of the lock
  with two cores inside the critical section, and while a core is inside the flag is up and the owner field
  names its task.
\<close>

theorem lock_mutual_exclusion:
  assumes "lock_reachable tid s" "inj tid" "\<forall>i. tid i \<noteq> 0" "cpc s i = In"
  shows "(cpc s j = In \<longrightarrow> i = j) \<and> rl_state (the_lock s) \<and> rl_owner (the_lock s) = tid i"
proof -
  have inv: "lock_inv tid s" using lock_reachable_inv assms(1-3) by blast
  from assms(4) have "cpc s i \<in> holding" "cpc s i \<in> owning" by simp_all
  with lock_invD [OF inv] show ?thesis by (metis holding_simps(6))
qed

text \<open>One core takes the lock, the other tries it in vain.\<close>

lemma lock_two_cores:
  fixes tid :: "bool \<Rightarrow> tid_t"
  assumes "tid True \<noteq> 0" "tid False \<noteq> 0" "tid True \<noteq> tid False"
  shows "\<exists>s t. lock_reachable tid s \<and> cpc s True = In \<and> cpc s False = Try \<and> lock_step tid s t \<and> cpc t True = In \<and> cpc t False = Out"
proof -
  note a1 = lock_next [OF lock_start lock_enter [where i = True and tid = tid], unfolded init_lock_sys_def free_lock_def, simplified]
  note a2 = lock_next [OF a1 try_enter [where i = False], simplified]
  note a3 = lock_next [OF a2 tas_success [where i = True], simplified]
  note a4 = lock_next [OF a3 chk_free [where i = True], simplified]
  note a5 = lock_next [OF a4 set_owner [where i = True], simplified]
  note a6 = lock_next [OF a5 set_count [where i = True], simplified]
  let ?s = "\<lparr>the_lock = \<lparr>rl_state = True, rl_owner = tid True, rl_count = 1\<rparr>, cpc = (\<lambda>_. Out)(False := Try, True := In)\<rparr>"
  have "lock_step tid ?s (?s\<lparr>cpc := (cpc ?s)(False := Out)\<rparr>)" by (rule try_fail) simp_all
  moreover have "lock_reachable tid ?s" using a6 assms by simp
  ultimately show ?thesis by (intro exI [of _ ?s] exI [of _ "?s\<lparr>cpc := (cpc ?s)(False := Out)\<rparr>"]) simp
qed

theorem lock_mutual_exclusion_witness:
  "\<exists>s t. lock_reachable (\<lambda>b. if b then 1 else 2) s \<and> cpc s True = In \<and> cpc s False = Try \<and>
     lock_step (\<lambda>b. if b then 1 else 2) s t \<and> cpc t True = In \<and> cpc t False \<noteq> In \<and> rl_owner (the_lock t) = 1"
proof -
  let ?tid = "\<lambda>b. if b then 1 else 2 :: tid_t"
  have h: "inj ?tid" "\<forall>i. ?tid i \<noteq> 0" by (auto simp: inj_def)
  obtain s t where s: "lock_reachable ?tid s" "cpc s True = In" "cpc s False = Try" "lock_step ?tid s t" "cpc t True = In"
    using lock_two_cores [of ?tid] by auto
  from lock_mutual_exclusion [OF lock_next [OF s(1,4)] h s(5), of False] s show ?thesis by (intro exI [of _ s] exI [of _ t]) auto
qed

text \<open>
  The idle tasks defeat the lock. Two cores that both run a task with thread id 0, as
  the idle tasks have, can be inside the critical section at once: the owner field of a free
  lock already equals their id, so \<^verbatim>\<open>lock\<close> only counts up.
\<close>

theorem idle_tasks_not_excluded:
  "\<exists>s :: bool lock_sys. lock_reachable (\<lambda>_. 0) s \<and> cpc s True = In \<and> cpc s False = In"
proof -
  note a1 = lock_next [OF lock_start lock_owned [where i = True and tid = "\<lambda>_ :: bool. 0"],
      unfolded init_lock_sys_def free_lock_def, simplified]
  note a2 = lock_next [OF a1 lock_owned [where i = False], simplified]
  show ?thesis using a2 by (intro exI conjI) auto
qed

end
