(* ===== verification/DList.thy ===== *)
theory DList
  imports Prelude
begin

text \<open>
  Doubly linked lists over raw link functions, the shape shared by the capability slots
  (\<^verbatim>\<open>cap_slot_t::prev/next\<close>), the ready queue (\<^verbatim>\<open>prev_ready_task/next_ready_task\<close>) and
  the waiting queues of an endpoint. \<open>dlseg nx pv p xs q\<close>: the nodes \<open>xs\<close> are linked in
  this order, the first one points back to \<open>p\<close> and the last one forward to \<open>q\<close>.
  A whole list, a chain, starts and ends at the null pointer.
\<close>

primrec dlseg :: "(addr \<Rightarrow> addr) \<Rightarrow> (addr \<Rightarrow> addr) \<Rightarrow> addr \<Rightarrow> addr list \<Rightarrow> addr \<Rightarrow> bool" where
  "dlseg nx pv p [] q \<longleftrightarrow> True"
| "dlseg nx pv p (x # xs) q \<longleftrightarrow>
     x \<noteq> 0 \<and> pv x = p \<and> nx x = hd0 xs q \<and> dlseg nx pv x xs q"

definition dchain :: "(addr \<Rightarrow> addr) \<Rightarrow> (addr \<Rightarrow> addr) \<Rightarrow> addr list \<Rightarrow> bool" where
  "dchain nx pv xs \<longleftrightarrow> dlseg nx pv 0 xs 0"

subsection \<open>Segments\<close>

lemma dlseg_append:
  "dlseg nx pv p (xs @ ys) q \<longleftrightarrow> dlseg nx pv p xs (hd0 ys q) \<and> dlseg nx pv (last0 p xs) ys q"
  by (induction xs arbitrary: p) (auto simp: hd0_append)

lemma dlseg_null: "dlseg nx pv p xs q \<Longrightarrow> 0 \<notin> set xs"
  by (induction xs arbitrary: p) auto

lemma dlseg_cong:
  assumes "\<And>x. x \<in> set xs \<Longrightarrow> nx' x = nx x" "\<And>x. x \<in> set xs \<Longrightarrow> pv' x = pv x"
  shows "dlseg nx' pv' p xs q = dlseg nx pv p xs q"
  using assms by (induction xs arbitrary: p) auto

lemma dlseg_upd_nx [simp]: "a \<notin> set xs \<Longrightarrow> dlseg (nx(a := b)) pv p xs q = dlseg nx pv p xs q"
  by (rule dlseg_cong) auto

lemma dlseg_upd_pv [simp]: "a \<notin> set xs \<Longrightarrow> dlseg nx (pv(a := b)) p xs q = dlseg nx pv p xs q"
  by (rule dlseg_cong) auto

lemma dlseg_suffix_unique:
  "dlseg nx pv p (x # xs) 0 \<Longrightarrow> dlseg nx pv p' (x # ys) 0 \<Longrightarrow> xs = ys"
proof (induction xs arbitrary: p p' x ys)
  case Nil
  then show ?case by (cases ys) auto
next
  case (Cons a xs)
  then show ?case by (cases ys) auto
qed

lemma dlseg_prefix_unique:
  "dlseg nx pv 0 (xs @ [x]) q \<Longrightarrow> dlseg nx pv 0 (ys @ [x]) q' \<Longrightarrow> xs = ys"
proof (induction xs arbitrary: x q q' ys rule: rev_induct)
  case Nil
  then show ?case
  proof (cases ys rule: rev_cases)
    case (snoc zs z)
    with Nil show ?thesis by (auto simp: dlseg_append)
  qed simp
next
  case (snoc a xs)
  then have a: "pv x = a" "a \<noteq> 0" by (simp_all add: dlseg_append)
  show ?case
  proof (cases ys rule: rev_cases)
    case Nil
    with snoc.prems a show ?thesis by (simp add: dlseg_append)
  next
    case (snoc zs z)
    with snoc.prems a have "z = a" by (simp add: dlseg_append)
    moreover from snoc.prems have "dlseg nx pv 0 (xs @ [a]) x"
      by (subst (asm) dlseg_append) (simp add: dlseg_append)
    moreover from snoc.prems snoc have "dlseg nx pv 0 (zs @ [z]) x"
      by (simp add: dlseg_append)
    ultimately have "xs = zs" using snoc.IH by blast
    with snoc \<open>z = a\<close> show ?thesis by simp
  qed
qed

lemma dlseg_distinct: "dlseg nx pv p xs 0 \<Longrightarrow> distinct xs"
proof (induction xs arbitrary: p)
  case Nil
  then show ?case by simp
next
  case (Cons x xs)
  have "x \<notin> set xs"
  proof
    assume "x \<in> set xs"
    then obtain us vs where xs: "xs = us @ x # vs" by (meson split_list)
    with Cons.prems have "dlseg nx pv (last0 x us) (x # vs) 0"
      by (auto simp: dlseg_append)
    with Cons.prems have "xs = vs" by (rule dlseg_suffix_unique)
    with xs show False by (simp add: append_eq_conv_conj)
  qed
  with Cons show ?case by auto
qed

subsection \<open>Chains\<close>

lemma dchain_Nil [simp]: "dchain nx pv []"
  by (simp add: dchain_def)

lemma dchain_single [simp]: "dchain nx pv [x] \<longleftrightarrow> x \<noteq> 0 \<and> nx x = 0 \<and> pv x = 0"
  by (auto simp: dchain_def)

lemma dchain_distinct: "dchain nx pv xs \<Longrightarrow> distinct xs"
  unfolding dchain_def by (rule dlseg_distinct)

lemma dchain_null: "dchain nx pv xs \<Longrightarrow> 0 \<notin> set xs"
  unfolding dchain_def by (rule dlseg_null)

lemma dchain_cong:
  assumes "\<And>x. x \<in> set xs \<Longrightarrow> nx' x = nx x" "\<And>x. x \<in> set xs \<Longrightarrow> pv' x = pv x"
  shows "dchain nx' pv' xs = dchain nx pv xs"
  unfolding dchain_def using assms by (rule dlseg_cong)

lemma dchain_upd_nx [simp]: "a \<notin> set xs \<Longrightarrow> dchain (nx(a := b)) pv xs = dchain nx pv xs"
  by (simp add: dchain_def)

lemma dchain_upd_pv [simp]: "a \<notin> set xs \<Longrightarrow> dchain nx (pv(a := b)) xs = dchain nx pv xs"
  by (simp add: dchain_def)

lemma dchain_split:
  "dchain nx pv (xs @ x # ys) \<longleftrightarrow>
     dlseg nx pv 0 xs x \<and> x \<noteq> 0 \<and> pv x = last0 0 xs \<and> nx x = hd0 ys 0 \<and> dlseg nx pv x ys 0"
  by (simp add: dchain_def dlseg_append)

lemma dchain_next: "dchain nx pv (xs @ x # ys) \<Longrightarrow> nx x = hd0 ys 0"
  by (simp add: dchain_split)

lemma dchain_prev: "dchain nx pv (xs @ x # ys) \<Longrightarrow> pv x = last0 0 xs"
  by (simp add: dchain_split)

text \<open>A node determines the chain it is on: two chains are equal or disjoint.\<close>

lemma dchain_unique:
  assumes "dchain nx pv xs" "dchain nx pv ys" "x \<in> set xs" "x \<in> set ys"
  shows "xs = ys"
proof -
  obtain a b where xs: "xs = a @ x # b" using assms(3) by (meson split_list)
  obtain c d where ys: "ys = c @ x # d" using assms(4) by (meson split_list)
  from assms(1) xs have 1: "dlseg nx pv (last0 0 a) (x # b) 0" "dlseg nx pv 0 (a @ [x]) (hd0 b 0)"
    by (auto simp: dchain_def dlseg_append)
  from assms(2) ys have 2: "dlseg nx pv (last0 0 c) (x # d) 0" "dlseg nx pv 0 (c @ [x]) (hd0 d 0)"
    by (auto simp: dchain_def dlseg_append)
  from 1 2 have "b = d" "a = c"
    by (blast dest: dlseg_suffix_unique, blast dest: dlseg_prefix_unique)
  with xs ys show ?thesis by simp
qed

lemma dchain_disjoint:
  "dchain nx pv xs \<Longrightarrow> dchain nx pv ys \<Longrightarrow> xs \<noteq> ys \<Longrightarrow> set xs \<inter> set ys = {}"
  using dchain_unique by blast

subsection \<open>Link updates\<close>

text \<open>
  The pointer assignments of the list operations, as updates of the link functions, and the
  chains they produce. Each lemma has the assignments in the order the kernel makes them.
\<close>

lemma dl_erase:
  assumes c: "dchain nx pv (as @ x # bs)"
    and nx': "nx' = (if pv x \<noteq> 0 then nx(pv x := nx x) else nx)(x := 0)"
    and pv': "pv' = (if nx x \<noteq> 0 then pv(nx x := pv x) else pv)(x := 0)"
  shows "dchain nx' pv' (as @ bs)"
proof -
  have d: "distinct (as @ x # bs)" "0 \<notin> set (as @ x # bs)"
    using c by (auto dest: dchain_distinct dchain_null simp del: distinct_append)
  show ?thesis
  proof (cases as rule: rev_cases)
    case Nil
    with c d show ?thesis unfolding nx' pv'
      by (cases bs) (auto simp: dchain_def dlseg_append)
  next
    case (snoc as' a)
    with c d show ?thesis unfolding nx' pv'
      by (cases bs) (auto simp: dchain_def dlseg_append)
  qed
qed

lemma dl_insert_after:
  assumes c: "dchain nx pv (as @ x # bs)" and ys: "dchain nx pv ys" "ys \<noteq> []"
    and dj: "set ys \<inter> set (as @ x # bs) = {}"
    and nx': "nx' = (if nx x \<noteq> 0 then nx(last ys := nx x) else nx)(x := hd ys)"
    and pv': "pv' = (if nx x \<noteq> 0 then pv(nx x := last ys) else pv)(hd ys := x)"
  shows "dchain nx' pv' (as @ x # ys @ bs)"
proof -
  have d: "distinct (as @ x # bs)" "0 \<notin> set (as @ x # bs)" "distinct ys" "0 \<notin> set ys"
    using c ys by (auto dest: dchain_distinct dchain_null simp del: distinct_append)
  obtain y yt where y: "ys = y # yt" using ys(2) by (cases ys) auto
  show ?thesis
  proof (cases bs)
    case Nil
    with c d dj y ys(1) show ?thesis unfolding nx' pv'
      by (auto simp: dchain_def dlseg_append)
  next
    case (Cons b bs')
    show ?thesis
    proof (cases yt rule: rev_cases)
      case Nil
      with c d dj y ys(1) Cons show ?thesis unfolding nx' pv'
        by (auto simp: dchain_def dlseg_append)
    next
      case (snoc zs z)
      with c d dj y ys(1) Cons show ?thesis unfolding nx' pv'
        by (auto simp: dchain_def dlseg_append hd0_append)
    qed
  qed
qed

lemma dl_insert_before:
  assumes c: "dchain nx pv (as @ x # bs)" and y: "dchain nx pv [y]" "y \<notin> set (as @ x # bs)"
    and nx': "nx' = (if pv x \<noteq> 0 then nx(pv x := y) else nx)(y := x)"
    and pv': "pv' = (if pv x \<noteq> 0 then pv(y := pv x) else pv)(x := y)"
  shows "dchain nx' pv' (as @ y # x # bs)"
proof -
  have d: "distinct (as @ x # bs)" "0 \<notin> set (as @ x # bs)"
    using c by (auto dest: dchain_distinct dchain_null simp del: distinct_append)
  show ?thesis
  proof (cases as rule: rev_cases)
    case Nil
    with c d y show ?thesis unfolding nx' pv' by (auto simp: dchain_def dlseg_append)
  next
    case (snoc as' a)
    with c d y show ?thesis unfolding nx' pv' by (auto simp: dchain_def dlseg_append)
  qed
qed

lemma dl_replace:
  assumes c: "dchain nx pv (as @ x # bs)" and y: "dchain nx pv [y]" "y \<notin> set (as @ x # bs)"
    and nx': "nx' = (if nx x \<noteq> 0
      then (if pv x \<noteq> 0 then nx(pv x := y) else nx)(y := nx x, x := 0)
      else (if pv x \<noteq> 0 then nx(pv x := y) else nx))"
    and pv': "pv' = (if nx x \<noteq> 0
      then (if pv x \<noteq> 0 then pv(y := pv x, x := 0) else pv)(nx x := y)
      else (if pv x \<noteq> 0 then pv(y := pv x, x := 0) else pv))"
  shows "dchain nx' pv' (as @ y # bs) \<and> nx' x = 0 \<and> pv' x = 0"
proof -
  have d: "distinct (as @ x # bs)" "0 \<notin> set (as @ x # bs)"
    using c by (auto dest: dchain_distinct dchain_null simp del: distinct_append)
  show ?thesis
  proof (cases as rule: rev_cases)
    case Nil
    with c d y show ?thesis unfolding nx' pv'
      by (cases bs) (auto simp: dchain_def dlseg_append)
  next
    case (snoc as' a)
    with c d y show ?thesis unfolding nx' pv'
      by (cases bs) (auto simp: dchain_def dlseg_append)
  qed
qed

lemma dl_snoc:
  assumes c: "dchain nx pv xs" and y: "dchain nx pv [y]" "y \<notin> set xs" and ne: "xs \<noteq> []"
  shows "dchain (nx(last xs := y)) (pv(y := last xs)) (xs @ [y])"
proof -
  obtain zs z where z: "xs = zs @ [z]" using ne by (cases xs rule: rev_cases) auto
  have "distinct xs" using c by (rule dchain_distinct)
  with c y z show ?thesis by (auto simp: dchain_def dlseg_append)
qed

end
