(* ===== verification/Kernel_State.thy ===== *)
theory Kernel_State
  imports Caps Lock DList
begin

text \<open>
  The state of the kernel. Objects live in one typed heap per kind, read by the address the
  pointers of the source hold: capability slots and the page headers of capability spaces
  (\<^verbatim>\<open>cap_space.h\<close>), task control blocks (\<^verbatim>\<open>task.h\<close>), page tables, endpoints
  (\<^verbatim>\<open>ipc.h\<close>) and the bytes of the pages that hold no kernel object. The globals
  (\<^verbatim>\<open>ready_queue\<close>, \<^verbatim>\<open>cur_tid\<close>, \<^verbatim>\<open>next_id\<close>, \<^verbatim>\<open>errno\<close>) and the core local storage
  (\<^verbatim>\<open>current_task\<close>, \<^verbatim>\<open>idle_task\<close>) of the running core complete it.

  Splitting the heap by type assumes that the kernel never uses one page as objects of two
  kinds at the same time; \<^verbatim>\<open>memset\<close> of a fresh object resets that object in its own heap.

  The locks \<^verbatim>\<open>ready_queue_lock\<close>, \<^verbatim>\<open>next_tid_lock\<close> and \<^verbatim>\<open>id_cap_lock\<close> are released before
  any context switch, so on one core they are always free and are left out. The locks of
  tasks and endpoints are part of the state, because some operations switch tasks while they
  hold one.
\<close>

subsection \<open>Kernel objects\<close>

record cap_slot_t =
  slot_cap :: capability_t
  slot_prev :: addr
  slot_next :: addr

record cap_space_meta =
  meta_map :: addr
  meta_task :: addr
  meta_space_index :: u64

datatype task_state_t = unused | running | ready | waiting | suspended | killed

datatype ipc_state_t = ipc_none | sending | receiving | calling | canceled

datatype event_type_t = event_none | event_send | event_kill

datatype ipc_msg_state_t = msg_empty | short_size | long_size

record task_queue_t =
  q_head :: addr
  q_tail :: addr

record endpoint_t =
  ep_sender_queue :: task_queue_t
  ep_receiver_queue :: task_queue_t
  ep_lock :: recursive_spinlock_t

text \<open>
  A saved context is the code a task runs when it is switched to: nothing yet, the start of a
  payload function with its stack pointer (\<^verbatim>\<open>arch_init_task\<close>), or the point in the kernel
  where \<^verbatim>\<open>switch_context\<close> left it, which the resumptions below carry.
\<close>

datatype payload_t = return_to_user_mode | idle_payload

datatype context_t = no_context | payload_context payload_t addr | saved_context

text \<open>
  A trap frame is its 35 words in the order of \<^verbatim>\<open>frame_t\<close>; the union of
  \<^verbatim>\<open>ipc_short_msg[6]\<close> and \<^verbatim>\<open>ipc_long_msg\<close> is six words, the long message being word 0.
\<close>

type_synonym frame_t = "nat \<Rightarrow> u64"

record task_t =
  t_context :: context_t
  t_frame :: frame_t
  t_tid :: tid_t
  t_num_cap_space :: "18 word"
  t_num_extension :: "9 word"
  t_prev_ready_task :: addr
  t_next_ready_task :: addr
  t_prev_waiting_task :: addr
  t_next_waiting_task :: addr
  t_caller_task :: addr
  t_callee_task :: addr
  t_free_slots :: addr
  t_free_slots_count :: u64
  t_root_page_table :: addr
  t_endpoint :: addr
  t_kill_notify :: addr
  t_lock :: recursive_spinlock_t
  t_ipc_msg :: "nat \<Rightarrow> u64"
  t_state :: task_state_t
  t_ipc_state :: ipc_state_t
  t_ipc_msg_state :: ipc_msg_state_t
  t_event_type :: event_type_t
  t_exit_status :: "32 word"

text \<open>The bytes \<^verbatim>\<open>memset(\<dots>, 0, \<dots>)\<close> leaves, read as each kind of object.\<close>

definition zero_slot :: cap_slot_t where
  "zero_slot = \<lparr>slot_cap = NullCap, slot_prev = 0, slot_next = 0\<rparr>"

definition zero_meta :: cap_space_meta where
  "zero_meta = \<lparr>meta_map = 0, meta_task = 0, meta_space_index = 0\<rparr>"

definition empty_queue :: task_queue_t where
  "empty_queue = \<lparr>q_head = 0, q_tail = 0\<rparr>"

definition zero_endpoint :: endpoint_t where
  "zero_endpoint = \<lparr>ep_sender_queue = empty_queue, ep_receiver_queue = empty_queue,
     ep_lock = free_lock\<rparr>"

definition zero_task :: task_t where
  "zero_task = \<lparr>t_context = no_context, t_frame = (\<lambda>_. 0), t_tid = 0, t_num_cap_space = 0,
     t_num_extension = 0, t_prev_ready_task = 0, t_next_ready_task = 0,
     t_prev_waiting_task = 0, t_next_waiting_task = 0, t_caller_task = 0, t_callee_task = 0,
     t_free_slots = 0, t_free_slots_count = 0, t_root_page_table = 0, t_endpoint = 0,
     t_kill_notify = 0, t_lock = free_lock, t_ipc_msg = (\<lambda>_. 0), t_state = unused,
     t_ipc_state = ipc_none, t_ipc_msg_state = msg_empty, t_event_type = event_none,
     t_exit_status = 0\<rparr>"

lemmas zero_object_defs =
  zero_slot_def zero_meta_def empty_queue_def zero_endpoint_def zero_task_def

subsection \<open>Error codes\<close>

datatype errno_t =
    SYS_S_OK | SYS_E_UNKNOWN | SYS_E_ILL_CODE | SYS_E_ILL_ARGS | SYS_E_ILL_STATE
  | SYS_E_CAP_TYPE | SYS_E_CAP_STATE | SYS_E_OUT_OF_CAP_SPACE | SYS_E_BLOCKED | SYS_E_CANCELED

subsection \<open>The state\<close>

record kstate =
  slots :: "addr \<Rightarrow> cap_slot_t"
  spaces :: "addr \<Rightarrow> cap_space_meta"
  tasks :: "addr \<Rightarrow> task_t"
  tables :: "addr \<Rightarrow> page_table_t"
  endpoints :: "addr \<Rightarrow> endpoint_t"
  mem :: "addr \<Rightarrow> byte"
  ready_queue :: task_queue_t
  current_task :: addr
  idle_task :: addr
  errno :: errno_t
  next_id0 :: u64
  next_id1 :: u64
  next_id2 :: u64
  cur_tid :: "32 word"

definition zero_state :: kstate where
  "zero_state = \<lparr>slots = (\<lambda>_. zero_slot), spaces = (\<lambda>_. zero_meta), tasks = (\<lambda>_. zero_task),
     tables = (\<lambda>_. zero_page_table), endpoints = (\<lambda>_. zero_endpoint), mem = (\<lambda>_. 0),
     ready_queue = empty_queue, current_task = 0, idle_task = 0, errno = SYS_S_OK,
     next_id0 = 0, next_id1 = 0, next_id2 = 0, cur_tid = 0\<rparr>"

text \<open>Field reads and writes through a pointer.\<close>

definition cap_at :: "kstate \<Rightarrow> addr \<Rightarrow> capability_t" where
  "cap_at s a = slot_cap (slots s a)"
definition nxt :: "kstate \<Rightarrow> addr \<Rightarrow> addr" where "nxt s a = slot_next (slots s a)"
definition prv :: "kstate \<Rightarrow> addr \<Rightarrow> addr" where "prv s a = slot_prev (slots s a)"

definition set_cap :: "addr \<Rightarrow> capability_t \<Rightarrow> kstate \<Rightarrow> kstate" where
  "set_cap a c s = s\<lparr>slots := (slots s)(a := (slots s a)\<lparr>slot_cap := c\<rparr>)\<rparr>"
definition set_nxt :: "addr \<Rightarrow> addr \<Rightarrow> kstate \<Rightarrow> kstate" where
  "set_nxt a v s = s\<lparr>slots := (slots s)(a := (slots s a)\<lparr>slot_next := v\<rparr>)\<rparr>"
definition set_prv :: "addr \<Rightarrow> addr \<Rightarrow> kstate \<Rightarrow> kstate" where
  "set_prv a v s = s\<lparr>slots := (slots s)(a := (slots s a)\<lparr>slot_prev := v\<rparr>)\<rparr>"

definition upd_task :: "addr \<Rightarrow> (task_t \<Rightarrow> task_t) \<Rightarrow> kstate \<Rightarrow> kstate" where
  "upd_task a f s = s\<lparr>tasks := (tasks s)(a := f (tasks s a))\<rparr>"
definition upd_endpoint :: "addr \<Rightarrow> (endpoint_t \<Rightarrow> endpoint_t) \<Rightarrow> kstate \<Rightarrow> kstate" where
  "upd_endpoint a f s = s\<lparr>endpoints := (endpoints s)(a := f (endpoints s a))\<rparr>"
definition upd_pte :: "addr \<Rightarrow> u64 \<Rightarrow> (pte_t \<Rightarrow> pte_t) \<Rightarrow> kstate \<Rightarrow> kstate" where
  "upd_pte a i f s =
     s\<lparr>tables := (tables s)(a := (tables s a)(i := f (tables s a i)))\<rparr>"

lemma slot_eqI:
  "cap_at s = cap_at t \<Longrightarrow> nxt s = nxt t \<Longrightarrow> prv s = prv t \<Longrightarrow> slots s = slots t"
  by (rule ext) (auto simp: cap_at_def nxt_def prv_def fun_eq_iff intro: cap_slot_t.equality)

lemma set_cap_simps [simp]:
  "cap_at (set_cap a c s) = (cap_at s)(a := c)" "nxt (set_cap a c s) = nxt s"
  "prv (set_cap a c s) = prv s"
  by (auto simp: set_cap_def cap_at_def nxt_def prv_def)

lemma set_nxt_simps [simp]:
  "cap_at (set_nxt a v s) = cap_at s" "nxt (set_nxt a v s) = (nxt s)(a := v)"
  "prv (set_nxt a v s) = prv s"
  by (auto simp: set_nxt_def cap_at_def nxt_def prv_def)

lemma set_prv_simps [simp]:
  "cap_at (set_prv a v s) = cap_at s" "nxt (set_prv a v s) = nxt s"
  "prv (set_prv a v s) = (prv s)(a := v)"
  by (auto simp: set_prv_def cap_at_def nxt_def prv_def)

text \<open>Writes to a slot leave the other components alone.\<close>

lemma slot_upd_frame [simp]:
  "spaces (set_cap a c s) = spaces s" "spaces (set_nxt a v s) = spaces s" "spaces (set_prv a v s) = spaces s"
  "tasks (set_cap a c s) = tasks s" "tasks (set_nxt a v s) = tasks s" "tasks (set_prv a v s) = tasks s"
  "tables (set_cap a c s) = tables s" "tables (set_nxt a v s) = tables s" "tables (set_prv a v s) = tables s"
  "endpoints (set_cap a c s) = endpoints s" "endpoints (set_nxt a v s) = endpoints s"
  "endpoints (set_prv a v s) = endpoints s"
  "current_task (set_cap a c s) = current_task s" "current_task (set_nxt a v s) = current_task s"
  "current_task (set_prv a v s) = current_task s"
  "errno (set_cap a c s) = errno s" "errno (set_nxt a v s) = errno s" "errno (set_prv a v s) = errno s"
  by (simp_all add: set_cap_def set_nxt_def set_prv_def)

lemma upd_task_simps [simp]:
  "tasks (upd_task a f s) = (tasks s)(a := f (tasks s a))"
  "slots (upd_task a f s) = slots s" "cap_at (upd_task a f s) = cap_at s"
  "nxt (upd_task a f s) = nxt s" "prv (upd_task a f s) = prv s"
  "spaces (upd_task a f s) = spaces s" "tables (upd_task a f s) = tables s"
  "endpoints (upd_task a f s) = endpoints s" "mem (upd_task a f s) = mem s"
  "ready_queue (upd_task a f s) = ready_queue s"
  "current_task (upd_task a f s) = current_task s" "idle_task (upd_task a f s) = idle_task s"
  "errno (upd_task a f s) = errno s"
  by (auto simp: upd_task_def cap_at_def nxt_def prv_def)

lemma upd_endpoint_simps [simp]:
  "endpoints (upd_endpoint a g s) = (endpoints s)(a := g (endpoints s a))"
  "slots (upd_endpoint a g s) = slots s" "cap_at (upd_endpoint a g s) = cap_at s"
  "nxt (upd_endpoint a g s) = nxt s" "prv (upd_endpoint a g s) = prv s"
  "spaces (upd_endpoint a g s) = spaces s" "tables (upd_endpoint a g s) = tables s"
  "tasks (upd_endpoint a g s) = tasks s" "mem (upd_endpoint a g s) = mem s"
  "ready_queue (upd_endpoint a g s) = ready_queue s"
  "current_task (upd_endpoint a g s) = current_task s"
  "idle_task (upd_endpoint a g s) = idle_task s" "errno (upd_endpoint a g s) = errno s"
  by (auto simp: upd_endpoint_def cap_at_def nxt_def prv_def)

lemma upd_pte_simps [simp]:
  "tables (upd_pte a i h s) = (tables s)(a := (tables s a)(i := h (tables s a i)))"
  "slots (upd_pte a i h s) = slots s" "cap_at (upd_pte a i h s) = cap_at s"
  "nxt (upd_pte a i h s) = nxt s" "prv (upd_pte a i h s) = prv s"
  "spaces (upd_pte a i h s) = spaces s" "tasks (upd_pte a i h s) = tasks s"
  "endpoints (upd_pte a i h s) = endpoints s" "mem (upd_pte a i h s) = mem s"
  "current_task (upd_pte a i h s) = current_task s" "errno (upd_pte a i h s) = errno s"
  by (auto simp: upd_pte_def cap_at_def nxt_def prv_def)

lemma errno_upd_simps [simp]:
  "cap_at (s\<lparr>errno := e\<rparr>) = cap_at s" "nxt (s\<lparr>errno := e\<rparr>) = nxt s" "prv (s\<lparr>errno := e\<rparr>) = prv s"
  by (auto simp: cap_at_def nxt_def prv_def)

lemma heap_upd_simps [simp]:
  "cap_at (s\<lparr>spaces := m\<rparr>) = cap_at s" "nxt (s\<lparr>spaces := m\<rparr>) = nxt s" "prv (s\<lparr>spaces := m\<rparr>) = prv s"
  "cap_at (s\<lparr>tables := p\<rparr>) = cap_at s" "nxt (s\<lparr>tables := p\<rparr>) = nxt s" "prv (s\<lparr>tables := p\<rparr>) = prv s"
  "cap_at (s\<lparr>tasks := t\<rparr>) = cap_at s" "nxt (s\<lparr>tasks := t\<rparr>) = nxt s" "prv (s\<lparr>tasks := t\<rparr>) = prv s"
  "cap_at (s\<lparr>endpoints := q\<rparr>) = cap_at s" "nxt (s\<lparr>endpoints := q\<rparr>) = nxt s" "prv (s\<lparr>endpoints := q\<rparr>) = prv s"
  "cap_at (s\<lparr>mem := b\<rparr>) = cap_at s" "nxt (s\<lparr>mem := b\<rparr>) = nxt s" "prv (s\<lparr>mem := b\<rparr>) = prv s"
  by (auto simp: cap_at_def nxt_def prv_def)

subsection \<open>Lock guards\<close>

text \<open>
  The thread id the locks compare with. A scope that holds a lock and does not switch tasks is
  the test that the lock can be taken: by \<open>rlock_runlock\<close> it leaves the lock unchanged.
\<close>

definition current_tid :: "kstate \<Rightarrow> tid_t" where
  "current_tid s = t_tid (tasks s (current_task s))"

definition lock_free_for :: "kstate \<Rightarrow> addr \<Rightarrow> bool" where
  "lock_free_for s t \<longleftrightarrow> rlock (current_tid s) (t_lock (tasks s t)) \<noteq> None"

definition ep_lock_free_for :: "kstate \<Rightarrow> addr \<Rightarrow> bool" where
  "ep_lock_free_for s e \<longleftrightarrow> rlock (current_tid s) (ep_lock (endpoints s e)) \<noteq> None"

text \<open>Dereferencing the task and taking its lock.\<close>

definition guard_task :: "addr \<Rightarrow> kstate \<Rightarrow> unit option" where
  "guard_task t s = do { cassert (t \<noteq> 0); cassert (lock_free_for s t) }"

definition guard_endpoint :: "addr \<Rightarrow> kstate \<Rightarrow> unit option" where
  "guard_endpoint e s = do { cassert (e \<noteq> 0); cassert (ep_lock_free_for s e) }"

lemma bind_guard [simp, monad_simps]:
  "Option.bind (guard_task t s) f = (if t \<noteq> 0 \<and> lock_free_for s t then f () else None)"
  "Option.bind (guard_endpoint e s) f = (if e \<noteq> 0 \<and> ep_lock_free_for s e then f () else None)"
  by (simp_all add: guard_task_def guard_endpoint_def)

lemma lock_free_for_cong:
  assumes "t_lock (tasks s' t) = t_lock (tasks s t)" "current_tid s' = current_tid s"
  shows "lock_free_for s' t = lock_free_for s t"
  using assms by (simp add: lock_free_for_def)

lemma slot_upd_lock [simp]:
  "current_tid (set_cap a c s) = current_tid s" "current_tid (set_nxt a v s) = current_tid s"
  "current_tid (set_prv a v s) = current_tid s" "current_tid (s\<lparr>errno := e\<rparr>) = current_tid s"
  "lock_free_for (set_cap a c s) = lock_free_for s" "lock_free_for (set_nxt a v s) = lock_free_for s"
  "lock_free_for (set_prv a v s) = lock_free_for s" "lock_free_for (s\<lparr>errno := e\<rparr>) = lock_free_for s"
  by (auto simp: current_tid_def lock_free_for_def)

lemma upd_task_lock:
  assumes "\<And>x. t_lock (f x) = t_lock x" "\<And>x. t_tid (f x) = t_tid x"
  shows "current_tid (upd_task a f s) = current_tid s"
    "lock_free_for (upd_task a f s) = lock_free_for s"
  using assms by (auto simp: current_tid_def lock_free_for_def fun_eq_iff)

subsection \<open>Resumptions\<close>

text \<open>
  A kernel function that may switch to another context runs to one of three ends: it stops the
  machine, it returns, or it switches away in some state and carries on from the state it
  finds when its task is switched to again.
\<close>

datatype 'a run = Stop | Done 'a kstate | Switch kstate "kstate \<Rightarrow> 'a run"

primrec rbind :: "'a run \<Rightarrow> ('a \<Rightarrow> kstate \<Rightarrow> 'b run) \<Rightarrow> 'b run" where
  "rbind Stop f = Stop"
| "rbind (Done x s) f = f x s"
| "rbind (Switch s k) f = Switch s (\<lambda>s'. rbind (k s') f)"

definition lift_run :: "('a \<times> kstate) option \<Rightarrow> 'a run" where
  "lift_run m = (case m of None \<Rightarrow> Stop | Some (x, s) \<Rightarrow> Done x s)"

definition lift_state :: "kstate option \<Rightarrow> unit run" where
  "lift_state m = (case m of None \<Rightarrow> Stop | Some s \<Rightarrow> Done () s)"

definition rassert :: "bool \<Rightarrow> 'a run \<Rightarrow> 'a run" where
  "rassert b m = (if b then m else Stop)"

lemma rbind_assoc: "rbind (rbind m f) g = rbind m (\<lambda>x s. rbind (f x s) g)"
  by (induction m) auto

lemma rbind_Done [simp]: "rbind m Done = m"
  by (induction m) auto

lemma lift_run_simps [simp]:
  "lift_run None = Stop" "lift_run (Some (x, s)) = Done x s"
  "lift_state None = Stop" "lift_state (Some s) = Done () s"
  "rassert True m = m" "rassert False m = Stop"
  by (simp_all add: lift_run_def lift_state_def rassert_def)

end
