(* ===== verification/Slots.thy ===== *)
theory Slots
  imports Kernel_State
begin

text \<open>
  The capability slots of \<^verbatim>\<open>src/kernel/cap_space.cpp\<close>: the predicates and list operations
  of \<^verbatim>\<open>cap_slot_t\<close>. Slots form doubly linked chains that record which capability was
  derived from which; the free slots of a task form another chain. The lemmas show that each
  operation is the list operation its name says, on every chain, and that it leaves the
  chains it does not touch alone.
\<close>

subsection \<open>Interface: states with doubly linked nodes\<close>

text \<open>
  What the list reasoning needs of a state: two link fields whose writes do not interfere.
\<close>

locale dlinks =
  fixes nx pv :: "'s \<Rightarrow> addr \<Rightarrow> addr"
    and set_nx set_pv :: "addr \<Rightarrow> addr \<Rightarrow> 's \<Rightarrow> 's"
  assumes nx_set_nx: "nx (set_nx a v s) = (nx s)(a := v)"
    and pv_set_nx: "pv (set_nx a v s) = pv s"
    and nx_set_pv: "nx (set_pv a v s) = nx s"
    and pv_set_pv: "pv (set_pv a v s) = (pv s)(a := v)"
begin

definition on_chain :: "'s \<Rightarrow> addr list \<Rightarrow> bool" where
  "on_chain s xs \<longleftrightarrow> dchain (nx s) (pv s) xs"

lemmas link_simps = nx_set_nx pv_set_nx nx_set_pv pv_set_pv

lemma on_chain_other:
  assumes "on_chain s xs" "a \<notin> set xs"
  shows "on_chain (set_nx a v s) xs" "on_chain (set_pv a v s) xs"
  using assms by (simp_all add: on_chain_def link_simps)

lemma on_chain_unlink:
  assumes "on_chain s (as @ x # bs)"
    and "s1 = (if pv s x \<noteq> 0 then set_nx (pv s x) (nx s x) s else s)"
    and "s2 = (if nx s x \<noteq> 0 then set_pv (nx s x) (pv s x) s1 else s1)"
    and "s' = set_nx x 0 (set_pv x 0 s2)"
  shows "on_chain s' (as @ bs) \<and> on_chain s' [x]"
proof -
  have x: "x \<noteq> 0" using assms(1) by (auto simp: on_chain_def dest: dchain_null)
  have "dchain (nx s') (pv s') (as @ bs)"
    using assms(1) unfolding on_chain_def
    by (rule dl_erase) (simp_all add: assms(2-4) link_simps)
  then show ?thesis using x by (simp add: on_chain_def assms(4) link_simps)
qed

end

subsection \<open>Addresses of slots\<close>

text \<open>
  \<^verbatim>\<open>cap_space_t\<close> is one page: 24 bytes of \<^verbatim>\<open>meta_info\<close>, then 101 slots of 40 bytes.
\<close>

definition SLOT_SIZE :: u64 where "SLOT_SIZE = 40"
definition SLOT_OFFSET :: u64 where "SLOT_OFFSET = 24"
definition NUM_SLOTS :: u64 where "NUM_SLOTS = PAGE_SIZE div SLOT_SIZE - 1"

definition slot_addr :: "addr \<Rightarrow> u64 \<Rightarrow> addr" where
  "slot_addr space i = space + SLOT_OFFSET + SLOT_SIZE * i"

definition get_cap_space :: "addr \<Rightarrow> addr" where
  "get_cap_space slot = round_down slot PAGE_SIZE"

definition slot_task :: "kstate \<Rightarrow> addr \<Rightarrow> addr" where
  "slot_task s slot = meta_task (spaces s (get_cap_space slot))"

lemma NUM_SLOTS_val [simp]: "NUM_SLOTS = 101"
  by (simp add: NUM_SLOTS_def SLOT_SIZE_def)

subsection \<open>Predicates\<close>

definition is_unused :: "kstate \<Rightarrow> addr \<Rightarrow> bool" where
  "is_unused s slot \<longleftrightarrow> get_cap_type (cap_at s slot) = CAP_NULL \<and> prv s slot = 0 \<and> nxt s slot = 0"

definition is_isolated :: "kstate \<Rightarrow> addr \<Rightarrow> bool" where
  "is_isolated s slot \<longleftrightarrow> prv s slot = 0 \<and> nxt s slot = 0"

definition is_head :: "kstate \<Rightarrow> addr \<Rightarrow> bool" where
  "is_head s slot \<longleftrightarrow> prv s slot = 0"

definition is_tail :: "kstate \<Rightarrow> addr \<Rightarrow> bool" where
  "is_tail s slot \<longleftrightarrow> nxt s slot = 0"

lemmas slot_pred_defs = is_unused_def is_isolated_def is_head_def is_tail_def

subsection \<open>Operations\<close>

text \<open>
  Every operation takes the lock of the task that owns the slot and stops on a task that is
  not in use. \<open>this\<close> is the slot the method is called on.
\<close>

definition slot_guard :: "addr \<Rightarrow> kstate \<Rightarrow> unit option" where
  "slot_guard slot s = do {
     guard_task (slot_task s slot) s;
     cassert (t_state (tasks s (slot_task s slot)) \<noteq> unused)
   }"

definition insert_before :: "addr \<Rightarrow> addr \<Rightarrow> kstate \<Rightarrow> kstate option" where
  "insert_before this slot s = do {
     cassert (slot \<noteq> 0);
     cassert (is_isolated s slot);
     slot_guard slot s;
     let s1 = (if prv s this \<noteq> 0 then set_prv slot (prv s this) (set_nxt (prv s this) slot s) else s);
     Some (set_prv this slot (set_nxt slot this s1))
   }"

partial_function (option) find_tail :: "addr \<Rightarrow> kstate \<Rightarrow> addr option" where
  "find_tail tail s = (if is_tail s tail then Some tail else find_tail (nxt s tail) s)"

definition insert_after :: "addr \<Rightarrow> addr \<Rightarrow> kstate \<Rightarrow> kstate option" where
  "insert_after this slot s = do {
     cassert (slot \<noteq> 0);
     cassert (is_head s slot);
     slot_guard slot s;
     tail \<leftarrow> find_tail slot s;
     let s1 = (if nxt s this \<noteq> 0 then set_nxt tail (nxt s this) (set_prv (nxt s this) tail s) else s);
     Some (set_prv slot this (set_nxt this slot s1))
   }"

definition erase_this :: "addr \<Rightarrow> kstate \<Rightarrow> (addr \<times> kstate) option" where
  "erase_this this s = do {
     slot_guard this s;
     let p = prv s this;
     let n = nxt s this;
     let (result, s1) = (if p \<noteq> 0 then (p, set_nxt p n s) else (0, s));
     let (result, s2) = (if n \<noteq> 0 then (n, set_prv n p s1) else (result, s1));
     Some (result, set_nxt this 0 (set_prv this 0 s2))
   }"

definition replace :: "addr \<Rightarrow> addr \<Rightarrow> kstate \<Rightarrow> kstate option" where
  "replace this slot s = do {
     cassert (slot \<noteq> 0);
     cassert (is_isolated s this);
     slot_guard slot s;
     let s1 = (if prv s slot \<noteq> 0
       then set_prv slot 0 (set_prv this (prv s slot) (set_nxt (prv s slot) this s)) else s);
     let s2 = (if nxt s1 slot \<noteq> 0
       then set_nxt slot 0 (set_nxt this (nxt s1 slot) (set_prv (nxt s1 slot) this s1)) else s1);
     Some s2
   }"

lemmas slot_op_defs [kernel_defs] =
  insert_before_def insert_after_def erase_this_def replace_def

subsection \<open>Chains of slots\<close>

interpretation sl: dlinks nxt prv set_nxt set_prv
  by unfold_locales simp_all

definition chain :: "kstate \<Rightarrow> addr list \<Rightarrow> bool" where
  "chain s xs \<longleftrightarrow> dchain (nxt s) (prv s) xs"

lemma chain_sl: "chain s xs = sl.on_chain s xs"
  by (simp add: chain_def sl.on_chain_def)

lemma chain_single: "chain s [x] \<longleftrightarrow> x \<noteq> 0 \<and> is_isolated s x"
  by (auto simp: chain_def is_isolated_def)

lemma chain_distinct: "chain s xs \<Longrightarrow> distinct xs" and chain_null: "chain s xs \<Longrightarrow> 0 \<notin> set xs"
  by (simp_all add: chain_def dchain_distinct dchain_null)

lemma chain_next: "chain s (as @ x # bs) \<Longrightarrow> nxt s x = hd0 bs 0"
  and chain_prev: "chain s (as @ x # bs) \<Longrightarrow> prv s x = last0 0 as"
  by (auto simp: chain_def dchain_next dchain_prev)

lemma chain_unique: "chain s xs \<Longrightarrow> chain s ys \<Longrightarrow> x \<in> set xs \<Longrightarrow> x \<in> set ys \<Longrightarrow> xs = ys"
  unfolding chain_def by (rule dchain_unique)

lemma chain_disjoint: "chain s xs \<Longrightarrow> chain s ys \<Longrightarrow> xs \<noteq> ys \<Longrightarrow> set xs \<inter> set ys = {}"
  unfolding chain_def by (rule dchain_disjoint)

lemma chain_single_notin:
  assumes "chain s [y]" "chain s (as @ x # bs)" "x \<noteq> y"
  shows "y \<notin> set (as @ x # bs)"
proof
  assume "y \<in> set (as @ x # bs)"
  then have "[y] = as @ x # bs" using chain_unique [OF assms(1,2)] by simp
  with assms(3) show False by (auto simp: Cons_eq_append_conv)
qed

lemma chain_cong:
  assumes "\<And>x. x \<in> set xs \<Longrightarrow> nxt s' x = nxt s x" "\<And>x. x \<in> set xs \<Longrightarrow> prv s' x = prv s x"
  shows "chain s' xs = chain s xs"
  unfolding chain_def using assms by (rule dchain_cong)

lemma chain_frame [simp]:
  "chain (set_cap a c s) = chain s" "chain (upd_task t f s) = chain s"
  "chain (upd_endpoint t g s) = chain s" "chain (upd_pte a i h s) = chain s"
  "chain (s\<lparr>errno := e\<rparr>) = chain s"
  by (auto simp: chain_def)

text \<open>
  What an operation on slots keeps: the capabilities, and everything that is not a link.
\<close>

definition same_but_links :: "kstate \<Rightarrow> kstate \<Rightarrow> bool" where
  "same_but_links s s' \<longleftrightarrow> cap_at s' = cap_at s \<and> (\<exists>f. s' = s\<lparr>slots := f\<rparr>)"

lemma same_but_linksD [dest]:
  assumes "same_but_links s s'"
  shows "cap_at s' = cap_at s" "spaces s' = spaces s" "tasks s' = tasks s" "tables s' = tables s"
    "endpoints s' = endpoints s" "mem s' = mem s" "ready_queue s' = ready_queue s"
    "current_task s' = current_task s" "idle_task s' = idle_task s" "errno s' = errno s"
    "next_id0 s' = next_id0 s" "next_id1 s' = next_id1 s" "next_id2 s' = next_id2 s" "cur_tid s' = cur_tid s"
  using assms by (auto simp: same_but_links_def)

lemma same_but_links_refl [simp]: "same_but_links s s"
  by (auto simp: same_but_links_def intro: exI [of _ "slots s"])

lemma same_but_links_set [intro, simp]:
  "same_but_links s s' \<Longrightarrow> same_but_links s (set_nxt a v s')"
  "same_but_links s s' \<Longrightarrow> same_but_links s (set_prv a v s')"
  by (auto simp: same_but_links_def) (auto simp: set_nxt_def set_prv_def)

lemma same_but_links_trans [trans]:
  assumes "same_but_links s t" "same_but_links t u"
  shows "same_but_links s u"
  using assms by (auto simp: same_but_links_def)

lemma find_tail_seg:
  "dlseg (nxt s) (prv s) p (x # xs) 0 \<Longrightarrow> find_tail x s = Some (last0 x xs)"
proof (induction xs arbitrary: p x)
  case Nil
  then show ?case by (simp add: find_tail.simps is_tail_def)
next
  case (Cons y xs)
  then have "find_tail y s = Some (last0 y xs)" by auto
  with Cons.prems show ?case by (simp add: find_tail.simps [of x] is_tail_def)
qed

lemma find_tail_chain: "chain s (as @ x # bs) \<Longrightarrow> find_tail x s = Some (last0 x bs)"
  unfolding chain_def dchain_split by (rule find_tail_seg [where p = "prv s x"]) simp

subsection \<open>The operations on chains\<close>

definition slot_ok :: "kstate \<Rightarrow> addr \<Rightarrow> bool" where
  "slot_ok s x \<longleftrightarrow> slot_task s x \<noteq> 0 \<and> lock_free_for s (slot_task s x) \<and>
     t_state (tasks s (slot_task s x)) \<noteq> unused"

lemma bind_slot_guard [simp, monad_simps]:
  "Option.bind (slot_guard x s) f = (if slot_ok s x then f () else None)"
  by (simp add: slot_guard_def slot_ok_def bind_assoc [symmetric] bind_if)

lemma slot_task_upd [simp]:
  "slot_task (set_cap a c s) = slot_task s" "slot_task (set_nxt a v s) = slot_task s"
  "slot_task (set_prv a v s) = slot_task s" "slot_task (upd_task t f s) = slot_task s"
  "slot_task (upd_pte a i h s) = slot_task s" "slot_task (s\<lparr>errno := e\<rparr>) = slot_task s"
  by (auto simp: slot_task_def)

lemma slot_ok_upd [simp]:
  "slot_ok (set_cap a c s) = slot_ok s" "slot_ok (set_nxt a v s) = slot_ok s"
  "slot_ok (set_prv a v s) = slot_ok s" "slot_ok (s\<lparr>errno := e\<rparr>) = slot_ok s"
  by (auto simp: slot_ok_def)

text \<open>The link fields of the slots outside a set are untouched.\<close>

definition links_outside :: "addr set \<Rightarrow> kstate \<Rightarrow> kstate \<Rightarrow> bool" where
  "links_outside A s s' \<longleftrightarrow> (\<forall>a. a \<notin> A \<longrightarrow> nxt s' a = nxt s a \<and> prv s' a = prv s a)"

lemma links_outside_chain:
  assumes "links_outside A s s'" "chain s ys" "A \<inter> set ys = {}"
  shows "chain s' ys"
  using assms chain_cong [of ys s' s] by (auto simp: links_outside_def)

lemma links_outsideI:
  assumes "\<And>a. a \<notin> A \<Longrightarrow> nxt s' a = nxt s a" "\<And>a. a \<notin> A \<Longrightarrow> prv s' a = prv s a"
  shows "links_outside A s s'"
  using assms by (simp add: links_outside_def)

lemma chain_node_in:
  assumes "chain s (as @ x # bs)"
  shows "prv s x \<noteq> 0 \<Longrightarrow> prv s x \<in> set as" "nxt s x \<noteq> 0 \<Longrightarrow> nxt s x \<in> set bs"
  using chain_next [OF assms] hd0_in_set [of bs 0] chain_prev [OF assms] last0_in_set [of as 0]
  by (auto simp: hd0_def last0_def split: if_splits list.splits)

lemma erase_this_chain:
  assumes c: "chain s (as @ x # bs)" and ok: "slot_ok s x"
  obtains s' where "erase_this x s = Some (hd0 bs (last0 0 as), s')"
    "chain s' (as @ bs)" "chain s' [x]" "same_but_links s s'"
    "links_outside (set (as @ x # bs)) s s'"
proof -
  let ?s1 = "if prv s x \<noteq> 0 then set_nxt (prv s x) (nxt s x) s else s"
  let ?s2 = "if nxt s x \<noteq> 0 then set_prv (nxt s x) (prv s x) ?s1 else ?s1"
  let ?s' = "set_nxt x 0 (set_prv x 0 ?s2)"
  have r: "hd0 bs (last0 0 as) = (if nxt s x \<noteq> 0 then nxt s x else prv s x)"
    using chain_next [OF c] chain_prev [OF c] chain_null [OF c] by (cases bs) auto
  have "erase_this x s = Some (hd0 bs (last0 0 as), ?s')"
    using ok unfolding r erase_this_def by (simp add: Let_def)
  moreover have "chain ?s' (as @ bs) \<and> chain ?s' [x]"
    unfolding chain_sl by (rule sl.on_chain_unlink [OF c [unfolded chain_sl] refl refl refl])
  moreover have "same_but_links s ?s'" by simp
  moreover have "links_outside (set (as @ x # bs)) s ?s'"
    using chain_node_in [OF c] by (intro links_outsideI) auto
  ultimately show ?thesis using that by blast
qed

lemma erase_this_isolated:
  assumes "x \<noteq> 0" "is_isolated s x" "slot_ok s x"
  shows "\<exists>s'. erase_this x s = Some (0, s') \<and> slots s' = slots s \<and> same_but_links s s'"
proof -
  have "slots (set_nxt x 0 (set_prv x 0 s)) = slots s"
    using assms(2) by (intro slot_eqI) (auto simp: is_isolated_def)
  with assms show ?thesis
    by (intro exI [of _ "set_nxt x 0 (set_prv x 0 s)"]) (simp add: erase_this_def is_isolated_def)
qed

lemma insert_after_chain:
  assumes c: "chain s (as @ x # bs)" and ys: "chain s (y # yt)"
    and dj: "set (y # yt) \<inter> set (as @ x # bs) = {}" and ok: "slot_ok s y"
  obtains s' where "insert_after x y s = Some s'" "chain s' (as @ x # y # yt @ bs)"
    "same_but_links s s'" "links_outside (set (as @ x # bs) \<union> set (y # yt)) s s'"
proof -
  let ?t = "last0 y yt"
  let ?s1 = "if nxt s x \<noteq> 0 then set_nxt ?t (nxt s x) (set_prv (nxt s x) ?t s) else s"
  let ?s' = "set_prv y x (set_nxt x y ?s1)"
  have t: "?t = last (y # yt)" by (simp add: last0_def)
  have "y \<noteq> 0" "is_head s y" "find_tail y s = Some ?t"
    using ys find_tail_chain [of s "[]" y yt] chain_prev [of s "[]" y yt] chain_null [OF ys]
    by (auto simp: is_head_def)
  then have "insert_after x y s = Some ?s'"
    using ok by (simp add: insert_after_def)
  moreover have "chain ?s' (as @ x # (y # yt) @ bs)"
    unfolding chain_def
    by (rule dl_insert_after [OF c [unfolded chain_def] ys [unfolded chain_def] _ dj])
      (simp_all add: t)
  moreover have "same_but_links s ?s'" by simp
  moreover have "links_outside (set (as @ x # bs) \<union> set (y # yt)) s ?s'"
    using chain_node_in(2) [OF c] last_in_set [of "y # yt"] t by (intro links_outsideI) auto
  ultimately show ?thesis using that by simp
qed

lemma insert_before_chain:
  assumes c: "chain s (as @ x # bs)" and y: "chain s [y]" "y \<notin> set (as @ x # bs)"
    and ok: "slot_ok s y"
  obtains s' where "insert_before x y s = Some s'" "chain s' (as @ y # x # bs)"
    "same_but_links s s'" "links_outside (insert y (set (as @ x # bs))) s s'"
proof -
  let ?s1 = "if prv s x \<noteq> 0 then set_prv y (prv s x) (set_nxt (prv s x) y s) else s"
  let ?s' = "set_prv x y (set_nxt y x ?s1)"
  have "insert_before x y s = Some ?s'"
    using y(1) ok by (simp add: insert_before_def chain_single)
  moreover have "chain ?s' (as @ y # x # bs)"
    unfolding chain_def
    by (rule dl_insert_before [OF c [unfolded chain_def] y(1) [unfolded chain_def] y(2)]) simp_all
  moreover have "same_but_links s ?s'" by simp
  moreover have "links_outside (insert y (set (as @ x # bs))) s ?s'"
    using chain_node_in(1) [OF c] by (intro links_outsideI) auto
  ultimately show ?thesis using that by blast
qed

lemma replace_chain:
  assumes c: "chain s (as @ x # bs)" and y: "chain s [y]" "y \<notin> set (as @ x # bs)"
    and ok: "slot_ok s x"
  obtains s' where "replace y x s = Some s'" "chain s' (as @ y # bs)" "chain s' [x]"
    "same_but_links s s'" "links_outside (insert y (set (as @ x # bs))) s s'"
proof -
  let ?s1 = "if prv s x \<noteq> 0
       then set_prv x 0 (set_prv y (prv s x) (set_nxt (prv s x) y s)) else s"
  let ?s' = "if nxt ?s1 x \<noteq> 0
       then set_nxt x 0 (set_nxt y (nxt ?s1 x) (set_prv (nxt ?s1 x) y ?s1)) else ?s1"
  have x: "x \<noteq> 0" using chain_null [OF c] by auto
  have pn: "prv s x \<noteq> x" using chain_node_in(1) [OF c] chain_distinct [OF c] x by auto
  then have n1: "nxt ?s1 x = nxt s x" by simp
  have "replace y x s = Some ?s'"
    unfolding replace_def Let_def using y(1) ok x by (simp add: chain_single)
  moreover have "dchain (nxt ?s') (prv ?s') (as @ y # bs) \<and> nxt ?s' x = 0 \<and> prv ?s' x = 0"
    by (rule dl_replace [OF c [unfolded chain_def] y(1) [unfolded chain_def] y(2)])
      (simp_all only: n1, simp_all)
  then have "chain ?s' (as @ y # bs)" "chain ?s' [x]"
    using x by (simp_all only: chain_def dchain_single simp_thms)
  moreover have "same_but_links s ?s'" by simp
  moreover have "links_outside (insert y (set (as @ x # bs))) s ?s'"
    unfolding n1 using chain_node_in [OF c] by (intro links_outsideI) auto
  ultimately show ?thesis using that by blast
qed

subsection \<open>Properties\<close>

lemma chain_same_links:
  assumes "chain s xs" "chain s' xs" "a \<in> set xs"
  shows "nxt s' a = nxt s a" "prv s' a = prv s a"
proof -
  obtain us vs where "xs = us @ a # vs" using assms(3) by (meson split_list)
  with assms(1,2) show "nxt s' a = nxt s a" "prv s' a = prv s a"
    by (simp_all add: chain_next [of s us a vs] chain_next [of s' us a vs]
        chain_prev [of s us a vs] chain_prev [of s' us a vs])
qed

text \<open>A small state: one task, running, with one capability space of three linked slots.\<close>

definition demo_state :: kstate where
  "demo_state = zero_state\<lparr>
     spaces := (\<lambda>_. zero_meta)(0x1000 := \<lparr>meta_map = 0x1000, meta_task = 0x2000, meta_space_index = 0\<rparr>),
     tasks := (\<lambda>_. zero_task)(0x2000 := zero_task\<lparr>t_tid := 1, t_state := running\<rparr>),
     current_task := 0x2000\<rparr>"

definition demo_pair :: kstate where
  "demo_pair = set_nxt 0x1040 0x1068 (set_prv 0x1068 0x1040 demo_state)"

lemma demo_simps [simp]:
  "nxt demo_state a = 0" "prv demo_state a = 0" "cap_at demo_state a = NullCap"
  "spaces demo_state 0x1000 = \<lparr>meta_map = 0x1000, meta_task = 0x2000, meta_space_index = 0\<rparr>"
  "current_task demo_state = 0x2000"
  "tasks demo_state 0x2000 = zero_task\<lparr>t_tid := 1, t_state := running\<rparr>"
  by (simp_all add: demo_state_def zero_state_def zero_slot_def nxt_def prv_def cap_at_def)

lemma demo_space [simp]:
  "get_cap_space 0x1040 = 0x1000" "get_cap_space 0x1068 = 0x1000" "get_cap_space 0x1090 = 0x1000"
  by (simp_all add: get_cap_space_def round_down_def)

lemma demo_slot_ok [simp]:
  "slot_ok demo_state 0x1040" "slot_ok demo_state 0x1068" "slot_ok demo_state 0x1090"
  by (simp_all add: slot_ok_def slot_task_def lock_free_for_def zero_task_def free_lock_def
      rlock_def current_tid_def)

lemma demo_pair_chain:
  "chain demo_pair [0x1040, 0x1068]" "chain demo_pair [0x1090]"
  "slot_ok demo_pair 0x1040" "slot_ok demo_pair 0x1068" "slot_ok demo_pair 0x1090"
  by (simp_all add: demo_pair_def chain_def dchain_def)

text \<open>
  C35: \<^verbatim>\<open>insert_after\<close>. Called on a slot of one chain with the head of another, it returns,
  splices the whole second chain in right behind the slot, and keeps every capability and
  every third chain.
\<close>

theorem insert_after_splices:
  assumes "chain s (as @ x # bs)" "chain s (y # yt)" "x \<notin> set (y # yt)" "slot_ok s y"
  shows "\<exists>s'. insert_after x y s = Some s' \<and> chain s' (as @ x # y # yt @ bs) \<and>
    cap_at s' = cap_at s \<and>
    (\<forall>zs. chain s zs \<and> x \<notin> set zs \<and> y \<notin> set zs \<longrightarrow> chain s' zs)"
proof -
  have dj: "set (y # yt) \<inter> set (as @ x # bs) = {}"
    using chain_disjoint [OF assms(2,1)] assms(3) by (metis in_set_conv_decomp)
  obtain s' where s': "insert_after x y s = Some s'" "chain s' (as @ x # y # yt @ bs)"
    "same_but_links s s'" "links_outside (set (as @ x # bs) \<union> set (y # yt)) s s'"
    using insert_after_chain [OF assms(1,2) dj assms(4)] .
  have "chain s' zs" if "chain s zs" "x \<notin> set zs" "y \<notin> set zs" for zs
    using links_outside_chain [OF s'(4) that(1)] chain_disjoint [OF assms(1) that(1)]
      chain_disjoint [OF assms(2) that(1)] that(2,3) by fastforce
  with s' show ?thesis by blast
qed

theorem insert_after_splices_witness:
  "\<exists>s'. insert_after 0x1090 0x1040 demo_pair = Some s' \<and> chain s' [0x1090, 0x1040, 0x1068]"
  using insert_after_splices [of demo_pair "[]" "0x1090" "[]" "0x1040" "[0x1068]"] demo_pair_chain
  by auto

text \<open>
  C36: \<^verbatim>\<open>erase_this\<close>. It returns, takes exactly the slot out of its chain and leaves it
  isolated, and its result is the slot that followed, or else the one before, or null.
\<close>

theorem erase_this_removes:
  assumes "chain s (as @ x # bs)" "slot_ok s x"
  shows "\<exists>s'. erase_this x s = Some (hd0 bs (last0 0 as), s') \<and> chain s' (as @ bs) \<and>
    is_isolated s' x \<and> cap_at s' = cap_at s \<and>
    (\<forall>zs. chain s zs \<and> x \<notin> set zs \<longrightarrow> chain s' zs)"
proof -
  obtain s' where s': "erase_this x s = Some (hd0 bs (last0 0 as), s')"
    "chain s' (as @ bs)" "chain s' [x]" "same_but_links s s'"
    "links_outside (set (as @ x # bs)) s s'"
    using erase_this_chain [OF assms] .
  have "chain s' zs" if "chain s zs" "x \<notin> set zs" for zs
    using links_outside_chain [OF s'(5) that(1)] chain_disjoint [OF assms(1) that(1)] that(2)
    by fastforce
  with s' show ?thesis by (auto simp: chain_single)
qed

theorem erase_this_removes_witness:
  "\<exists>s'. erase_this 0x1040 demo_pair = Some (0x1068, s') \<and> chain s' [0x1068] \<and> is_isolated s' 0x1040"
  using erase_this_removes [of demo_pair "[]" "0x1040" "[0x1068]"] demo_pair_chain by auto

text \<open>
  C37: \<^verbatim>\<open>replace\<close>. An isolated slot takes the exact place of another one, which becomes
  isolated; the capabilities stay where they are.
\<close>

theorem replace_takes_place:
  assumes "chain s (as @ x # bs)" "is_isolated s y" "y \<noteq> 0" "y \<noteq> x" "slot_ok s x"
  shows "\<exists>s'. replace y x s = Some s' \<and> is_isolated s' x \<and> cap_at s' = cap_at s \<and>
    chain s' (as @ y # bs) \<and>
    (\<forall>zs. chain s zs \<and> x \<notin> set zs \<and> y \<notin> set zs \<longrightarrow> chain s' zs)"
proof -
  have y: "chain s [y]" using assms(2,3) by (simp add: chain_single)
  have "y \<notin> set (as @ x # bs)"
    using chain_single_notin [OF y assms(1)] assms(4) by simp
  then obtain s' where s': "replace y x s = Some s'" "chain s' (as @ y # bs)" "chain s' [x]"
    "same_but_links s s'" "links_outside (insert y (set (as @ x # bs))) s s'"
    using replace_chain [OF assms(1) y _ assms(5)] by blast
  have "chain s' zs" if "chain s zs" "x \<notin> set zs" "y \<notin> set zs" for zs
    using links_outside_chain [OF s'(5) that(1)] chain_disjoint [OF assms(1) that(1)] that(2,3)
    by fastforce
  with s' show ?thesis by (auto simp: chain_single)
qed

theorem replace_takes_place_witness:
  "\<exists>s'. replace 0x1090 0x1068 demo_pair = Some s' \<and> chain s' [0x1040, 0x1090] \<and> is_isolated s' 0x1068"
  using replace_takes_place [of demo_pair "[0x1040]" "0x1068" "[]" "0x1090"] demo_pair_chain
  by (auto simp: chain_single)

text \<open>
  Inserting one slot and erasing it again restores the slots exactly, whatever chain the
  first slot is on.
\<close>

theorem insert_after_erase_this:
  assumes "chain s (as @ x # bs)" "chain s [y]" "x \<noteq> y" "slot_ok s y"
  shows "\<exists>s' s''. insert_after x y s = Some s' \<and> erase_this y s' = Some (hd0 bs x, s'') \<and>
    slots s'' = slots s"
proof -
  have dj: "set [y] \<inter> set (as @ x # bs) = {}"
    using chain_single_notin [OF assms(2,1,3)] by simp
  obtain s' where s': "insert_after x y s = Some s'" "chain s' ((as @ [x]) @ y # bs)"
    "same_but_links s s'" "links_outside (set (as @ x # bs) \<union> set [y]) s s'"
    using insert_after_chain [OF assms(1,2) dj assms(4)] by (metis append_Nil append_Cons append_assoc)
  have "slot_ok s' y"
    using assms(4) same_but_linksD [OF s'(3)]
    by (simp add: slot_ok_def slot_task_def lock_free_for_def current_tid_def)
  from erase_this_chain [OF s'(2) this]
  obtain s'' where e: "erase_this y s' = Some (hd0 bs (last0 0 (as @ [x])), s'')"
    "chain s'' ((as @ [x]) @ bs)" "chain s'' [y]" "same_but_links s' s''"
    "links_outside (set ((as @ [x]) @ y # bs)) s' s''" .
  then have s'': "erase_this y s' = Some (hd0 bs x, s'')" "chain s'' (as @ x # bs)"
    "links_outside (set (as @ x # bs) \<union> set [y]) s' s''"
    by (simp_all add: insert_commute)
  have "nxt s'' a = nxt s a \<and> prv s'' a = prv s a" for a
    using chain_same_links [OF assms(1) s''(2), of a] chain_same_links [OF assms(2) e(3), of a]
      s'(4) s''(3) unfolding links_outside_def by (metis Un_iff)
  then have "slots s'' = slots s"
    using s'(3) e(4) by (intro slot_eqI) (auto simp: same_but_linksD(1))
  with s' s'' show ?thesis by blast
qed

theorem insert_after_erase_this_witness:
  "\<exists>s' s''. insert_after 0x1068 0x1090 demo_pair = Some s' \<and>
     erase_this 0x1090 s' = Some (0x1068, s'') \<and> slots s'' = slots demo_pair"
  using insert_after_erase_this [of demo_pair "[0x1040]" "0x1068" "[]" "0x1090"] demo_pair_chain
  by auto

end
