(* ===== verification/Free_Slots.thy ===== *)
theory Free_Slots
  imports Slots
begin

text \<open>
  The free slots of a task (\<^verbatim>\<open>push_free_slots\<close>, \<^verbatim>\<open>pop_free_slots\<close> and \<^verbatim>\<open>insert_cap\<close> of
  \<^verbatim>\<open>src/kernel/task.cpp\<close>). The free slots form a chain headed by
  \<^verbatim>\<open>task->free_slots\<close>; the lemmas show that the two operations are a stack on that chain,
  that \<^verbatim>\<open>free_slots_count\<close> counts it, and what they leave alone.
\<close>

subsection \<open>Operations\<close>

definition push_free_slots :: "addr \<Rightarrow> addr \<Rightarrow> kstate \<Rightarrow> kstate option" where
  "push_free_slots task slot s = do {
     cassert (task \<noteq> 0);
     cassert (slot \<noteq> 0);
     cassert (slot_task s slot = task);
     guard_task task s;
     (_, s) \<leftarrow> erase_this slot s;
     let s = set_cap slot make_null_cap s;
     s \<leftarrow> (if t_free_slots (tasks s task) \<noteq> 0
       then insert_before (t_free_slots (tasks s task)) slot s else Some s);
     Some (upd_task task (\<lambda>t. t\<lparr>t_free_slots := slot, t_free_slots_count := t_free_slots_count t + 1\<rparr>) s)
   }"

definition pop_free_slots :: "addr \<Rightarrow> kstate \<Rightarrow> (addr \<times> kstate) option" where
  "pop_free_slots task s = do {
     guard_task task s;
     let slot = t_free_slots (tasks s task);
     if slot = 0 then Some (0, s\<lparr>errno := SYS_E_OUT_OF_CAP_SPACE\<rparr>)
     else do {
       (n, s) \<leftarrow> erase_this slot s;
       Some (slot, upd_task task (\<lambda>t. t\<lparr>t_free_slots := n, t_free_slots_count := t_free_slots_count t - 1\<rparr>) s)
     }
   }"

definition insert_cap :: "addr \<Rightarrow> capability_t \<Rightarrow> kstate \<Rightarrow> (addr \<times> kstate) option" where
  "insert_cap task cap s = do {
     guard_task task s;
     if t_state (tasks s task) = unused \<or> t_state (tasks s task) = killed
     then Some (0, s\<lparr>errno := SYS_E_ILL_STATE\<rparr>)
     else do {
       (slot, s) \<leftarrow> pop_free_slots task s;
       if slot = 0 then Some (0, s\<lparr>errno := SYS_E_OUT_OF_CAP_SPACE\<rparr>)
       else Some (slot, set_cap slot cap s)
     }
   }"

subsection \<open>The free list\<close>

definition free_list :: "kstate \<Rightarrow> addr \<Rightarrow> addr list \<Rightarrow> bool" where
  "free_list s t xs \<longleftrightarrow> chain s xs \<and> t_free_slots (tasks s t) = hd0 xs 0 \<and>
     t_free_slots_count (tasks s t) = of_nat (length xs) \<and>
     (\<forall>x\<in>set xs. cap_at s x = NullCap \<and> slot_task s x = t)"

definition task_ok :: "kstate \<Rightarrow> addr \<Rightarrow> bool" where
  "task_ok s t \<longleftrightarrow> t \<noteq> 0 \<and> lock_free_for s t \<and> t_state (tasks s t) \<noteq> unused"

lemma slot_ok_task: "slot_ok s x \<longleftrightarrow> task_ok s (slot_task s x)"
  by (simp add: slot_ok_def task_ok_def)

text \<open>
  A change of the state that touches slots and the free-list fields of one task only: the
  states agree once these are blanked out.
\<close>

definition blank_pool :: "addr \<Rightarrow> kstate \<Rightarrow> kstate" where
  "blank_pool t s = s\<lparr>slots := (\<lambda>_. zero_slot),
     tasks := (tasks s)(t := (tasks s t)\<lparr>t_free_slots := 0, t_free_slots_count := 0\<rparr>)\<rparr>"

definition same_but_pool :: "addr \<Rightarrow> kstate \<Rightarrow> kstate \<Rightarrow> bool" where
  "same_but_pool t s s' \<longleftrightarrow> blank_pool t s' = blank_pool t s"

lemma blank_pool_simps:
  "spaces (blank_pool t s) = spaces s" "tables (blank_pool t s) = tables s"
  "endpoints (blank_pool t s) = endpoints s" "mem (blank_pool t s) = mem s"
  "ready_queue (blank_pool t s) = ready_queue s" "current_task (blank_pool t s) = current_task s"
  "idle_task (blank_pool t s) = idle_task s" "errno (blank_pool t s) = errno s"
  "cur_tid (blank_pool t s) = cur_tid s"
  "t_state (tasks (blank_pool t s) u) = t_state (tasks s u)"
  "t_root_page_table (tasks (blank_pool t s) u) = t_root_page_table (tasks s u)"
  "t_num_cap_space (tasks (blank_pool t s) u) = t_num_cap_space (tasks s u)"
  "t_num_extension (tasks (blank_pool t s) u) = t_num_extension (tasks s u)"
  "t_lock (tasks (blank_pool t s) u) = t_lock (tasks s u)"
  "t_tid (tasks (blank_pool t s) u) = t_tid (tasks s u)"
  "u \<noteq> t \<Longrightarrow> tasks (blank_pool t s) u = tasks s u"
  "t_context (tasks (blank_pool t s) u) = t_context (tasks s u)"
  by (auto simp: blank_pool_def)

lemma same_but_poolD:
  assumes "same_but_pool t s s'"
  shows "spaces s' = spaces s" "tables s' = tables s" "endpoints s' = endpoints s" "mem s' = mem s"
    "ready_queue s' = ready_queue s" "current_task s' = current_task s" "idle_task s' = idle_task s"
    "errno s' = errno s" "cur_tid s' = cur_tid s"
    "t_state (tasks s' u) = t_state (tasks s u)"
    "t_root_page_table (tasks s' u) = t_root_page_table (tasks s u)"
    "t_num_cap_space (tasks s' u) = t_num_cap_space (tasks s u)"
    "t_num_extension (tasks s' u) = t_num_extension (tasks s u)"
    "t_lock (tasks s' u) = t_lock (tasks s u)" "t_tid (tasks s' u) = t_tid (tasks s u)"
    "u \<noteq> t \<Longrightarrow> tasks s' u = tasks s u"
  using assms unfolding same_but_pool_def by (metis blank_pool_simps)+

lemma same_but_pool_context: "same_but_pool t s s' \<Longrightarrow> t_context (tasks s' u) = t_context (tasks s u)"
  unfolding same_but_pool_def by (metis blank_pool_simps(17))

lemma same_but_pool_ok:
  assumes "same_but_pool t s s'"
  shows "slot_task s' = slot_task s" "current_tid s' = current_tid s"
    "lock_free_for s' = lock_free_for s" "task_ok s' = task_ok s" "slot_ok s' = slot_ok s"
proof -
  note d = same_but_poolD [OF assms]
  show st: "slot_task s' = slot_task s" by (auto simp: slot_task_def d)
  show ct: "current_tid s' = current_tid s" by (auto simp: current_tid_def d)
  show lf: "lock_free_for s' = lock_free_for s" by (auto simp: lock_free_for_def d ct)
  show tk: "task_ok s' = task_ok s" by (auto simp: task_ok_def d lf)
  show "slot_ok s' = slot_ok s" by (auto simp: slot_ok_task tk st)
qed

lemma same_but_links_pool: "same_but_links s s' \<Longrightarrow> same_but_pool t s s'"
  by (auto simp: same_but_links_def same_but_pool_def blank_pool_def)

lemma same_but_pool_refl [simp]: "same_but_pool t s s"
  by (simp add: same_but_pool_def)

lemma same_but_pool_trans [trans]:
  "same_but_pool t s s' \<Longrightarrow> same_but_pool t s' s'' \<Longrightarrow> same_but_pool t s s''"
  by (simp add: same_but_pool_def)

lemma same_but_pool_upd:
  "same_but_pool t s s' \<Longrightarrow> same_but_pool t s (set_cap a c s')"
  "same_but_pool t s s' \<Longrightarrow>
    same_but_pool t s (upd_task t (\<lambda>t. t\<lparr>t_free_slots := p t, t_free_slots_count := n t\<rparr>) s')"
  by (simp_all add: same_but_pool_def blank_pool_def set_cap_def upd_task_def)

lemma length_less_addr: "chain s xs \<Longrightarrow> length xs < 2 ^ 64"
proof -
  assume c: "chain s xs"
  have "card (set xs) \<le> card (UNIV - {0 :: addr})"
    using chain_null [OF c] by (intro card_mono) auto
  also have "\<dots> = 2 ^ 64 - 1" by (simp add: card_Diff_singleton card_word)
  finally show ?thesis using distinct_card [OF chain_distinct [OF c]] by simp
qed

lemma free_list_count: "free_list s t xs \<Longrightarrow> unat (t_free_slots_count (tasks s t)) = length xs"
  using length_less_addr [of s xs] by (simp add: free_list_def unsigned_of_nat take_bit_nat_eq_self)

lemma free_listD:
  assumes "free_list s t xs"
  shows "chain s xs" "t_free_slots (tasks s t) = hd0 xs 0"
    "x \<in> set xs \<Longrightarrow> cap_at s x = NullCap" "x \<in> set xs \<Longrightarrow> slot_task s x = t"
  using assms by (simp_all add: free_list_def)

lemma pop_free_slots_Nil:
  assumes "free_list s t []" "t \<noteq> 0" "lock_free_for s t"
  shows "pop_free_slots t s = Some (0, s\<lparr>errno := SYS_E_OUT_OF_CAP_SPACE\<rparr>)"
  using assms by (simp add: pop_free_slots_def free_list_def)

lemma pop_free_slots_Cons:
  assumes f: "free_list s t (x # xs)" and ok: "task_ok s t"
  obtains s' where "pop_free_slots t s = Some (x, s')" "free_list s' t xs" "chain s' [x]"
    "cap_at s' = cap_at s" "same_but_pool t s s'" "links_outside (set (x # xs)) s s'"
proof -
  note c = free_listD(1) [OF f]
  have x: "x \<noteq> 0" "t_free_slots (tasks s t) = x" "slot_task s x = t" "slot_ok s x"
    using f chain_null [OF c] ok by (auto simp: free_list_def slot_ok_task)
  obtain s1 where s1: "erase_this x s = Some (hd0 xs 0, s1)" "chain s1 xs" "chain s1 [x]"
    "same_but_links s s1" "links_outside (set (x # xs)) s s1"
    using erase_this_chain [of s "[]" x xs] c x(4) by auto
  define s' where "s' = upd_task t (\<lambda>t. t\<lparr>t_free_slots := hd0 xs 0,
    t_free_slots_count := t_free_slots_count t - 1\<rparr>) s1"
  have "pop_free_slots t s = Some (x, s')"
    using ok x s1(1) by (simp add: pop_free_slots_def task_ok_def s'_def)
  moreover have sp: "same_but_pool t s s'"
    unfolding s'_def by (intro same_but_pool_upd same_but_links_pool s1(4))
  moreover have "cap_at s' = cap_at s" using s1(4) by (auto simp: s'_def)
  moreover have "free_list s' t xs"
    using f s1(2) \<open>cap_at s' = cap_at s\<close> same_but_pool_ok(1) [OF sp]
    by (simp add: free_list_def s'_def same_but_linksD(3) [OF s1(4)])
  moreover have "chain s' [x]" "links_outside (set (x # xs)) s s'"
    using s1(3,5) by (auto simp: s'_def links_outside_def)
  ultimately show ?thesis using that by blast
qed

lemma free_list_other_chain:
  assumes "free_list s t xs" "chain s (as @ x # bs)" "x \<notin> set xs"
  shows "set (as @ x # bs) \<inter> set xs = {}"
proof -
  have "as @ x # bs \<noteq> xs" using assms(3) by auto
  then show ?thesis by (rule chain_disjoint [OF assms(2) free_listD(1) [OF assms(1)]])
qed

lemma free_list_frame:
  assumes "free_list s t xs" "links_outside A s s'" "A \<inter> set xs = {}" "cap_at s' = cap_at s"
    "slot_task s' = slot_task s" "tasks s' t = tasks s t"
  shows "free_list s' t xs"
  using assms links_outside_chain [OF assms(2)] by (simp add: free_list_def)

lemma push_free_slots_chain:
  assumes c: "chain s (as @ x # bs)" and f: "free_list s t xs" and x: "x \<notin> set xs"
    and ok: "task_ok s t" and st: "slot_task s x = t"
  obtains s' where "push_free_slots t x s = Some s'" "free_list s' t (x # xs)"
    "chain s' (as @ bs)" "cap_at s' = (cap_at s)(x := NullCap)" "same_but_pool t s s'"
    "links_outside (set (as @ x # bs) \<union> set xs) s s'"
proof -
  have x0: "x \<noteq> 0" using chain_null [OF c] by auto
  have xok: "slot_ok s x" using ok st by (simp add: slot_ok_task)
  note dj = free_list_other_chain [OF f c x]
  obtain r s1 where s1: "erase_this x s = Some (r, s1)" "chain s1 (as @ bs)" "chain s1 [x]"
    "same_but_links s s1" "links_outside (set (as @ x # bs)) s s1"
    using erase_this_chain [OF c xok] by blast
  let ?s2 = "set_cap x NullCap s1"
  have t1: "tasks s1 = tasks s" "slot_ok s1 = slot_ok s" "cap_at s1 = cap_at s"
    using s1(4) same_but_pool_ok(5) [OF same_but_links_pool [OF s1(4)]] by auto
  have xs1: "chain ?s2 xs"
    using links_outside_chain [OF s1(5) free_listD(1) [OF f] dj] by simp
  obtain s3 where s3: "(if hd0 xs 0 \<noteq> 0 then insert_before (hd0 xs 0) x ?s2 else Some ?s2) = Some s3"
    "chain s3 (x # xs)" "chain s3 (as @ bs)" "same_but_links ?s2 s3"
    "links_outside (insert x (set xs)) ?s2 s3"
  proof (cases xs)
    case Nil
    with s1 show ?thesis by (intro that [of ?s2]) (simp_all add: links_outside_def)
  next
    case (Cons y ys)
    have "x \<notin> set ([] @ y # ys)" using x Cons by simp
    with insert_before_chain [of ?s2 "[]" y ys x] xs1 s1(3) xok Cons t1(2)
    obtain s3 where s3: "insert_before y x ?s2 = Some s3" "chain s3 (x # y # ys)"
      "same_but_links ?s2 s3" "links_outside (insert x (set (y # ys))) ?s2 s3"
      by (metis append_Nil slot_ok_upd(1) chain_frame(1))
    have "insert x (set (y # ys)) \<inter> set (as @ bs) = {}"
      using dj chain_distinct [OF c] Cons by auto
    with links_outside_chain [OF s3(4)] s1(2) have "chain s3 (as @ bs)" by simp
    with s3 Cons chain_null [OF xs1] show ?thesis by (intro that [of s3]) simp_all
  qed
  let ?s' = "upd_task t (\<lambda>t. t\<lparr>t_free_slots := x, t_free_slots_count := t_free_slots_count t + 1\<rparr>) s3"
  have t3: "tasks s3 = tasks s" "cap_at s3 = (cap_at s)(x := NullCap)"
    using same_but_linksD [OF s3(4)] t1 by auto
  have sp: "same_but_pool t s ?s'"
    by (rule same_but_pool_upd(2) [OF same_but_pool_trans [OF
          same_but_pool_upd(1) [OF same_but_links_pool [OF s1(4)]] same_but_links_pool [OF s3(4)]]])
  have "push_free_slots t x s = Some ?s'"
    using ok st x0 xok s1(1) s3(1) t1(1) free_listD(2) [OF f]
    by (simp add: push_free_slots_def task_ok_def make_null_cap_def split: if_splits)
  moreover have "free_list ?s' t (x # xs)"
    using f s3(2) st t3 same_but_pool_ok(1) [OF sp] by (auto simp: free_list_def)
  moreover have "links_outside (set (as @ x # bs) \<union> set xs) s ?s'"
    using s1(5) s3(5) by (auto simp: links_outside_def)
  ultimately show ?thesis using that [of ?s'] s3(3) t3(2) sp by simp
qed

lemma insert_cap_Cons:
  assumes f: "free_list s t (x # xs)" and ok: "task_ok s t" "t_state (tasks s t) \<noteq> killed"
  obtains s' where "insert_cap t c s = Some (x, s')" "free_list s' t xs" "chain s' [x]"
    "cap_at s' = (cap_at s)(x := c)" "same_but_pool t s s'" "links_outside (set (x # xs)) s s'"
proof -
  from pop_free_slots_Cons [OF f ok(1)]
  obtain s1 where s1: "pop_free_slots t s = Some (x, s1)" "free_list s1 t xs" "chain s1 [x]"
    "cap_at s1 = cap_at s" "same_but_pool t s s1" "links_outside (set (x # xs)) s s1" .
  let ?s' = "set_cap x c s1"
  have x: "x \<noteq> 0" "x \<notin> set xs"
    using chain_null [OF free_listD(1) [OF f]] chain_distinct [OF free_listD(1) [OF f]] by auto
  have "insert_cap t c s = Some (x, ?s')"
    using ok x s1(1) by (simp add: insert_cap_def task_ok_def)
  moreover have "free_list ?s' t xs" using s1(2) x by (auto simp: free_list_def)
  moreover have "same_but_pool t s ?s'" using s1(5) by (rule same_but_pool_upd)
  ultimately show ?thesis using that s1(3,4,6) by (auto simp: links_outside_def)
qed

subsection \<open>Interface: a stack of slots\<close>

text \<open>
  What the users of free slots rely on: a push that succeeds on top, a pop that takes the top,
  and null from an empty stack. \<open>ok\<close> is the owner's readiness, kept by every operation.
\<close>

locale slot_stack =
  fixes stack :: "'s \<Rightarrow> addr \<Rightarrow> addr list \<Rightarrow> bool"
    and ok :: "'s \<Rightarrow> addr \<Rightarrow> bool"
    and may_push :: "'s \<Rightarrow> addr \<Rightarrow> addr \<Rightarrow> addr list \<Rightarrow> bool"
    and push :: "addr \<Rightarrow> addr \<Rightarrow> 's \<Rightarrow> 's option"
    and pop :: "addr \<Rightarrow> 's \<Rightarrow> (addr \<times> 's) option"
  assumes push_law: "stack s t xs \<Longrightarrow> ok s t \<Longrightarrow> may_push s t x xs \<Longrightarrow>
      \<exists>s'. push t x s = Some s' \<and> stack s' t (x # xs) \<and> ok s' t"
    and pop_law: "stack s t (x # xs) \<Longrightarrow> ok s t \<Longrightarrow>
      \<exists>s'. pop t s = Some (x, s') \<and> stack s' t xs \<and> ok s' t"
    and pop_empty: "stack s t [] \<Longrightarrow> ok s t \<Longrightarrow> \<exists>s'. pop t s = Some (0, s') \<and> stack s' t [] \<and> ok s' t"
begin

primrec pops :: "nat \<Rightarrow> addr \<Rightarrow> 's \<Rightarrow> (addr list \<times> 's) option" where
  "pops 0 t s = Some ([], s)"
| "pops (Suc n) t s = do { (x, s) \<leftarrow> pop t s; (xs, s) \<leftarrow> pops n t s; Some (x # xs, s) }"

lemma push_pop:
  assumes "stack s t xs" "ok s t" "may_push s t x xs"
  shows "\<exists>s' s''. push t x s = Some s' \<and> pop t s' = Some (x, s'') \<and> stack s'' t xs \<and> ok s'' t"
  using push_law [OF assms] pop_law by blast

lemma pops_all:
  assumes "stack s t (xs @ ys)" "ok s t"
  shows "\<exists>s'. pops (length xs) t s = Some (xs, s') \<and> stack s' t ys \<and> ok s' t"
  using assms
proof (induction xs arbitrary: s)
  case Nil
  then show ?case by simp
next
  case (Cons x xs)
  then obtain s1 where "pop t s = Some (x, s1)" "stack s1 t (xs @ ys)" "ok s1 t"
    using pop_law [of s t x "xs @ ys"] by auto
  with Cons.IH [of s1] show ?case by auto
qed

lemma pops_exhaust:
  assumes "stack s t xs" "ok s t"
  shows "\<exists>s'. pops (Suc (length xs)) t s = Some (xs @ [0], s') \<and> stack s' t []"
  using assms
proof (induction xs arbitrary: s)
  case Nil
  then show ?case using pop_empty [of s t] by auto
next
  case (Cons x xs)
  then obtain s1 where s1: "pop t s = Some (x, s1)" "stack s1 t xs" "ok s1 t"
    using pop_law [of s t x xs] by auto
  with Cons.IH obtain s2 where "pops (Suc (length xs)) t s1 = Some (xs @ [0], s2)" "stack s2 t []"
    by blast
  with s1(1) show ?case by (simp del: pops.simps add: pops.simps(2) [of "Suc (length xs)"])
qed

end

definition may_push_free :: "kstate \<Rightarrow> addr \<Rightarrow> addr \<Rightarrow> addr list \<Rightarrow> bool" where
  "may_push_free s t x xs \<longleftrightarrow> (\<exists>as bs. chain s (as @ x # bs)) \<and> x \<notin> set xs \<and> slot_task s x = t"

interpretation fs: slot_stack free_list task_ok may_push_free push_free_slots pop_free_slots
proof
  fix s t xs x
  assume "free_list s t xs" "task_ok s t" "may_push_free s t x xs"
  then show "\<exists>s'. push_free_slots t x s = Some s' \<and> free_list s' t (x # xs) \<and> task_ok s' t"
    unfolding may_push_free_def using push_free_slots_chain same_but_pool_ok(4) by metis
next
  fix s t x xs
  assume "free_list s t (x # xs)" "task_ok s t"
  then show "\<exists>s'. pop_free_slots t s = Some (x, s') \<and> free_list s' t xs \<and> task_ok s' t"
    using pop_free_slots_Cons same_but_pool_ok(4) by metis
next
  fix s t
  assume "free_list s t []" "task_ok s t"
  then show "\<exists>s'. pop_free_slots t s = Some (0, s') \<and> free_list s' t [] \<and> task_ok s' t"
    using pop_free_slots_Nil [of s t] by (auto simp: task_ok_def free_list_def)
qed

subsection \<open>Properties\<close>

text \<open>Three free slots of the running task.\<close>

definition demo_free :: kstate where
  "demo_free = upd_task 0x2000 (\<lambda>t. t\<lparr>t_free_slots := 0x1040, t_free_slots_count := 2\<rparr>) demo_pair"

lemma demo_free_list: "free_list demo_free 0x2000 [0x1040, 0x1068]"
  using demo_pair_chain(1)
  by (simp add: free_list_def demo_free_def slot_task_def) (simp add: demo_pair_def)

lemma demo_free_ok:
  "task_ok demo_free 0x2000" "slot_task demo_free 0x1090 = 0x2000" "chain demo_free [0x1090]"
  "t_state (tasks demo_free 0x2000) = running"
  using demo_pair_chain(2)
  by (simp_all add: demo_free_def demo_pair_def task_ok_def lock_free_for_def current_tid_def
      slot_task_def zero_task_def free_lock_def rlock_def)

text \<open>
  The free slots are a stack. Pushing a slot of the task that is not free yet and popping
  again returns that slot and the same free list, with \<^verbatim>\<open>free_slots_count\<close> its length
  before and after.
\<close>

theorem push_pop_free_slots:
  assumes "free_list s t xs" "task_ok s t" "chain s (as @ x # bs)" "x \<notin> set xs" "slot_task s x = t"
  shows "\<exists>s' s''. push_free_slots t x s = Some s' \<and> pop_free_slots t s' = Some (x, s'') \<and>
    free_list s'' t xs \<and> unat (t_free_slots_count (tasks s' t)) = length xs + 1 \<and>
    t_free_slots_count (tasks s'' t) = t_free_slots_count (tasks s t)"
proof -
  have mp: "may_push_free s t x xs" using assms(3-5) by (auto simp: may_push_free_def)
  obtain s' s'' where s: "push_free_slots t x s = Some s'" "pop_free_slots t s' = Some (x, s'')"
    "free_list s'' t xs" using fs.push_pop [OF assms(1,2) mp] by blast
  moreover have "free_list s' t (x # xs)" using fs.push_law [OF assms(1,2) mp] s(1) by auto
  then have "unat (t_free_slots_count (tasks s' t)) = length xs + 1"
    using free_list_count by fastforce
  moreover have "t_free_slots_count (tasks s'' t) = t_free_slots_count (tasks s t)"
    using s(3) assms(1) by (simp add: free_list_def)
  ultimately show ?thesis by blast
qed

theorem push_pop_free_slots_witness:
  "\<exists>s' s''. push_free_slots 0x2000 0x1090 demo_free = Some s' \<and>
     pop_free_slots 0x2000 s' = Some (0x1090, s'') \<and> free_list s'' 0x2000 [0x1040, 0x1068]"
  using push_pop_free_slots [OF demo_free_list demo_free_ok(1), of "[]" "0x1090" "[]"] demo_free_ok
  by auto

text \<open>
  The free list hands out all of its slots, in order, and then null: popping once more
  than there are free slots returns each of them once and then the null pointer.
\<close>

theorem pop_free_slots_exhaust:
  assumes "free_list s t xs" "task_ok s t"
  shows "\<exists>s'. fs.pops (Suc (length xs)) t s = Some (xs @ [0], s') \<and> free_list s' t []"
  using assms by (rule fs.pops_exhaust)

theorem pop_free_slots_exhaust_witness:
  "\<exists>s'. fs.pops 3 0x2000 demo_free = Some ([0x1040, 0x1068, 0], s') \<and> free_list s' 0x2000 []"
  using pop_free_slots_exhaust [OF demo_free_list demo_free_ok(1)]
  by (simp add: numeral_3_eq_3 del: fs.pops.simps)

text \<open>
  \<^verbatim>\<open>insert_cap\<close> on every branch. It refuses an unused or killed task, reports
  \<^verbatim>\<open>SYS_E_OUT_OF_CAP_SPACE\<close> when nothing is free, and otherwise stores the capability in
  the first free slot, isolated and off the free list, touching no other capability.
\<close>

theorem insert_cap_cases:
  assumes "free_list s t xs" "t \<noteq> 0" "lock_free_for s t"
  shows "(t_state (tasks s t) \<in> {unused, killed} \<longrightarrow>
      insert_cap t c s = Some (0, s\<lparr>errno := SYS_E_ILL_STATE\<rparr>)) \<and>
    (t_state (tasks s t) \<notin> {unused, killed} \<longrightarrow>
      (case xs of
         [] \<Rightarrow> insert_cap t c s = Some (0, s\<lparr>errno := SYS_E_OUT_OF_CAP_SPACE\<rparr>)
       | x # xs' \<Rightarrow> \<exists>s'. insert_cap t c s = Some (x, s') \<and> free_list s' t xs' \<and>
           is_isolated s' x \<and> cap_at s' = (cap_at s)(x := c) \<and> errno s' = errno s))"
proof (cases xs)
  case Nil
  with assms pop_free_slots_Nil [of s t] show ?thesis by (auto simp: insert_cap_def)
next
  case (Cons x xs')
  have "\<exists>s'. insert_cap t c s = Some (x, s') \<and> free_list s' t xs' \<and>
      is_isolated s' x \<and> cap_at s' = (cap_at s)(x := c) \<and> errno s' = errno s"
    if "t_state (tasks s t) \<notin> {unused, killed}"
  proof -
    from insert_cap_Cons [of s t x xs' c] assms that Cons
    obtain s' where "insert_cap t c s = Some (x, s')" "free_list s' t xs'" "chain s' [x]"
      "cap_at s' = (cap_at s)(x := c)" "same_but_pool t s s'"
      by (auto simp: task_ok_def)
    then show ?thesis using same_but_poolD(8) by (auto simp: chain_single)
  qed
  with assms Cons show ?thesis by (auto simp: insert_cap_def)
qed

theorem insert_cap_cases_witness:
  "\<exists>s'. insert_cap 0x2000 ZombieCap demo_free = Some (0x1040, s') \<and> free_list s' 0x2000 [0x1068] \<and>
     cap_at s' 0x1040 = ZombieCap"
  using insert_cap_cases [OF demo_free_list, of ZombieCap] demo_free_ok
  by (auto simp: task_ok_def)

end
