(* ===== verification/Cap_Space.thy ===== *)
theory Cap_Space
  imports Free_Slots
begin

text \<open>
  Capability spaces (\<^verbatim>\<open>src/kernel/cap_space.cpp\<close>): pages of 101 slots that a task's page
  table maps, one after the other, into the capability area of its address space. A
  capability descriptor is the number of a slot in this area. The theory has the walks through
  the page table, \<^verbatim>\<open>insert_cap_space\<close>, \<^verbatim>\<open>extend_cap_space\<close>, \<^verbatim>\<open>lookup_cap\<close>,
  \<^verbatim>\<open>get_cap_slot_index\<close> and \<^verbatim>\<open>is_same_cap\<close>; the lemmas show that descriptors and slots
  correspond, and what a new capability space adds.
\<close>

subsection \<open>Page table walks\<close>

text \<open>
  The loop over the levels of a page table, as the list of levels it runs through.
  \<open>walk_enabled\<close> asserts every entry to be enabled, \<open>walk_check\<close> returns null (0) at a
  disabled one.
\<close>

primrec walk_enabled :: "addr \<Rightarrow> addr \<Rightarrow> nat list \<Rightarrow> kstate \<Rightarrow> addr option" where
  "walk_enabled page_table va [] s = Some page_table"
| "walk_enabled page_table va (level # levels) s = do {
     cassert (page_table \<noteq> 0);
     i \<leftarrow> walk va level;
     cassert (is_enabled (tables s page_table i));
     walk_enabled (get_next_page (tables s page_table i)) va levels s
   }"

primrec walk_check :: "addr \<Rightarrow> addr \<Rightarrow> nat list \<Rightarrow> kstate \<Rightarrow> addr option" where
  "walk_check page_table va [] s = Some page_table"
| "walk_check page_table va (level # levels) s = do {
     cassert (page_table \<noteq> 0);
     i \<leftarrow> walk va level;
     if is_disabled (tables s page_table i) then Some 0
     else walk_check (get_next_page (tables s page_table i)) va levels s
   }"

declare walk_enabled.simps [simp del] walk_check.simps [simp del]

lemma walk_check_cong: "tables s' = tables s \<Longrightarrow> walk_check r va ls s' = walk_check r va ls s"
  and walk_enabled_cong: "tables s' = tables s \<Longrightarrow> walk_enabled r va ls s' = walk_enabled r va ls s"
  by (induction ls arbitrary: r) (simp_all add: walk_check.simps walk_enabled.simps cong: if_cong)

definition levels_down :: "nat \<Rightarrow> nat list" where
  "levels_down stop = rev [stop..<Suc MAX_PAGE_TABLE_LEVEL]"

lemma levels_down_simps [simp]:
  "levels_down KILO_PAGE_TABLE_LEVEL = [2, 1, 0]" "levels_down MEGA_PAGE_TABLE_LEVEL = [2, 1]"
  "levels_down GIGA_PAGE_TABLE_LEVEL = [2]" "levels_down 0 = [2, 1, 0]" "levels_down (Suc 0) = [2, 1]"
  "levels_down 2 = [2]"
  by (simp_all add: levels_down_def upt_rec)

subsection \<open>Operations\<close>

definition cap_space_flags :: pte_flags_t where
  "cap_space_flags = \<lparr>fl_readable = True, fl_writable = True, fl_executable = False,
     fl_user = False, fl_global = False\<rparr>"

primrec push_slots :: "addr \<Rightarrow> addr list \<Rightarrow> kstate \<Rightarrow> kstate option" where
  "push_slots task [] s = Some s"
| "push_slots task (x # xs) s = do { s \<leftarrow> push_free_slots task x s; push_slots task xs s }"

definition cap_space_slots :: "addr \<Rightarrow> nat \<Rightarrow> addr list" where
  "cap_space_slots cap_space first = map (\<lambda>i. slot_addr cap_space (of_nat i)) [first..<unat NUM_SLOTS]"

definition insert_cap_space :: "addr \<Rightarrow> addr \<Rightarrow> kstate \<Rightarrow> (bool \<times> kstate) option" where
  "insert_cap_space task cap_space s = do {
     cassert (task \<noteq> 0);
     cassert (cap_space \<noteq> 0);
     guard_task task s;
     let n = t_num_cap_space (tasks s task);
     if ucast n div NUM_PAGE_TABLE_ENTRY > ucast (t_num_extension (tasks s task))
     then Some (False, s\<lparr>errno := SYS_E_ILL_STATE\<rparr>)
     else do {
       let va = CONFIG_CAPABILITY_SPACE_BASE + PAGE_SIZE * ucast n;
       page_table \<leftarrow> walk_enabled (t_root_page_table (tasks s task)) va (levels_down MEGA_PAGE_TABLE_LEVEL) s;
       cassert (page_table \<noteq> 0);
       i \<leftarrow> walk va KILO_PAGE_TABLE_LEVEL;
       cassert (is_disabled (tables s page_table i));
       let s = upd_pte page_table i (\<lambda>pte. enable (set_flags cap_space_flags (set_next_page cap_space pte))) s;
       let s = (if n = 0
         then let a = slot_addr cap_space 0 in set_prv a 0 (set_nxt a 0 (set_cap a make_null_cap s))
         else s);
       let s = s\<lparr>spaces := (spaces s)(cap_space :=
         \<lparr>meta_map = cap_space, meta_task = task, meta_space_index = ucast n\<rparr>)\<rparr>;
       s \<leftarrow> push_slots task (rev (cap_space_slots cap_space (if n = 0 then 1 else 0))) s;
       Some (True, upd_task task (\<lambda>t. t\<lparr>t_num_cap_space := t_num_cap_space t + 1\<rparr>) s)
     }
   }"

definition extend_cap_space :: "addr \<Rightarrow> addr \<Rightarrow> kstate \<Rightarrow> (addr \<times> kstate) option" where
  "extend_cap_space task page s = do {
     guard_task task s;
     let ext = t_num_extension (tasks s task);
     if ucast ext = NUM_PAGE_TABLE_ENTRY - 1 then Some (0, s\<lparr>errno := SYS_E_ILL_STATE\<rparr>)
     else do {
       let va = CONFIG_CAPABILITY_SPACE_BASE + PAGE_SIZE * NUM_PAGE_TABLE_ENTRY * ucast ext;
       page_table \<leftarrow> walk_enabled (t_root_page_table (tasks s task)) va (levels_down GIGA_PAGE_TABLE_LEVEL) s;
       cassert (page_table \<noteq> 0);
       i \<leftarrow> walk va MEGA_PAGE_TABLE_LEVEL;
       cassert (is_disabled (tables s page_table i));
       let s = upd_pte page_table i (\<lambda>pte. enable (set_next_page page (set_flags no_flags pte))) s;
       Some (va, upd_task task (\<lambda>t. t\<lparr>t_num_extension := t_num_extension t + 1\<rparr>) s)
     }
   }"

definition lookup_cap :: "addr \<Rightarrow> u64 \<Rightarrow> kstate \<Rightarrow> (addr \<times> kstate) option" where
  "lookup_cap task cap_desc s = do {
     guard_task task s;
     if t_state (tasks s task) = unused \<or> t_state (tasks s task) = killed
     then Some (0, s\<lparr>errno := SYS_E_ILL_STATE\<rparr>)
     else if cap_desc \<ge> ucast (t_num_cap_space (tasks s task)) * NUM_SLOTS
     then Some (0, s\<lparr>errno := SYS_E_ILL_ARGS\<rparr>)
     else do {
       let space_index = cap_desc div NUM_SLOTS;
       let slot_index = cap_desc mod NUM_SLOTS;
       let va = CONFIG_CAPABILITY_SPACE_BASE + PAGE_SIZE * space_index;
       cap_space \<leftarrow> walk_check (t_root_page_table (tasks s task)) va (levels_down KILO_PAGE_TABLE_LEVEL) s;
       if cap_space = 0 then Some (0, s\<lparr>errno := SYS_E_ILL_STATE\<rparr>)
       else if get_cap_type (cap_at s (slot_addr cap_space slot_index)) = CAP_NULL
       then Some (0, s\<lparr>errno := SYS_S_OK\<rparr>)
       else Some (slot_addr cap_space slot_index, s)
     }
   }"

definition get_cap_slot_index :: "addr \<Rightarrow> kstate \<Rightarrow> u64 option" where
  "get_cap_slot_index cap_slot s = do {
     cassert (cap_slot \<noteq> 0);
     let cap_space = get_cap_space cap_slot;
     let space_index = meta_space_index (spaces s cap_space);
     let slot_index = (cap_slot - (cap_space + SLOT_OFFSET)) div SLOT_SIZE;
     Some (NUM_SLOTS * space_index + slot_index)
   }"

definition is_same_cap :: "addr \<Rightarrow> addr \<Rightarrow> kstate \<Rightarrow> bool option" where
  "is_same_cap lhs rhs s = do {
     cassert (lhs \<noteq> 0);
     cassert (rhs \<noteq> 0);
     Some (get_cap_type (cap_at s lhs) = get_cap_type (cap_at s rhs) \<and>
       (case (cap_at s lhs, cap_at s rhs) of
          (TaskCap t, TaskCap u) \<Rightarrow> tc_task t = tc_task u
        | (EndpointCap e, EndpointCap f) \<Rightarrow> ec_endpoint e = ec_endpoint f
        | (IdCap i, IdCap j) \<Rightarrow> id_val1 i = id_val1 j \<and> id_val2 i = id_val2 j \<and> id_val3 i = id_val3 j
        | _ \<Rightarrow> False))
   }"

subsection \<open>Slots of a page\<close>

text \<open>A page: its address is a multiple of 4096 and not null.\<close>

definition is_page :: "addr \<Rightarrow> bool" where
  "is_page p \<longleftrightarrow> p \<noteq> 0 \<and> 4096 dvd unat p"

lemma page_bound: "is_page p \<Longrightarrow> unat p + 4096 \<le> 2 ^ 64"
proof -
  assume "is_page p"
  then obtain k where k: "unat p = 4096 * k" by (auto simp: is_page_def)
  with unat_u64_less [of p] have "k < 2 ^ 52" by simp
  with k show ?thesis by simp
qed

lemma unat_slot_addr:
  assumes "is_page p" "i < 101"
  shows "unat (slot_addr p (of_nat i)) = unat p + 24 + 40 * i"
proof -
  have "slot_addr p (of_nat i) = of_nat (unat p + 24 + 40 * i)"
    by (simp add: slot_addr_def SLOT_OFFSET_def SLOT_SIZE_def)
  moreover have "unat p + 24 + 40 * i < 2 ^ 64" using page_bound [OF assms(1)] assms(2) by linarith
  ultimately show ?thesis by (simp only: unat_of_nat_u64)
qed

lemma get_cap_space_slot:
  assumes "is_page p" "i < 101"
  shows "get_cap_space (slot_addr p (of_nat i)) = p"
proof -
  obtain k where k: "unat p = 4096 * k" using assms(1) by (auto simp: is_page_def)
  have "unat (get_cap_space (slot_addr p (of_nat i))) = (4096 * k + 24 + 40 * i) div 4096 * 4096"
    using unat_slot_addr [OF assms] k by (simp add: get_cap_space_def unat_round_down)
  also have "(4096 * k + 24 + 40 * i) div 4096 = k" using assms(2) by simp
  finally show ?thesis using k by (intro word_unatI) simp
qed

lemma slot_addr_inj:
  assumes "is_page p" "is_page q" "i < 101" "j < 101"
  shows "slot_addr p (of_nat i) = slot_addr q (of_nat j) \<longleftrightarrow> p = q \<and> i = j"
proof
  assume e: "slot_addr p (of_nat i) = slot_addr q (of_nat j)"
  from arg_cong [OF this, of get_cap_space] have "p = q"
    by (simp only: get_cap_space_slot [OF assms(1,3)] get_cap_space_slot [OF assms(2,4)])
  moreover have "i = j"
    using arg_cong [OF e, of unat] unat_slot_addr [OF assms(1,3)] unat_slot_addr [OF assms(2,4)]
      arg_cong [OF \<open>p = q\<close>, of unat] by linarith
  ultimately show "p = q \<and> i = j" ..
qed simp

lemma slot_addr_nonnull: "is_page p \<Longrightarrow> i < 101 \<Longrightarrow> slot_addr p (of_nat i) \<noteq> 0"
  using unat_slot_addr [of p i] by auto

lemma cap_space_slots_props:
  assumes "is_page p"
  shows "distinct (cap_space_slots p first)"
    "x \<in> set (cap_space_slots p first) \<Longrightarrow> x \<noteq> 0 \<and> get_cap_space x = p"
  using slot_addr_inj [OF assms assms] slot_addr_nonnull [OF assms] get_cap_space_slot [OF assms]
  by (auto simp: cap_space_slots_def distinct_map inj_on_def)

lemma index_of_slot:
  assumes "is_page p" "i < 101"
  shows "get_cap_slot_index (slot_addr p (of_nat i)) s =
    Some (101 * meta_space_index (spaces s p) + of_nat i)"
proof -
  have "unat ((of_nat (40 * i) :: u64) div 40) = unat (of_nat i :: u64)"
    using assms(2) unat_of_nat_u64 [of "40 * i"] unat_of_nat_u64 [of i] by (simp add: unat_div)
  then have "(40 * of_nat i :: u64) div 40 = of_nat i"
    by (intro word_unatI) simp
  then show ?thesis
    using slot_addr_nonnull [OF assms] get_cap_space_slot [OF assms]
    by (simp add: get_cap_slot_index_def slot_addr_def SLOT_OFFSET_def SLOT_SIZE_def)
qed

subsection \<open>Addresses of capability spaces\<close>

lemma unat_ucast_18 [simp]: "unat (ucast (w :: 18 word) :: u64) = unat w"
  by (simp add: unsigned_ucast_eq take_bit_nat_eq_self unsigned_less [THEN less_trans])

lemma unat_ucast_9 [simp]: "unat (ucast (w :: 9 word) :: u64) = unat w"
  by (simp add: unsigned_ucast_eq take_bit_nat_eq_self unsigned_less [THEN less_trans])

lemma unat_18_less: "unat (w :: 18 word) < 262144"
  using unsigned_less [of w] by simp

lemma unat_9_less: "unat (w :: 9 word) < 512"
  using unsigned_less [of w] by simp

definition space_va :: "u64 \<Rightarrow> addr" where
  "space_va k = CONFIG_CAPABILITY_SPACE_BASE + PAGE_SIZE * k"

lemma unat_space_va:
  assumes "unat k < 262144"
  shows "unat (space_va k) = 206158430208 + 4096 * unat k"
proof -
  have "space_va k = of_nat (206158430208 + 4096 * unat k)"
    by (simp add: space_va_def config_defs)
  moreover have "206158430208 + 4096 * unat k < 2 ^ 64" using assms by simp
  ultimately show ?thesis by (simp only: unat_of_nat_u64)
qed

lemma space_va_walk:
  assumes "unat k < 262144" "level \<le> 2"
  shows "walk (space_va k) level = Some (get_page_table_index (space_va k) level)"
proof (rule walk_Some)
  show "space_va k < CONFIG_MAX_VIRTUAL_ADDRESS"
    using unat_space_va [OF assms(1)] assms(1)
    by (simp add: word_less_nat_alt CONFIG_MAX_VIRTUAL_ADDRESS_def)
qed fact

lemma space_va_index:
  assumes "unat k < 262144"
  shows "get_page_table_index (space_va k) 2 = 192"
    "unat (get_page_table_index (space_va k) 1) = unat k div 512"
    "unat (get_page_table_index (space_va k) 0) = unat k mod 512"
proof -
  have "(206158430208 + 4096 * unat k) div 1073741824 = 192" using assms by simp
  then have "unat (get_page_table_index (space_va k) 2) = unat (192 :: u64)"
    by (simp add: unat_get_page_table_index unat_space_va [OF assms] get_page_size_bit_def)
  then show "get_page_table_index (space_va k) 2 = 192" by (rule word_unatI)
  have "(206158430208 + 4096 * unat k) div 2097152 = (206158430208 + 4096 * unat k) div 4096 div 512"
    by (simp flip: div_mult2_eq)
  also have "\<dots> = 98304 + unat k div 512" by simp
  finally have "(206158430208 + 4096 * unat k) div 2097152 = 98304 + unat k div 512" .
  moreover have "unat k div 512 < 512" using assms by simp
  moreover have "(98304 + m) mod 512 = m" if "m < 512" for m :: nat
    using that mod_mult_self4 [of 512 192 m] by simp
  ultimately have "(206158430208 + 4096 * unat k) div 2097152 mod 512 = unat k div 512"
    by simp
  then show "unat (get_page_table_index (space_va k) 1) = unat k div 512"
    by (simp add: unat_get_page_table_index unat_space_va [OF assms] get_page_size_bit_def)
  have "(206158430208 + 4096 * unat k) div 4096 mod 512 = unat k mod 512"
    using mod_mult_self4 [of 512 98304 "unat k"] by simp
  then show "unat (get_page_table_index (space_va k) 0) = unat k mod 512"
    by (simp add: unat_get_page_table_index unat_space_va [OF assms] get_page_size_bit_def)
qed

subsection \<open>The slots of a task\<close>

text \<open>
  \<open>space_at s t k p\<close>: the page table of task \<open>t\<close> maps page \<open>p\<close> as capability space
  number \<open>k\<close>. This is the information \<^verbatim>\<open>lookup_cap\<close> walks down to.
\<close>

definition space_at :: "kstate \<Rightarrow> addr \<Rightarrow> u64 \<Rightarrow> addr \<Rightarrow> bool" where
  "space_at s t k p \<longleftrightarrow> p \<noteq> 0 \<and>
     walk_check (t_root_page_table (tasks s t)) (space_va k) [2, 1, 0] s = Some p"

lemma unat_desc:
  assumes "unat k < 262144" "i < 101"
  shows "unat (101 * k + of_nat i :: u64) = 101 * unat k + i"
proof -
  have "101 * k + of_nat i = (of_nat (101 * unat k + i) :: u64)" by simp
  moreover have "101 * unat k + i < 2 ^ 64" using assms by simp
  ultimately show ?thesis by (simp only: unat_of_nat_u64)
qed

lemma desc_div_mod:
  assumes "unat k < 262144" "i < 101"
  shows "(101 * k + of_nat i) div 101 = (k :: u64)" "(101 * k + of_nat i) mod 101 = (of_nat i :: u64)"
proof -
  have "unat ((101 * k + of_nat i) div 101 :: u64) = unat k"
    using assms(2) by (simp add: unat_div unat_desc [OF assms])
  then show "(101 * k + of_nat i) div 101 = (k :: u64)" by (rule word_unatI)
  have "unat ((101 * k + of_nat i) mod 101 :: u64) = unat (of_nat i :: u64)"
    using assms(2) unat_of_nat_u64 [of i] by (simp add: unat_mod unat_desc [OF assms])
  then show "(101 * k + of_nat i) mod 101 = (of_nat i :: u64)" by (rule word_unatI)
qed

lemma desc_in_range:
  assumes "unat k < unat (n :: 18 word)" "i < 101"
  shows "\<not> 101 * k + of_nat i \<ge> (ucast n * 101 :: u64)"
proof -
  have n: "unat n < 262144" by (rule unat_18_less)
  have "ucast n * 101 = (of_nat (unat n * 101) :: u64)" by (simp flip: unat_ucast_18)
  moreover have "unat n * 101 < 2 ^ 64" using n by simp
  ultimately have "unat (ucast n * 101 :: u64) = unat n * 101" by (simp only: unat_of_nat_u64)
  moreover have "101 * unat k + i < unat n * 101" using assms by simp
  ultimately show ?thesis using unat_desc [of k i] assms n by (simp add: word_le_nat_alt)
qed

definition alive :: "kstate \<Rightarrow> addr \<Rightarrow> bool" where
  "alive s t \<longleftrightarrow> task_ok s t \<and> t_state (tasks s t) \<noteq> killed"

lemma lookup_cap_slot:
  assumes "alive s t" "space_at s t k p" "unat k < unat (t_num_cap_space (tasks s t))" "i < 101"
  shows "lookup_cap t (101 * k + of_nat i) s =
    (if cap_at s (slot_addr p (of_nat i)) = NullCap then Some (0, s\<lparr>errno := SYS_S_OK\<rparr>)
     else Some (slot_addr p (of_nat i), s))"
proof -
  have k: "unat k < 262144" using assms(3) unat_18_less by (rule less_trans)
  show ?thesis
    using assms(1,2) desc_in_range [OF assms(3,4)] desc_div_mod [OF k assms(4)]
    by (simp add: lookup_cap_def alive_def task_ok_def space_at_def space_va_def)
qed

subsection \<open>A new capability space\<close>

lemma push_slots_fresh:
  assumes "free_list s t xs" "task_ok s t" "distinct ys" "set ys \<inter> set xs = {}"
    "\<And>y. y \<in> set ys \<Longrightarrow> chain s [y] \<and> slot_task s y = t"
  shows "\<exists>s'. push_slots t ys s = Some s' \<and> free_list s' t (rev ys @ xs) \<and> same_but_pool t s s' \<and>
    links_outside (set ys \<union> set xs) s s' \<and> (\<forall>a. a \<notin> set ys \<longrightarrow> cap_at s' a = cap_at s a)"
  using assms
proof (induction ys arbitrary: s xs)
  case Nil
  then show ?case by (simp add: links_outside_def)
next
  case (Cons y ys)
  have c: "chain s ([] @ y # [])" and st: "slot_task s y = t" and y: "y \<notin> set xs"
    using Cons.prems by auto
  from push_free_slots_chain [OF c Cons.prems(1) y Cons.prems(2) st]
  obtain s1 where s1: "push_free_slots t y s = Some s1" "free_list s1 t (y # xs)"
    "cap_at s1 = (cap_at s)(y := NullCap)" "same_but_pool t s s1"
    "links_outside (set ([] @ y # []) \<union> set xs) s s1" .
  note sp = same_but_pool_ok [OF s1(4)]
  have "chain s1 [z] \<and> slot_task s1 z = t" if "z \<in> set ys" for z
    using Cons.prems(3,4,5) that sp(1) links_outside_chain [OF s1(5), of "[z]"] by fastforce
  with Cons.IH [OF s1(2)] Cons.prems(2-4) sp(4) obtain s2 where
    s2: "push_slots t ys s1 = Some s2" "free_list s2 t (rev ys @ y # xs)" "same_but_pool t s1 s2"
      "links_outside (set ys \<union> set (y # xs)) s1 s2" "\<forall>a. a \<notin> set ys \<longrightarrow> cap_at s2 a = cap_at s1 a"
    by auto
  have "links_outside (set (y # ys) \<union> set xs) s s2"
    using s1(5) s2(4) by (auto simp: links_outside_def)
  with s1 s2 same_but_pool_trans [OF s1(4) s2(3)] show ?case by auto
qed

lemma walk_enabled_upd_pte:
  assumes "walk_enabled r va ls s = Some q" "\<not> is_enabled (tables s tab i)" "tables s' = tables (upd_pte tab i f s)"
  shows "walk_enabled r va ls s' = Some q"
  using assms
  by (induction ls arbitrary: r) (auto simp: walk_enabled.simps monad_simps split: if_splits)

lemma walk_check_enabled:
  assumes "walk_enabled r va ls s = Some q"
  shows "walk_check r va (ls @ ms) s = walk_check q va ms s"
  using assms
  by (induction ls arbitrary: r) (auto simp: walk_enabled.simps walk_check.simps monad_simps)

lemma walk_enabled_append:
  assumes "walk_enabled r va ls s = Some q"
  shows "walk_enabled r va (ls @ ms) s = walk_enabled q va ms s"
  using assms
  by (induction ls arbitrary: r) (auto simp: walk_enabled.simps monad_simps)

text \<open>A page of the directly mapped physical memory, where all kernel objects live.\<close>

definition mapped_page :: "addr \<Rightarrow> bool" where
  "mapped_page p \<longleftrightarrow> 4096 dvd unat (as_phys p) \<and> unat (as_phys p) < 2 ^ 36"

lemma unat_mapped_page: "mapped_page p \<Longrightarrow> unat p = unat (as_phys p) + 2 ^ 37"
proof -
  assume m: "mapped_page p"
  have "p = of_nat (unat (as_phys p) + 2 ^ 37)" by (simp add: as_phys_def config_defs)
  moreover have "unat (as_phys p) + 2 ^ 37 < 2 ^ 64" using m by (simp add: mapped_page_def)
  ultimately show ?thesis by (metis unat_of_nat_u64)
qed

lemma mapped_page_is_page: "mapped_page p \<Longrightarrow> is_page p"
  using unat_mapped_page [of p] by (auto simp: mapped_page_def is_page_def)

lemma mapped_page_pte:
  "mapped_page p \<Longrightarrow> get_next_page (set_next_page p pte) = p"
  by (rule get_next_page_set_next_page) (auto simp: mapped_page_def)

text \<open>
  What the kernel has when it maps a further capability space: a live task with its free list,
  the page tables down to the last level, and a page that holds no slots yet.
\<close>

definition can_insert_space :: "kstate \<Rightarrow> addr \<Rightarrow> addr \<Rightarrow> addr \<Rightarrow> bool" where
  "can_insert_space s t p tab \<longleftrightarrow>
     (let n = ucast (t_num_cap_space (tasks s t)) in
      task_ok s t \<and> mapped_page p \<and> spaces s p = zero_meta \<and>
      (\<forall>i<101. slots s (slot_addr p (of_nat i)) = zero_slot) \<and>
      \<not> n div 512 > ucast (t_num_extension (tasks s t)) \<and>
      walk_enabled (t_root_page_table (tasks s t)) (space_va n) [2, 1] s = Some tab \<and> tab \<noteq> 0 \<and>
      \<not> is_enabled (tables s tab (get_page_table_index (space_va n) 0)))"

text \<open>The state in which \<^verbatim>\<open>insert_cap_space\<close> starts to push the slots of the new page.\<close>

definition mapped_space :: "addr \<Rightarrow> addr \<Rightarrow> addr \<Rightarrow> kstate \<Rightarrow> kstate" where
  "mapped_space task cap_space tab s =
    (let n = t_num_cap_space (tasks s task);
         s = upd_pte tab (get_page_table_index (space_va (ucast n)) 0)
           (\<lambda>pte. enable (set_flags cap_space_flags (set_next_page cap_space pte))) s;
         s = (if n = 0
           then let a = slot_addr cap_space 0 in set_prv a 0 (set_nxt a 0 (set_cap a make_null_cap s))
           else s)
     in s\<lparr>spaces := (spaces s)(cap_space :=
         \<lparr>meta_map = cap_space, meta_task = task, meta_space_index = ucast n\<rparr>)\<rparr>)"

lemma mapped_space_slots:
  assumes "slots s (slot_addr p 0) = zero_slot"
  shows "cap_at (mapped_space t p tab s) = cap_at s" "nxt (mapped_space t p tab s) = nxt s"
    "prv (mapped_space t p tab s) = prv s" "tasks (mapped_space t p tab s) = tasks s"
    "current_task (mapped_space t p tab s) = current_task s" "errno (mapped_space t p tab s) = errno s"
proof -
  have z: "cap_at s (slot_addr p 0) = NullCap" "nxt s (slot_addr p 0) = 0" "prv s (slot_addr p 0) = 0"
    using assms by (simp_all add: cap_at_def nxt_def prv_def zero_slot_def)
  then have "(cap_at s)(slot_addr p 0 := NullCap) = cap_at s" "(nxt s)(slot_addr p 0 := 0) = nxt s"
    "(prv s)(slot_addr p 0 := 0) = prv s" by auto
  then show "cap_at (mapped_space t p tab s) = cap_at s" "nxt (mapped_space t p tab s) = nxt s"
    "prv (mapped_space t p tab s) = prv s" "tasks (mapped_space t p tab s) = tasks s"
    "current_task (mapped_space t p tab s) = current_task s" "errno (mapped_space t p tab s) = errno s"
    by (simp_all add: mapped_space_def make_null_cap_def)
qed

lemma mapped_space_tables:
  "tables (mapped_space t p tab s) =
    tables (upd_pte tab (get_page_table_index (space_va (ucast (t_num_cap_space (tasks s t)))) 0)
      (\<lambda>pte. enable (set_flags cap_space_flags (set_next_page p pte))) s)"
  "spaces (mapped_space t p tab s) = (spaces s)(p :=
    \<lparr>meta_map = p, meta_task = t, meta_space_index = ucast (t_num_cap_space (tasks s t))\<rparr>)"
  "mem (mapped_space t p tab s) = mem s"
  by (simp_all add: mapped_space_def set_cap_def set_nxt_def set_prv_def)

lemma insert_cap_space_eq:
  assumes "can_insert_space s t p tab"
  shows "insert_cap_space t p s = do {
     s \<leftarrow> push_slots t (rev (cap_space_slots p (if t_num_cap_space (tasks s t) = 0 then 1 else 0)))
       (mapped_space t p tab s);
     Some (True, upd_task t (\<lambda>t. t\<lparr>t_num_cap_space := t_num_cap_space t + 1\<rparr>) s) }"
proof -
  have p: "p \<noteq> 0"
    using assms mapped_page_is_page [of p] by (auto simp: can_insert_space_def is_page_def)
  have n: "unat (ucast (t_num_cap_space (tasks s t)) :: u64) < 262144"
    using unat_18_less by simp
  show ?thesis
    using assms p space_va_walk [OF n, of 0]
    by (simp add: insert_cap_space_def can_insert_space_def task_ok_def mapped_space_def
        space_va_def make_null_cap_def)
qed

lemma free_list_not_new_page:
  assumes "free_list s t xs" "spaces s p = zero_meta" "t \<noteq> 0" "x \<in> set xs"
  shows "get_cap_space x \<noteq> p"
  using free_listD(4) [OF assms(1,4)] assms(2,3) by (auto simp: slot_task_def zero_meta_def)

text \<open>What a new capability space \<open>p\<close> of task \<open>t\<close> leaves alone: everything but the slots of the task and the page.\<close>

definition space_added :: "addr \<Rightarrow> addr \<Rightarrow> kstate \<Rightarrow> kstate \<Rightarrow> bool" where
  "space_added t p s s' \<longleftrightarrow>
     spaces s' = (spaces s)(p := \<lparr>meta_map = p, meta_task = t, meta_space_index = ucast (t_num_cap_space (tasks s t))\<rparr>) \<and>
     current_task s' = current_task s \<and> mem s' = mem s \<and> (\<forall>u. t_lock (tasks s' u) = t_lock (tasks s u)) \<and>
     (\<forall>u. u \<noteq> t \<longrightarrow> tasks s' u = tasks s u) \<and> t_context (tasks s' t) = t_context (tasks s t) \<and>
     (\<forall>a. get_cap_space a \<noteq> p \<and> slot_task s a \<noteq> t \<longrightarrow> slots s' a = slots s a)"

lemma insert_cap_space_success:
  assumes can: "can_insert_space s t p tab" and f: "free_list s t xs"
  defines "ys \<equiv> cap_space_slots p (if t_num_cap_space (tasks s t) = 0 then 1 else 0)"
  obtains s' where "insert_cap_space t p s = Some (True, s')" "free_list s' t (ys @ xs)"
    "t_num_cap_space (tasks s' t) = t_num_cap_space (tasks s t) + 1"
    "space_at s' t (ucast (t_num_cap_space (tasks s t))) p"
    "meta_space_index (spaces s' p) = ucast (t_num_cap_space (tasks s t))"
    "\<forall>x\<in>set ys. slot_task s' x = t" "\<forall>a. a \<notin> set ys \<longrightarrow> cap_at s' a = cap_at s a" "errno s' = errno s"
    "tables s' = tables (upd_pte tab (get_page_table_index (space_va (ucast (t_num_cap_space (tasks s t)))) 0)
      (\<lambda>pte. enable (set_flags cap_space_flags (set_next_page p pte))) s)"
    "\<forall>u. t_state (tasks s' u) = t_state (tasks s u) \<and> t_tid (tasks s' u) = t_tid (tasks s u) \<and>
      t_root_page_table (tasks s' u) = t_root_page_table (tasks s u) \<and> t_num_extension (tasks s' u) = t_num_extension (tasks s u)"
    "space_added t p s s'"
proof -
  let ?n = "t_num_cap_space (tasks s t)" and ?m = "mapped_space t p tab s"
  have ok: "task_ok s t" and mp: "mapped_page p" and sp: "spaces s p = zero_meta"
    and z: "\<And>i. i < 101 \<Longrightarrow> slots s (slot_addr p (of_nat i)) = zero_slot"
    using can by (auto simp: can_insert_space_def)
  have pg: "is_page p" using mp by (rule mapped_page_is_page)
  note ms = mapped_space_slots [OF z [of 0, simplified]]
  have ysP: "x \<in> set ys \<Longrightarrow> x \<noteq> 0 \<and> get_cap_space x = p" "distinct ys" for x
    unfolding ys_def using cap_space_slots_props [OF pg] by blast+
  have new: "get_cap_space x \<noteq> p" if "x \<in> set xs" for x
    using free_list_not_new_page [OF f sp _ that] ok by (simp add: task_ok_def)
  have st: "slot_task ?m x = (if get_cap_space x = p then t else slot_task s x)" for x
    by (simp add: slot_task_def mapped_space_tables)
  have fm: "free_list ?m t xs"
    using f new by (auto simp: free_list_def chain_def ms st)
  have okm: "task_ok ?m t"
    using ok by (simp add: task_ok_def lock_free_for_def current_tid_def ms)
  have iso: "chain ?m [y] \<and> slot_task ?m y = t" if y: "y \<in> set (rev ys)" for y
  proof -
    obtain i where "i < 101" "y = slot_addr p (of_nat i)"
      using y by (auto simp: ys_def cap_space_slots_def)
    with z have "slots s y = zero_slot" by simp
    with ysP(1) y show ?thesis
      by (simp add: chain_def ms st nxt_def prv_def zero_slot_def)
  qed
  have dj: "set (rev ys) \<inter> set xs = {}" using new ysP(1) by fastforce
  obtain s1 where s1: "push_slots t (rev ys) ?m = Some s1" "free_list s1 t (rev (rev ys) @ xs)"
    "same_but_pool t ?m s1" "\<forall>a. a \<notin> set (rev ys) \<longrightarrow> cap_at s1 a = cap_at ?m a"
    "links_outside (set (rev ys) \<union> set xs) ?m s1"
    using push_slots_fresh [OF fm okm _ dj iso] ysP(2) by auto
  let ?s' = "upd_task t (\<lambda>t. t\<lparr>t_num_cap_space := t_num_cap_space t + 1\<rparr>) s1"
  note d = same_but_poolD [OF s1(3)]
  have e: "insert_cap_space t p s = Some (True, ?s')"
    using insert_cap_space_eq [OF can] s1(1) by (simp add: ys_def)
  have tb: "tables ?s' = tables (upd_pte tab (get_page_table_index (space_va (ucast ?n)) 0)
      (\<lambda>pte. enable (set_flags cap_space_flags (set_next_page p pte))) s)"
    using d(2) mapped_space_tables(1) [of t p tab s] by simp
  have "walk_enabled (t_root_page_table (tasks s t)) (space_va (ucast ?n)) [2, 1] ?s' = Some tab"
    by (rule walk_enabled_upd_pte [OF _ _ tb]) (use can in \<open>simp_all add: can_insert_space_def\<close>)
  from walk_check_enabled [OF this, of "[0]"] have "space_at ?s' t (ucast ?n) p"
    using can d(11) ms(4) mapped_page_pte [OF mp] tb unat_18_less [of ?n] pg
    by (simp add: space_at_def walk_check.simps can_insert_space_def space_va_walk is_page_def)
  moreover have "free_list ?s' t (ys @ xs)" using s1(2) by (simp add: free_list_def)
  moreover have "\<forall>x\<in>set ys. slot_task ?s' x = t"
    using ysP(1) by (auto simp: slot_task_def d(1) mapped_space_tables)
  moreover have "meta_space_index (spaces ?s' p) = ucast ?n" by (simp add: d(1) mapped_space_tables)
  moreover have "t_num_cap_space (tasks ?s' t) = ?n + 1" by (simp add: d(12) ms(4))
  moreover have "\<forall>u. t_state (tasks ?s' u) = t_state (tasks s u) \<and> t_tid (tasks ?s' u) = t_tid (tasks s u) \<and>
      t_root_page_table (tasks ?s' u) = t_root_page_table (tasks s u) \<and> t_num_extension (tasks ?s' u) = t_num_extension (tasks s u)"
    using d(10,11,13,15) ms(4) by simp
  moreover have "slots ?s' a = slots s a" if a: "get_cap_space a \<noteq> p" "slot_task s a \<noteq> t" for a
  proof -
    have "a \<notin> set ys" using a(1) ysP(1) by blast
    moreover have "a \<notin> set xs" using a(2) free_listD(4) [OF f] by blast
    ultimately have "cap_at s1 a = cap_at s a" "nxt s1 a = nxt s a" "prv s1 a = prv s a"
      using s1(4,5) by (simp_all add: ms links_outside_def)
    then show ?thesis by (simp add: cap_at_def nxt_def prv_def)
  qed
  then have "space_added t p s ?s'"
    using d(1,4,6,14,16) same_but_pool_context [OF s1(3)] ms(4,5) by (simp add: space_added_def mapped_space_tables)
  ultimately show ?thesis
    using that [OF e] s1(4) d(8) ms tb by simp
qed

subsection \<open>Properties\<close>

lemma space_at_set_cap [simp]: "space_at (set_cap a c s) = space_at s"
  by (auto simp: space_at_def fun_eq_iff walk_check_cong [of "set_cap a c s" s])

lemma alive_set_cap [simp]: "alive (set_cap a c s) = alive s"
  by (auto simp: alive_def task_ok_def fun_eq_iff)

text \<open>
  A task with the three page tables of the capability area and no capability space yet, and a
  fresh page for the first one.
\<close>

definition demo_tables :: kstate where
  "demo_tables = zero_state\<lparr>
     tasks := (\<lambda>_. zero_task)(0x2000004000 := zero_task\<lparr>t_tid := 1, t_state := running,
       t_root_page_table := 0x2000001000, t_num_extension := 1\<rparr>),
     tables := (\<lambda>_. zero_page_table)(
       0x2000001000 := zero_page_table(192 := enable (set_next_page 0x2000002000 zero_pte)),
       0x2000002000 := zero_page_table(0 := enable (set_next_page 0x2000003000 zero_pte))),
     current_task := 0x2000004000\<rparr>"

lemma demo_pages [simp]:
  "mapped_page 0x2000002000" "mapped_page 0x2000003000" "mapped_page 0x2000005000"
  by (simp_all add: mapped_page_def as_phys_def config_defs)

lemma demo_index:
  "get_page_table_index (space_va 0) 2 = 192" "get_page_table_index (space_va 0) 1 = 0"
  "get_page_table_index (space_va 0) 0 = 0" "walk (space_va 0) 2 = Some 192"
  "walk (space_va 0) (Suc 0) = Some 0" "walk (space_va 0) 0 = Some 0"
  using space_va_index [of 0] space_va_walk [of 0] by (simp_all add: unat_eq_0)

lemma demo_can_insert: "can_insert_space demo_tables 0x2000004000 0x2000005000 0x2000003000"
  by (simp add: can_insert_space_def demo_tables_def zero_state_def zero_object_defs
      task_ok_def lock_free_for_def rlock_def free_lock_def current_tid_def walk_enabled.simps
      demo_index mapped_page_pte)

lemma demo_tables_free: "free_list demo_tables 0x2000004000 []"
  by (simp add: free_list_def demo_tables_def zero_state_def zero_object_defs chain_def)

lemma length_cap_space_slots [simp]: "length (cap_space_slots p first) = 101 - first"
  by (simp add: cap_space_slots_def)

text \<open>
  C29: \<^verbatim>\<open>insert_cap_space\<close>. With the page tables in place it succeeds: the slots of the new page are
  free afterwards, in ascending order and in front of the old free slots; of the first page of a task the
  very first slot is left out (it stands for the null descriptor). The page is found again by its
  number, and the descriptor of slot \<open>i\<close> is 101 times that number plus \<open>i\<close>.
\<close>

theorem insert_cap_space_adds:
  assumes "can_insert_space s t p tab" "free_list s t xs"
  shows "\<exists>s'. insert_cap_space t p s = Some (True, s') \<and>
    free_list s' t (map (\<lambda>i. slot_addr p (of_nat i)) [(if t_num_cap_space (tasks s t) = 0 then 1 else 0)..<101] @ xs) \<and>
    t_num_cap_space (tasks s' t) = t_num_cap_space (tasks s t) + 1 \<and>
    space_at s' t (ucast (t_num_cap_space (tasks s t))) p \<and>
    (\<forall>i<101. get_cap_slot_index (slot_addr p (of_nat i)) s' =
       Some (101 * ucast (t_num_cap_space (tasks s t)) + of_nat i))"
proof -
  from insert_cap_space_success [OF assms]
  obtain s' where s': "insert_cap_space t p s = Some (True, s')"
    "free_list s' t (cap_space_slots p (if t_num_cap_space (tasks s t) = 0 then 1 else 0) @ xs)"
    "t_num_cap_space (tasks s' t) = t_num_cap_space (tasks s t) + 1"
    "space_at s' t (ucast (t_num_cap_space (tasks s t))) p"
    "meta_space_index (spaces s' p) = ucast (t_num_cap_space (tasks s t))"
    by metis
  have "is_page p" using assms(1) mapped_page_is_page by (auto simp: can_insert_space_def)
  with s' index_of_slot [of p _ s'] show ?thesis by (intro exI [of _ s']) (simp add: cap_space_slots_def)
qed

theorem insert_cap_space_adds_witness:
  "\<exists>s'. insert_cap_space 0x2000004000 0x2000005000 demo_tables = Some (True, s') \<and>
     free_list s' 0x2000004000 (map (\<lambda>i. slot_addr 0x2000005000 (of_nat i)) [1..<101]) \<and> space_at s' 0x2000004000 0 0x2000005000"
  using insert_cap_space_adds [OF demo_can_insert demo_tables_free]
  by (auto simp: demo_tables_def zero_task_def)

text \<open>
  C8: descriptors and slots correspond. For a slot with a capability in a capability space
  that the task's page table maps under its own number, \<^verbatim>\<open>get_cap_slot_index\<close> yields a
  descriptor from which \<^verbatim>\<open>lookup_cap\<close> returns that slot and leaves the state alone.
\<close>

theorem lookup_cap_slot_index:
  assumes "alive s t" "is_page p" "space_at s t k p" "meta_space_index (spaces s p) = k"
    "unat k < unat (t_num_cap_space (tasks s t))" "i < 101"
    "cap_at s (slot_addr p (of_nat i)) \<noteq> NullCap"
  shows "\<exists>d. get_cap_slot_index (slot_addr p (of_nat i)) s = Some d \<and>
    lookup_cap t d s = Some (slot_addr p (of_nat i), s)"
  using lookup_cap_slot [OF assms(1,3,5,6)] index_of_slot [OF assms(2,6), of s] assms(4,7) by simp

lemma demo_lookup_state:
  "\<exists>s. alive s 0x2000004000 \<and> space_at s 0x2000004000 0 0x2000005000 \<and>
     meta_space_index (spaces s 0x2000005000) = 0 \<and> unat (t_num_cap_space (tasks s 0x2000004000)) = 1 \<and>
     current_task s = 0x2000004000"
proof -
  from insert_cap_space_success [OF demo_can_insert demo_tables_free]
  obtain s' where s': "insert_cap_space 0x2000004000 0x2000005000 demo_tables = Some (True, s')"
    "t_num_cap_space (tasks s' 0x2000004000) = t_num_cap_space (tasks demo_tables 0x2000004000) + 1"
    "space_at s' 0x2000004000 (ucast (t_num_cap_space (tasks demo_tables 0x2000004000))) 0x2000005000"
    "meta_space_index (spaces s' 0x2000005000) = ucast (t_num_cap_space (tasks demo_tables 0x2000004000))"
    by metis
  have n: "t_num_cap_space (tasks demo_tables 0x2000004000) = 0" by (simp add: demo_tables_def zero_task_def)
  let ?s = "upd_task 0x2000004000 (\<lambda>t. t\<lparr>t_tid := 1, t_lock := free_lock, t_state := running\<rparr>) s'\<lparr>current_task := 0x2000004000\<rparr>"
  have w: "walk_check r va ls ?s = walk_check r va ls s'" for r va ls
    by (rule walk_check_cong) simp
  have "alive ?s 0x2000004000"
    by (simp add: alive_def task_ok_def lock_free_for_def current_tid_def rlock_def free_lock_def)
  moreover have "space_at ?s 0x2000004000 0 0x2000005000"
    using s'(3) n by (simp add: space_at_def w)
  ultimately show ?thesis using s'(2,4) n by (intro exI [of _ ?s]) simp
qed

theorem lookup_cap_slot_index_witness:
  "\<exists>s d. get_cap_slot_index (slot_addr 0x2000005000 5) s = Some d \<and>
     lookup_cap 0x2000004000 d s = Some (slot_addr 0x2000005000 5, s)"
proof -
  obtain s where s: "alive s 0x2000004000" "space_at s 0x2000004000 0 0x2000005000"
    "meta_space_index (spaces s 0x2000005000) = 0" "unat (t_num_cap_space (tasks s 0x2000004000)) = 1"
    using demo_lookup_state by blast
  let ?s = "set_cap (slot_addr 0x2000005000 5) ZombieCap s"
  have "is_page 0x2000005000" by (rule mapped_page_is_page) simp
  with lookup_cap_slot_index [of ?s "0x2000004000" "0x2000005000" 0 5] s show ?thesis by auto
qed

lemma lookup_cap_beyond:
  assumes "alive s t" "\<not> unat d < 101 * unat (t_num_cap_space (tasks s t))"
  shows "lookup_cap t d s = Some (0, s\<lparr>errno := SYS_E_ILL_ARGS\<rparr>)"
proof -
  have n: "unat (t_num_cap_space (tasks s t)) < 262144" by (rule unat_18_less)
  have "ucast (t_num_cap_space (tasks s t)) * 101 = (of_nat (unat (t_num_cap_space (tasks s t)) * 101) :: u64)"
    by (simp flip: unat_ucast_18)
  moreover have "unat (t_num_cap_space (tasks s t)) * 101 < 2 ^ 64" using n by simp
  ultimately have "unat (ucast (t_num_cap_space (tasks s t)) * 101 :: u64) = unat (t_num_cap_space (tasks s t)) * 101"
    by (simp only: unat_of_nat_u64)
  with assms show ?thesis
    by (simp add: lookup_cap_def alive_def task_ok_def word_le_nat_alt mult.commute)
qed

lemma lookup_cap_below:
  assumes "alive s t" "\<And>k. unat k < unat (t_num_cap_space (tasks s t)) \<Longrightarrow> space_at s t k (page k)"
    "unat d < 101 * unat (t_num_cap_space (tasks s t))" "slot = slot_addr (page (d div 101)) (d mod 101)"
  shows "lookup_cap t d s = (if cap_at s slot = NullCap then Some (0, s\<lparr>errno := SYS_S_OK\<rparr>) else Some (slot, s))"
proof -
  have k: "unat (d div 101) < unat (t_num_cap_space (tasks s t))"
    using assms(3) by (simp add: unat_div less_mult_imp_div_less mult.commute)
  have m: "unat (d mod 101) < 101" by (simp add: unat_mod)
  have d: "101 * (d div 101) + of_nat (unat (d mod 101)) = d" by (simp add: mult_div_mod_eq)
  from lookup_cap_slot [OF assms(1) assms(2) [OF k] k m] assms(4) show ?thesis unfolding d by simp
qed

text \<open>
  C7: \<^verbatim>\<open>lookup_cap\<close> on every descriptor. When all capability spaces of a live task are
  mapped, a descriptor below 101 times their number leads to its slot, with null and
  \<^verbatim>\<open>SYS_S_OK\<close> for an empty one, and any other descriptor to null and \<^verbatim>\<open>SYS_E_ILL_ARGS\<close>.
\<close>

theorem lookup_cap_cases:
  assumes "alive s t" "\<forall>k. unat k < unat (t_num_cap_space (tasks s t)) \<longrightarrow> space_at s t k (page k)"
  shows "lookup_cap t d s =
    (if unat d < 101 * unat (t_num_cap_space (tasks s t)) then
       let slot = slot_addr (page (d div 101)) (d mod 101) in
       if cap_at s slot = NullCap then Some (0, s\<lparr>errno := SYS_S_OK\<rparr>) else Some (slot, s)
     else Some (0, s\<lparr>errno := SYS_E_ILL_ARGS\<rparr>))"
  using lookup_cap_below [OF assms(1), of page d] lookup_cap_beyond [OF assms(1), of d] assms(2) by (simp add: Let_def)

theorem lookup_cap_cases_witness:
  "\<exists>s. lookup_cap 0x2000004000 101 s = Some (0, s\<lparr>errno := SYS_E_ILL_ARGS\<rparr>) \<and>
     lookup_cap 0x2000004000 7 (set_cap (slot_addr 0x2000005000 7) ZombieCap s) =
       Some (slot_addr 0x2000005000 7, set_cap (slot_addr 0x2000005000 7) ZombieCap s)"
proof -
  obtain s where s: "alive s 0x2000004000" "space_at s 0x2000004000 0 0x2000005000"
    "unat (t_num_cap_space (tasks s 0x2000004000)) = 1"
    using demo_lookup_state by blast
  have sp: "\<forall>k. unat k < unat (t_num_cap_space (tasks s 0x2000004000)) \<longrightarrow>
      space_at s 0x2000004000 k ((\<lambda>_. 0x2000005000) k)"
    using s(2,3) by (simp add: unat_eq_0)
  let ?z = "set_cap (slot_addr 0x2000005000 7) ZombieCap s"
  have "(7 :: u64) div 101 = 0" "(7 :: u64) mod 101 = 7" by simp_all
  with lookup_cap_cases [OF s(1) sp, of 101]
    lookup_cap_cases [of ?z "0x2000004000" "\<lambda>_. 0x2000005000" 7] s sp
  show ?thesis by (intro exI [of _ s]) simp
qed

text \<open>
  \<^verbatim>\<open>insert_cap_space\<close> admits one space too many. When the task already uses all
  512 spaces of each of its extensions, it has none left, yet the guard lets the call pass (it
  rejects only more than that) and the kernel stops at the assertion on the missing page
  table entry instead of returning \<^verbatim>\<open>SYS_E_ILL_STATE\<close>.
\<close>

theorem insert_cap_space_off_by_one:
  assumes "task_ok s t" "p \<noteq> 0"
    "unat (t_num_cap_space (tasks s t)) = 512 * unat (t_num_extension (tasks s t))"
    "walk_enabled (t_root_page_table (tasks s t)) (space_va (ucast (t_num_cap_space (tasks s t)))) [2] s = Some mid"
    "\<not> is_enabled (tables s mid (get_page_table_index (space_va (ucast (t_num_cap_space (tasks s t)))) 1))"
  shows "insert_cap_space t p s = None"
proof -
  let ?n = "ucast (t_num_cap_space (tasks s t)) :: u64"
  have n: "unat ?n < 262144" using unat_18_less by simp
  have "\<not> ?n div 512 > ucast (t_num_extension (tasks s t))"
    using assms(3) by (simp add: word_less_nat_alt unat_div)
  moreover have "walk_enabled (t_root_page_table (tasks s t)) (space_va ?n) [2, 1] s = None"
    using assms(4,5) space_va_walk [OF n]
    by (simp add: walk_enabled.simps monad_simps split: if_splits)
  ultimately show ?thesis
    using assms(1,2) by (simp add: insert_cap_space_def task_ok_def space_va_def)
qed

theorem insert_cap_space_off_by_one_witness:
  "insert_cap_space 0x2000004000 0x2000005000
     (upd_task 0x2000004000 (\<lambda>t. t\<lparr>t_num_cap_space := 512\<rparr>) demo_tables) = None"
proof -
  let ?s = "upd_task 0x2000004000 (\<lambda>t. t\<lparr>t_num_cap_space := 512\<rparr>) demo_tables"
  have i: "get_page_table_index (space_va 512) 2 = 192" "get_page_table_index (space_va 512) (Suc 0) = 1"
    using space_va_index [of 512] by (auto intro: word_unatI)
  have t: "t_num_cap_space (tasks ?s 0x2000004000) = 512" "t_num_extension (tasks ?s 0x2000004000) = 1"
    "task_ok ?s 0x2000004000" "t_root_page_table (tasks ?s 0x2000004000) = 0x2000001000"
    by (simp_all add: demo_tables_def zero_object_defs task_ok_def lock_free_for_def rlock_def
        free_lock_def current_tid_def)
  have "walk_enabled 0x2000001000 (space_va 512) [2] ?s = Some 0x2000002000"
    "\<not> is_enabled (tables ?s 0x2000002000 1)"
    using space_va_walk [of 512 2] i(1)
    by (simp_all add: walk_enabled.simps demo_tables_def mapped_page_pte)
  with insert_cap_space_off_by_one [of ?s "0x2000004000" "0x2000005000" "0x2000002000"] t i(2)
  show ?thesis by simp
qed

text \<open>
  \<^verbatim>\<open>extend_cap_space\<close>. The last of the 512 extensions is refused with
  \<^verbatim>\<open>SYS_E_ILL_STATE\<close>. Any other call enters the page table, returns the address of the first
  capability space of the new extension, and counts it; from then on the walk to that address
  ends in the new page table.
\<close>

theorem extend_cap_space_adds:
  assumes "t \<noteq> 0" "lock_free_for s t" "mapped_page page"
    "walk_enabled (t_root_page_table (tasks s t)) (space_va (512 * ucast (t_num_extension (tasks s t)))) [2] s = Some mid"
    "mid \<noteq> 0"
    "\<not> is_enabled (tables s mid (get_page_table_index (space_va (512 * ucast (t_num_extension (tasks s t)))) 1))"
  shows "if unat (t_num_extension (tasks s t)) = 511
    then extend_cap_space t page s = Some (0, s\<lparr>errno := SYS_E_ILL_STATE\<rparr>)
    else \<exists>s'. extend_cap_space t page s = Some (space_va (512 * ucast (t_num_extension (tasks s t))), s') \<and>
      t_num_extension (tasks s' t) = t_num_extension (tasks s t) + 1 \<and>
      walk_enabled (t_root_page_table (tasks s' t))
        (space_va (512 * ucast (t_num_extension (tasks s t)))) [2, 1] s' = Some page"
proof -
  let ?e = "t_num_extension (tasks s t)"
  let ?k = "512 * ucast ?e :: u64"
  have e9: "unat ?e < 512" by (rule unat_9_less)
  have "?k = of_nat (512 * unat ?e)" by (simp flip: unat_ucast_9)
  moreover have "512 * unat ?e < 2 ^ 64" using e9 by simp
  ultimately have "unat ?k = 512 * unat ?e" by (simp only: unat_of_nat_u64)
  then have k: "unat ?k < 262144" using e9 by simp
  note w = space_va_walk [OF k]
  have va: "CONFIG_CAPABILITY_SPACE_BASE + 2097152 * ucast ?e = space_va ?k"
    by (simp add: space_va_def)
  have g: "ucast ?e = (511 :: u64) \<longleftrightarrow> unat ?e = 511"
    by (subst word_unat_eq_iff) (simp only: unat_ucast_9, simp)
  show ?thesis
  proof (cases "unat ?e = 511")
    case True
    with assms(1,2) g show ?thesis by (simp add: extend_cap_space_def)
  next
    case False
    let ?i = "get_page_table_index (space_va ?k) 1"
    let ?s1 = "upd_pte mid ?i (\<lambda>pte. enable (set_next_page page (set_flags no_flags pte))) s"
    let ?s' = "upd_task t (\<lambda>t. t\<lparr>t_num_extension := t_num_extension t + 1\<rparr>) ?s1"
    have "extend_cap_space t page s = Some (space_va ?k, ?s')"
      using assms False g w [of 1] by (simp add: extend_cap_space_def va)
    moreover have "walk_enabled (t_root_page_table (tasks s t)) (space_va ?k) [2] ?s' = Some mid"
      by (rule walk_enabled_upd_pte [OF assms(4,6)]) simp
    note a = walk_enabled_append [OF this, of "[1]"]
    have "walk_enabled mid (space_va ?k) [1] ?s' = Some page"
      using assms(5) w [of 1] mapped_page_pte [OF assms(3)] by (simp add: walk_enabled.simps)
    with a have "walk_enabled (t_root_page_table (tasks ?s' t)) (space_va ?k) [2, 1] ?s' = Some page"
      by simp
    ultimately show ?thesis using False by simp
  qed
qed

theorem extend_cap_space_adds_witness:
  "\<exists>s'. extend_cap_space 0x2000004000 0x2000005000 demo_tables = Some (space_va 512, s') \<and>
     t_num_extension (tasks s' 0x2000004000) = 2"
proof -
  let ?s = demo_tables
  have i: "get_page_table_index (space_va 512) 2 = 192" "get_page_table_index (space_va 512) (Suc 0) = 1"
    using space_va_index [of 512] by (auto intro: word_unatI)
  have t: "t_num_extension (tasks ?s 0x2000004000) = 1"
    "lock_free_for ?s 0x2000004000" "t_root_page_table (tasks ?s 0x2000004000) = 0x2000001000"
    by (simp_all add: demo_tables_def zero_object_defs lock_free_for_def rlock_def
        free_lock_def current_tid_def)
  have "walk_enabled 0x2000001000 (space_va 512) [2] ?s = Some 0x2000002000"
    "\<not> is_enabled (tables ?s 0x2000002000 1)"
    using space_va_walk [of 512 2] i(1)
    by (simp_all add: walk_enabled.simps demo_tables_def mapped_page_pte)
  with extend_cap_space_adds [of "0x2000004000" ?s "0x2000005000" "0x2000002000"] t i(2)
  show ?thesis by auto
qed

end
