(* ===== verification/Cap_Objects.thy ===== *)
theory Cap_Objects
  imports Cap_Space
begin

text \<open>
  Creating kernel objects from memory capabilities and the id capabilities
  (\<^verbatim>\<open>src/kernel/cap.cpp\<close>): \<^verbatim>\<open>make_unique_id_cap\<close>, \<^verbatim>\<open>compare_id_cap\<close>,
  \<^verbatim>\<open>create_memory_object\<close> and the creation of endpoints, page tables, virtual pages,
  capability spaces and ids, \<^verbatim>\<open>is_same_object\<close>, and the capability-level
  \<^verbatim>\<open>insert_cap_space\<close> and \<^verbatim>\<open>extend_cap_space\<close>. The lemmas show that a created object lies
  in the unused part of its parent as long as the aligned base does, that it does not in the
  other case, and that ids are issued in increasing order.
\<close>

subsection \<open>Identifiers\<close>

definition make_unique_id_cap :: "kstate \<Rightarrow> (capability_t \<times> kstate) option" where
  "make_unique_id_cap s = do {
     let s' = (if next_id2 s = - 1
       then (if next_id1 s = - 1 then s\<lparr>next_id0 := next_id0 s + 1, next_id1 := 0\<rparr>
             else s\<lparr>next_id1 := next_id1 s + 1\<rparr>)\<lparr>next_id2 := 0\<rparr>
       else s\<lparr>next_id2 := next_id2 s + 1\<rparr>);
     c \<leftarrow> make_id_cap (next_id0 s) (next_id1 s) (next_id2 s);
     Some (c, s')
   }"

definition compare_id_cap :: "addr \<Rightarrow> addr \<Rightarrow> kstate \<Rightarrow> int option" where
  "compare_id_cap slot1 slot2 s = do {
     cassert (slot1 \<noteq> 0);
     cassert (get_cap_type (cap_at s slot1) = CAP_ID);
     cassert (slot2 \<noteq> 0);
     cassert (get_cap_type (cap_at s slot2) = CAP_ID);
     case (cap_at s slot1, cap_at s slot2) of
       (IdCap i, IdCap j) \<Rightarrow> Some (
         if id_val1 i < id_val1 j then - 1
         else if id_val1 i > id_val1 j then 1
         else if id_val2 i < id_val2 j then - 1
         else if id_val2 i > id_val2 j then 1
         else if id_val3 i < id_val3 j then - 1
         else if id_val3 i > id_val3 j then 1
         else 0)
     | _ \<Rightarrow> None
   }"

subsection \<open>Objects\<close>

definition create_memory_object :: "addr \<Rightarrow> addr \<Rightarrow> u64 \<Rightarrow> u64 \<Rightarrow> kstate \<Rightarrow> (addr \<times> kstate) option" where
  "create_memory_object dst src sz alignment s = do {
     cassert (src \<noteq> 0);
     cassert (get_cap_type (cap_at s src) = CAP_MEM);
     cassert (dst \<noteq> 0);
     cassert (is_unused s dst);
     case cap_at s src of
       MemoryCap m \<Rightarrow>
         if sz = 0 then Some (0, s\<lparr>errno := SYS_E_ILL_ARGS\<rparr>)
         else do {
           let base_addr = round_up (ucast (mem_phys_addr m) + ucast (mem_used_size m)) alignment;
           let rem_size = ucast (mem_phys_addr m) + ucast (mem_size m) - base_addr;
           if rem_size < sz then Some (0, s\<lparr>errno := SYS_E_CAP_STATE\<rparr>)
           else do {
             c \<leftarrow> make_memory_cap (mem_device m) sz base_addr;
             let s = set_cap dst c s;
             let s = set_cap src (MemoryCap (m\<lparr>mem_used_size := ucast (base_addr + sz - ucast (mem_phys_addr m))\<rparr>)) s;
             s \<leftarrow> insert_after src dst s;
             Some (dst, s)
           }
         }
     | _ \<Rightarrow> None
   }"

text \<open>
  The objects that are made in a fresh piece of non-device memory. \<open>memory_base\<close> reads the
  physical address of the memory capability that \<^verbatim>\<open>create_memory_object\<close> left in \<open>dst\<close>.
\<close>

definition memory_base :: "addr \<Rightarrow> kstate \<Rightarrow> u64 option" where
  "memory_base dst s = (case cap_at s dst of MemoryCap m \<Rightarrow> Some (ucast (mem_phys_addr m)) | _ \<Rightarrow> None)"

definition src_device :: "addr \<Rightarrow> kstate \<Rightarrow> bool option" where
  "src_device src s = (case cap_at s src of MemoryCap m \<Rightarrow> Some (mem_device m) | _ \<Rightarrow> None)"

definition check_create :: "addr \<Rightarrow> addr \<Rightarrow> kstate \<Rightarrow> unit option" where
  "check_create dst src s = do {
     cassert (src \<noteq> 0);
     cassert (get_cap_type (cap_at s src) = CAP_MEM);
     cassert (dst \<noteq> 0);
     cassert (is_unused s dst)
   }"

definition create_endpoint_object :: "addr \<Rightarrow> addr \<Rightarrow> kstate \<Rightarrow> (addr \<times> kstate) option" where
  "create_endpoint_object dst src s = do {
     check_create dst src s;
     device \<leftarrow> src_device src s;
     if device then Some (0, s\<lparr>errno := SYS_E_CAP_STATE\<rparr>)
     else do {
       (dst, s) \<leftarrow> create_memory_object dst src (get_cap_size CAP_ENDPOINT) (get_cap_size CAP_ENDPOINT) s;
       if dst = 0 then Some (0, s)
       else do {
         phys \<leftarrow> memory_base dst s;
         let endpoint = as_map phys;
         let s = upd_endpoint endpoint (\<lambda>_. zero_endpoint) s;
         c \<leftarrow> make_endpoint_cap endpoint;
         Some (dst, set_cap dst c s)
       }
     }
   }"

definition zero_table :: "addr \<Rightarrow> kstate \<Rightarrow> kstate" where
  "zero_table p s = s\<lparr>tables := (tables s)(p := zero_page_table)\<rparr>"

definition create_page_table_object :: "addr \<Rightarrow> addr \<Rightarrow> kstate \<Rightarrow> (addr \<times> kstate) option" where
  "create_page_table_object dst src s = do {
     check_create dst src s;
     device \<leftarrow> src_device src s;
     if device then Some (0, s\<lparr>errno := SYS_E_CAP_STATE\<rparr>)
     else do {
       (dst, s) \<leftarrow> create_memory_object dst src PAGE_SIZE PAGE_SIZE s;
       if dst = 0 then Some (0, s)
       else do {
         phys \<leftarrow> memory_base dst s;
         let page_table = as_map phys;
         let s = zero_table page_table s;
         c \<leftarrow> make_page_table_cap page_table False 0 0 0;
         Some (dst, set_cap dst c s)
       }
     }
   }"

definition create_virt_page_object ::
  "addr \<Rightarrow> addr \<Rightarrow> bool \<Rightarrow> bool \<Rightarrow> bool \<Rightarrow> u64 \<Rightarrow> kstate \<Rightarrow> (addr \<times> kstate) option" where
  "create_virt_page_object dst src readable writable executable level s = do {
     check_create dst src s;
     if level > of_nat MAX_PAGE_TABLE_LEVEL then Some (0, s\<lparr>errno := SYS_E_ILL_ARGS\<rparr>)
     else do {
       let page_size = get_page_size (unat level);
       (dst, s) \<leftarrow> create_memory_object dst src page_size page_size s;
       if dst = 0 then Some (0, s)
       else do {
         device \<leftarrow> src_device dst s;
         phys \<leftarrow> memory_base dst s;
         c \<leftarrow> make_virt_page_cap device readable writable executable False (unat level) phys 0 0;
         Some (dst, set_cap dst c s)
       }
     }
   }"

definition zero_cap_space :: "addr \<Rightarrow> kstate \<Rightarrow> kstate" where
  "zero_cap_space p s = s\<lparr>slots := (\<lambda>a. if get_cap_space a = p then zero_slot else slots s a),
     spaces := (spaces s)(p := zero_meta)\<rparr>"

definition create_cap_space_object :: "addr \<Rightarrow> addr \<Rightarrow> kstate \<Rightarrow> (addr \<times> kstate) option" where
  "create_cap_space_object dst src s = do {
     check_create dst src s;
     device \<leftarrow> src_device src s;
     if device then Some (0, s\<lparr>errno := SYS_E_CAP_STATE\<rparr>)
     else do {
       (dst, s) \<leftarrow> create_memory_object dst src PAGE_SIZE PAGE_SIZE s;
       if dst = 0 then Some (0, s)
       else do {
         phys \<leftarrow> memory_base dst s;
         let cap_space = as_map phys;
         let s = zero_cap_space cap_space s;
         c \<leftarrow> make_cap_space_cap cap_space False;
         Some (dst, set_cap dst c s)
       }
     }
   }"

definition create_id_object :: "addr \<Rightarrow> kstate \<Rightarrow> (addr \<times> kstate) option" where
  "create_id_object dst s = do {
     cassert (dst \<noteq> 0);
     cassert (is_unused s dst);
     (c, s) \<leftarrow> make_unique_id_cap s;
     Some (dst, set_cap dst c s)
   }"

subsection \<open>Sameness of objects\<close>

partial_function (option) skip_zombies :: "addr \<Rightarrow> kstate \<Rightarrow> addr option" where
  "skip_zombies slot s =
     (if slot = 0 then None
      else if get_cap_type (cap_at s slot) = CAP_ZOMBIE then skip_zombies (nxt s slot) s
      else Some slot)"

definition is_same_object :: "addr \<Rightarrow> addr \<Rightarrow> kstate \<Rightarrow> bool option" where
  "is_same_object lhs rhs s = do {
     cassert (lhs \<noteq> 0);
     cassert (rhs \<noteq> 0);
     lhs \<leftarrow> skip_zombies lhs s;
     rhs \<leftarrow> skip_zombies rhs s;
     Some (lhs = rhs \<or>
       (case (cap_at s lhs, cap_at s rhs) of
          (TaskCap t, TaskCap u) \<Rightarrow> tc_task t = tc_task u
        | (EndpointCap e, EndpointCap f) \<Rightarrow> ec_endpoint e = ec_endpoint f
        | (IdCap i, IdCap j) \<Rightarrow> id_val1 i = id_val1 j \<and> id_val2 i = id_val2 j \<and> id_val3 i = id_val3 j
        | _ \<Rightarrow> False))
   }"

subsection \<open>Capability spaces of a task capability\<close>

text \<open>The overloads of \<^verbatim>\<open>cap.cpp\<close> that take the slots of the task and of the page.\<close>

definition insert_cap_space_cap :: "addr \<Rightarrow> addr \<Rightarrow> kstate \<Rightarrow> (bool \<times> kstate) option" where
  "insert_cap_space_cap task_slot cap_space_slot s = do {
     cassert (task_slot \<noteq> 0);
     cassert (cap_space_slot \<noteq> 0);
     case (cap_at s task_slot, cap_at s cap_space_slot) of
       (TaskCap tc, CapSpaceCap cs) \<Rightarrow> do {
         cassert (tc_task tc \<noteq> 0);
         if t_state (tasks s (tc_task tc)) = unused \<or> t_state (tasks s (tc_task tc)) = killed
         then Some (False, s\<lparr>errno := SYS_E_ILL_STATE\<rparr>)
         else if cs_used cs then Some (False, s\<lparr>errno := SYS_E_CAP_STATE\<rparr>)
         else do {
           (ok, s) \<leftarrow> insert_cap_space (tc_task tc) (cs_space cs) s;
           if \<not> ok then Some (False, s)
           else (case cap_at s cap_space_slot of
               CapSpaceCap cs \<Rightarrow> Some (True, set_cap cap_space_slot (CapSpaceCap (cs\<lparr>cs_used := True\<rparr>)) s)
             | _ \<Rightarrow> None)
         }
       }
     | _ \<Rightarrow> None
   }"

definition extend_cap_space_cap :: "addr \<Rightarrow> addr \<Rightarrow> kstate \<Rightarrow> (bool \<times> kstate) option" where
  "extend_cap_space_cap task_slot page_table_slot s = do {
     cassert (task_slot \<noteq> 0);
     cassert (page_table_slot \<noteq> 0);
     case (cap_at s task_slot, cap_at s page_table_slot) of
       (TaskCap tc, PageTableCap pt) \<Rightarrow> do {
         cassert (tc_task tc \<noteq> 0);
         if t_state (tasks s (tc_task tc)) = unused \<or> t_state (tasks s (tc_task tc)) = killed
         then Some (False, s\<lparr>errno := SYS_E_ILL_STATE\<rparr>)
         else if pt_mapped pt then Some (False, s\<lparr>errno := SYS_E_CAP_STATE\<rparr>)
         else do {
           (va, s) \<leftarrow> extend_cap_space (tc_task tc) (pt_table pt) s;
           if va = 0 then Some (False, s)
           else do {
             page_table \<leftarrow> walk_enabled (t_root_page_table (tasks s (tc_task tc))) va (levels_down GIGA_PAGE_TABLE_LEVEL) s;
             cassert (page_table \<noteq> 0);
             i \<leftarrow> walk va MEGA_PAGE_TABLE_LEVEL;
             cassert (is_enabled (tables s page_table i));
             Some (True, set_cap page_table_slot (PageTableCap (pt\<lparr>pt_mapped := True, pt_level := 0,
               pt_virt_addr_base := ucast va,
               pt_parent_table := get_next_page (tables s page_table i)\<rparr>)) s)
           }
         }
       }
     | _ \<Rightarrow> None
   }"

subsection \<open>Identifiers are issued in order\<close>

definition id_number :: "id_cap \<Rightarrow> nat" where
  "id_number i = unat (id_val1 i) * 2 ^ 128 + unat (id_val2 i) * 2 ^ 64 + unat (id_val3 i)"

definition id_counter :: "kstate \<Rightarrow> nat" where
  "id_counter s = unat (next_id0 s) * 2 ^ 128 + unat (next_id1 s) * 2 ^ 64 + unat (next_id2 s)"

lemma unat_minus_1_u64: "unat (- 1 :: u64) = 2 ^ 64 - 1"
  by (simp add: unsigned_minus_1_eq_mask mask_eq_exp_minus_1)

lemma unat_suc_u64: "w \<noteq> - 1 \<Longrightarrow> unat (w + 1 :: u64) = unat w + 1"
proof -
  assume w: "w \<noteq> - 1"
  then have "unat w \<noteq> 2 ^ 64 - 1" using unat_minus_1_u64 by (metis word_unatI)
  with unat_u64_less [of w] have "unat w + 1 < 2 ^ 64" by simp
  moreover have "w + 1 = of_nat (unat w + 1)" by simp
  ultimately show ?thesis by (simp only: unat_of_nat_u64)
qed

lemma unat_ucast_64_59: "w < 2 ^ 59 \<Longrightarrow> unat (ucast (w :: u64) :: 59 word) = unat w"
  by (simp add: unsigned_ucast_eq take_bit_nat_eq_self word_less_nat_alt)

lemma make_unique_id_cap_next:
  assumes "make_unique_id_cap s = Some (c, s')"
  shows "\<exists>i. c = IdCap i \<and> id_number i = id_counter s \<and> id_counter s' = id_counter s + 1"
proof -
  have v: "next_id0 s < 2 ^ 59"
    and c: "c = IdCap \<lparr>id_val1 = ucast (next_id0 s), id_val2 = next_id1 s, id_val3 = next_id2 s\<rparr>"
    using assms by (auto simp: make_unique_id_cap_def make_id_cap_def split: if_splits)
  have "next_id0 s \<noteq> - 1" using v by auto
  then have "id_counter s' = id_counter s + 1"
    using assms unat_minus_1_u64
    by (auto simp: make_unique_id_cap_def make_id_cap_def id_counter_def unat_suc_u64
        split: if_splits)
  moreover have "id_number \<lparr>id_val1 = ucast (next_id0 s), id_val2 = next_id1 s, id_val3 = next_id2 s\<rparr> = id_counter s"
    using v by (simp add: id_number_def id_counter_def unat_ucast_64_59)
  ultimately show ?thesis using c by blast
qed

lemma digits_less:
  fixes x y x' y' N :: nat
  assumes "y < N" "y' < N"
  shows "(x * N + y < x' * N + y') = (x < x' \<or> x = x' \<and> y < y')"
proof -
  have "x < x' \<Longrightarrow> x * N + y < x' * N + y'"
    using assms mult_le_mono1 [of "Suc x" x' N] by simp
  moreover have "x' < x \<Longrightarrow> x' * N + y' < x * N + y"
    using assms mult_le_mono1 [of "Suc x'" x N] by simp
  ultimately show ?thesis by (cases x x' rule: linorder_cases) auto
qed

lemma digits_eq:
  fixes x y x' y' N :: nat
  assumes "y < N" "y' < N"
  shows "(x * N + y = x' * N + y') = (x = x' \<and> y = y')"
  using digits_less [OF assms, of x x'] digits_less [OF assms(2,1), of x' x] by auto

lemma compare_id_cap_sgn:
  assumes "cap_at s a = IdCap i" "cap_at s b = IdCap j" "a \<noteq> 0" "b \<noteq> 0"
  shows "compare_id_cap a b s = Some (sgn (int (id_number i) - int (id_number j)))"
proof -
  have b: "unat (id_val2 k) < 2 ^ 64" "unat (id_val3 k) < 2 ^ 64" for k by (rule unat_u64_less)+
  have e: "id_number k = (unat (id_val1 k) * 2 ^ 64 + unat (id_val2 k)) * 2 ^ 64 + unat (id_val3 k)" for k
    by (simp add: id_number_def algebra_simps)
  have l: "id_number k < id_number k' \<longleftrightarrow> id_val1 k < id_val1 k' \<or> id_val1 k = id_val1 k' \<and>
      (id_val2 k < id_val2 k' \<or> id_val2 k = id_val2 k' \<and> id_val3 k < id_val3 k')" for k k'
    unfolding e digits_less [OF b(2) b(2)] digits_less [OF b(1) b(1)] digits_eq [OF b(1) b(1)]
    unfolding word_less_nat_alt word_unat_eq_iff by blast
  have "sgn (int (id_number i) - int (id_number j)) =
      (if id_number i < id_number j then - 1 else if id_number j < id_number i then 1 else 0)"
    by (simp add: sgn_if)
  moreover have "compare_id_cap a b s = Some (if id_number i < id_number j then - 1
      else if id_number j < id_number i then 1 else 0)"
    unfolding l using assms
    by (cases "id_val1 i" "id_val1 j" rule: linorder_cases;
        cases "id_val2 i" "id_val2 j" rule: linorder_cases;
        cases "id_val3 i" "id_val3 j" rule: linorder_cases)
      (auto simp: compare_id_cap_def)
  ultimately show ?thesis by simp
qed

subsection \<open>Memory objects\<close>

lemma unat_36_less: "unat (w :: 36 word) < 68719476736"
  using unsigned_less [of w] by simp

text \<open>
  The places the creation functions work on: a memory capability somewhere in its derivation
  chain, and an unused slot.
\<close>

definition can_create :: "kstate \<Rightarrow> addr \<Rightarrow> addr \<Rightarrow> addr list \<Rightarrow> addr list \<Rightarrow> memory_cap \<Rightarrow> bool" where
  "can_create s dst src as bs m \<longleftrightarrow> chain s (as @ src # bs) \<and> cap_at s src = MemoryCap m \<and>
     dst \<noteq> 0 \<and> is_unused s dst \<and> slot_ok s dst"

definition aligned_base :: "memory_cap \<Rightarrow> u64 \<Rightarrow> u64" where
  "aligned_base m alignment = round_up (ucast (mem_phys_addr m) + ucast (mem_used_size m)) alignment"

lemma can_createD:
  assumes "can_create s dst src as bs m"
  shows "src \<noteq> 0" "dst \<noteq> 0" "src \<noteq> dst" "chain s (as @ src # bs)" "chain s [dst]" "cap_at s dst = NullCap"
    "is_unused s dst" "slot_ok s dst" "cap_at s src = MemoryCap m"
  using assms chain_null [of s "as @ src # bs"] chain_single [of s dst]
  by (auto simp: can_create_def is_unused_def is_isolated_def)

text \<open>The outcome once the size check has passed: the new capability and its place.\<close>

lemma create_memory_object_makes:
  assumes can: "can_create s dst src as bs m" and sz: "sz \<noteq> 0" "unat sz < 2 ^ 36"
    and base: "base = aligned_base m alignment" "unat base < 2 ^ 36"
    and ok: "\<not> ucast (mem_phys_addr m) + ucast (mem_size m) - base < sz"
  obtains s' where "create_memory_object dst src sz alignment s = Some (dst, s')"
    "cap_at s' = (cap_at s)(
       dst := MemoryCap \<lparr>mem_device = mem_device m, mem_size = ucast sz, mem_phys_addr = ucast base, mem_used_size = 0\<rparr>,
       src := MemoryCap (m\<lparr>mem_used_size := ucast (base + sz - ucast (mem_phys_addr m))\<rparr>))"
    "chain s' (as @ src # dst # bs)" "tasks s' = tasks s" "spaces s' = spaces s" "errno s' = errno s"
    "tables s' = tables s" "current_task s' = current_task s"
    "links_outside (set (as @ src # bs) \<union> {dst}) s s'"
proof -
  note d = can_createD [OF can]
  let ?c = "MemoryCap \<lparr>mem_device = mem_device m, mem_size = ucast sz, mem_phys_addr = ucast base, mem_used_size = 0\<rparr>"
  let ?u = "MemoryCap (m\<lparr>mem_used_size := ucast (base + sz - ucast (mem_phys_addr m))\<rparr>)"
  let ?s1 = "set_cap src ?u (set_cap dst ?c s)"
  have mk: "make_memory_cap (mem_device m) sz base = Some ?c"
    using sz(2) base(2) by (simp add: make_memory_cap_def word_less_nat_alt CONFIG_MAX_PHYSICAL_ADDRESS_def)
  have dj: "set [dst] \<inter> set (as @ src # bs) = {}"
    using chain_single_notin [OF d(5,4,3)] by simp
  have c1: "chain ?s1 (as @ src # bs)" "chain ?s1 [dst]" "slot_ok ?s1 dst"
    using d by simp_all
  from insert_after_chain [OF c1(1,2) dj c1(3)]
  obtain s' where s': "insert_after src dst ?s1 = Some s'" "chain s' (as @ src # dst # [] @ bs)"
    "same_but_links ?s1 s'" "links_outside (set (as @ src # bs) \<union> set [dst]) ?s1 s'" .
  have "create_memory_object dst src sz alignment s = Some (dst, s')"
    using d sz(1) ok mk s'(1) by (simp add: create_memory_object_def base(1) aligned_base_def)
  then show ?thesis
    using that [of s'] s' same_but_linksD [OF s'(3)] by (simp add: links_outside_def)
qed

text \<open>The addresses involved, as naturals.\<close>

lemma region_arith:
  fixes m :: memory_cap
  defines "P \<equiv> unat (mem_phys_addr m)" and "S \<equiv> unat (mem_size m)" and "U \<equiv> unat (mem_used_size m)"
  assumes a: "alignment \<noteq> 0" "unat alignment \<le> 2 ^ 63"
  shows "unat (ucast (mem_phys_addr m) + ucast (mem_used_size m) :: u64) = P + U"
    "unat (ucast (mem_phys_addr m) + ucast (mem_size m) :: u64) = P + S"
    "unat (aligned_base m alignment) = nat_round_up (P + U) (unat alignment)"
proof -
  have b: "P < 68719476736" "S < 68719476736" "U < 68719476736"
    unfolding P_def S_def U_def by (rule unat_36_less)+
  have "ucast (mem_phys_addr m) + ucast (mem_used_size m) = (of_nat (P + U) :: u64)"
    "ucast (mem_phys_addr m) + ucast (mem_size m) = (of_nat (P + S) :: u64)"
    unfolding P_def S_def U_def by (simp_all flip: unat_ucast_36)
  then show pu: "unat (ucast (mem_phys_addr m) + ucast (mem_used_size m) :: u64) = P + U"
    and "unat (ucast (mem_phys_addr m) + ucast (mem_size m) :: u64) = P + S"
    using b unat_of_nat_u64 [of "P + U"] unat_of_nat_u64 [of "P + S"] by simp_all
  show "unat (aligned_base m alignment) = nat_round_up (P + U) (unat alignment)"
    unfolding aligned_base_def using a b pu by (subst unat_round_up) simp_all
qed

lemma unat_diff_u64: "unat b \<le> unat a \<Longrightarrow> unat (a - b :: u64) = unat a - unat b"
  by (simp add: unat_sub word_le_nat_alt)

lemma create_memory_object_fits:
  assumes can: "can_create s dst src as bs m" and sz: "sz \<noteq> 0"
    and a: "alignment \<noteq> 0" "unat alignment \<le> 2 ^ 63"
    and parent: "unat (mem_phys_addr m) + unat (mem_size m) \<le> 2 ^ 36"
    and base: "unat (aligned_base m alignment) \<le> unat (mem_phys_addr m) + unat (mem_size m)"
  shows "\<not> ucast (mem_phys_addr m) + ucast (mem_size m) - aligned_base m alignment < sz \<longleftrightarrow>
    unat (aligned_base m alignment) + unat sz \<le> unat (mem_phys_addr m) + unat (mem_size m)"
proof -
  note r = region_arith [OF a, of m]
  have "unat (ucast (mem_phys_addr m) + ucast (mem_size m) - aligned_base m alignment) =
      unat (mem_phys_addr m) + unat (mem_size m) - unat (aligned_base m alignment)"
    using base r(2) by (simp add: unat_diff_u64)
  then show ?thesis using base by (auto simp: word_less_nat_alt)
qed

text \<open>
  C13: \<^verbatim>\<open>create_memory_object\<close> inside its parent. When the aligned start of the unused
  part still lies in the parent region, a request that does not fit is refused with
  \<^verbatim>\<open>SYS_E_CAP_STATE\<close>, and one that fits yields, behind the parent in the derivation chain, a
  capability for a region that is aligned, has the requested size, starts at or after the
  used part and ends within the parent, whose used size grows up to the end of the new region.
\<close>

theorem create_memory_object_contained:
  assumes can: "can_create s dst src as bs m" and sz: "sz \<noteq> 0"
    and a: "alignment \<noteq> 0" "unat alignment \<le> 2 ^ 63"
    and parent: "unat (mem_phys_addr m) + unat (mem_size m) \<le> 2 ^ 36"
    and base: "unat (aligned_base m alignment) \<le> unat (mem_phys_addr m) + unat (mem_size m)"
  shows "if unat (aligned_base m alignment) + unat sz > unat (mem_phys_addr m) + unat (mem_size m)
    then create_memory_object dst src sz alignment s = Some (0, s\<lparr>errno := SYS_E_CAP_STATE\<rparr>)
    else \<exists>s' n m'. create_memory_object dst src sz alignment s = Some (dst, s') \<and>
      chain s' (as @ src # dst # bs) \<and> cap_at s' dst = MemoryCap n \<and> cap_at s' src = MemoryCap m' \<and>
      unat alignment dvd unat (mem_phys_addr n) \<and> unat (mem_size n) = unat sz \<and> mem_used_size n = 0 \<and>
      unat (mem_phys_addr m) + unat (mem_used_size m) \<le> unat (mem_phys_addr n) \<and>
      unat (mem_phys_addr n) + unat (mem_size n) \<le> unat (mem_phys_addr m) + unat (mem_size m) \<and>
      unat (mem_phys_addr m) + unat (mem_used_size m') = unat (mem_phys_addr n) + unat (mem_size n)"
proof (cases "unat (aligned_base m alignment) + unat sz > unat (mem_phys_addr m) + unat (mem_size m)")
  case True
  with create_memory_object_fits [OF assms] can_createD [OF can] sz show ?thesis
    by (simp add: create_memory_object_def aligned_base_def)
next
  case False
  let ?b = "aligned_base m alignment" and ?p = "unat (mem_phys_addr m)" and ?u = "unat (mem_used_size m)"
  note r = region_arith [OF a, of m]
  have a0: "0 < unat alignment" using a(1) by (simp add: unat_gt_0)
  have bl: "?p + ?u \<le> unat ?b" using r(3) nat_round_up_ge [OF a0] by simp
  have sz0: "0 < unat sz" using sz by (simp add: unat_gt_0)
  have szl: "unat sz < 2 ^ 36" using False bl unat_36_less [of "mem_size m"] by simp
  have bs36: "unat ?b < 2 ^ 36" using False parent sz0 by simp
  have "\<not> ucast (mem_phys_addr m) + ucast (mem_size m) - ?b < sz"
    using False create_memory_object_fits [OF assms] by simp
  from create_memory_object_makes [OF can sz szl refl bs36 this]
  obtain s' where s': "create_memory_object dst src sz alignment s = Some (dst, s')"
    "cap_at s' = (cap_at s)(
       dst := MemoryCap \<lparr>mem_device = mem_device m, mem_size = ucast sz, mem_phys_addr = ucast ?b, mem_used_size = 0\<rparr>,
       src := MemoryCap (m\<lparr>mem_used_size := ucast (?b + sz - ucast (mem_phys_addr m))\<rparr>))"
    "chain s' (as @ src # dst # bs)" by blast
  have "?b + sz - ucast (mem_phys_addr m) = of_nat (unat ?b + unat sz - ?p)"
    using bl by (simp add: of_nat_diff flip: unat_ucast_36)
  then have "unat (?b + sz - ucast (mem_phys_addr m)) = unat ?b + unat sz - ?p"
    using bs36 szl by (simp add: unat_of_nat_u64)
  then have u: "unat (ucast (?b + sz - ucast (mem_phys_addr m)) :: 36 word) = unat ?b + unat sz - ?p"
    using False unat_36_less [of "mem_size m"] by (subst unat_ucast_64_36) simp_all
  have n: "unat (ucast ?b :: 36 word) = unat ?b" "unat (ucast sz :: 36 word) = unat sz"
    using bs36 szl by (simp_all add: unat_ucast_64_36)
  have "unat alignment dvd unat ?b" unfolding r(3) by (rule nat_round_up_dvd)
  with s' False can_createD(3) [OF can] bl u n show ?thesis by simp
qed

text \<open>The demonstration task with a memory capability for 2 KiB at 0x1000, of which 64 bytes are used.\<close>

definition demo_memory :: memory_cap where
  "demo_memory = \<lparr>mem_device = False, mem_size = 0x800, mem_phys_addr = 0x1000, mem_used_size = 64\<rparr>"

definition demo_mem :: kstate where
  "demo_mem = set_cap 0x1040 (MemoryCap demo_memory) demo_state"

lemma demo_can_create: "can_create demo_mem 0x1068 0x1040 [] [] demo_memory"
  by (simp add: can_create_def demo_mem_def chain_def is_unused_def)

theorem create_memory_object_contained_witness:
  "\<exists>s' n. create_memory_object 0x1068 0x1040 64 64 demo_mem = Some (0x1068, s') \<and>
     cap_at s' 0x1068 = MemoryCap n \<and> unat (mem_size n) = 64 \<and>
     unat (mem_phys_addr n) + 64 \<le> 0x1800"
proof -
  have b: "unat (aligned_base demo_memory 64) = 4160"
    by (simp add: aligned_base_def demo_memory_def round_up_def)
  have "unat (mem_phys_addr demo_memory) = 4096" "unat (mem_size demo_memory) = 2048"
    by (simp_all add: demo_memory_def)
  with create_memory_object_contained [OF demo_can_create, of 64 64] b show ?thesis by auto
qed

text \<open>
  \<^verbatim>\<open>create_memory_object\<close> outside its parent. When rounding up passes the end of the
  parent region, the remaining size wraps around to a huge number, the size check passes, and
  the call returns a capability for memory that begins behind the end of the parent.
\<close>

theorem create_memory_object_escapes:
  assumes can: "can_create s dst src as bs m" and sz: "sz \<noteq> 0" "unat sz < 2 ^ 36"
    and a: "alignment \<noteq> 0" "unat alignment \<le> 2 ^ 63"
    and base: "unat (aligned_base m alignment) < 2 ^ 36"
      "unat (mem_phys_addr m) + unat (mem_size m) < unat (aligned_base m alignment)"
  shows "\<exists>s' n. create_memory_object dst src sz alignment s = Some (dst, s') \<and>
    cap_at s' dst = MemoryCap n \<and> unat (mem_size n) = unat sz \<and>
    unat (mem_phys_addr m) + unat (mem_size m) < unat (mem_phys_addr n)"
proof -
  let ?b = "aligned_base m alignment"
  let ?e = "ucast (mem_phys_addr m) + ucast (mem_size m) :: u64"
  have e: "unat ?e = unat (mem_phys_addr m) + unat (mem_size m)" by (rule region_arith(2) [OF a])
  have "?e - ?b = of_nat (2 ^ 64 - (unat ?b - unat ?e))"
    using base unat_u64_less [of ?b] by (simp add: of_nat_diff e)
  moreover have "2 ^ 64 - (unat ?b - unat ?e) < (2 ^ 64 :: nat)" using base(2) e by simp
  ultimately have "unat (?e - ?b) = 2 ^ 64 - (unat ?b - unat ?e)" by (simp only: unat_of_nat_u64)
  then have "\<not> ?e - ?b < sz" using base(1) sz(2) by (simp add: word_less_nat_alt)
  from create_memory_object_makes [OF can sz refl base(1) this]
  obtain s' where s': "create_memory_object dst src sz alignment s = Some (dst, s')"
    "cap_at s' = (cap_at s)(
       dst := MemoryCap \<lparr>mem_device = mem_device m, mem_size = ucast sz, mem_phys_addr = ucast ?b, mem_used_size = 0\<rparr>,
       src := MemoryCap (m\<lparr>mem_used_size := ucast (?b + sz - ucast (mem_phys_addr m))\<rparr>))" by blast
  with can_createD(3) [OF can] base sz(2) show ?thesis by (simp add: unat_ucast_64_36)
qed

theorem create_memory_object_escapes_witness:
  "\<exists>s' n. create_memory_object 0x1068 0x1040 0x1000 0x1000 demo_mem = Some (0x1068, s') \<and>
     cap_at s' 0x1068 = MemoryCap n \<and> 0x1800 < unat (mem_phys_addr n)"
proof -
  have "unat (aligned_base demo_memory 0x1000) = 8192" "unat (mem_phys_addr demo_memory) = 4096"
    "unat (mem_size demo_memory) = 2048"
    by (simp_all add: aligned_base_def demo_memory_def round_up_def)
  with create_memory_object_escapes [OF demo_can_create, of "0x1000" "0x1000"] show ?thesis by auto
qed

text \<open>
  Ids are unique and ordered by age. An id capability made at some time and one made in
  any later state (the counter has not gone back) compare as smaller and larger.
\<close>

theorem unique_ids_increase:
  assumes "make_unique_id_cap s = Some (c, s')" "make_unique_id_cap t = Some (d, t')"
    "id_counter s' \<le> id_counter t" "cap_at u a = c" "cap_at u b = d" "a \<noteq> 0" "b \<noteq> 0"
  shows "compare_id_cap a b u = Some (- 1) \<and> compare_id_cap b a u = Some 1 \<and> compare_id_cap a a u = Some 0"
proof -
  obtain i where i: "c = IdCap i" "id_number i < id_counter s'"
    using make_unique_id_cap_next [OF assms(1)] by auto
  obtain j where j: "d = IdCap j" "id_number j = id_counter t"
    using make_unique_id_cap_next [OF assms(2)] by auto
  have "id_number i < id_number j" using i(2) j(2) assms(3) by simp
  with i(1) j(1) assms(4-7) show ?thesis by (simp add: compare_id_cap_sgn sgn_if)
qed

theorem unique_ids_increase_witness:
  "\<exists>c d s' t'. make_unique_id_cap zero_state = Some (c, s') \<and> make_unique_id_cap s' = Some (d, t') \<and>
     compare_id_cap 0x1040 0x1068 (set_cap 0x1040 c (set_cap 0x1068 d t')) = Some (- 1)"
proof -
  let ?s = zero_state
  have 1: "make_unique_id_cap ?s = Some (IdCap \<lparr>id_val1 = 0, id_val2 = 0, id_val3 = 0\<rparr>, ?s\<lparr>next_id2 := 1\<rparr>)"
    "make_unique_id_cap (?s\<lparr>next_id2 := 1\<rparr>) =
      Some (IdCap \<lparr>id_val1 = 0, id_val2 = 0, id_val3 = 1\<rparr>, ?s\<lparr>next_id2 := 2\<rparr>)"
    by (simp_all add: make_unique_id_cap_def make_id_cap_def zero_state_def)
  show ?thesis
    using unique_ids_increase [OF 1 order_refl, of _ "0x1040" "0x1068"] 1
    by (intro exI [where x = "IdCap \<lparr>id_val1 = 0, id_val2 = 0, id_val3 = 0\<rparr>"]
        exI [where x = "IdCap \<lparr>id_val1 = 0, id_val2 = 0, id_val3 = 1\<rparr>"]
        exI [where x = "?s\<lparr>next_id2 := 1\<rparr>"] exI [where x = "?s\<lparr>next_id2 := 2\<rparr>"]) simp
qed

subsection \<open>Extending a capability space through capabilities\<close>

lemma extend_cap_space_cap_effect:
  assumes "extend_cap_space_cap ts ps s = Some (True, s')" "cap_at s ps = PageTableCap pt"
    "cap_at s ts = TaskCap tc" "mapped_page (pt_table pt)"
  obtains va mid j where
    "walk_enabled (t_root_page_table (tasks s (tc_task tc))) va [2] s = Some mid"
    "va = space_va (512 * ucast (t_num_extension (tasks s (tc_task tc))))"
    "walk va 1 = Some j"
    "tables s' = tables (upd_pte mid j (\<lambda>pte. enable (set_next_page (pt_table pt) (set_flags no_flags pte))) s)"
    "cap_at s' ps = PageTableCap (pt\<lparr>pt_mapped := True, pt_level := 0, pt_virt_addr_base := ucast va,
       pt_parent_table := pt_table pt\<rparr>)"
proof -
  let ?t = "tc_task tc"
  obtain va s1 mid' i where e: "extend_cap_space ?t (pt_table pt) s = Some (va, s1)" "va \<noteq> 0"
    "walk_enabled (t_root_page_table (tasks s1 ?t)) va [2] s1 = Some mid'" "walk va 1 = Some i"
    "s' = set_cap ps (PageTableCap (pt\<lparr>pt_mapped := True, pt_level := 0, pt_virt_addr_base := ucast va,
       pt_parent_table := get_next_page (tables s1 mid' i)\<rparr>)) s1"
    using assms(1-3)
    by (auto simp: extend_cap_space_cap_def bind_Some_iff split: if_splits)
  from e(1,2) obtain mid j where x: "walk_enabled (t_root_page_table (tasks s ?t)) va [2] s = Some mid"
    "walk va 1 = Some j" "\<not> is_enabled (tables s mid j)"
    "tables s1 = tables (upd_pte mid j (\<lambda>pte. enable (set_next_page (pt_table pt) (set_flags no_flags pte))) s)"
    "t_root_page_table (tasks s1 ?t) = t_root_page_table (tasks s ?t)"
    by (auto simp: extend_cap_space_def bind_Some_iff split: if_splits)
  have va: "va = space_va (512 * ucast (t_num_extension (tasks s ?t)))"
    using e(1,2) by (auto simp: extend_cap_space_def space_va_def bind_Some_iff split: if_splits)
  have "mid' = mid"
    using walk_enabled_upd_pte [OF x(1,3,4)] e(3) x(5) by simp
  moreover have "i = j" using e(4) x(2) by simp
  ultimately have "get_next_page (tables s1 mid' i) = pt_table pt"
    using x(4) mapped_page_pte [OF assms(4)] by simp
  then show ?thesis using that [OF x(1) va x(2)] e(5) x(4) by simp
qed

definition demo_page_table :: page_table_cap where
  "demo_page_table = \<lparr>pt_mapped = False, pt_level = 0, pt_virt_addr_base = 0,
     pt_table = 0x2000005000, pt_parent_table = 0\<rparr>"

definition demo_task_cap :: task_cap where
  "demo_task_cap = \<lparr>tc_killable = True, tc_switchable = True, tc_suspendable = True,
     tc_resumable = True, tc_register_gettable = True, tc_register_settable = True,
     tc_kill_notifiable = True, tc_task = 0x2000004000\<rparr>"

definition demo_extend :: kstate where
  "demo_extend = set_cap 0x1040 (TaskCap demo_task_cap)
     (set_cap 0x1068 (PageTableCap demo_page_table) demo_tables)"

lemma demo_extend_ok: "\<exists>s'. extend_cap_space_cap 0x1040 0x1068 demo_extend = Some (True, s')"
proof -
  let ?va = "CONFIG_CAPABILITY_SPACE_BASE + 2097152"
  have va: "?va = space_va 512" by (simp add: space_va_def)
  have "walk ?va 2 = Some 192" "walk ?va (Suc 0) = Some 1" "?va \<noteq> 0"
    using space_va_walk [of 512] space_va_index [of 512] unat_space_va [of 512]
    unfolding va by (auto intro: word_unatI)
  moreover have "tasks demo_extend 0x2000004000 = zero_task\<lparr>t_tid := 1, t_state := running,
       t_root_page_table := 0x2000001000, t_num_extension := 1\<rparr>"
    "lock_free_for demo_extend 0x2000004000"
    by (simp_all add: demo_extend_def demo_tables_def lock_free_for_def current_tid_def zero_task_def
        rlock_def free_lock_def)
  moreover have "tables demo_extend 0x2000001000 192 = enable (set_next_page 0x2000002000 zero_pte)"
    "tables demo_extend 0x2000002000 1 = zero_pte"
    by (simp_all add: demo_extend_def demo_tables_def zero_page_table_def)
  moreover have "cap_at demo_extend 0x1040 = TaskCap demo_task_cap" "tc_task demo_task_cap = 0x2000004000"
    "cap_at demo_extend 0x1068 = PageTableCap demo_page_table"
    "pt_table demo_page_table = 0x2000005000" "\<not> pt_mapped demo_page_table"
    by (simp_all add: demo_extend_def demo_task_cap_def demo_page_table_def)
  ultimately show ?thesis
    by (simp add: extend_cap_space_cap_def extend_cap_space_def walk_enabled.simps mapped_page_pte)
qed

end
