(* ===== verification/Regions.thy ===== *)
theory Regions
  imports Cap_Objects
begin

text \<open>
  Physical memory regions at boot (\<^verbatim>\<open>src/arch/rv64/kernel/setup.cpp\<close>):
  \<^verbatim>\<open>subtract_region\<close> and \<^verbatim>\<open>insert_memory_region_caps\<close>, which takes the reserved regions out
  of a memory region and gives the root task memory capabilities for what is left. The lemmas
  show that the subtraction is set difference and that both loops end with the capabilities of a reference
  function, which cuts the region into the largest naturally aligned powers of two that fit.

  \<^verbatim>\<open>root_boot_info_t\<close> is declared by libcaprese; the model has the fields that the
  boot code writes. A shift by 64 or more, undefined in C++, stops the machine.
\<close>

record region_t =
  r_start :: addr
  r_end :: addr

definition subtract_region :: "region_t \<Rightarrow> region_t \<Rightarrow> region_t \<times> region_t" where
  "subtract_region a b =
     (let none = \<lparr>r_start = 0, r_end = 0\<rparr> in
      if r_start a < r_start b then
        if r_end a \<le> r_start b then (a, none)
        else if r_end a \<le> r_end b then (\<lparr>r_start = r_start a, r_end = r_start b\<rparr>, none)
        else (\<lparr>r_start = r_start a, r_end = r_start b\<rparr>, \<lparr>r_start = r_end b, r_end = r_end a\<rparr>)
      else if r_end b < r_end a then
        if r_end b \<le> r_start a then (a, none)
        else (\<lparr>r_start = r_end b, r_end = r_end a\<rparr>, none)
      else (none, none))"

record root_boot_info_t =
  bi_mem_caps_offset :: u64
  bi_num_mem_caps :: u64
  bi_caps :: "u64 \<Rightarrow> u64"
  bi_num_virt_page_caps :: u64
  bi_virt_page_caps_offset :: u64
  bi_root_task_cap :: u64
  bi_root_page_table_cap :: u64
  bi_cap_space_page_table_caps :: "nat \<Rightarrow> u64"
  bi_page_table_caps :: "nat \<Rightarrow> u64"
  bi_stack_page_table_caps :: "nat \<Rightarrow> u64"
  bi_root_task_end_address :: u64
  bi_dtb_start :: u64
  bi_dtb_end :: u64
  bi_num_dtb_vp_caps :: u64
  bi_dtb_vp_caps_offset :: u64

type_synonym boot_state = "root_boot_info_t \<times> kstate"

text \<open>One capability for \<open>2 ^ size_bit\<close> bytes at \<open>start\<close>, inserted and recorded.\<close>

definition insert_region_cap :: "addr \<Rightarrow> bool \<Rightarrow> addr \<times> 16 word \<Rightarrow> boot_state \<Rightarrow> boot_state option" where
  "insert_region_cap root_task device chunk b = (case (chunk, b) of ((start, size_bit), (bi, s)) \<Rightarrow> do {
     cap \<leftarrow> make_memory_cap device (push_bit (unat size_bit) 1) start;
     (cap_slot, s) \<leftarrow> insert_cap root_task cap s;
     cassert (cap_slot \<noteq> 0);
     d \<leftarrow> get_cap_slot_index cap_slot s;
     Some (bi\<lparr>bi_caps := (bi_caps bi)(bi_mem_caps_offset bi + bi_num_mem_caps bi := d),
       bi_num_mem_caps := bi_num_mem_caps bi + 1\<rparr>, s)
   })"

partial_function (option) insert_region_low ::
  "addr \<Rightarrow> bool \<Rightarrow> addr \<Rightarrow> addr \<Rightarrow> 16 word \<Rightarrow> boot_state \<Rightarrow> (addr \<times> 16 word \<times> boot_state) option" where
  "insert_region_low root_task device end_addr start size_bit b =
     (if start < end_addr then do {
        cassert (size_bit < 64);
        let bit = push_bit (unat size_bit) 1;
        if start AND bit \<noteq> 0 then
          if end_addr - start \<ge> bit then do {
            b \<leftarrow> insert_region_cap root_task device (start, size_bit) b;
            insert_region_low root_task device end_addr (start + bit) (size_bit + 1) b
          }
          else Some (start, size_bit, b)
        else insert_region_low root_task device end_addr start (size_bit + 1) b
      }
      else Some (start, size_bit, b))"

partial_function (option) insert_region_high ::
  "addr \<Rightarrow> bool \<Rightarrow> addr \<Rightarrow> addr \<Rightarrow> 16 word \<Rightarrow> boot_state \<Rightarrow> boot_state option" where
  "insert_region_high root_task device end_addr start size_bit b =
     (if start < end_addr then do {
        cassert (size_bit < 64);
        let bit = push_bit (unat size_bit) 1;
        if end_addr - start \<ge> bit then do {
          b \<leftarrow> insert_region_cap root_task device (start, size_bit) b;
          insert_region_high root_task device end_addr (start + bit) size_bit b
        }
        else insert_region_high root_task device end_addr start (size_bit - 1) b
      }
      else Some b)"

text \<open>
  The recursion over the reserved regions: \<open>reserved\<close> is the rest of
  \<^verbatim>\<open>reserved_region\<close> from \<^verbatim>\<open>index\<close> on.
\<close>

fun insert_memory_region_caps ::
  "addr \<Rightarrow> region_t list \<Rightarrow> bool \<Rightarrow> region_t \<Rightarrow> boot_state \<Rightarrow> boot_state option" where
  "insert_memory_region_caps root_task reserved device region b =
     (if r_start region \<ge> r_end region then Some b
      else if r_start region = 0 then Some b
      else case reserved of
        r # rs \<Rightarrow> do {
          let (d0, d1) = subtract_region region r;
          b \<leftarrow> (if r_start d0 < r_end d0 then insert_memory_region_caps root_task rs device d0 b else Some b);
          if r_start d1 < r_end d1 then insert_memory_region_caps root_task rs device d1 b else Some b
        }
      | [] \<Rightarrow> do {
          (start, size_bit, b) \<leftarrow> insert_region_low root_task device (r_end region) (r_start region) 0 b;
          insert_region_high root_task device (r_end region) start size_bit b
        })"

declare insert_memory_region_caps.simps [simp del]

subsection \<open>Subtraction\<close>

definition region_set :: "region_t \<Rightarrow> addr set" where
  "region_set r = {x. r_start r \<le> x \<and> x < r_end r}"

lemma subtract_region_props:
  assumes "r_start b \<le> r_end b" "subtract_region a b = (d0, d1)"
  shows "region_set d0 \<union> region_set d1 = region_set a - region_set b"
    "region_set d0 \<inter> region_set d1 = {}"
  using assms by (auto simp: subtract_region_def region_set_def split: if_splits)

text \<open>
  \<^verbatim>\<open>subtract_region\<close> is set difference. For a subtrahend that does not end before it
  starts, the two result regions are disjoint and together hold exactly the addresses of the
  first region that are not in the second.
\<close>

theorem subtract_region_difference:
  assumes "r_start b \<le> r_end b"
  shows "region_set (fst (subtract_region a b)) \<union> region_set (snd (subtract_region a b)) =
      region_set a - region_set b \<and>
    region_set (fst (subtract_region a b)) \<inter> region_set (snd (subtract_region a b)) = {}"
  using subtract_region_props [OF assms prod.collapse [symmetric]] by blast

theorem subtract_region_difference_witness:
  "region_set (fst (subtract_region \<lparr>r_start = 10, r_end = 50\<rparr> \<lparr>r_start = 20, r_end = 30\<rparr>)) \<union>
   region_set (snd (subtract_region \<lparr>r_start = 10, r_end = 50\<rparr> \<lparr>r_start = 20, r_end = 30\<rparr>)) =
   {10..<50} - {20..<30}"
proof -
  have "region_set \<lparr>r_start = a, r_end = b\<rparr> = {a..<b}" for a b by (auto simp: region_set_def)
  with subtract_region_difference [of "\<lparr>r_start = 20, r_end = 30\<rparr>" "\<lparr>r_start = 10, r_end = 50\<rparr>"]
  show ?thesis by simp
qed

subsection \<open>Tilings\<close>

primrec insert_chunks :: "addr \<Rightarrow> bool \<Rightarrow> (addr \<times> 16 word) list \<Rightarrow> boot_state \<Rightarrow> boot_state option" where
  "insert_chunks root_task device [] b = Some b"
| "insert_chunks root_task device (c # cs) b = do {
     b \<leftarrow> insert_region_cap root_task device c b; insert_chunks root_task device cs b }"

text \<open>
  \<open>tiles x y cs\<close>: the chunks follow each other without gap or overlap from \<open>x\<close> to
  \<open>y\<close>, and each starts at a multiple of its own size.
\<close>

fun tiles :: "nat \<Rightarrow> nat \<Rightarrow> (addr \<times> 16 word) list \<Rightarrow> bool" where
  "tiles x y [] \<longleftrightarrow> x = y"
| "tiles x y ((a, k) # cs) \<longleftrightarrow> unat a = x \<and> 2 ^ unat k dvd x \<and> tiles (x + 2 ^ unat k) y cs"

lemma tiles_append: "tiles x y cs \<Longrightarrow> tiles y z ds \<Longrightarrow> tiles x z (cs @ ds)"
  by (induction x y cs rule: tiles.induct) auto

lemma tiles_le: "tiles x y cs \<Longrightarrow> x \<le> y"
  by (induction x y cs rule: tiles.induct) auto

lemma tiles_empty: "tiles x x cs \<Longrightarrow> cs = []"
  by (cases cs) (use tiles_le in force)+

text \<open>
  The reference for the two loops: from the start of the region on, always the largest block that is aligned to
  its own size and fits; \<open>blocks x y\<close> lists the start and the number of bits of each.
\<close>

primrec largest_block :: "nat \<Rightarrow> nat \<Rightarrow> nat \<Rightarrow> nat" where
  "largest_block x y 0 = 0"
| "largest_block x y (Suc k) = (if 2 ^ Suc k dvd x \<and> x + 2 ^ Suc k \<le> y then Suc k else largest_block x y k)"

function blocks :: "nat \<Rightarrow> nat \<Rightarrow> (nat \<times> nat) list" where
  "blocks x y = (if x < y then let k = largest_block x y 35 in (x, k) # blocks (x + 2 ^ k) y else [])"
  by pat_completeness auto
termination by (relation "measure (\<lambda>(x, y). y - x)") (simp_all add: diff_less_mono2)

declare blocks.simps [simp del]

definition region_blocks :: "region_t \<Rightarrow> (addr \<times> 16 word) list" where
  "region_blocks r = map (\<lambda>(a, k). (of_nat a, of_nat k)) (blocks (unat (r_start r)) (unat (r_end r)))"

text \<open>The blocks of what the reserved regions leave of a region.\<close>

fun region_pieces :: "region_t list \<Rightarrow> region_t \<Rightarrow> (addr \<times> 16 word) list" where
  "region_pieces [] region = region_blocks region"
| "region_pieces (r # rs) region = (case subtract_region region r of (d0, d1) \<Rightarrow> region_pieces rs d0 @ region_pieces rs d1)"

lemma region_pieces_empty: "\<not> r_start region < r_end region \<Longrightarrow> region_pieces reserved region = []"
proof (induction reserved arbitrary: region)
  case Nil
  then show ?case by (simp add: region_blocks_def blocks.simps word_less_nat_alt)
next
  case (Cons r rs)
  then show ?case by (auto simp: subtract_region_def)
qed

text \<open>A tiling whose chunks can not be doubled is the one of the reference.\<close>

definition maximal :: "nat \<Rightarrow> (addr \<times> 16 word) list \<Rightarrow> bool" where
  "maximal y cs \<longleftrightarrow> (\<forall>(a, k)\<in>set cs. \<not> (2 ^ (unat k + 1) dvd unat a \<and> unat a + 2 ^ (unat k + 1) \<le> y))"

lemma maximal_simps [simp]:
  "maximal y []" "maximal y (cs @ ds) \<longleftrightarrow> maximal y cs \<and> maximal y ds"
  "maximal y ((a, k) # cs) \<longleftrightarrow> \<not> (2 ^ (unat k + 1) dvd unat a \<and> unat a + 2 ^ (unat k + 1) \<le> y) \<and> maximal y cs"
  by (auto simp: maximal_def)

lemma largest_block_eq:
  assumes "2 ^ k dvd x" "x + 2 ^ k \<le> y" "\<not> (2 ^ (k + 1) dvd x \<and> x + 2 ^ (k + 1) \<le> y)" "k \<le> m"
  shows "largest_block x y m = k"
  using assms(4)
proof (induction m)
  case (Suc m)
  show ?case
  proof (cases "k = Suc m")
    case True
    then show ?thesis using assms(1,2) by simp
  next
    case False
    then have k: "k + 1 \<le> Suc m" using Suc.prems by simp
    have "(2 :: nat) ^ (k + 1) dvd 2 ^ Suc m" using k by (rule le_imp_power_dvd)
    moreover have "(2 :: nat) ^ (k + 1) \<le> 2 ^ Suc m" using k by (intro power_increasing) simp_all
    ultimately have "\<not> (2 ^ Suc m dvd x \<and> x + 2 ^ Suc m \<le> y)" using assms(3) by (meson add_left_mono dvd_trans le_trans)
    then show ?thesis using Suc.IH k by simp
  qed
qed simp

lemma insert_chunks_append:
  "insert_chunks t d (cs @ ds) b = do { b \<leftarrow> insert_chunks t d cs b; insert_chunks t d ds b }"
  by (induction cs arbitrary: b) (auto simp: bind_assoc)

lemma unat_pow_u64: "k < 64 \<Longrightarrow> unat (push_bit k 1 :: u64) = 2 ^ k"
proof -
  assume "k < 64"
  then have "(2 :: nat) ^ k < 2 ^ 64" by (intro power_strict_increasing) simp_all
  then show ?thesis using unat_of_nat_u64 [of "2 ^ k"] by (simp add: push_bit_eq_mult)
qed

lemma unat_suc_16: "unat (k :: 16 word) < 64 \<Longrightarrow> unat (k + 1) = unat k + 1"
  by (simp add: unat_word_ariths)

lemma unat_pred_16: "0 < unat (k :: 16 word) \<Longrightarrow> unat (k - 1) = unat k - 1"
  by (subst unat_sub) (simp_all add: word_le_nat_alt)

lemma and_push_bit_iff: "k < 64 \<Longrightarrow> start AND push_bit k 1 \<noteq> 0 \<longleftrightarrow> odd (unat (start :: u64) div 2 ^ k)"
proof -
  have "push_bit k 1 = (2 ^ k :: u64)" by (simp add: push_bit_eq_mult)
  then have "start AND push_bit k 1 \<noteq> 0 \<longleftrightarrow> bit start k" by (simp add: and_exp_eq_0_iff_not_bit)
  also have "\<dots> \<longleftrightarrow> bit (unat start) k" by (simp add: bit_unsigned_iff)
  finally show ?thesis by (simp add: bit_iff_odd)
qed

lemma chunk_bounds:
  assumes "2 ^ k dvd (n :: nat)" "0 < n" "n < 2 ^ 36"
  shows "k < 36"
proof -
  have "(2 :: nat) ^ k < 2 ^ 36" using dvd_imp_le [OF assms(1,2)] assms(3) by simp
  then show ?thesis by (simp only: power_strict_increasing_iff)
qed

lemma make_region_cap:
  assumes "unat k < 36" "unat a < 2 ^ 36"
  shows "make_memory_cap device (push_bit (unat k) 1) a = Some (MemoryCap \<lparr>mem_device = device,
    mem_size = ucast (push_bit (unat k) 1 :: u64), mem_phys_addr = ucast a, mem_used_size = 0\<rparr>)"
proof -
  have "(2 :: nat) ^ unat k < 2 ^ 36" using assms(1) by (intro power_strict_increasing) simp_all
  then show ?thesis using assms unat_pow_u64 [of "unat k"]
    by (simp add: make_memory_cap_def word_less_nat_alt CONFIG_MAX_PHYSICAL_ADDRESS_def)
qed

lemma insert_region_cap_ok:
  assumes f: "free_list s t (x # xs)" and al: "alive s t" and k: "unat k < 36" and a: "unat a < 2 ^ 36"
  obtains bi' s' where "insert_region_cap t device (a, k) (bi, s) = Some (bi', s')" "free_list s' t xs"
    "alive s' t" "cap_at s' = (cap_at s)(x := MemoryCap \<lparr>mem_device = device,
       mem_size = ucast (push_bit (unat k) 1 :: u64), mem_phys_addr = ucast a, mem_used_size = 0\<rparr>)"
proof -
  let ?c = "MemoryCap \<lparr>mem_device = device,
       mem_size = ucast (push_bit (unat k) 1 :: u64), mem_phys_addr = ucast a, mem_used_size = 0\<rparr>"
  note mk = make_region_cap [OF k a, of device]
  have ok: "task_ok s t" "t_state (tasks s t) \<noteq> killed" using al by (simp_all add: alive_def)
  from insert_cap_Cons [OF f ok]
  obtain s' where s': "insert_cap t ?c s = Some (x, s')" "free_list s' t xs"
    "cap_at s' = (cap_at s)(x := ?c)" "same_but_pool t s s'" .
  have x: "x \<noteq> 0" using chain_null [OF free_listD(1) [OF f]] by auto
  have "alive s' t" using al same_but_pool_ok(4) [OF s'(4)] same_but_poolD(10) [OF s'(4)] by (simp add: alive_def)
  moreover obtain d where "get_cap_slot_index x s' = Some d" using x by (simp add: get_cap_slot_index_def)
  ultimately show ?thesis using that mk s' x by (simp add: insert_region_cap_def)
qed

text \<open>A chunk of the physical address space that a memory capability can name.\<close>

definition chunk_ok :: "addr \<times> 16 word \<Rightarrow> bool" where
  "chunk_ok c \<longleftrightarrow> unat (snd c) < 36 \<and> unat (fst c) < 2 ^ 36 \<and> 2 ^ unat (snd c) dvd unat (fst c)"

definition chunk_cap :: "bool \<Rightarrow> addr \<times> 16 word \<Rightarrow> capability_t" where
  "chunk_cap device c = MemoryCap \<lparr>mem_device = device,
     mem_size = ucast (push_bit (unat (snd c)) 1 :: u64), mem_phys_addr = ucast (fst c), mem_used_size = 0\<rparr>"

definition chunk_set :: "addr \<times> 16 word \<Rightarrow> addr set" where
  "chunk_set c = {x. unat (fst c) \<le> unat x \<and> unat x < unat (fst c) + 2 ^ unat (snd c)}"

lemma tiles_chunk_ok: "tiles x y cs \<Longrightarrow> 0 < x \<Longrightarrow> y \<le> 2 ^ 36 \<Longrightarrow> \<forall>c\<in>set cs. chunk_ok c"
proof (induction x y cs rule: tiles.induct)
  case (2 x y a k cs)
  have "x + 2 ^ unat k \<le> y" using 2(2) tiles_le [of "x + 2 ^ unat k" y cs] by simp
  moreover have "0 < (2 :: nat) ^ unat k" by simp
  ultimately have "x < 2 ^ 36" using 2(4) by linarith
  with 2 show ?case by (auto simp: chunk_ok_def intro: chunk_bounds)
qed simp

lemma tiles_blocks:
  "tiles x y cs \<Longrightarrow> maximal y cs \<Longrightarrow> 0 < x \<Longrightarrow> y \<le> 2 ^ 36 \<Longrightarrow> map (\<lambda>(a, k). (of_nat a, of_nat k)) (blocks x y) = cs"
proof (induction x y cs rule: tiles.induct)
  case (1 x y)
  then show ?case by (simp add: blocks.simps)
next
  case (2 x y a k cs)
  have le: "x + 2 ^ unat k \<le> y" using 2(2) tiles_le [of "x + 2 ^ unat k" y cs] by simp
  have "unat k < 36" using tiles_chunk_ok [OF 2(2,4,5)] by (simp add: chunk_ok_def)
  then have "largest_block x y 35 = unat k" using 2(2,3) le by (intro largest_block_eq) auto
  moreover have "x < y" using le zero_less_power [of "2 :: nat" "unat k"] by linarith
  ultimately have "blocks x y = (x, unat k) # blocks (x + 2 ^ unat k) y" by (simp add: blocks.simps [of x y])
  moreover have "of_nat x = a" using 2(2) by auto
  ultimately show ?case using 2 by simp
qed

lemma tiles_chunk_set: "tiles x y cs \<Longrightarrow> (\<Union>c\<in>set cs. chunk_set c) = {z. x \<le> unat z \<and> unat z < y}"
proof (induction x y cs rule: tiles.induct)
  case (2 x y a k cs)
  have "x + 2 ^ unat k \<le> y" using 2(2) tiles_le [of "x + 2 ^ unat k" y cs] by simp
  with 2 show ?case by (auto simp: chunk_set_def)
qed auto

lemma tiles_disjoint: "tiles x y cs \<Longrightarrow> sorted_wrt (\<lambda>c c'. chunk_set c \<inter> chunk_set c' = {}) cs"
proof (induction x y cs rule: tiles.induct)
  case (2 x y a k cs)
  from tiles_chunk_set [of "x + 2 ^ unat k" y cs] 2(2)
  have "chunk_set c' \<subseteq> {z. x + 2 ^ unat k \<le> unat z}" if "c' \<in> set cs" for c' using that by auto
  with 2 show ?case by (fastforce simp: chunk_set_def)
qed simp

lemma insert_chunks_ok:
  assumes "\<forall>c\<in>set cs. chunk_ok c" "free_list s t xs" "alive s t" "length cs \<le> length xs"
  shows "\<exists>bi' s'. insert_chunks t device cs (bi, s) = Some (bi', s') \<and> alive s' t \<and>
    free_list s' t (drop (length cs) xs) \<and> (\<forall>z. z \<notin> set (take (length cs) xs) \<longrightarrow> cap_at s' z = cap_at s z) \<and>
    (\<forall>i<length cs. cap_at s' (xs ! i) = chunk_cap device (cs ! i))"
  using assms
proof (induction cs arbitrary: s xs bi)
  case Nil
  then show ?case by simp
next
  case (Cons c cs)
  obtain a k where c: "c = (a, k)" by (cases c)
  obtain z zs where z: "xs = z # zs" using Cons(5) by (cases xs) auto
  have k: "unat k < 36" "unat a < 2 ^ 36" using Cons(2) c by (simp_all add: chunk_ok_def)
  from insert_region_cap_ok [OF Cons(3) [unfolded z] Cons(4) k, of device bi]
  obtain bi1 s1 where s1: "insert_region_cap t device c (bi, s) = Some (bi1, s1)" "free_list s1 t zs"
    "alive s1 t" "cap_at s1 = (cap_at s)(z := chunk_cap device c)"
    unfolding c chunk_cap_def fst_conv snd_conv .
  have zz: "z \<notin> set zs" using chain_distinct [OF free_listD(1) [OF Cons(3)]] z by simp
  from Cons(1) [OF _ s1(2,3), of bi1] Cons(2,5) z obtain bi' s' where
    s': "insert_chunks t device cs (bi1, s1) = Some (bi', s')" "alive s' t"
      "free_list s' t (drop (length cs) zs)" "\<forall>u. u \<notin> set (take (length cs) zs) \<longrightarrow> cap_at s' u = cap_at s1 u"
      "\<forall>i<length cs. cap_at s' (zs ! i) = chunk_cap device (cs ! i)" by auto
  have "z \<notin> set (take (length cs) zs)" using zz by (meson in_set_takeD)
  with s' s1 z show ?case by (auto simp: nth_Cons split: nat.split)
qed

subsection \<open>The two loops\<close>

lemma unat_add_bit:
  assumes "k < 36" "unat (st :: addr) + 2 ^ k \<le> 2 ^ 36"
  shows "unat (st + push_bit k 1) = unat st + 2 ^ k"
proof -
  have "unat st + unat (push_bit k 1 :: addr) < 2 ^ 64" using assms unat_pow_u64 [of k] by simp
  then have "unat (st + push_bit k 1) = unat st + unat (push_bit k 1 :: addr)" by (simp add: unat_word_ariths)
  then show ?thesis using assms(1) unat_pow_u64 [of k] by simp
qed

lemma bit_le_diff:
  assumes "k < 36" "(st :: addr) \<le> e"
  shows "push_bit k 1 \<le> e - st \<longleftrightarrow> 2 ^ k \<le> unat e - unat st"
  using assms unat_pow_u64 [of k] by (simp add: word_le_nat_alt unat_sub)

lemma odd_next_aligned:
  assumes "2 ^ k dvd (n :: nat)" "odd (n div 2 ^ k)"
  shows "2 ^ (k + 1) dvd n + 2 ^ k"
proof -
  obtain m where m: "n = 2 ^ k * m" using assms(1) by (auto simp: dvd_def)
  with assms(2) obtain j where "m = 2 * j + 1" by (auto elim: oddE)
  with m have "n + 2 ^ k = 2 ^ (k + 1) * (j + 1)" by (simp add: algebra_simps)
  then show ?thesis by (metis dvd_triv_left)
qed

lemma odd_not_dvd: "odd ((n :: nat) div 2 ^ k) \<Longrightarrow> \<not> 2 ^ (k + 1) dvd n"
  by (auto simp: dvd_def ac_simps)

lemma even_next_aligned:
  assumes "2 ^ k dvd (n :: nat)" "even (n div 2 ^ k)"
  shows "2 ^ (k + 1) dvd n"
proof -
  obtain m where m: "n = 2 ^ k * m" using assms(1) by (auto simp: dvd_def)
  with assms(2) show ?thesis by (auto simp: mult.commute elim!: evenE)
qed

text \<open>
  The first loop inserts chunks of growing size until the region is used up or the rest is
  smaller than the alignment reached; it does so whatever the state of the capabilities is.
\<close>

lemma insert_region_low_chunks:
  assumes "2 ^ unat k dvd unat st" "0 < unat st" "unat st \<le> unat e" "unat e \<le> 2 ^ 36"
  shows "\<exists>cs st' k'. (\<forall>b. insert_region_low t d e st k b =
      do { b \<leftarrow> insert_chunks t d cs b; Some (st', k', b) }) \<and>
    tiles (unat st) (unat st') cs \<and> maximal (unat e) cs \<and> unat st' \<le> unat e \<and> length cs + unat k \<le> unat k' \<and>
    (unat st' = unat e \<or> (unat e - unat st' < 2 ^ unat k' \<and> 2 ^ unat k' dvd unat st' \<and> unat k' < 36)) \<and>
    (unat k \<le> 36 \<longrightarrow> unat k' \<le> 36)"
  using assms
proof (induction "36 - unat k" arbitrary: st k rule: less_induct)
  case less
  show ?case
  proof (cases "unat st < unat e")
    case False
    then show ?thesis using less.prems
      by (intro exI [of _ "[]"] exI [of _ st] exI [of _ k])
        (simp add: insert_region_low.simps [of t d e st k] word_less_nat_alt)
  next
    case True
    have k: "unat k < 36" using chunk_bounds [OF less.prems(1,2)] True less.prems(4) by simp
    have k16: "k < 64" using k by (simp add: word_less_nat_alt)
    have k1: "unat (k + 1) = unat k + 1" using k by (simp add: unat_suc_16)
    have ste: "st < e" "st \<le> e" using True by (simp_all add: word_less_nat_alt word_le_nat_alt)
    have bit: "(st AND push_bit (unat k) 1 \<noteq> 0) = odd (unat st div 2 ^ unat k)"
      using k by (intro and_push_bit_iff) simp
    have le: "(push_bit (unat k) 1 \<le> e - st) = (2 ^ unat k \<le> unat e - unat st)"
      by (rule bit_le_diff [OF k ste(2)])
    note eq = insert_region_low.simps [of t d e st k]
    consider (even) "even (unat st div 2 ^ unat k)"
      | (fits) "odd (unat st div 2 ^ unat k)" "2 ^ unat k \<le> unat e - unat st"
      | (stops) "odd (unat st div 2 ^ unat k)" "\<not> 2 ^ unat k \<le> unat e - unat st" by blast
    then show ?thesis
    proof cases
      case even
      have "insert_region_low t d e st k b = insert_region_low t d e st (k + 1) b" for b
        using even bit ste k16 by (subst eq) simp
      moreover have "36 - unat (k + 1) < 36 - unat k" using k k1 by simp
      moreover from less.hyps [OF this _ less.prems(2-4)] even_next_aligned [OF less.prems(1) even] k k1
      obtain cs st' k' where "\<forall>b. insert_region_low t d e st (k + 1) b =
          do { b \<leftarrow> insert_chunks t d cs b; Some (st', k', b) }"
        "tiles (unat st) (unat st') cs" "maximal (unat e) cs" "unat st' \<le> unat e" "length cs + (unat k + 1) \<le> unat k'"
        "unat st' = unat e \<or> (unat e - unat st' < 2 ^ unat k' \<and> 2 ^ unat k' dvd unat st' \<and> unat k' < 36)"
        "unat k' \<le> 36"
        by auto
      ultimately show ?thesis by (intro exI [of _ cs] exI [of _ st'] exI [of _ k']) simp
    next
      case fits
      have st1: "unat (st + push_bit (unat k) 1) = unat st + 2 ^ unat k"
        using fits less.prems by (intro unat_add_bit k) simp
      have le1: "36 - unat (k + 1) < 36 - unat k" "unat (st + push_bit (unat k) 1) \<le> unat e"
        "2 ^ unat (k + 1) dvd unat (st + push_bit (unat k) 1)" "0 < unat (st + push_bit (unat k) 1)"
        unfolding k1 st1 using k fits less.prems odd_next_aligned [OF less.prems(1) fits(1)]
        by (simp_all add: le_diff_conv2 add.commute)
      from less.hyps [OF le1(1,3,4,2) less.prems(4)] k k1 st1
      obtain cs st' k' where cs: "\<forall>b. insert_region_low t d e (st + push_bit (unat k) 1) (k + 1) b =
          do { b \<leftarrow> insert_chunks t d cs b; Some (st', k', b) }"
        "tiles (unat st + 2 ^ unat k) (unat st') cs" "maximal (unat e) cs" "unat st' \<le> unat e" "length cs + (unat k + 1) \<le> unat k'"
        "unat st' = unat e \<or> (unat e - unat st' < 2 ^ unat k' \<and> 2 ^ unat k' dvd unat st' \<and> unat k' < 36)"
        "unat k' \<le> 36"
        by auto
      have f: "insert_region_low t d e (st + push_bit (unat k) 1) (k + 1) =
          (\<lambda>b. do { b \<leftarrow> insert_chunks t d cs b; Some (st', k', b) })"
        by (rule ext) (rule cs(1) [rule_format])
      have "insert_region_low t d e st k b =
          do { b \<leftarrow> insert_chunks t d ((st, k) # cs) b; Some (st', k', b) }" for b
        using fits bit le ste k16 f by (subst eq) (simp add: bind_assoc)
      then show ?thesis using cs less.prems(1) odd_not_dvd [OF fits(1)]
        by (intro exI [of _ "(st, k) # cs"] exI [of _ st'] exI [of _ k']) simp
    next
      case stops
      have "insert_region_low t d e st k b = Some (st, k, b)" for b
        using stops bit le ste k16 by (subst eq) simp
      then show ?thesis using stops less.prems k
        by (intro exI [of _ "[]"] exI [of _ st] exI [of _ k]) simp
    qed
  qed
qed

lemma insert_region_high_chunks:
  assumes "2 ^ unat k dvd unat st" "unat st \<le> unat e" "unat e \<le> 2 ^ 36" "unat k < 36"
    "unat e - unat st < 2 ^ (unat k + 1)"
  shows "\<exists>cs. (\<forall>b. insert_region_high t d e st k b = insert_chunks t d cs b) \<and>
    tiles (unat st) (unat e) cs \<and> maximal (unat e) cs \<and>
    length cs \<le> (if unat e - unat st < 2 ^ unat k then unat k else unat k + 1)"
  using assms
proof (induction "(unat e - unat st) + unat k" arbitrary: st k rule: less_induct)
  case less
  note eq = insert_region_high.simps [of t d e st k]
  show ?case
  proof (cases "unat st < unat e")
    case False
    then show ?thesis using less.prems
      by (intro exI [of _ "[]"]) (simp add: eq word_less_nat_alt)
  next
    case True
    have k16: "k < 64" using less.prems(4) by (simp add: word_less_nat_alt)
    have ste: "st < e" "st \<le> e" using True by (simp_all add: word_less_nat_alt word_le_nat_alt)
    have le: "(push_bit (unat k) 1 \<le> e - st) = (2 ^ unat k \<le> unat e - unat st)"
      by (rule bit_le_diff [OF less.prems(4) ste(2)])
    show ?thesis
    proof (cases "2 ^ unat k \<le> unat e - unat st")
      case fits: True
      have st1: "unat (st + push_bit (unat k) 1) = unat st + 2 ^ unat k"
        using fits less.prems by (intro unat_add_bit) simp_all
      have pos: "0 < (2 :: nat) ^ unat k" by simp
      have rest: "unat e - unat (st + push_bit (unat k) 1) + unat k < unat e - unat st + unat k"
        "unat (st + push_bit (unat k) 1) \<le> unat e" "unat e - unat (st + push_bit (unat k) 1) < 2 ^ unat k"
        unfolding st1 using fits less.prems(5) pos True by (linarith, linarith, simp)
      have al: "2 ^ unat k dvd unat (st + push_bit (unat k) 1)" unfolding st1 using less.prems(1) by simp
      have "unat e - unat (st + push_bit (unat k) 1) < 2 ^ (unat k + 1)" using rest(3) by simp
      from less.hyps [OF rest(1) al rest(2) less.prems(3,4) this] rest(3)
      obtain cs where cs: "\<forall>b. insert_region_high t d e (st + push_bit (unat k) 1) k b = insert_chunks t d cs b"
        "tiles (unat st + 2 ^ unat k) (unat e) cs" "maximal (unat e) cs" "length cs \<le> unat k"
        unfolding st1 if_P [OF rest(3) [unfolded st1]] by blast
      have f: "insert_region_high t d e (st + push_bit (unat k) 1) k = insert_chunks t d cs"
        by (rule ext) (rule cs(1) [rule_format])
      have "insert_region_high t d e st k b = insert_chunks t d ((st, k) # cs) b" for b
        using fits le ste k16 f by (subst eq) simp
      moreover have "unat e < unat st + 2 * 2 ^ unat k" using less.prems(2,5) by simp
      ultimately show ?thesis using cs less.prems(1) fits by (intro exI [of _ "(st, k) # cs"]) simp
    next
      case small: False
      have k0: "0 < unat k" using small True by (cases "unat k = 0") auto
      then have k1: "unat (k - 1) = unat k - 1" by (rule unat_pred_16)
      have "2 ^ (unat k - 1) dvd unat st" using less.prems(1) by (meson dvd_trans le_imp_power_dvd diff_le_self)
      then have r: "unat e - unat st + unat (k - 1) < unat e - unat st + unat k"
        "2 ^ unat (k - 1) dvd unat st" "unat (k - 1) < 36" "unat e - unat st < 2 ^ (unat (k - 1) + 1)"
        unfolding k1 using k0 small less.prems(4) by simp_all
      from less.hyps [OF r(1,2) less.prems(2,3) r(3,4)]
      obtain cs where cs: "\<forall>b. insert_region_high t d e st (k - 1) b = insert_chunks t d cs b"
        "tiles (unat st) (unat e) cs" "maximal (unat e) cs"
        "length cs \<le> (if unat e - unat st < 2 ^ unat (k - 1) then unat (k - 1) else unat (k - 1) + 1)"
        by blast
      have len: "length cs \<le> unat k" using cs(4) k0 k1 by (simp split: if_splits)
      have "insert_region_high t d e st k b = insert_chunks t d cs b" for b
        using small le ste k16 cs(1) [rule_format, of b] by (subst eq) simp
      then show ?thesis using cs(2,3) len small by (intro exI [of _ cs]) simp
    qed
  qed
qed

lemma insert_memory_region_caps_chunks:
  assumes "0 < unat (r_start region)" "unat (r_start region) \<le> unat (r_end region)"
    "unat (r_end region) \<le> 2 ^ 36"
  obtains cs where "\<forall>b. insert_memory_region_caps t [] d region b = insert_chunks t d cs b"
    "tiles (unat (r_start region)) (unat (r_end region)) cs" "cs = region_blocks region" "length cs \<le> 72"
proof -
  let ?e = "r_end region"
  from insert_region_low_chunks [of 0 "r_start region" ?e t d] assms
  obtain cs st k where lo: "\<And>b. insert_region_low t d ?e (r_start region) 0 b =
      do { b \<leftarrow> insert_chunks t d cs b; Some (st, k, b) }"
    "tiles (unat (r_start region)) (unat st) cs" "maximal (unat ?e) cs" "unat st \<le> unat ?e" "length cs \<le> unat k"
    "unat st = unat ?e \<or> (unat ?e - unat st < 2 ^ unat k \<and> 2 ^ unat k dvd unat st \<and> unat k < 36)"
    "unat k \<le> 36"
    by auto
  have "\<exists>ds. (\<forall>b. insert_region_high t d ?e st k b = insert_chunks t d ds b) \<and>
    tiles (unat st) (unat ?e) ds \<and> maximal (unat ?e) ds \<and> length ds \<le> 36"
  proof (cases "unat st = unat ?e")
    case True
    then show ?thesis
      by (intro exI [of _ "[]"]) (simp add: insert_region_high.simps [of t d ?e st k] word_less_nat_alt)
  next
    case False
    with insert_region_high_chunks [of k st ?e t d] lo(4,6) assms(3) show ?thesis by auto
  qed
  then obtain ds where hi: "\<And>b. insert_region_high t d ?e st k b = insert_chunks t d ds b"
    "tiles (unat st) (unat ?e) ds" "maximal (unat ?e) ds" "length ds \<le> 36" by auto
  have "insert_memory_region_caps t [] d region b = insert_chunks t d (cs @ ds) b" for b
  proof (cases "r_start region < ?e")
    case True
    then show ?thesis using assms(1) lo(1) hi(1)
      by (subst insert_memory_region_caps.simps)
        (auto simp: insert_chunks_append bind_assoc intro!: Option.bind_cong)
  next
    case False
    then have eq: "unat (r_start region) = unat ?e" using assms(2) by (simp add: word_less_nat_alt)
    then have "cs = [] \<and> ds = []" using tiles_le [OF lo(2)] tiles_le [OF hi(2)] lo(2) hi(2)
      by (metis tiles_empty le_antisym)
    then show ?thesis using False by (subst insert_memory_region_caps.simps) (simp add: not_less)
  qed
  moreover have "length (cs @ ds) \<le> 72" using lo(5,7) hi(4) by simp
  moreover have "cs @ ds = region_blocks region"
    using tiles_blocks [OF tiles_append [OF lo(2) hi(2)] _ assms(1,3)] lo(3) hi(3) by (simp add: region_blocks_def)
  ultimately show ?thesis using that tiles_append [OF lo(2) hi(2)] by blast
qed

subsection \<open>Memory capabilities for what is not reserved\<close>

lemma insert_memory_region_caps_reserved:
  assumes "\<forall>r\<in>set reserved. r_start r \<le> r_end r" "r_start region < r_end region \<longrightarrow> r_start region \<noteq> 0" "unat (r_end region) \<le> 2 ^ 36"
    "cs = region_pieces reserved region"
  shows "(\<forall>b. insert_memory_region_caps t reserved d region b = insert_chunks t d cs b) \<and>
    (\<Union>c\<in>set cs. chunk_set c) = region_set region - (\<Union>r\<in>set reserved. region_set r) \<and>
    sorted_wrt (\<lambda>c c'. chunk_set c \<inter> chunk_set c' = {}) cs \<and> (\<forall>c\<in>set cs. chunk_ok c) \<and>
    length cs \<le> 72 * 2 ^ length reserved"
  using assms
proof (induction reserved arbitrary: region cs)
  case Nil
  show ?case
  proof (cases "r_start region < r_end region")
    case True
    then have pos: "0 < unat (r_start region)" "unat (r_start region) \<le> unat (r_end region)"
      using Nil.prems(2) by (simp_all add: word_less_nat_alt unat_gt_0)
    from insert_memory_region_caps_chunks [OF pos Nil.prems(3), of t d]
    have cs: "\<forall>b. insert_memory_region_caps t [] d region b = insert_chunks t d cs b"
      "tiles (unat (r_start region)) (unat (r_end region)) cs" "length cs \<le> 72" unfolding Nil.prems(4) by auto
    have "(\<Union>c\<in>set cs. chunk_set c) = region_set region"
      using tiles_chunk_set [OF cs(2)] by (simp add: region_set_def word_le_nat_alt word_less_nat_alt)
    with cs show ?thesis using tiles_disjoint [OF cs(2)] tiles_chunk_ok [OF cs(2) pos(1) Nil.prems(3)] by simp
  next
    case False
    then have "cs = []" using region_pieces_empty Nil.prems(4) by blast
    with False show ?thesis by (auto simp: insert_memory_region_caps.simps region_set_def)
  qed
next
  case (Cons r rs)
  obtain d0 d1 where d: "subtract_region region r = (d0, d1)" by fastforce
  have r: "r_start r \<le> r_end r" using Cons.prems(1) by simp
  note sub = subtract_region_props [OF r d]
  have bounds: "(r_start x < r_end x \<longrightarrow> r_start x \<noteq> 0) \<and> unat (r_end x) \<le> 2 ^ 36" if "x \<in> {d0, d1}" for x
    using that d Cons.prems(2,3) r
    by (auto simp: subtract_region_def word_le_nat_alt word_less_nat_alt split: if_splits)
  let ?cs = "region_pieces rs d0" and ?ds = "region_pieces rs d1"
  have IH: "(\<forall>b. insert_memory_region_caps t rs d x b = insert_chunks t d (region_pieces rs x) b) \<and>
      (\<Union>c\<in>set (region_pieces rs x). chunk_set c) = region_set x - (\<Union>r\<in>set rs. region_set r) \<and>
      sorted_wrt (\<lambda>c c'. chunk_set c \<inter> chunk_set c' = {}) (region_pieces rs x) \<and> (\<forall>c\<in>set (region_pieces rs x). chunk_ok c) \<and>
      length (region_pieces rs x) \<le> 72 * 2 ^ length rs" if "x \<in> {d0, d1}" for x
    using Cons.IH [of x] Cons.prems(1) bounds [OF that] by simp
  note c0 = IH [of d0, simplified] and c1 = IH [of d1, simplified]
  have cs: "cs = ?cs @ ?ds" using Cons.prems(4) d by simp
  show ?case
  proof (cases "r_start region < r_end region")
    case True
    let ?f = "\<lambda>x b. if r_start x < r_end x then insert_memory_region_caps t rs d x b else Some b"
    have f: "?f x = insert_chunks t d (region_pieces rs x)" if "x \<in> {d0, d1}" for x
      using IH [OF that] region_pieces_empty [of x rs] by (intro ext) auto
    have "insert_memory_region_caps t (r # rs) d region b = Option.bind (?f d0 b) (?f d1)" for b
      using True d Cons.prems(2) by (subst insert_memory_region_caps.simps) (simp add: leD not_le)
    then have "insert_memory_region_caps t (r # rs) d region b = insert_chunks t d cs b" for b
      unfolding cs insert_chunks_append using fun_cong [OF f [of d0]] f [of d1] by simp
    moreover have "(\<Union>c\<in>set cs. chunk_set c) = region_set region - (\<Union>r\<in>set (r # rs). region_set r)"
      unfolding cs using c0 c1 sub(1) by auto
    moreover have "sorted_wrt (\<lambda>c c'. chunk_set c \<inter> chunk_set c' = {}) cs"
      unfolding cs using c0 c1 sub(2) by (fastforce simp: sorted_wrt_append)
    ultimately show ?thesis using c0 c1 by (auto simp: cs)
  next
    case False
    then have "cs = []" using region_pieces_empty Cons.prems(4) by blast
    with False show ?thesis by (auto simp: insert_memory_region_caps.simps region_set_def)
  qed
qed

text \<open>
  C14: at boot \<^verbatim>\<open>insert_memory_region_caps\<close> hands out exactly the memory that is not reserved. For a region that
  does not start at address 0 (there the code logs an error and makes no capability), ends within the physical address space, and reserved
  regions that do not end before they start: the pieces that the reference finds are aligned to
  their size, pairwise disjoint, cover the region less the reserved regions and nothing else, and number at
  most 72 for each of the at most \<open>2 ^ n\<close> parts. With that many free slots in the root task both loops end, the first
  free slots hold capabilities for these pieces in order afterwards, and no other slot changes.
\<close>

theorem insert_memory_region_caps_exact:
  assumes "\<forall>r\<in>set reserved. r_start r \<le> r_end r" "r_start region \<noteq> 0" "unat (r_end region) \<le> 2 ^ 36"
    "free_list s t xs" "alive s t" "length (region_pieces reserved region) \<le> length xs" "cs = region_pieces reserved region"
  shows "(\<Union>c\<in>set cs. chunk_set c) = region_set region - (\<Union>r\<in>set reserved. region_set r) \<and>
    sorted_wrt (\<lambda>c c'. chunk_set c \<inter> chunk_set c' = {}) cs \<and>
    (\<forall>c\<in>set cs. chunk_ok c) \<and> length cs \<le> 72 * 2 ^ length reserved \<and>
    (\<exists>bi' s'. insert_memory_region_caps t reserved d region (bi, s) = Some (bi', s') \<and>
      free_list s' t (drop (length cs) xs) \<and>
      (\<forall>i<length cs. cap_at s' (xs ! i) = chunk_cap d (cs ! i)) \<and>
      (\<forall>z. z \<notin> set (take (length cs) xs) \<longrightarrow> cap_at s' z = cap_at s z))"
proof -
  have z: "r_start region < r_end region \<longrightarrow> r_start region \<noteq> 0" using assms(2) by simp
  note cs = insert_memory_region_caps_reserved [OF assms(1) z assms(3,7), of t d]
  then have "\<exists>bi' s'. insert_chunks t d cs (bi, s) = Some (bi', s') \<and> alive s' t \<and> free_list s' t (drop (length cs) xs) \<and>
      (\<forall>z. z \<notin> set (take (length cs) xs) \<longrightarrow> cap_at s' z = cap_at s z) \<and> (\<forall>i<length cs. cap_at s' (xs ! i) = chunk_cap d (cs ! i))"
    using insert_chunks_ok [OF _ assms(4,5), of cs d bi] assms(6,7) by auto
  with cs show ?thesis by auto
qed

lemma region_blocks_eq:
  "tiles (unat (r_start r)) (unat (r_end r)) cs \<Longrightarrow> maximal (unat (r_end r)) cs \<Longrightarrow> r_start r \<noteq> 0 \<Longrightarrow>
    unat (r_end r) \<le> 2 ^ 36 \<Longrightarrow> region_blocks r = cs"
  using tiles_blocks [of "unat (r_start r)" "unat (r_end r)" cs] by (simp add: region_blocks_def unat_gt_0)

text \<open>A task with two free slots takes three pages of which the middle one is reserved.\<close>

theorem insert_memory_region_caps_exact_witness:
  "\<forall>bi. \<exists>bi' s'. insert_memory_region_caps 0x2000 [\<lparr>r_start = 0x2000, r_end = 0x3000\<rparr>] False
      \<lparr>r_start = 0x1000, r_end = 0x4000\<rparr> (bi, demo_free) = Some (bi', s') \<and> free_list s' 0x2000 [] \<and>
    cap_at s' 0x1040 = chunk_cap False (0x1000, 12) \<and> cap_at s' 0x1068 = chunk_cap False (0x3000, 12)"
proof
  fix bi
  let ?R = "[\<lparr>r_start = 0x2000, r_end = 0x3000\<rparr>]" and ?r = "\<lparr>r_start = 0x1000, r_end = 0x4000\<rparr>"
  have "region_blocks \<lparr>r_start = 0x1000, r_end = 0x2000\<rparr> = [(0x1000, 12)]" "region_blocks \<lparr>r_start = 0x3000, r_end = 0x4000\<rparr> = [(0x3000, 12)]"
    by (rule region_blocks_eq; simp)+
  then have p: "region_pieces ?R ?r = [(0x1000, 12), (0x3000, 12)]" by (simp add: subtract_region_def)
  have al: "alive demo_free 0x2000" using demo_free_ok by (simp add: alive_def)
  have "\<forall>r\<in>set ?R. r_start r \<le> r_end r" "r_start ?r \<noteq> 0" "unat (r_end ?r) \<le> 2 ^ 36" "length (region_pieces ?R ?r) \<le> length [0x1040, 0x1068 :: addr]"
    unfolding p by simp_all
  from insert_memory_region_caps_exact [OF this(1-3) demo_free_list al this(4) refl, of False bi, unfolded p]
  show "\<exists>bi' s'. insert_memory_region_caps 0x2000 ?R False ?r (bi, demo_free) = Some (bi', s') \<and> free_list s' 0x2000 [] \<and>
    cap_at s' 0x1040 = chunk_cap False (0x1000, 12) \<and> cap_at s' 0x1068 = chunk_cap False (0x3000, 12)"
    by (auto simp: less_Suc_eq all_conj_distrib)
qed

end
