(* ===== verification/Dtb.thy ===== *)
theory Dtb
  imports Page Align
begin

text \<open>
  The flattened device tree (\<^verbatim>\<open>src/arch/rv64/kernel/arch/dtb.cpp\<close> and \<^verbatim>\<open>dtb.h\<close>): the walk over the nodes, the walk over
  the properties of a node and the types of properties. The functions read a byte memory; a callback
  is a function on a state of its own. The lemmas show that on a memory that holds a
  tree the walk visits the nodes of the tree in order, each with the cell counts of its parent, and passes over what
  the callback declines.

  The strings are lists of bytes without the terminating zero. \<open>strcmp\<close>, \<open>cstr\<close> (the string at an address),
  \<open>strtoull16\<close> and \<open>binary_search\<close> model the functions of the C and C++ library that the code calls; \<open>lower_bound\<close> is the
  halving loop of the library, which matters because one of the tables is not sorted.
\<close>

subsection \<open>Memory and strings\<close>

type_synonym bytes = "addr \<Rightarrow> byte"

definition load_u32 :: "bytes \<Rightarrow> addr \<Rightarrow> 32 word" where
  "load_u32 m p = ucast (m p) OR push_bit 8 (ucast (m (p + 1))) OR push_bit 16 (ucast (m (p + 2))) OR
     push_bit 24 (ucast (m (p + 3)))"

definition byteswap :: "32 word \<Rightarrow> 32 word" where
  "byteswap w = push_bit 24 w OR push_bit 8 (w AND 0xff00) OR (drop_bit 8 w AND 0xff00) OR drop_bit 24 w"

definition str :: "string \<Rightarrow> byte list" where
  "str s = map of_char s"

text \<open>The sign of \<^verbatim>\<open>strcmp(p, literal)\<close>.\<close>

primrec strcmp :: "bytes \<Rightarrow> addr \<Rightarrow> byte list \<Rightarrow> int" where
  "strcmp m p [] = (if m p = 0 then 0 else 1)"
| "strcmp m p (c # cs) = (if m p = c then strcmp m (p + 1) cs else if m p < c then -1 else 1)"

partial_function (option) cstr :: "bytes \<Rightarrow> addr \<Rightarrow> byte list option" where
  "cstr m p = (if m p = 0 then Some [] else do { cs \<leftarrow> cstr m (p + 1); Some (m p # cs) })"

definition hex_digit :: "byte \<Rightarrow> nat option" where
  "hex_digit c =
     (if 0x30 \<le> c \<and> c \<le> 0x39 then Some (unat c - 0x30)
      else if 0x41 \<le> c \<and> c \<le> 0x46 then Some (unat c - 0x37)
      else if 0x61 \<le> c \<and> c \<le> 0x66 then Some (unat c - 0x57)
      else None)"

fun hex_number :: "nat \<Rightarrow> byte list \<Rightarrow> nat" where
  "hex_number n [] = n"
| "hex_number n (c # cs) = (case hex_digit c of None \<Rightarrow> n | Some d \<Rightarrow> hex_number (16 * n + d) cs)"

definition is_space :: "byte \<Rightarrow> bool" where
  "is_space c \<longleftrightarrow> c = 0x20 \<or> (0x09 \<le> c \<and> c \<le> 0x0d)"

text \<open>\<^verbatim>\<open>strtoull(\<dots>, nullptr, 16)\<close>: blanks, a sign, an optional prefix 0x, then digits; too large a number saturates.\<close>

definition strip_0x :: "byte list \<Rightarrow> byte list" where
  "strip_0x cs = (case cs of z # x # d # r \<Rightarrow>
     if z = 0x30 \<and> (x = 0x78 \<or> x = 0x58) \<and> hex_digit d \<noteq> None then d # r else cs | _ \<Rightarrow> cs)"

definition hex_u64 :: "byte list \<Rightarrow> u64" where
  "hex_u64 cs = (let n = hex_number 0 (strip_0x cs) in if n < 2 ^ 64 then of_nat n else - 1)"

definition strtoull16 :: "byte list \<Rightarrow> u64" where
  "strtoull16 s = (case dropWhile is_space s of
       [] \<Rightarrow> 0
     | c # cs \<Rightarrow> if c = 0x2d then (if hex_number 0 (strip_0x cs) < 2 ^ 64 then - hex_u64 cs else - 1)
         else if c = 0x2b then hex_u64 cs else hex_u64 (c # cs))"

subsection \<open>The data of \<^verbatim>\<open>dtb.h\<close>\<close>

definition FDT_HEADER_MAGIC :: "32 word" where "FDT_HEADER_MAGIC = 0xd00dfeed"
definition FDT_BEGIN_NODE :: "32 word" where "FDT_BEGIN_NODE = 1"
definition FDT_END_NODE :: "32 word" where "FDT_END_NODE = 2"
definition FDT_PROP :: "32 word" where "FDT_PROP = 3"
definition FDT_NOP :: "32 word" where "FDT_NOP = 4"

text \<open>The words of the header, as they lie in memory.\<close>

definition fdt_magic :: "bytes \<Rightarrow> addr \<Rightarrow> 32 word" where "fdt_magic m h = load_u32 m h"
definition fdt_totalsize :: "bytes \<Rightarrow> addr \<Rightarrow> 32 word" where "fdt_totalsize m h = load_u32 m (h + 4)"
definition fdt_off_dt_struct :: "bytes \<Rightarrow> addr \<Rightarrow> 32 word" where "fdt_off_dt_struct m h = load_u32 m (h + 8)"
definition fdt_off_dt_strings :: "bytes \<Rightarrow> addr \<Rightarrow> 32 word" where "fdt_off_dt_strings m h = load_u32 m (h + 12)"
definition fdt_size_dt_strings :: "bytes \<Rightarrow> addr \<Rightarrow> 32 word" where "fdt_size_dt_strings m h = load_u32 m (h + 32)"
definition fdt_size_dt_struct :: "bytes \<Rightarrow> addr \<Rightarrow> 32 word" where "fdt_size_dt_struct m h = load_u32 m (h + 36)"

definition FDT_U32_TYPES :: "byte list list" where
  "FDT_U32_TYPES = map str [''#address-cells'', ''#interrupt-cells'', ''#size-cells'', ''cache-block-size'',
     ''cache-line-size'', ''cache-op-block-size'', ''cache-sets'', ''cache-size'', ''d-cache-block-size'',
     ''d-cache-line-size'', ''d-cache-sets'', ''d-cache-size'', ''d-tlb-sets'', ''d-tlb-sets'', ''d-tlb-size'',
     ''i-cache-block-size'', ''i-cache-line-size'', ''i-cache-sets'', ''i-cache-size'', ''i-tlb-sets'',
     ''reservation-granule-size'', ''riscv,ndev'', ''tlb-sets'', ''tlb-size'', ''virtual-reg'']"

definition FDT_U64_TYPES :: "byte list list" where
  "FDT_U64_TYPES = map str [''cpu-release-addr'']"

definition FDT_STR_TYPES :: "byte list list" where
  "FDT_STR_TYPES = map str [''bootargs'', ''device_type'', ''mmu-type'', ''model'', ''name'', ''riscv,isa'',
     ''status'', ''stdin-path'', ''stdout-path'']"

definition FDT_ARRAY_TYPES :: "byte list list" where
  "FDT_ARRAY_TYPES = map str [''clock-frequency'', ''dma-ranges'', ''initial-mapped-area'', ''interrupt-map-mask'',
     ''interrupt-map'', ''interrupts-extended'', ''interrupts'', ''ranges'', ''reg'', ''timebase-frequency'']"

definition FDT_PHANDLE_TYPES :: "byte list list" where
  "FDT_PHANDLE_TYPES = map str [''interrupt-parent'', ''next-level-cache'', ''phandle'']"

definition FDT_STR_LIST_TYPES :: "byte list list" where
  "FDT_STR_LIST_TYPES = map str [''compatible'', ''enable-method'']"

record dtb_node_t =
  nd_next :: addr
  nd_unit_address :: u64
  nd_header :: addr
  nd_address_cells :: "32 word"
  nd_size_cells :: "32 word"
  nd_name :: "byte list"

datatype dtb_prop_type_t = ty_empty | ty_u32 | ty_u64 | ty_str | ty_array | ty_phandle | ty_str_list | ty_unknown

text \<open>The type of a property and the member of the union that the code sets for it.\<close>

datatype dtb_value =
    Empty | U32 "32 word" | U64 u64 | Str addr | Array "32 word" addr | Phandle "32 word" | Str_List "32 word" addr
  | Unknown

record dtb_prop_t =
  pr_name :: addr
  pr_value :: dtb_value

subsection \<open>Types of properties\<close>

text \<open>The loop of \<^verbatim>\<open>std::lower_bound\<close>: \<open>first\<close> is the position, \<open>len\<close> the number of elements left.\<close>

fun lower_bound :: "bytes \<Rightarrow> addr \<Rightarrow> byte list list \<Rightarrow> nat \<Rightarrow> nat \<Rightarrow> nat" where
  "lower_bound m name table first len =
     (if len = 0 then first
      else let half = len div 2; mid = first + half in
        if strcmp m name (table ! mid) > 0 then lower_bound m name table (mid + 1) (len - half - 1)
        else lower_bound m name table first half)"

declare lower_bound.simps [simp del]

definition binary_search :: "bytes \<Rightarrow> byte list list \<Rightarrow> addr \<Rightarrow> bool" where
  "binary_search m table name =
     (let i = lower_bound m name table 0 (length table) in i < length table \<and> \<not> strcmp m name (table ! i) < 0)"

definition find_prop_type :: "bytes \<Rightarrow> addr \<Rightarrow> dtb_prop_type_t" where
  "find_prop_type m name =
     (if binary_search m FDT_U32_TYPES name then ty_u32
      else if binary_search m FDT_U64_TYPES name then ty_u64
      else if binary_search m FDT_STR_TYPES name then ty_str
      else if binary_search m FDT_ARRAY_TYPES name then ty_array
      else if binary_search m FDT_PHANDLE_TYPES name then ty_phandle
      else if binary_search m FDT_STR_LIST_TYPES name then ty_str_list
      else ty_unknown)"

subsection \<open>Nodes\<close>

definition dtb_to_u32 :: "bytes \<Rightarrow> addr \<Rightarrow> 32 word" where
  "dtb_to_u32 m p = byteswap (load_u32 m p)"

text \<open>The code reads four bytes here, too.\<close>

definition dtb_to_u64 :: "bytes \<Rightarrow> addr \<Rightarrow> u64" where
  "dtb_to_u64 m p = ucast (byteswap (load_u32 m p))"

definition dtb_align :: "addr \<Rightarrow> addr" where
  "dtb_align p = round_up p 4"

partial_function (option) dtb_skip_nop :: "bytes \<Rightarrow> addr \<Rightarrow> addr option" where
  "dtb_skip_nop m p = (if dtb_to_u32 m p = FDT_NOP then dtb_skip_nop m (p + 4) else Some p)"

definition str_start :: "bytes \<Rightarrow> addr \<Rightarrow> addr" where
  "str_start m header = header + ucast (byteswap (fdt_off_dt_strings m header))"

definition str_end :: "bytes \<Rightarrow> addr \<Rightarrow> addr" where
  "str_end m header = str_start m header + ucast (byteswap (fdt_size_dt_strings m header))"

text \<open>A callback gets the node and its own state and says whether the children are wanted.\<close>

type_synonym 's node_callback = "dtb_node_t \<Rightarrow> 's \<Rightarrow> (bool \<times> 's) option"

definition no_callback :: "'s node_callback" where
  "no_callback node st = Some (False, st)"

text \<open>The node behind a \<^verbatim>\<open>FDT_BEGIN_NODE\<close> token up to its first property.\<close>

definition read_node :: "bytes \<Rightarrow> addr \<Rightarrow> 32 word \<Rightarrow> 32 word \<Rightarrow> addr \<Rightarrow> dtb_node_t option" where
  "read_node m header address_cells size_cells src = do {
     name \<leftarrow> cstr m src;
     let base = takeWhile (\<lambda>c. c \<noteq> 0x40) name;
     let rest = drop (length base) name;
     next \<leftarrow> dtb_skip_nop m (dtb_align (src + of_nat (length name) + 1));
     Some \<lparr>nd_next = next, nd_unit_address = (if rest = [] then 0 else strtoull16 (tl rest)), nd_header = header,
       nd_address_cells = address_cells, nd_size_cells = size_cells, nd_name = take 31 base\<rparr>
   }"

text \<open>The loop over the properties that picks up the cell counts of the children.\<close>

partial_function (option) parse_props ::
  "bytes \<Rightarrow> addr \<Rightarrow> addr \<Rightarrow> addr \<Rightarrow> 32 word \<Rightarrow> 32 word \<Rightarrow> (addr \<times> 32 word \<times> 32 word) option" where
  "parse_props m header end_addr src ac sc =
     (if src < end_addr then do {
        src \<leftarrow> dtb_skip_nop m src;
        if dtb_to_u32 m src \<noteq> FDT_PROP then Some (src, ac, sc)
        else do {
          let len = dtb_to_u32 m (src + 4);
          let name = str_start m header + ucast (dtb_to_u32 m (src + 8));
          let src = src + 12;
          let is_ac = name < str_end m header \<and> strcmp m name (str ''#address-cells'') = 0;
          let is_sc = name < str_end m header \<and> \<not> is_ac \<and> strcmp m name (str ''#size-cells'') = 0;
          parse_props m header end_addr (dtb_align (src + ucast len))
            (if is_ac then dtb_to_u32 m src else ac) (if is_sc then dtb_to_u32 m src else sc)
        }
      }
      else Some (src, ac, sc))"

definition open_node ::
  "bytes \<Rightarrow> addr \<Rightarrow> addr \<Rightarrow> 32 word \<Rightarrow> 32 word \<Rightarrow> 's node_callback \<Rightarrow> addr \<Rightarrow> 's \<Rightarrow>
    (bool \<times> 32 word \<times> 32 word \<times> addr \<times> 's) option" where
  "open_node m header end_addr address_cells size_cells callback src st = do {
     cassert (src \<noteq> 0 \<and> end_addr \<noteq> 0 \<and> header \<noteq> 0 \<and> address_cells > 0 \<and> src mod 4 = 0);
     node \<leftarrow> read_node m header address_cells size_cells (src + 4);
     (should_continue, st) \<leftarrow> callback node st;
     (src, child_address_cells, child_size_cells) \<leftarrow> parse_props m header end_addr (nd_next node) 2 1;
     Some (should_continue, child_address_cells, child_size_cells, src, st)
   }"

definition close_node :: "bytes \<Rightarrow> addr \<Rightarrow> addr \<Rightarrow> addr" where
  "close_node m end_addr src =
     (if src \<ge> end_addr then src else if dtb_to_u32 m src \<noteq> FDT_END_NODE then src else src + 4)"

text \<open>
  The loop over the children of a node; the recursive call of \<^verbatim>\<open>_parse_dtb_node\<close> is unfolded in it: the
  node is opened, its children are walked, with the callback or without, and it is closed.
\<close>

partial_function (option) parse_children ::
  "bytes \<Rightarrow> addr \<Rightarrow> addr \<Rightarrow> 32 word \<Rightarrow> 32 word \<Rightarrow> 's node_callback \<Rightarrow> addr \<Rightarrow> 's \<Rightarrow> (addr \<times> 's) option" where
  "parse_children m header end_addr ac sc callback src st =
     (if src < end_addr then do {
        src \<leftarrow> dtb_skip_nop m src;
        if dtb_to_u32 m src \<noteq> FDT_BEGIN_NODE then Some (src, st)
        else do {
          (go, cac, csc, src, st) \<leftarrow> open_node m header end_addr ac sc callback src st;
          (src, st) \<leftarrow> parse_children m header end_addr cac csc (if go then callback else no_callback) src st;
          parse_children m header end_addr ac sc callback (close_node m end_addr src) st
        }
      }
      else Some (src, st))"

definition parse_dtb_node ::
  "bytes \<Rightarrow> addr \<Rightarrow> addr \<Rightarrow> 32 word \<Rightarrow> 32 word \<Rightarrow> 's node_callback \<Rightarrow> addr \<Rightarrow> 's \<Rightarrow> (addr \<times> 's) option" where
  "parse_dtb_node m header end_addr ac sc callback src st = do {
     cassert (src \<noteq> 0 \<and> end_addr \<noteq> 0 \<and> header \<noteq> 0 \<and> ac > 0 \<and> src mod 4 = 0);
     if dtb_to_u32 m src \<noteq> FDT_BEGIN_NODE then Some (src + 4, st)
     else do {
       (go, cac, csc, src, st) \<leftarrow> open_node m header end_addr ac sc callback src st;
       (src, st) \<leftarrow> parse_children m header end_addr cac csc (if go then callback else no_callback) src st;
       Some (close_node m end_addr src, st)
     }
   }"

definition for_each_dtb_node :: "bytes \<Rightarrow> addr \<Rightarrow> 's node_callback \<Rightarrow> 's \<Rightarrow> 's option" where
  "for_each_dtb_node m dtb callback st = do {
     cassert (dtb \<noteq> 0);
     if fdt_magic m dtb \<noteq> byteswap FDT_HEADER_MAGIC then Some st
     else do {
       let src = dtb + ucast (byteswap (fdt_off_dt_struct m dtb));
       let end_addr = src + ucast (byteswap (fdt_size_dt_struct m dtb));
       src \<leftarrow> dtb_skip_nop m src;
       (_, st) \<leftarrow> parse_dtb_node m dtb end_addr 2 1 callback src st;
       Some st
     }
   }"

subsection \<open>Properties\<close>

definition read_value :: "bytes \<Rightarrow> addr \<Rightarrow> 32 word \<Rightarrow> addr \<Rightarrow> dtb_value" where
  "read_value m name len src =
     (if len = 0 then Empty
      else case find_prop_type m name of
        ty_empty \<Rightarrow> Empty
      | ty_u32 \<Rightarrow> U32 (dtb_to_u32 m src)
      | ty_u64 \<Rightarrow> U64 (dtb_to_u64 m src)
      | ty_str \<Rightarrow> Str src
      | ty_array \<Rightarrow> Array len src
      | ty_phandle \<Rightarrow> Phandle (dtb_to_u32 m src)
      | ty_str_list \<Rightarrow> Str_List len src
      | ty_unknown \<Rightarrow> Unknown)"

type_synonym 's prop_callback = "dtb_node_t \<Rightarrow> dtb_prop_t \<Rightarrow> 's \<Rightarrow> (bool \<times> 's) option"

partial_function (option) prop_loop ::
  "bytes \<Rightarrow> dtb_node_t \<Rightarrow> addr \<Rightarrow> 's prop_callback \<Rightarrow> addr \<Rightarrow> 's \<Rightarrow> 's option" where
  "prop_loop m node end_addr callback src st =
     (if src < end_addr then do {
        src \<leftarrow> dtb_skip_nop m src;
        if dtb_to_u32 m src \<noteq> FDT_PROP then Some st
        else do {
          let len = dtb_to_u32 m (src + 4);
          let name = str_start m (nd_header node) + ucast (dtb_to_u32 m (src + 8));
          let src = src + 12;
          (go, st) \<leftarrow> (if name \<ge> str_end m (nd_header node) then Some (True, st)
            else callback node \<lparr>pr_name = name, pr_value = read_value m name len src\<rparr> st);
          if \<not> go then Some st
          else prop_loop m node end_addr callback (dtb_align (src + ucast len)) st
        }
      }
      else Some st)"

definition for_each_dtb_prop :: "bytes \<Rightarrow> dtb_node_t \<Rightarrow> 's prop_callback \<Rightarrow> 's \<Rightarrow> 's option" where
  "for_each_dtb_prop m node callback st =
     (let h = nd_header node;
        end_addr = h + ucast (byteswap (fdt_off_dt_struct m h)) + ucast (byteswap (fdt_size_dt_struct m h)) in
      prop_loop m node end_addr callback (nd_next node) st)"

definition get_dtb_region :: "bytes \<Rightarrow> addr \<Rightarrow> (addr \<times> addr) option" where
  "get_dtb_region m dtb = do {
     cassert (dtb \<noteq> 0);
     if fdt_magic m dtb \<noteq> byteswap FDT_HEADER_MAGIC then Some (0, 0)
     else Some (as_phys dtb, as_phys (dtb + ucast (byteswap (fdt_totalsize m dtb))))
   }"

subsection \<open>Trees and their layout in memory\<close>

datatype dtree = DNode (dt_name: "byte list") (dt_props: "(byte list \<times> byte list) list") (dt_children: "dtree list")

primrec str_at :: "bytes \<Rightarrow> addr \<Rightarrow> byte list \<Rightarrow> bool" where
  "str_at m p [] \<longleftrightarrow> m p = 0"
| "str_at m p (c # cs) \<longleftrightarrow> m p = c \<and> c \<noteq> 0 \<and> str_at m (p + 1) cs"

primrec val_at :: "bytes \<Rightarrow> addr \<Rightarrow> byte list \<Rightarrow> bool" where
  "val_at m p [] \<longleftrightarrow> True"
| "val_at m p (c # cs) \<longleftrightarrow> m p = c \<and> val_at m (p + 1) cs"

text \<open>The number in the first four bytes of a value, the most significant first.\<close>

fun be_u32 :: "byte list \<Rightarrow> 32 word" where
  "be_u32 (a # b # c # d # _) = push_bit 24 (ucast a) OR push_bit 16 (ucast b) OR push_bit 8 (ucast c) OR ucast d"
| "be_u32 _ = 0"

definition cells :: "string \<Rightarrow> 32 word \<Rightarrow> (byte list \<times> byte list) list \<Rightarrow> 32 word" where
  "cells name d ps = fold (\<lambda>(n, v) a. if n = str name then be_u32 v else a) ps d"

definition child_address_cells :: "(byte list \<times> byte list) list \<Rightarrow> 32 word" where
  "child_address_cells = cells ''#address-cells'' 2"

definition child_size_cells :: "(byte list \<times> byte list) list \<Rightarrow> 32 word" where
  "child_size_cells = cells ''#size-cells'' 1"

inductive nops :: "bytes \<Rightarrow> addr \<Rightarrow> addr \<Rightarrow> bool" for m where
  nops_none: "nops m p p"
| nops_more: "dtb_to_u32 m p = FDT_NOP \<Longrightarrow> nops m (p + 4) q \<Longrightarrow> nops m p q"

inductive props_at :: "bytes \<Rightarrow> addr \<Rightarrow> addr \<Rightarrow> addr \<Rightarrow> (byte list \<times> byte list) list \<Rightarrow> addr \<Rightarrow> bool" for m h e where
  props_none: "p < e \<Longrightarrow> nops m p q \<Longrightarrow> dtb_to_u32 m q \<in> {FDT_BEGIN_NODE, FDT_END_NODE} \<Longrightarrow> props_at m h e p [] q"
| props_more: "p < e \<Longrightarrow> nops m p r \<Longrightarrow> dtb_to_u32 m r = FDT_PROP \<Longrightarrow> unat (dtb_to_u32 m (r + 4)) = length v \<Longrightarrow>
    name = str_start m h + ucast (dtb_to_u32 m (r + 8)) \<Longrightarrow> name < str_end m h \<Longrightarrow> str_at m name n \<Longrightarrow>
    val_at m (r + 12) v \<Longrightarrow> n \<in> {str ''#address-cells'', str ''#size-cells''} \<longrightarrow> 4 \<le> length v \<Longrightarrow>
    props_at m h e (dtb_align (r + 12 + of_nat (length v))) ps q \<Longrightarrow> props_at m h e p ((n, v) # ps) q"

text \<open>
  \<open>tree_at m h e p t q\<close>: between \<open>p\<close> and \<open>q\<close> the memory holds the structure block of the tree \<open>t\<close>, with tokens
  \<^verbatim>\<open>FDT_NOP\<close> in between, below the end \<open>e\<close> of the block; \<open>h\<close> is the header. A node with children
  gives them at least one address cell, which the code asserts.
\<close>

inductive tree_at :: "bytes \<Rightarrow> addr \<Rightarrow> addr \<Rightarrow> addr \<Rightarrow> dtree \<Rightarrow> addr \<Rightarrow> bool"
  and trees_at :: "bytes \<Rightarrow> addr \<Rightarrow> addr \<Rightarrow> addr \<Rightarrow> dtree list \<Rightarrow> addr \<Rightarrow> bool" for m h e where
  tree: "p \<noteq> 0 \<Longrightarrow> p mod 4 = 0 \<Longrightarrow> dtb_to_u32 m p = FDT_BEGIN_NODE \<Longrightarrow> str_at m (p + 4) n \<Longrightarrow>
    nops m (dtb_align (p + 4 + of_nat (length n) + 1)) r \<Longrightarrow> dtb_to_u32 m r \<noteq> FDT_NOP \<Longrightarrow> props_at m h e r ps c \<Longrightarrow>
    ts \<noteq> [] \<longrightarrow> child_address_cells ps > 0 \<Longrightarrow> trees_at m h e c ts d \<Longrightarrow> d < e \<Longrightarrow> dtb_to_u32 m d = FDT_END_NODE \<Longrightarrow>
    tree_at m h e p (DNode n ps ts) (d + 4)"
| trees_none: "p < e \<Longrightarrow> nops m p q \<Longrightarrow> dtb_to_u32 m q = FDT_END_NODE \<Longrightarrow> trees_at m h e p [] q"
| trees_more: "p < e \<Longrightarrow> nops m p r \<Longrightarrow> tree_at m h e r t r' \<Longrightarrow> trees_at m h e r' ts q \<Longrightarrow> trees_at m h e p (t # ts) q"

definition fdt_end :: "bytes \<Rightarrow> addr \<Rightarrow> addr" where
  "fdt_end m dtb = dtb + ucast (byteswap (fdt_off_dt_struct m dtb)) + ucast (byteswap (fdt_size_dt_struct m dtb))"

definition fdt_at :: "bytes \<Rightarrow> addr \<Rightarrow> dtree \<Rightarrow> bool" where
  "fdt_at m dtb t \<longleftrightarrow> dtb \<noteq> 0 \<and> fdt_magic m dtb = byteswap FDT_HEADER_MAGIC \<and>
     (\<exists>p q. nops m (dtb + ucast (byteswap (fdt_off_dt_struct m dtb))) p \<and> tree_at m dtb (fdt_end m dtb) p t q)"

subsection \<open>The specification of the walks\<close>

text \<open>
  A callback on trees gets the cell counts that hold for the node and the tree below it. \<open>visit\<close> goes through the tree in
  order and leaves out the children of a node for which the callback says so.
\<close>

type_synonym 's tree_callback = "32 word \<Rightarrow> 32 word \<Rightarrow> dtree \<Rightarrow> 's \<Rightarrow> (bool \<times> 's) option"

fun visit :: "'s tree_callback \<Rightarrow> 32 word \<Rightarrow> 32 word \<Rightarrow> dtree \<Rightarrow> 's \<Rightarrow> 's option"
  and visits :: "'s tree_callback \<Rightarrow> 32 word \<Rightarrow> 32 word \<Rightarrow> dtree list \<Rightarrow> 's \<Rightarrow> 's option" where
  "visit cb ac sc (DNode n ps ts) st = do {
     (go, st) \<leftarrow> cb ac sc (DNode n ps ts) st;
     if go then visits cb (child_address_cells ps) (child_size_cells ps) ts st else Some st
   }"
| "visits cb ac sc [] st = Some st"
| "visits cb ac sc (t # ts) st = do { st \<leftarrow> visit cb ac sc t st; visits cb ac sc ts st }"

definition base_name :: "byte list \<Rightarrow> byte list" where
  "base_name n = take 31 (takeWhile (\<lambda>c. c \<noteq> 0x40) n)"

definition node_view :: "bytes \<Rightarrow> addr \<Rightarrow> dtb_node_t \<Rightarrow> 32 word \<Rightarrow> 32 word \<Rightarrow> dtree \<Rightarrow> bool" where
  "node_view m dtb node ac sc t \<longleftrightarrow> nd_header node = dtb \<and> nd_address_cells node = ac \<and> nd_size_cells node = sc \<and>
     nd_name node = base_name (dt_name t) \<and> (\<exists>q. props_at m dtb (fdt_end m dtb) (nd_next node) (dt_props t) q)"

text \<open>
  A callback that does on the records of nodes what a function does on trees; \<open>ok\<close> is what it needs of the nodes,
  and \<open>all_nodes\<close> says that all nodes of a tree have it.
\<close>

definition implements ::
  "bytes \<Rightarrow> addr \<Rightarrow> (32 word \<Rightarrow> 32 word \<Rightarrow> dtree \<Rightarrow> bool) \<Rightarrow> 's node_callback \<Rightarrow> 's tree_callback \<Rightarrow> bool" where
  "implements m dtb ok cb tcb \<longleftrightarrow>
     (\<forall>node ac sc t st. node_view m dtb node ac sc t \<and> ok ac sc t \<longrightarrow> cb node st = tcb ac sc t st)"

fun all_nodes :: "(32 word \<Rightarrow> 32 word \<Rightarrow> dtree \<Rightarrow> bool) \<Rightarrow> 32 word \<Rightarrow> 32 word \<Rightarrow> dtree \<Rightarrow> bool" where
  "all_nodes ok ac sc (DNode n ps ts) \<longleftrightarrow> ok ac sc (DNode n ps ts) \<and>
     list_all (all_nodes ok (child_address_cells ps) (child_size_cells ps)) ts"

type_synonym 's value_callback = "byte list \<Rightarrow> byte list \<Rightarrow> 's \<Rightarrow> (bool \<times> 's) option"

primrec each_prop :: "'s value_callback \<Rightarrow> (byte list \<times> byte list) list \<Rightarrow> 's \<Rightarrow> 's option" where
  "each_prop cb [] st = Some st"
| "each_prop cb (p # ps) st = do { (go, st) \<leftarrow> cb (fst p) (snd p) st; if go then each_prop cb ps st else Some st }"

definition prop_view :: "bytes \<Rightarrow> dtb_prop_t \<Rightarrow> byte list \<Rightarrow> byte list \<Rightarrow> bool" where
  "prop_view m prop n v \<longleftrightarrow> str_at m (pr_name prop) n \<and> length v < 2 ^ 32 \<and>
     (\<exists>src. val_at m src v \<and> pr_value prop = read_value m (pr_name prop) (of_nat (length v)) src)"

subsection \<open>Reading\<close>

lemma cstr_at: "str_at m p s \<Longrightarrow> cstr m p = Some s"
  by (induction s arbitrary: p) (subst cstr.simps; simp)+

lemma str_at_unique: "str_at m p s \<Longrightarrow> str_at m p s' \<Longrightarrow> s = s'"
  by (drule cstr_at)+ simp

lemma strcmp_at: "str_at m p s \<Longrightarrow> 0 \<notin> set lit \<Longrightarrow> strcmp m p lit = 0 \<longleftrightarrow> s = lit"
proof (induction lit arbitrary: p s)
  case Nil
  then show ?case by (cases s) auto
next
  case (Cons c cs)
  then show ?case by (cases s) auto
qed

lemma byteswap_bytes:
  "byteswap (ucast a OR push_bit 8 (ucast b) OR push_bit 16 (ucast c) OR push_bit 24 (ucast d)) = be_u32 [a, b, c, d]"
  for a b c d :: byte
proof (rule bit_word_eqI)
  fix n assume n: "n < LENGTH(32)"
  have m: "(0xff00 :: 32 word) = push_bit 8 (mask 8)" by (simp add: mask_eq_exp_minus_1 push_bit_eq_mult)
  have hi: "\<not> bit (x :: byte) k" if "8 \<le> k" for x k using that bit_imp_le_length [of x k] by auto
  consider "n < 8" | "8 \<le> n" "n < 16" | "16 \<le> n" "n < 24" | "24 \<le> n" "n < 32" using n by force
  then show "bit (byteswap (ucast a OR push_bit 8 (ucast b) OR push_bit 16 (ucast c) OR push_bit 24 (ucast d))) n =
    bit (be_u32 [a, b, c, d]) n"
    unfolding byteswap_def m by cases (auto simp: bit_simps hi)
qed

lemma dtb_to_u32_bytes: "dtb_to_u32 m p = be_u32 [m p, m (p + 1), m (p + 2), m (p + 3)]"
  by (simp only: dtb_to_u32_def load_u32_def byteswap_bytes)

lemma dtb_to_u32_val: "val_at m p v \<Longrightarrow> 4 \<le> length v \<Longrightarrow> dtb_to_u32 m p = be_u32 v"
  by (cases v rule: be_u32.cases) (auto simp: dtb_to_u32_bytes ac_simps)

lemma skip_nops: "nops m p q \<Longrightarrow> dtb_to_u32 m q \<noteq> FDT_NOP \<Longrightarrow> dtb_skip_nop m p = Some q"
  by (induction rule: nops.induct) (subst dtb_skip_nop.simps; simp)+

lemmas fdt_tokens = FDT_BEGIN_NODE_def FDT_END_NODE_def FDT_PROP_def FDT_NOP_def

lemma length_str [simp]: "length (str s) = length s"
  by (simp add: str_def)

lemma str_nonzero: "0 \<notin> set (str ''#address-cells'')" "0 \<notin> set (str ''#size-cells'')" "0 \<notin> set (str ''reg'')"
  by (simp_all add: str_def)

lemma cells_names: "str ''#address-cells'' \<noteq> str ''#size-cells''"
  by (simp add: str_def)

lemma cells_Cons:
  "child_address_cells ps = cells ''#address-cells'' 2 ps" "child_size_cells ps = cells ''#size-cells'' 1 ps"
  "cells s d [] = d" "cells s d ((n, v) # ps) = cells s (if n = str s then be_u32 v else d) ps"
  by (simp_all add: child_address_cells_def child_size_cells_def cells_def)

lemma len_of_nat: "unat (w :: 32 word) = n \<Longrightarrow> ucast w = (of_nat n :: u64)" "unat (w :: 32 word) = n \<Longrightarrow> w = of_nat n"
  by auto

lemma parse_props_at:
  "props_at m h e p ps q \<Longrightarrow>
    parse_props m h e p ac sc = Some (q, cells ''#address-cells'' ac ps, cells ''#size-cells'' sc ps)"
proof (induction arbitrary: ac sc rule: props_at.induct)
  case (props_none p q)
  then show ?case using skip_nops [of m p q] by (subst parse_props.simps) (auto simp: cells_Cons fdt_tokens)
next
  case (props_more p r v name n ps q)
  have r: "dtb_skip_nop m p = Some r" using props_more.hyps(2,3) by (intro skip_nops) (simp_all add: fdt_tokens)
  have s: "strcmp m name (str ''#address-cells'') = 0 \<longleftrightarrow> n = str ''#address-cells''"
    "strcmp m name (str ''#size-cells'') = 0 \<longleftrightarrow> n = str ''#size-cells''"
    using strcmp_at [OF props_more.hyps(7)] str_nonzero by auto
  have v: "n \<in> {str ''#address-cells'', str ''#size-cells''} \<Longrightarrow> dtb_to_u32 m (r + 12) = be_u32 v"
    using props_more.hyps(8,9) by (intro dtb_to_u32_val) auto
  show ?case
    using props_more.hyps(1,3,6) props_more.IH r s v cells_names len_of_nat(1) [OF props_more.hyps(4)]
    by (subst parse_props.simps) (auto simp: cells_Cons props_more.hyps(5) [symmetric])
qed

lemma prop_loop_at:
  assumes "props_at m h e p ps q" "nd_header node = h"
    "\<And>prop n v st. (n, v) \<in> set ps \<Longrightarrow> prop_view m prop n v \<Longrightarrow> cb node prop st = vcb n v st"
  shows "prop_loop m node e cb p st = each_prop vcb ps st"
  using assms(1,3)
proof (induction arbitrary: st rule: props_at.induct)
  case (props_none p q)
  then show ?case using skip_nops [of m p q] by (subst prop_loop.simps) (auto simp: fdt_tokens)
next
  case (props_more p r v name n ps q)
  have r: "dtb_skip_nop m p = Some r" using props_more.hyps(2,3) by (intro skip_nops) (simp_all add: fdt_tokens)
  have "unat (dtb_to_u32 m (r + 4)) < 2 ^ LENGTH(32)" by (rule unsigned_less)
  with props_more.hyps(4) have "length v < 2 ^ 32" by simp
  then have "prop_view m \<lparr>pr_name = name, pr_value = read_value m name (dtb_to_u32 m (r + 4)) (r + 12)\<rparr> n v"
    using props_more.hyps(4,7,8) by (auto simp: prop_view_def len_of_nat(2) [OF props_more.hyps(4)])
  then have "cb node \<lparr>pr_name = name, pr_value = read_value m name (dtb_to_u32 m (r + 4)) (r + 12)\<rparr> st = vcb n v st" for st
    by (intro props_more.prems) simp_all
  then show ?case
    using props_more.hyps(1,3,6) props_more.IH [OF props_more.prems] r len_of_nat(1) [OF props_more.hyps(4)] assms(2)
    by (subst prop_loop.simps, cases "vcb n v st") (auto simp: props_more.hyps(5) [symmetric])
qed

lemma read_node_at:
  assumes "str_at m p n" "nops m (dtb_align (p + of_nat (length n) + 1)) r" "dtb_to_u32 m r \<noteq> FDT_NOP"
    "props_at m h (fdt_end m h) r ps c"
  shows "\<exists>node. read_node m h ac sc p = Some node \<and> nd_next node = r \<and> node_view m h node ac sc (DNode n ps ts)"
  using assms cstr_at [OF assms(1)] skip_nops [OF assms(2,3)]
  by (auto simp: read_node_def node_view_def base_name_def)

lemma trees_at_position: "trees_at m h e p ts q \<Longrightarrow> p < e"
  by (cases rule: trees_at.cases) auto

lemma visits_none: "visits (\<lambda>_ _ _ st. Some (False, st)) ac sc ts st = Some st"
proof (induction ts arbitrary: st)
  case (Cons t ts)
  then show ?case by (cases t) simp
qed simp

lemma implements_none: "implements m h (\<lambda>_ _ _. True) no_callback (\<lambda>_ _ _ st. Some (False, st))"
  by (simp add: implements_def no_callback_def)

lemma all_nodes_True: "all_nodes (\<lambda>_ _ _. True) ac sc t"
  by (induction t arbitrary: ac sc) (simp add: list_all_iff)

text \<open>A node that is opened, walked and closed, whatever its surroundings.\<close>

lemma open_node_at:
  assumes "p \<noteq> 0" "p mod 4 = 0" "str_at m (p + 4) n" "nops m (dtb_align (p + 4 + of_nat (length n) + 1)) r"
    "dtb_to_u32 m r \<noteq> FDT_NOP" "props_at m h (fdt_end m h) r ps c" "h \<noteq> 0" "fdt_end m h \<noteq> 0" "ac > 0"
    "implements m h ok cb tcb" "ok ac sc (DNode n ps ts)"
  shows "open_node m h (fdt_end m h) ac sc cb p st =
    do { (go, st) \<leftarrow> tcb ac sc (DNode n ps ts) st; Some (go, child_address_cells ps, child_size_cells ps, c, st) }"
proof -
  obtain node where n: "read_node m h ac sc (p + 4) = Some node" "nd_next node = r" "node_view m h node ac sc (DNode n ps ts)"
    using read_node_at [OF assms(3-6)] by blast
  have "cb node st = tcb ac sc (DNode n ps ts) st" for st using assms(10,11) n(3) by (simp add: implements_def)
  then show ?thesis using n assms parse_props_at [OF assms(6)] by (simp add: open_node_def cells_Cons)
qed

lemma parse_children_at:
  fixes m h defines "e \<equiv> fdt_end m h"
  assumes h: "h \<noteq> 0" "e \<noteq> 0"
  shows "tree_at m h e p t q \<Longrightarrow> implements m h ok cb tcb \<Longrightarrow> all_nodes ok ac sc t \<Longrightarrow> ac > 0 \<Longrightarrow>
      do { (go, cac, csc, src, st) \<leftarrow> open_node m h e ac sc cb p st;
        (src, st) \<leftarrow> parse_children m h e cac csc (if go then cb else no_callback) src st;
        Some (close_node m e src, st) } = do { st \<leftarrow> visit tcb ac sc t st; Some (q, st) }"
    and "trees_at m h e p ts q \<Longrightarrow> implements m h ok cb tcb \<Longrightarrow> list_all (all_nodes ok ac sc) ts \<Longrightarrow> ts \<noteq> [] \<longrightarrow> ac > 0 \<Longrightarrow>
      parse_children m h e ac sc cb p st = do { st \<leftarrow> visits tcb ac sc ts st; Some (q, st) }"
proof (induction arbitrary: ok ac sc cb tcb st and ok ac sc cb tcb st rule: tree_at_trees_at.inducts)
  case (tree p n r ps c ts d)
  have o: "open_node m h e ac sc cb p st =
    do { (go, st) \<leftarrow> tcb ac sc (DNode n ps ts) st; Some (go, child_address_cells ps, child_size_cells ps, c, st) }"
    unfolding e_def by (rule open_node_at [OF tree(1,2,5-7) tree(8) [unfolded e_def] h(1) h(2) [unfolded e_def]
      tree(15,13) conjunct1 [OF tree(14) [unfolded all_nodes.simps]]])
  have cl: "close_node m e d = d + 4" using tree(11,12) by (simp add: close_node_def)
  have ch: "parse_children m h e (child_address_cells ps) (child_size_cells ps) cb c st' =
      do { st \<leftarrow> visits tcb (child_address_cells ps) (child_size_cells ps) ts st'; Some (d, st) }"
    "parse_children m h e (child_address_cells ps) (child_size_cells ps) no_callback c st' = Some (d, st')" for st'
    using tree(10) [OF tree(13) _ tree(3)] tree(14) tree(10) [OF implements_none _ tree(3)]
    by (simp_all add: visits_none list_all_iff all_nodes_True)
  show ?case unfolding o
    by (cases "tcb ac sc (DNode n ps ts) st") (auto simp: ch cl)
next
  case (trees_none p q)
  then show ?case using skip_nops [of m p q] by (subst parse_children.simps) (auto simp: fdt_tokens)
next
  case (trees_more p r t r' ts q)
  have b: "dtb_to_u32 m r = FDT_BEGIN_NODE" using trees_more(3) by (cases rule: tree_at.cases) auto
  have r: "dtb_skip_nop m p = Some r" using b trees_more(2) by (intro skip_nops) (simp_all add: fdt_tokens)
  have "parse_children m h e ac sc cb p st = do {
      (src, st) \<leftarrow> do { (go, cac, csc, src, st) \<leftarrow> open_node m h e ac sc cb r st;
        (src, st) \<leftarrow> parse_children m h e cac csc (if go then cb else no_callback) src st;
        Some (close_node m e src, st) };
      parse_children m h e ac sc cb src st }"
    using trees_more(1) r b by (subst parse_children.simps) (simp add: case_prod_beta' Option.bind_assoc)
  also have "\<dots> = do { (src, st) \<leftarrow> do { st \<leftarrow> visit tcb ac sc t st; Some (r', st) }; parse_children m h e ac sc cb src st }"
    by (subst trees_more(4) [of ok cb tcb ac sc st]) (use trees_more(7-9) in auto)
  also have "\<dots> = do { st \<leftarrow> visits tcb ac sc (t # ts) st; Some (q, st) }"
    using trees_more(6) [of ok cb tcb ac sc] trees_more(7-9) by simp
  finally show ?case .
qed

subsection \<open>The walks are the visits\<close>

lemma tree_at_begin: "tree_at m h e p t q \<Longrightarrow> dtb_to_u32 m p = FDT_BEGIN_NODE \<and> p \<noteq> 0 \<and> p mod 4 = 0"
  by (erule tree_at.cases) blast

lemma tree_at_end: "tree_at m h e p t q \<Longrightarrow> e \<noteq> 0"
  by (erule tree_at.cases) auto

lemma for_each_dtb_node_at:
  assumes "fdt_at m dtb t" "implements m dtb ok cb tcb" "all_nodes ok 2 1 t"
  shows "for_each_dtb_node m dtb cb st = visit tcb 2 1 t st"
proof -
  let ?e = "fdt_end m dtb"
  obtain p q where p: "nops m (dtb + ucast (byteswap (fdt_off_dt_struct m dtb))) p" "tree_at m dtb ?e p t q"
    and d: "dtb \<noteq> 0" "fdt_magic m dtb = byteswap FDT_HEADER_MAGIC" using assms(1) by (auto simp: fdt_at_def)
  from tree_at_begin [OF p(2)] tree_at_end [OF p(2)] have b: "dtb_to_u32 m p = FDT_BEGIN_NODE" "p \<noteq> 0" "p mod 4 = 0" "?e \<noteq> 0" by auto
  have s: "dtb_skip_nop m (dtb + ucast (byteswap (fdt_off_dt_struct m dtb))) = Some p"
    using p(1) b(1) by (intro skip_nops) (simp_all add: fdt_tokens)
  have "parse_dtb_node m dtb ?e 2 1 cb p st = do { st \<leftarrow> visit tcb 2 1 t st; Some (q, st) }"
    using parse_children_at(1) [OF d(1) b(4) p(2) assms(2,3), of st] b d by (simp add: parse_dtb_node_def)
  then show ?thesis using d s by (simp add: for_each_dtb_node_def fdt_end_def)
qed

lemma for_each_dtb_prop_at:
  assumes "node_view m dtb node ac sc t"
    "\<And>prop n v st. (n, v) \<in> set (dt_props t) \<Longrightarrow> prop_view m prop n v \<Longrightarrow> cb node prop st = vcb n v st"
  shows "for_each_dtb_prop m node cb st = each_prop vcb (dt_props t) st"
proof -
  from assms(1) obtain q where "props_at m dtb (fdt_end m dtb) (nd_next node) (dt_props t) q" "nd_header node = dtb"
    by (auto simp: node_view_def)
  from prop_loop_at [of m dtb _ _ _ _ node cb vcb, OF this assms(2)] this(2) show ?thesis by (simp add: for_each_dtb_prop_def fdt_end_def)
qed

lemma find_prop_type_reg: "str_at m p (str ''reg'') \<Longrightarrow> find_prop_type m p = ty_array"
  by (simp add: find_prop_type_def binary_search_def FDT_U32_TYPES_def FDT_U64_TYPES_def FDT_STR_TYPES_def
    FDT_ARRAY_TYPES_def lower_bound.simps str_def)

lemma find_prop_type_interrupt_map: "str_at m p (str ''interrupt-map'') \<Longrightarrow> find_prop_type m p = ty_unknown"
  by (simp add: find_prop_type_def binary_search_def FDT_U32_TYPES_def FDT_U64_TYPES_def FDT_STR_TYPES_def
    FDT_ARRAY_TYPES_def FDT_PHANDLE_TYPES_def FDT_STR_LIST_TYPES_def lower_bound.simps str_def)

text \<open>
  C17: the walk over the device tree visits the tree. When the memory holds a tree and the callback does on the
  node records what a given function does on trees, \<^verbatim>\<open>for_each_dtb_node\<close> ends and has the effect of going through the tree in
  order, each node with the cell counts its parent sets, or 2 and 1, the children of a node being
  left out when the function says so for that node.
\<close>

theorem for_each_dtb_node_visits:
  assumes "fdt_at m dtb t" "implements m dtb ok cb tcb" "all_nodes ok 2 1 t"
  shows "for_each_dtb_node m dtb cb st = visit tcb 2 1 t st"
  using assms by (rule for_each_dtb_node_at)

text \<open>
  The walk over the properties of a node hands its callback the properties in order until it
  says stop, each with its name and with its value read by the type of the name.
\<close>

theorem for_each_dtb_prop_each:
  assumes "node_view m dtb node ac sc t"
    "\<And>prop n v st. (n, v) \<in> set (dt_props t) \<Longrightarrow> prop_view m prop n v \<Longrightarrow> cb node prop st = vcb n v st"
  shows "for_each_dtb_prop m node cb st = each_prop vcb (dt_props t) st"
  using assms by (rule for_each_dtb_prop_at)

subsection \<open>An example\<close>

text \<open>A tree with one memory region of 0x4000 bytes at 0x80000, and a memory that holds it.\<close>

definition demo_bytes :: "byte list" where
  "demo_bytes = [208, 13, 254, 237, 0, 0, 0, 163, 0, 0, 0, 40, 0, 0, 0, 132, 0, 0, 0, 0, 0, 0, 0, 17, 0, 0, 0, 16,
     0, 0, 0, 0, 0, 0, 0, 31, 0, 0, 0, 92, 0, 0, 0, 1, 0, 0, 0, 0, 0, 0, 0, 3, 0, 0, 0, 4,
     0, 0, 0, 0, 0, 0, 0, 1, 0, 0, 0, 3, 0, 0, 0, 4, 0, 0, 0, 15, 0, 0, 0, 1, 0, 0, 0, 4,
     0, 0, 0, 1, 109, 101, 109, 111, 114, 121, 64, 56, 0, 0, 0, 0, 0, 0, 0, 3, 0, 0, 0, 8, 0, 0, 0, 27,
     0, 8, 0, 0, 0, 0, 64, 0, 0, 0, 0, 2, 0, 0, 0, 2, 0, 0, 0, 9, 35, 97, 100, 100, 114, 101, 115, 115,
     45, 99, 101, 108, 108, 115, 0, 35, 115, 105, 122, 101, 45, 99, 101, 108, 108, 115, 0, 114, 101, 103, 0]"

definition demo_fdt :: bytes where
  "demo_fdt a = (if a - 0x2000001000 < 163 then demo_bytes ! unat (a - 0x2000001000) else 0)"

definition demo_memory_node :: dtree where
  "demo_memory_node = DNode (str ''memory@8'') [(str ''reg'', [0, 8, 0, 0, 0, 0, 64, 0])] []"

definition demo_tree :: dtree where
  "demo_tree = DNode [] [(str ''#address-cells'', [0, 0, 0, 1]), (str ''#size-cells'', [0, 0, 0, 1])] [demo_memory_node]"

lemma demo_fdt_tokens:
  "dtb_to_u32 demo_fdt 0x2000001028 = 1"
  "dtb_to_u32 demo_fdt 0x2000001030 = 3"
  "dtb_to_u32 demo_fdt 0x2000001034 = 4"
  "dtb_to_u32 demo_fdt 0x2000001038 = 0"
  "dtb_to_u32 demo_fdt 0x2000001040 = 3"
  "dtb_to_u32 demo_fdt 0x2000001044 = 4"
  "dtb_to_u32 demo_fdt 0x2000001048 = 15"
  "dtb_to_u32 demo_fdt 0x2000001050 = 4"
  "dtb_to_u32 demo_fdt 0x2000001054 = 1"
  "dtb_to_u32 demo_fdt 0x2000001064 = 3"
  "dtb_to_u32 demo_fdt 0x2000001068 = 8"
  "dtb_to_u32 demo_fdt 0x200000106c = 27"
  "dtb_to_u32 demo_fdt 0x2000001078 = 2"
  "dtb_to_u32 demo_fdt 0x200000107c = 2"
  by (simp_all add: dtb_to_u32_bytes demo_fdt_def demo_bytes_def)

lemma demo_fdt_header:
  "fdt_magic demo_fdt 0x2000001000 = byteswap FDT_HEADER_MAGIC" "byteswap (fdt_off_dt_struct demo_fdt 0x2000001000) = 40"
  "fdt_end demo_fdt 0x2000001000 = 0x2000001084" "str_start demo_fdt 0x2000001000 = 0x2000001084" "str_end demo_fdt 0x2000001000 = 0x20000010a3"
  by (simp_all add: fdt_magic_def fdt_off_dt_struct_def fdt_end_def fdt_size_dt_struct_def str_start_def str_end_def
    fdt_off_dt_strings_def fdt_size_dt_strings_def load_u32_def byteswap_def FDT_HEADER_MAGIC_def demo_fdt_def demo_bytes_def)

lemma demo_fdt_strings:
  "str_at demo_fdt 0x200000102c []" "str_at demo_fdt 0x2000001058 (str ''memory@8'')" "str_at demo_fdt 0x2000001084 (str ''#address-cells'')"
  "str_at demo_fdt 0x2000001093 (str ''#size-cells'')" "str_at demo_fdt 0x200000109f (str ''reg'')"
  "val_at demo_fdt 0x200000103c [0, 0, 0, 1]" "val_at demo_fdt 0x200000104c [0, 0, 0, 1]" "val_at demo_fdt 0x2000001070 [0, 8, 0, 0, 0, 0, 64, 0]"
  by (simp_all add: str_def demo_fdt_def demo_bytes_def)

lemma demo_align: "dtb_align 0x200000102d = 0x2000001030" "dtb_align 0x2000001040 = 0x2000001040" "dtb_align 0x2000001050 = 0x2000001050"
  "dtb_align 0x2000001061 = 0x2000001064" "dtb_align 0x2000001078 = 0x2000001078"
  by (simp_all add: dtb_align_def round_up_def)

lemma demo_memory_props: "props_at demo_fdt 0x2000001000 0x2000001084 0x2000001064 (dt_props demo_memory_node) 0x2000001078"
proof -
  note facts = demo_fdt_def demo_bytes_def demo_fdt_tokens demo_fdt_strings demo_fdt_header demo_align fdt_tokens nops_none
  have "props_at demo_fdt 0x2000001000 0x2000001084 0x2000001078 [] 0x2000001078" by (rule props_none) (simp_all add: facts)
  then show ?thesis unfolding demo_memory_node_def dtree.sel
    by (intro props_more [where r = "0x2000001064" and name = "0x200000109f"]) (simp_all add: facts)
qed

lemma demo_fdt_at: "fdt_at demo_fdt 0x2000001000 demo_tree"
proof -
  let ?m = demo_fdt and ?h = "0x2000001000" and ?e = "0x2000001084"
  note facts = demo_fdt_def demo_bytes_def demo_fdt_tokens demo_fdt_strings demo_fdt_header demo_align fdt_tokens nops_none
  have "props_at ?m ?h ?e 0x2000001064 (dt_props demo_memory_node) 0x2000001078" by (rule demo_memory_props)
  then have "tree_at ?m ?h ?e 0x2000001054 demo_memory_node (0x2000001078 + 4)" unfolding demo_memory_node_def dtree.sel
    by (intro tree [where r = "0x2000001064" and c = "0x2000001078"] trees_none) (simp_all add: facts)
  moreover have "nops ?m 0x2000001050 0x2000001054" by (rule nops_more) (simp_all add: facts)
  moreover have "trees_at ?m ?h ?e 0x200000107c [] 0x200000107c" by (rule trees_none) (simp_all add: facts)
  ultimately have t: "trees_at ?m ?h ?e 0x2000001054 [demo_memory_node] 0x200000107c"
    by (intro trees_more [where r = "0x2000001054" and r' = "0x200000107c"]) (simp_all add: facts)
  have "props_at ?m ?h ?e 0x2000001050 [] 0x2000001054"
    by (rule props_none) (simp_all add: facts nops_more)
  then have p2: "props_at ?m ?h ?e 0x2000001040 [(str ''#size-cells'', [0, 0, 0, 1])] 0x2000001054"
    by (intro props_more [where r = "0x2000001040" and name = "0x2000001093"]) (simp_all add: facts)
  have "props_at ?m ?h ?e 0x2000001030 (dt_props demo_tree) 0x2000001054" unfolding demo_tree_def dtree.sel
    by (rule props_more [where r = "0x2000001030" and name = "0x2000001084"]) (use p2 in \<open>simp_all add: facts\<close>)
  with t have "tree_at ?m ?h ?e 0x2000001028 demo_tree (0x200000107c + 4)" unfolding demo_tree_def dtree.sel
    by (intro tree [where r = "0x2000001030" and c = "0x2000001054"]) (simp_all add: facts child_address_cells_def cells_def)
  moreover have "nops ?m 0x2000001028 0x2000001028" by (rule nops_none)
  ultimately show ?thesis by (auto simp: fdt_at_def demo_fdt_header)
qed

theorem for_each_dtb_node_visits_witness:
  "for_each_dtb_node demo_fdt 0x2000001000 (\<lambda>node st. Some (True, (nd_name node, nd_address_cells node) # st)) [] =
    Some [(str ''memory'', 1), ([], 2)]"
proof -
  let ?cb = "\<lambda>node st. Some (True, (nd_name node, nd_address_cells node) # st)"
  let ?tcb = "\<lambda>ac sc t st. Some (True, (base_name (dt_name t), ac) # st)"
  have "implements demo_fdt 0x2000001000 (\<lambda>_ _ _. True) ?cb ?tcb" by (simp add: implements_def node_view_def)
  from for_each_dtb_node_visits [OF demo_fdt_at this all_nodes_True, of "[]"] show ?thesis
    by (simp add: demo_tree_def demo_memory_node_def) (simp add: base_name_def child_address_cells_def cells_def str_def)
qed

theorem for_each_dtb_prop_each_witness:
  "for_each_dtb_prop demo_fdt \<lparr>nd_next = 0x2000001064, nd_unit_address = 8, nd_header = 0x2000001000, nd_address_cells = 1,
      nd_size_cells = 1, nd_name = str ''memory''\<rparr>
    (\<lambda>node pr st. Some (True, (case pr_value pr of Array len _ \<Rightarrow> unat len | _ \<Rightarrow> 0) # st)) [] = Some [8]"
proof -
  let ?node = "\<lparr>nd_next = 0x2000001064, nd_unit_address = 8, nd_header = 0x2000001000, nd_address_cells = 1,
      nd_size_cells = 1, nd_name = str ''memory''\<rparr>"
  let ?cb = "\<lambda>node pr st. Some (True, (case pr_value pr of Array len _ \<Rightarrow> unat len | _ \<Rightarrow> 0) # st)"
  have v: "node_view demo_fdt 0x2000001000 ?node 1 1 demo_memory_node"
    using demo_memory_props by (auto simp: node_view_def demo_fdt_header demo_memory_node_def base_name_def str_def)
  have "for_each_dtb_prop demo_fdt ?node ?cb [] = each_prop (\<lambda>n v st. Some (True, length v # st)) (dt_props demo_memory_node) []"
  proof (rule for_each_dtb_prop_each [OF v])
    fix pr n v and st :: "nat list" assume "(n, v) \<in> set (dt_props demo_memory_node)" "prop_view demo_fdt pr n v"
    then show "?cb ?node pr st = Some (True, length v # st)"
      by (auto simp: demo_memory_node_def prop_view_def read_value_def find_prop_type_reg)
  qed
  then show ?thesis by (simp add: demo_memory_node_def)
qed

end
