(* ===== verification/Boot_Memory.thy ===== *)
theory Boot_Memory
  imports Regions Dtb
begin

text \<open>
  The memory capabilities of the root task (\<^verbatim>\<open>setup_memory_capabilities\<close> of \<^verbatim>\<open>src/arch/rv64/kernel/setup.cpp\<close>): the regions the
  device tree names are collected, the reserved ones and the device tree itself are taken out, and the
  rest becomes capabilities. The lemmas show that the collected regions are those of the tree and
  that the capabilities cover exactly what they should.

  The arrays of regions are lists; pushing to a full array stops the kernel. Linker symbols are the
  record \<open>layout\<close>. Output to the log is left out.
\<close>

definition CONFIG_MAX_RESERVED_REGIONS :: nat where "CONFIG_MAX_RESERVED_REGIONS = 5"
definition CONFIG_MAX_DEVICE_REGIONS :: nat where "CONFIG_MAX_DEVICE_REGIONS = 32"
definition CONFIG_MAX_MEMORY_REGIONS :: nat where "CONFIG_MAX_MEMORY_REGIONS = 1"

record regions =
  reserved_region :: "region_t list"
  memory_region :: "region_t list"
  device_region :: "region_t list"

record layout =
  kernel_start :: addr
  kernel_end :: addr
  payload_start :: addr
  payload_end :: addr
  root_task_stack_start :: addr
  root_task_stack_end :: addr

definition push_reserved_region :: "region_t \<Rightarrow> regions \<Rightarrow> regions option" where
  "push_reserved_region r st = do {
     cassert (length (reserved_region st) < CONFIG_MAX_RESERVED_REGIONS);
     Some (st\<lparr>reserved_region := reserved_region st @ [r]\<rparr>)
   }"

definition push_memory_region :: "region_t \<Rightarrow> regions \<Rightarrow> regions option" where
  "push_memory_region r st = do {
     cassert (length (memory_region st) < CONFIG_MAX_MEMORY_REGIONS);
     Some (st\<lparr>memory_region := memory_region st @ [r]\<rparr>)
   }"

definition push_device_region :: "region_t \<Rightarrow> regions \<Rightarrow> regions option" where
  "push_device_region r st = do {
     cassert (length (device_region st) < CONFIG_MAX_DEVICE_REGIONS);
     Some (st\<lparr>device_region := device_region st @ [\<lparr>r_start = r_start r, r_end = round_up (r_end r) PAGE_SIZE\<rparr>]\<rparr>)
   }"

text \<open>The cells of a number, 32 bits each.\<close>

primrec read_cells :: "bytes \<Rightarrow> addr \<Rightarrow> nat \<Rightarrow> u64 \<Rightarrow> u64" where
  "read_cells m p 0 x = x"
| "read_cells m p (Suc n) x = read_cells m (p + 4) n (push_bit 32 x OR ucast (byteswap (load_u32 m p)))"

partial_function (option) reg_loop ::
  "bytes \<Rightarrow> addr \<Rightarrow> 32 word \<Rightarrow> 32 word \<Rightarrow> 32 word \<Rightarrow> (region_t \<Rightarrow> 's \<Rightarrow> 's option) \<Rightarrow> 32 word \<Rightarrow> 's \<Rightarrow> 's option" where
  "reg_loop m data ac sc len callback i st =
     (if i < len then do {
        let base = read_cells m (data + 4 * ucast i) (unat ac) 0;
        let size = read_cells m (data + 4 * ucast (i + ac)) (unat sc) 0;
        st \<leftarrow> callback \<lparr>r_start = base, r_end = base + size\<rparr> st;
        reg_loop m data ac sc len callback (i + (ac + sc)) st
      }
      else Some st)"

text \<open>A property that is not an array leaves that member of the union unset.\<close>

definition for_each_reg ::
  "bytes \<Rightarrow> dtb_node_t \<Rightarrow> dtb_prop_t \<Rightarrow> (region_t \<Rightarrow> 's \<Rightarrow> 's option) \<Rightarrow> 's \<Rightarrow> 's option" where
  "for_each_reg m node prop callback st = do {
     cassert (strcmp m (pr_name prop) (str ''reg'') = 0);
     case pr_value prop of
       Array len data \<Rightarrow> reg_loop m data (nd_address_cells node) (nd_size_cells node) (len div 4) callback 0 st
     | _ \<Rightarrow> None
   }"

definition push_region :: "byte list \<Rightarrow> region_t \<Rightarrow> regions \<Rightarrow> regions option" where
  "push_region name =
     (if take 10 name = str ''mmode_resv'' then push_reserved_region
      else if name = str ''memory'' then push_memory_region
      else push_device_region)"

definition reg_prop :: "bytes \<Rightarrow> regions prop_callback" where
  "reg_prop m node prop st =
     (if strcmp m (pr_name prop) (str ''reg'') \<noteq> 0 then Some (True, st)
      else if nd_size_cells node = 0 then Some (True, st)
      else do { st \<leftarrow> for_each_reg m node prop (push_region (nd_name node)) st; Some (False, st) })"

definition node_regions :: "bytes \<Rightarrow> regions node_callback" where
  "node_regions m node st =
     (if nd_name node = str ''partitions'' then Some (False, st)
      else do { st \<leftarrow> for_each_dtb_prop m node (reg_prop m) st; Some (True, st) })"

primrec foldm :: "('a \<Rightarrow> 's \<Rightarrow> 's option) \<Rightarrow> 'a list \<Rightarrow> 's \<Rightarrow> 's option" where
  "foldm f [] st = Some st"
| "foldm f (x # xs) st = do { st \<leftarrow> f x st; foldm f xs st }"

definition insert_memory_without :: "addr \<Rightarrow> region_t \<Rightarrow> region_t list \<Rightarrow> region_t \<Rightarrow> boot_state \<Rightarrow> boot_state option" where
  "insert_memory_without root_task dtb_region reserved region b = (case subtract_region region dtb_region of (d0, d1) \<Rightarrow>
     foldm (\<lambda>r b. if r_start r < r_end r then insert_memory_region_caps root_task reserved False r b else Some b) [d0, d1] b)"

definition kernel_regions :: "layout \<Rightarrow> region_t list" where
  "kernel_regions l = [\<lparr>r_start = as_phys (kernel_start l), r_end = as_phys (kernel_end l)\<rparr>,
     \<lparr>r_start = as_phys (payload_start l), r_end = as_phys (payload_end l)\<rparr>,
     \<lparr>r_start = as_phys (root_task_stack_start l), r_end = as_phys (root_task_stack_end l)\<rparr>]"

definition setup_memory_capabilities :: "layout \<Rightarrow> addr \<Rightarrow> addr \<Rightarrow> boot_state \<Rightarrow> boot_state option" where
  "setup_memory_capabilities l root_task dtb b = do {
     let m = mem (snd b);
     rs \<leftarrow> foldm push_reserved_region (kernel_regions l)
       \<lparr>reserved_region = [], memory_region = [], device_region = []\<rparr>;
     (dtb_start, dtb_end) \<leftarrow> get_dtb_region m dtb;
     let dtb_size = round_up (dtb_end - dtb_start) PAGE_SIZE;
     let dtb_region = \<lparr>r_start = dtb_start, r_end = dtb_start + dtb_size\<rparr>;
     rs \<leftarrow> for_each_dtb_node m dtb (node_regions m) rs;
     b \<leftarrow> foldm (insert_memory_without root_task dtb_region (reserved_region rs)) (memory_region rs) b;
     foldm (insert_memory_region_caps root_task (reserved_region rs) True) (device_region rs) b
   }"

subsection \<open>The regions of a tree\<close>

fun be_words :: "byte list \<Rightarrow> 32 word list" where
  "be_words (a # b # c # d # r) = be_u32 [a, b, c, d] # be_words r"
| "be_words _ = []"

definition be_number :: "32 word list \<Rightarrow> u64 \<Rightarrow> u64" where
  "be_number ws x = fold (\<lambda>w x. push_bit 32 x OR ucast w) ws x"

fun reg_regions :: "nat \<Rightarrow> nat \<Rightarrow> 32 word list \<Rightarrow> region_t list" where
  "reg_regions ac sc ws =
     (if ws = [] \<or> ac + sc = 0 then []
      else let base = be_number (take ac ws) 0; size = be_number (take sc (drop ac ws)) 0 in
        \<lparr>r_start = base, r_end = base + size\<rparr> # reg_regions ac sc (drop (ac + sc) ws))"

declare reg_regions.simps [simp del]

definition node_regs :: "32 word \<Rightarrow> 32 word \<Rightarrow> dtree \<Rightarrow> region_t list" where
  "node_regs ac sc t = (if sc = 0 then [] else
     case map_of (dt_props t) (str ''reg'') of None \<Rightarrow> [] | Some v \<Rightarrow> reg_regions (unat ac) (unat sc) (be_words v))"

fun tree_regs :: "32 word \<Rightarrow> 32 word \<Rightarrow> dtree \<Rightarrow> (byte list \<times> region_t) list" where
  "tree_regs ac sc (DNode n ps ts) =
     (if base_name n = str ''partitions'' then []
      else map (Pair (base_name n)) (node_regs ac sc (DNode n ps ts)) @
        concat (map (tree_regs (child_address_cells ps) (child_size_cells ps)) ts))"

definition reg_ok :: "32 word \<Rightarrow> 32 word \<Rightarrow> dtree \<Rightarrow> bool" where
  "reg_ok ac sc t \<longleftrightarrow> (\<forall>(n, v)\<in>set (dt_props t). n = str ''reg'' \<and> sc \<noteq> 0 \<longrightarrow>
     v \<noteq> [] \<and> 4 * (unat ac + unat sc) dvd length v)"

lemma be_words_length: "length (be_words v) = length v div 4"
  by (induction v rule: be_words.induct) auto

lemma be_words_at: "val_at m p v \<Longrightarrow> j < length (be_words v) \<Longrightarrow> byteswap (load_u32 m (p + 4 * of_nat j)) = be_words v ! j"
proof (induction v arbitrary: p j rule: be_words.induct)
  case (1 a b c d r)
  show ?case
  proof (cases j)
    case 0
    then show ?thesis using 1(2) by (simp add: dtb_to_u32_bytes [unfolded dtb_to_u32_def] ac_simps)
  next
    case (Suc k)
    have "val_at m (p + 4) r" using 1(2) by (simp add: ac_simps)
    from 1(1) [OF this, of k] 1(3) Suc show ?thesis by (simp add: ac_simps distrib_left)
  qed
qed auto

lemma read_cells_words:
  "(\<And>j. j < n \<Longrightarrow> byteswap (load_u32 m (p + 4 * of_nat j)) = ws ! j) \<Longrightarrow> n \<le> length ws \<Longrightarrow>
    read_cells m p n x = be_number (take n ws) x"
proof (induction n arbitrary: p ws x)
  case (Suc n)
  obtain w rest where w: "ws = w # rest" using Suc.prems(2) by (cases ws) auto
  have "byteswap (load_u32 m (p + 4 + 4 * of_nat j)) = rest ! j" if "j < n" for j
    using Suc.prems(1) [of "Suc j"] that w by (simp add: ac_simps distrib_left)
  from Suc.IH [OF this] Suc.prems(2) Suc.prems(1) [of 0] w show ?case by (simp add: be_number_def)
qed (simp add: be_number_def)

lemma read_cells_at:
  assumes "val_at m p v" "i + n \<le> length (be_words v)"
  shows "read_cells m (p + 4 * of_nat i) n x = be_number (take n (drop i (be_words v))) x"
proof (rule read_cells_words)
  fix j assume "j < n"
  then show "byteswap (load_u32 m (p + 4 * of_nat i + 4 * of_nat j)) = drop i (be_words v) ! j"
    using be_words_at [OF assms(1), of "i + j"] assms(2) by (simp add: distrib_left ac_simps)
qed (use assms(2) in simp)

lemma unat_add_u32: "unat a + unat b \<le> n \<Longrightarrow> n < 2 ^ 32 \<Longrightarrow> unat (a + b) = unat a + unat b" for a b :: "32 word"
  by (simp add: unat_word_ariths)

lemma reg_loop_regions:
  assumes v: "val_at m data v" "unat len = length (be_words v)" and b: "unat ac + unat sc dvd length (be_words v)" "sc \<noteq> 0"
    and i: "unat ac + unat sc dvd unat i" "unat i \<le> length (be_words v)"
  shows "reg_loop m data ac sc len cb i st = foldm cb (reg_regions (unat ac) (unat sc) (drop (unat i) (be_words v))) st"
  using i
proof (induction "length (be_words v) - unat i" arbitrary: i st rule: less_induct)
  case less
  let ?ws = "be_words v" and ?b = "unat ac + unat sc"
  have N: "length ?ws < 2 ^ 32" using v(2) unsigned_less [of len, where 'a = nat] by simp
  have b0: "0 < unat sc" using b(2) by (simp add: unat_gt_0)
  show ?case
  proof (cases "i < len")
    case False
    then have "unat i = length ?ws" using less.prems(2) v(2) by (simp add: word_less_nat_alt)
    then show ?thesis using False by (subst reg_loop.simps, subst reg_regions.simps) simp
  next
    case True
    then have lt: "unat i < length ?ws" using v(2) by (simp add: word_less_nat_alt)
    have le: "unat i + ?b \<le> length ?ws" using less.prems(1) b(1) lt
      by (metis dvd_diff_nat dvd_imp_le le_add_diff_inverse less_imp_le_nat nat_add_left_cancel_le zero_less_diff)
    have bb: "unat (ac + sc) = ?b" using le N by (intro unat_add_u32 [of _ _ "length ?ws"]) simp_all
    have ib: "unat (i + (ac + sc)) = unat i + ?b" using le N bb by (subst unat_add_u32 [of _ _ "length ?ws"]) simp_all
    have ia: "unat (i + ac) = unat i + unat ac" using le N by (intro unat_add_u32 [of _ _ "length ?ws"]) simp_all
    have u: "(ucast i :: u64) = of_nat (unat i)" "(ucast (i + ac) :: u64) = of_nat (unat i + unat ac)" by (simp_all flip: ia)
    have c: "read_cells m (data + 4 * ucast i) (unat ac) 0 = be_number (take (unat ac) (drop (unat i) ?ws)) 0"
      "read_cells m (data + 4 * ucast (i + ac)) (unat sc) 0 = be_number (take (unat sc) (drop (unat i + unat ac) ?ws)) 0"
      unfolding u using le by (intro read_cells_at [OF v(1)]; simp)+
    have IH: "reg_loop m data ac sc len cb (i + (ac + sc)) =
      foldm cb (reg_regions (unat ac) (unat sc) (drop (unat i + ?b) ?ws))"
      using less.hyps [of "i + (ac + sc)"] ib lt le b0 less.prems(1) by (intro ext) simp
    show ?thesis using True lt b0 unfolding reg_loop.simps [of m data ac sc len cb i] c IH
      by (subst reg_regions.simps) (simp add: Let_def add.commute add.left_commute)
  qed
qed

lemma for_each_reg_view:
  assumes "prop_view m prop (str ''reg'') v" "v \<noteq> []" "4 * (unat (nd_address_cells node) + unat (nd_size_cells node)) dvd length v"
    "nd_size_cells node \<noteq> 0"
  shows "for_each_reg m node prop cb st =
    foldm cb (reg_regions (unat (nd_address_cells node)) (unat (nd_size_cells node)) (be_words v)) st"
proof -
  from assms(1) obtain src where p: "str_at m (pr_name prop) (str ''reg'')" "length v < 2 ^ 32" "val_at m src v"
    "pr_value prop = read_value m (pr_name prop) (of_nat (length v)) src" by (auto simp: prop_view_def)
  have len: "unat (of_nat (length v) :: 32 word) = length v" using p(2) by (simp add: unat_of_nat take_bit_nat_eq_self)
  then have "(of_nat (length v) :: 32 word) \<noteq> 0" using assms(2) by (metis length_0_conv unat_0)
  then have val: "pr_value prop = Array (of_nat (length v)) src"
    using p(4) find_prop_type_reg [OF p(1)] by (simp add: read_value_def)
  have d: "unat (of_nat (length v) div 4 :: 32 word) = length (be_words v)" using len by (simp add: unat_div be_words_length)
  have "unat (nd_address_cells node) + unat (nd_size_cells node) dvd length (be_words v)"
    using assms(3) by (metis be_words_length dvd_div_iff_mult dvd_mult_left mult.commute zero_neq_numeral)
  from reg_loop_regions [OF p(3) d this assms(4), of 0 cb st] show ?thesis
    using strcmp_at [OF p(1) str_nonzero(3)] val by (simp add: for_each_reg_def)
qed

lemma foldm_append: "foldm f (xs @ ys) st = do { st \<leftarrow> foldm f xs st; foldm f ys st }"
  by (induction xs arbitrary: st) (simp_all add: Option.bind_assoc)

lemma each_prop_first:
  "each_prop (\<lambda>n v st. if n \<noteq> k \<or> c then Some (True, st) else do { st \<leftarrow> g v st; Some (False, st) }) ps st =
    (if c then Some st else case map_of ps k of None \<Rightarrow> Some st | Some v \<Rightarrow> g v st)"
  by (induction ps) auto

definition tree_regions :: "regions tree_callback" where
  "tree_regions ac sc t st =
     (if base_name (dt_name t) = str ''partitions'' then Some (False, st)
      else do { st \<leftarrow> foldm (push_region (base_name (dt_name t))) (node_regs ac sc t) st; Some (True, st) })"

lemma node_regions_implements: "implements m dtb reg_ok (node_regions m) tree_regions"
  unfolding implements_def
proof (intro allI impI, elim conjE)
  fix node ac sc t st assume v: "node_view m dtb node ac sc t" and ok: "reg_ok ac sc t"
  have nd: "nd_address_cells node = ac" "nd_size_cells node = sc" "nd_name node = base_name (dt_name t)"
    using v by (simp_all add: node_view_def)
  let ?g = "\<lambda>v. foldm (push_region (nd_name node)) (reg_regions (unat ac) (unat sc) (be_words v))"
  have "for_each_dtb_prop m node (reg_prop m) st =
    each_prop (\<lambda>n v st. if n \<noteq> str ''reg'' \<or> sc = 0 then Some (True, st) else do { st \<leftarrow> ?g v st; Some (False, st) }) (dt_props t) st"
  proof (rule for_each_dtb_prop_at [OF v])
    fix pr n w st assume w: "(n, w) \<in> set (dt_props t)" "prop_view m pr n w"
    have c: "strcmp m (pr_name pr) (str ''reg'') = 0 \<longleftrightarrow> n = str ''reg''"
      using w(2) by (intro strcmp_at str_nonzero) (simp add: prop_view_def)
    have "for_each_reg m node pr cb st = foldm cb (reg_regions (unat ac) (unat sc) (be_words w)) st"
      if "n = str ''reg''" "sc \<noteq> 0" for cb :: "region_t \<Rightarrow> regions \<Rightarrow> regions option" and st
      using for_each_reg_view [of m pr w node cb st] w ok that nd by (auto simp: reg_ok_def)
    then show "reg_prop m node pr st =
      (if n \<noteq> str ''reg'' \<or> sc = 0 then Some (True, st) else do { st \<leftarrow> ?g w st; Some (False, st) })"
      using c nd by (auto simp: reg_prop_def)
  qed
  also have "\<dots> = foldm (push_region (nd_name node)) (node_regs ac sc t) st"
    unfolding each_prop_first by (auto simp: node_regs_def split: option.split)
  finally show "node_regions m node st = tree_regions ac sc t st"
    using nd by (simp add: node_regions_def tree_regions_def)
qed

lemma foldm_map: "foldm f (map g xs) st = foldm (\<lambda>x. f (g x)) xs st"
  by (induction xs arbitrary: st) simp_all

lemma visit_regions:
  "visit tree_regions ac sc t st = foldm (\<lambda>(n, r). push_region n r) (tree_regs ac sc t) st"
proof (induction t arbitrary: ac sc st)
  case (DNode n ps ts)
  have vs: "visits tree_regions a c ts = foldm (\<lambda>(n, r). push_region n r) (concat (map (tree_regs a c) ts))" for a c
    using DNode.IH
  proof (induction ts)
    case (Cons t ts)
    then have "visits tree_regions a c ts = foldm (\<lambda>(n, r). push_region n r) (concat (map (tree_regs a c) ts))" by simp
    with Cons.prems show ?case by (intro ext) (simp add: foldm_append)
  qed (simp add: fun_eq_iff)
  have "tree_regions ac sc (DNode n ps ts) st = (if base_name n = str ''partitions'' then Some (False, st)
      else do { st \<leftarrow> foldm (push_region (base_name n)) (node_regs ac sc (DNode n ps ts)) st; Some (True, st) })"
    by (simp add: tree_regions_def)
  then show ?case by (simp add: vs foldm_append foldm_map Option.bind_assoc)
qed

text \<open>The three lists of regions, by the names of the nodes.\<close>

definition reserved_regs :: "(byte list \<times> region_t) list \<Rightarrow> region_t list" where
  "reserved_regs rs = map snd (filter (\<lambda>(n, r). take 10 n = str ''mmode_resv'') rs)"

definition memory_regs :: "(byte list \<times> region_t) list \<Rightarrow> region_t list" where
  "memory_regs rs = map snd (filter (\<lambda>(n, r). take 10 n \<noteq> str ''mmode_resv'' \<and> n = str ''memory'') rs)"

definition device_regs :: "(byte list \<times> region_t) list \<Rightarrow> region_t list" where
  "device_regs rs = map (\<lambda>(n, r). \<lparr>r_start = r_start r, r_end = round_up (r_end r) PAGE_SIZE\<rparr>)
     (filter (\<lambda>(n, r). take 10 n \<noteq> str ''mmode_resv'' \<and> n \<noteq> str ''memory'') rs)"

lemma regs_simps:
  "reserved_regs [] = []" "memory_regs [] = []" "device_regs [] = []"
  "reserved_regs ((n, r) # rs) = (if take 10 n = str ''mmode_resv'' then r # reserved_regs rs else reserved_regs rs)"
  "memory_regs ((n, r) # rs) =
    (if take 10 n \<noteq> str ''mmode_resv'' \<and> n = str ''memory'' then r # memory_regs rs else memory_regs rs)"
  "device_regs ((n, r) # rs) = (if take 10 n \<noteq> str ''mmode_resv'' \<and> n \<noteq> str ''memory''
    then \<lparr>r_start = r_start r, r_end = round_up (r_end r) PAGE_SIZE\<rparr> # device_regs rs else device_regs rs)"
  by (auto simp: reserved_regs_def memory_regs_def device_regs_def)

lemma push_regions:
  assumes "length (reserved_region st) + length (reserved_regs rs) \<le> CONFIG_MAX_RESERVED_REGIONS"
    "length (memory_region st) + length (memory_regs rs) \<le> CONFIG_MAX_MEMORY_REGIONS"
    "length (device_region st) + length (device_regs rs) \<le> CONFIG_MAX_DEVICE_REGIONS"
  shows "foldm (\<lambda>(n, r). push_region n r) rs st = Some \<lparr>reserved_region = reserved_region st @ reserved_regs rs,
    memory_region = memory_region st @ memory_regs rs, device_region = device_region st @ device_regs rs\<rparr>"
  using assms
proof (induction rs arbitrary: st)
  case Nil
  then show ?case by (simp add: regs_simps)
next
  case (Cons p rs)
  obtain n r where p: "p = (n, r)" by (cases p)
  have step: "push_region n r st = (if take 10 n = str ''mmode_resv'' then push_reserved_region r st
    else if n = str ''memory'' then push_memory_region r st else push_device_region r st)" for n by (simp add: push_region_def)
  consider "take 10 n = str ''mmode_resv''" | "take 10 n \<noteq> str ''mmode_resv''" "n = str ''memory''" |
    "take 10 n \<noteq> str ''mmode_resv''" "n \<noteq> str ''memory''" by blast
  then show ?case using Cons.prems unfolding p
    by cases (simp_all add: step push_reserved_region_def push_memory_region_def push_device_region_def regs_simps Cons.IH)
qed

subsection \<open>The capabilities\<close>

definition boot_reserved :: "layout \<Rightarrow> dtree \<Rightarrow> region_t list" where
  "boot_reserved l t = kernel_regions l @ reserved_regs (tree_regs 2 1 t)"

definition boot_memory :: "dtree \<Rightarrow> region_t list" where "boot_memory t = memory_regs (tree_regs 2 1 t)"

definition boot_devices :: "dtree \<Rightarrow> region_t list" where "boot_devices t = device_regs (tree_regs 2 1 t)"

definition dtb_region :: "bytes \<Rightarrow> addr \<Rightarrow> region_t" where
  "dtb_region m dtb = \<lparr>r_start = as_phys dtb,
     r_end = as_phys dtb + round_up (ucast (byteswap (fdt_totalsize m dtb))) PAGE_SIZE\<rparr>"

text \<open>What is inserted, in order: the two parts of each memory region, then the devices.\<close>

definition boot_work :: "bytes \<Rightarrow> addr \<Rightarrow> dtree \<Rightarrow> (bool \<times> region_t) list" where
  "boot_work m dtb t =
     concat (map (\<lambda>r. case subtract_region r (dtb_region m dtb) of (d0, d1) \<Rightarrow> [(False, d0), (False, d1)]) (boot_memory t)) @
     map (Pair True) (boot_devices t)"

lemma insert_memory_without_eq:
  "insert_memory_without t d reserved r b = foldm (\<lambda>(d, r). insert_memory_region_caps t reserved d r)
     (case subtract_region r d of (d0, d1) \<Rightarrow> [(False, d0), (False, d1)]) b"
proof -
  have "(if r_start r < r_end r then insert_memory_region_caps t reserved False r b else Some b) =
    insert_memory_region_caps t reserved False r b" for r b
    by (simp add: insert_memory_region_caps.simps not_less)
  then show ?thesis by (simp add: insert_memory_without_def split: prod.split)
qed

lemma foldm_concat: "foldm (\<lambda>x. foldm g (h x)) xs b = foldm g (concat (map h xs)) b"
proof (induction xs arbitrary: b)
  case (Cons x xs)
  have "foldm (\<lambda>x. foldm g (h x)) xs = foldm g (concat (map h xs))" by (rule ext) (rule Cons.IH)
  then show ?case by (simp add: foldm_append)
qed simp

lemma setup_memory_capabilities_work:
  assumes "fdt_at (mem s) dtb t" "all_nodes reg_ok 2 1 t" "length (boot_reserved l t) \<le> CONFIG_MAX_RESERVED_REGIONS"
    "length (boot_memory t) \<le> CONFIG_MAX_MEMORY_REGIONS" "length (boot_devices t) \<le> CONFIG_MAX_DEVICE_REGIONS"
  shows "setup_memory_capabilities l root dtb (bi, s) =
    foldm (\<lambda>(d, r). insert_memory_region_caps root (boot_reserved l t) d r) (boot_work (mem s) dtb t) (bi, s)"
proof -
  let ?m = "mem s" and ?r0 = "\<lparr>reserved_region = kernel_regions l, memory_region = [], device_region = []\<rparr>"
  have k: "foldm push_reserved_region (kernel_regions l) \<lparr>reserved_region = [], memory_region = [], device_region = []\<rparr> = Some ?r0"
    by (simp add: kernel_regions_def push_reserved_region_def CONFIG_MAX_RESERVED_REGIONS_def)
  have g: "get_dtb_region ?m dtb = Some (as_phys dtb, as_phys (dtb + ucast (byteswap (fdt_totalsize ?m dtb))))"
    using assms(1) by (simp add: get_dtb_region_def fdt_at_def)
  have "for_each_dtb_node ?m dtb (node_regions ?m) ?r0 = foldm (\<lambda>(n, r). push_region n r) (tree_regs 2 1 t) ?r0"
    using for_each_dtb_node_at [OF assms(1) node_regions_implements assms(2)] by (simp add: visit_regions)
  also have "\<dots> = Some \<lparr>reserved_region = boot_reserved l t, memory_region = boot_memory t, device_region = boot_devices t\<rparr>"
    by (subst push_regions) (use assms(3-5) in \<open>simp_all add: boot_reserved_def boot_memory_def boot_devices_def\<close>)
  finally have f: "for_each_dtb_node ?m dtb (node_regions ?m) ?r0 =
    Some \<lparr>reserved_region = boot_reserved l t, memory_region = boot_memory t, device_region = boot_devices t\<rparr>" .
  have d: "\<lparr>r_start = as_phys dtb, r_end = as_phys dtb +
      round_up (as_phys (dtb + ucast (byteswap (fdt_totalsize ?m dtb))) - as_phys dtb) PAGE_SIZE\<rparr> = dtb_region ?m dtb"
    by (simp add: dtb_region_def as_phys_def)
  have "foldm (insert_memory_without root (dtb_region ?m dtb) (boot_reserved l t)) (boot_memory t) b =
    foldm (\<lambda>(d, r). insert_memory_region_caps root (boot_reserved l t) d r)
      (concat (map (\<lambda>r. case subtract_region r (dtb_region ?m dtb) of (d0, d1) \<Rightarrow> [(False, d0), (False, d1)]) (boot_memory t))) b"
    for b unfolding insert_memory_without_eq [abs_def] by (rule foldm_concat)
  then show ?thesis unfolding setup_memory_capabilities_def boot_work_def foldm_append foldm_map
    by (simp add: k g f d del: PAGE_SIZE_val)
qed

text \<open>\<open>parts d xs\<close>: the entries for devices, or those for memory.\<close>

definition parts :: "bool \<Rightarrow> (bool \<times> 'a) list \<Rightarrow> 'a list" where
  "parts d xs = map snd (filter (\<lambda>x. fst x = d) xs)"

lemma parts_simps [simp]:
  "parts d [] = []" "parts d ((e, x) # xs) = (if e = d then x # parts d xs else parts d xs)"
  "parts d (xs @ ys) = parts d xs @ parts d ys" "parts d (map (Pair e) zs) = (if e = d then zs else [])"
  by (auto simp: parts_def filter_map o_def)

lemma insert_chunks_foldm:
  "insert_chunks t d cs b = foldm (\<lambda>(d, c). insert_region_cap t d c) (map (Pair d) cs) b"
proof (induction cs arbitrary: b)
  case (Cons c cs)
  have "insert_chunks t d cs = foldm (\<lambda>(d, c). insert_region_cap t d c) (map (Pair d) cs)" by (rule ext) (rule Cons.IH)
  then show ?case by simp
qed simp

text \<open>The pieces of the regions of \<open>work\<close> that are not reserved, each marked as the region is.\<close>

definition work_pieces :: "region_t list \<Rightarrow> (bool \<times> region_t) list \<Rightarrow> (bool \<times> addr \<times> 16 word) list" where
  "work_pieces reserved work = concat (map (\<lambda>(d, r). map (Pair d) (region_pieces reserved r)) work)"

lemma region_chunks:
  assumes "\<forall>r\<in>set reserved. r_start r \<le> r_end r" "r_start r < r_end r \<longrightarrow> r_start r \<noteq> 0" "unat (r_end r) \<le> 2 ^ 36"
    "cs = region_pieces reserved r"
  shows "(\<forall>b. insert_memory_region_caps t reserved d r b = insert_chunks t d cs b) \<and>
    (\<Union>c\<in>set cs. chunk_set c) = region_set r - (\<Union>r\<in>set reserved. region_set r) \<and>
    sorted_wrt (\<lambda>c c'. chunk_set c \<inter> chunk_set c' = {}) cs \<and> (\<forall>c\<in>set cs. chunk_ok c) \<and>
    length cs \<le> (if r_start r < r_end r then 72 * 2 ^ length reserved else 0)"
  using insert_memory_region_caps_reserved [OF assms, of t d] region_pieces_empty [of r reserved] assms(4) by auto

lemma insert_work_chunks:
  assumes "\<forall>r\<in>set reserved. r_start r \<le> r_end r"
    "\<forall>x\<in>set work. (r_start (snd x) < r_end (snd x) \<longrightarrow> r_start (snd x) \<noteq> 0) \<and> unat (r_end (snd x)) \<le> 2 ^ 36"
    "cds = work_pieces reserved work"
  shows "(\<forall>b. foldm (\<lambda>(d, r). insert_memory_region_caps t reserved d r) work b =
      foldm (\<lambda>(d, c). insert_region_cap t d c) cds b) \<and>
    (\<forall>d. (\<Union>c\<in>set (parts d cds). chunk_set c) =
      (\<Union>r\<in>set (parts d work). region_set r) - (\<Union>r\<in>set reserved. region_set r)) \<and>
    (\<forall>d. sorted_wrt (\<lambda>r r'. region_set r \<inter> region_set r' = {}) (parts d work) \<longrightarrow>
      sorted_wrt (\<lambda>c c'. chunk_set c \<inter> chunk_set c' = {}) (parts d cds)) \<and>
    (\<forall>x\<in>set cds. chunk_ok (snd x)) \<and>
    length cds \<le> 72 * 2 ^ length reserved * length (filter (\<lambda>x. r_start (snd x) < r_end (snd x)) work)"
  using assms(2,3)
proof (induction work arbitrary: cds)
  case Nil
  then show ?case by (simp add: work_pieces_def)
next
  case (Cons x work)
  obtain e r where x: "x = (e, r)" by (cases x)
  let ?R = "\<Union>r\<in>set reserved. region_set r"
  let ?cs = "region_pieces reserved r" and ?ds = "work_pieces reserved work"
  have cs: "\<And>b. insert_memory_region_caps t reserved e r b = insert_chunks t e ?cs b"
    "(\<Union>c\<in>set ?cs. chunk_set c) = region_set r - ?R" "sorted_wrt (\<lambda>c c'. chunk_set c \<inter> chunk_set c' = {}) ?cs"
    "\<forall>c\<in>set ?cs. chunk_ok c" "length ?cs \<le> (if r_start r < r_end r then 72 * 2 ^ length reserved else 0)"
    using region_chunks [OF assms(1) _ _ refl, of r t e] Cons.prems(1) x by auto
  have cds: "\<forall>b. foldm (\<lambda>(d, r). insert_memory_region_caps t reserved d r) work b =
      foldm (\<lambda>(d, c). insert_region_cap t d c) ?ds b"
    "\<And>d. (\<Union>c\<in>set (parts d ?ds). chunk_set c) = (\<Union>r\<in>set (parts d work). region_set r) - ?R"
    "\<And>d. sorted_wrt (\<lambda>r r'. region_set r \<inter> region_set r' = {}) (parts d work) \<Longrightarrow>
      sorted_wrt (\<lambda>c c'. chunk_set c \<inter> chunk_set c' = {}) (parts d ?ds)"
    "\<forall>x\<in>set ?ds. chunk_ok (snd x)"
    "length ?ds \<le> 72 * 2 ^ length reserved * length (filter (\<lambda>x. r_start (snd x) < r_end (snd x)) work)"
    using Cons.IH [OF _ refl] Cons.prems(1) by auto
  have e: "cds = map (Pair e) ?cs @ ?ds" using Cons.prems(2) by (simp add: work_pieces_def x)
  have "foldm (\<lambda>(d, r). insert_memory_region_caps t reserved d r) work = foldm (\<lambda>(d, c). insert_region_cap t d c) ?ds"
    by (rule ext) (rule cds(1) [rule_format])
  then have run: "foldm (\<lambda>(d, r). insert_memory_region_caps t reserved d r) (x # work) b =
    foldm (\<lambda>(d, c). insert_region_cap t d c) cds b" for b
    by (simp add: e x cs(1) insert_chunks_foldm foldm_append)
  have dis: "chunk_set c \<inter> chunk_set c' = {}" if "c \<in> set ?cs" "c' \<in> set (parts e ?ds)"
    "\<forall>x\<in>set (parts e work). region_set r \<inter> region_set x = {}" for c c'
  proof -
    have "chunk_set c \<subseteq> region_set r" using cs(2) that(1) by blast
    moreover have "chunk_set c' \<subseteq> (\<Union>r\<in>set (parts e work). region_set r)" using cds(2) [of e] that(2) by blast
    ultimately show ?thesis using that(3) by blast
  qed
  have "sorted_wrt (\<lambda>c c'. chunk_set c \<inter> chunk_set c' = {}) (parts d cds)"
    if "sorted_wrt (\<lambda>r r'. region_set r \<inter> region_set r' = {}) (parts d (x # work))" for d
    using that cs(3) cds(3) [of d] dis unfolding e x by (cases "e = d") (simp_all add: sorted_wrt_append)
  moreover have "(\<Union>c\<in>set (parts d cds). chunk_set c) =
    (\<Union>r\<in>set (parts d (x # work)). region_set r) - ?R" for d
    using cs(2) cds(2) [of d] unfolding e x by auto
  moreover have "length cds \<le> 72 * 2 ^ length reserved * length (filter (\<lambda>x. r_start (snd x) < r_end (snd x)) (x # work))"
    using cs(5) cds(5) unfolding e x by (simp split: if_splits)
  ultimately show ?case using run cs(4) cds(4) by (auto simp: e)
qed

lemma insert_caps_ok:
  assumes "\<forall>x\<in>set cds. chunk_ok (snd x)" "free_list s t xs" "alive s t" "length cds \<le> length xs"
  shows "\<exists>bi' s'. foldm (\<lambda>(d, c). insert_region_cap t d c) cds (bi, s) = Some (bi', s') \<and>
    free_list s' t (drop (length cds) xs) \<and> (\<forall>z. z \<notin> set (take (length cds) xs) \<longrightarrow> cap_at s' z = cap_at s z) \<and>
    (\<forall>i<length cds. cap_at s' (xs ! i) = chunk_cap (fst (cds ! i)) (snd (cds ! i)))"
  using assms
proof (induction cds arbitrary: s xs bi)
  case (Cons x cds)
  obtain e c where x: "x = (e, c)" by (cases x)
  obtain z zs where z: "xs = z # zs" using Cons.prems(4) by (cases xs) auto
  from insert_chunks_ok [of "[c]" s t xs e bi] Cons.prems x z obtain bi1 s1 where
    s1: "insert_region_cap t e c (bi, s) = Some (bi1, s1)" "alive s1 t" "free_list s1 t zs"
      "\<forall>u. u \<noteq> z \<longrightarrow> cap_at s1 u = cap_at s u" "cap_at s1 z = chunk_cap e c"
    by (auto simp: bind_eq_Some_conv)
  have zz: "z \<notin> set (take (length cds) zs)"
    using chain_distinct [OF free_listD(1) [OF Cons.prems(2)]] z by (auto dest: in_set_takeD)
  from Cons.IH [OF _ s1(3,2), of bi1] Cons.prems(1,4) z obtain bi' s' where
    "foldm (\<lambda>(d, c). insert_region_cap t d c) cds (bi1, s1) = Some (bi', s')" "free_list s' t (drop (length cds) zs)"
    "\<forall>u. u \<notin> set (take (length cds) zs) \<longrightarrow> cap_at s' u = cap_at s1 u"
    "\<forall>i<length cds. cap_at s' (zs ! i) = chunk_cap (fst (cds ! i)) (snd (cds ! i))" by auto
  with s1 zz show ?case by (auto simp: x z nth_Cons split: nat.split)
qed simp

lemma boot_work_parts:
  "parts True (boot_work m dtb t) = boot_devices t"
  "parts False (boot_work m dtb t) = concat (map (\<lambda>r. [fst (subtract_region r (dtb_region m dtb)), snd (subtract_region r (dtb_region m dtb))]) (boot_memory t))"
proof -
  have "parts d (concat (map (\<lambda>r. case subtract_region r D of (d0, d1) \<Rightarrow> [(False, d0), (False, d1)]) ms)) =
    (if d then [] else concat (map (\<lambda>r. [fst (subtract_region r D), snd (subtract_region r D)]) ms))" for d ms D
    by (induction ms) (auto simp: case_prod_beta)
  then show "parts True (boot_work m dtb t) = boot_devices t"
    "parts False (boot_work m dtb t) = concat (map (\<lambda>r. [fst (subtract_region r (dtb_region m dtb)), snd (subtract_region r (dtb_region m dtb))]) (boot_memory t))"
    by (simp_all add: boot_work_def)
qed

lemma subtract_region_bounds:
  assumes "subtract_region r b = (d0, d1)" "r_start r \<noteq> 0" "unat (r_end r) \<le> 2 ^ 36" "x \<in> {d0, d1}"
    "r_start b \<le> r_end b"
  shows "(r_start x < r_end x \<longrightarrow> r_start x \<noteq> 0) \<and> unat (r_end x) \<le> 2 ^ 36"
  using assms by (auto simp: subtract_region_def word_le_nat_alt word_less_nat_alt split: if_splits)

lemma boot_work_good:
  assumes "r_start (dtb_region m dtb) \<le> r_end (dtb_region m dtb)"
    "\<forall>r\<in>set (boot_memory t) \<union> set (boot_devices t). r_start r \<noteq> 0 \<and> unat (r_end r) \<le> 2 ^ 36" "x \<in> set (boot_work m dtb t)"
  shows "(r_start (snd x) < r_end (snd x) \<longrightarrow> r_start (snd x) \<noteq> 0) \<and> unat (r_end (snd x)) \<le> 2 ^ 36"
proof -
  let ?D = "dtb_region m dtb"
  have "(\<exists>r\<in>set (boot_memory t). snd x \<in> {fst (subtract_region r ?D), snd (subtract_region r ?D)}) \<or>
    snd x \<in> set (boot_devices t)" using assms(3) by (auto simp: boot_work_def case_prod_beta)
  then show ?thesis
    using assms(2) subtract_region_bounds [OF prod.collapse [symmetric] _ _ _ assms(1)] by (meson UnI1 UnI2)
qed

text \<open>
  A device tree the boot code can use: well formed, with no more regions than the arrays hold, none of
  them empty in reverse, at address 0 or behind the physical address space.
\<close>

definition boot_tree_ok :: "layout \<Rightarrow> bytes \<Rightarrow> addr \<Rightarrow> dtree \<Rightarrow> bool" where
  "boot_tree_ok l m dtb t \<longleftrightarrow> fdt_at m dtb t \<and> all_nodes reg_ok 2 1 t \<and> length (boot_reserved l t) \<le> CONFIG_MAX_RESERVED_REGIONS \<and>
     length (boot_memory t) \<le> CONFIG_MAX_MEMORY_REGIONS \<and> length (boot_devices t) \<le> CONFIG_MAX_DEVICE_REGIONS \<and>
     (\<forall>r\<in>set (boot_reserved l t). r_start r \<le> r_end r) \<and> r_start (dtb_region m dtb) \<le> r_end (dtb_region m dtb) \<and>
     (\<forall>r\<in>set (boot_memory t) \<union> set (boot_devices t). r_start r \<noteq> 0 \<and> unat (r_end r) \<le> 2 ^ 36)"

text \<open>The pieces \<open>cds\<close>, each marked as device or memory, are those the boot code has to hand out, and there are not too many of them.\<close>

definition boot_chunks :: "layout \<Rightarrow> bytes \<Rightarrow> addr \<Rightarrow> dtree \<Rightarrow> (bool \<times> addr \<times> 16 word) list \<Rightarrow> bool" where
  "boot_chunks l m dtb t cds \<longleftrightarrow>
     (\<Union>c\<in>set (parts False cds). chunk_set c) = (\<Union>r\<in>set (boot_memory t). region_set r) -
       region_set (dtb_region m dtb) - (\<Union>r\<in>set (boot_reserved l t). region_set r) \<and>
     sorted_wrt (\<lambda>c c'. chunk_set c \<inter> chunk_set c' = {}) (parts False cds) \<and>
     (\<Union>c\<in>set (parts True cds). chunk_set c) =
       (\<Union>r\<in>set (boot_devices t). region_set r) - (\<Union>r\<in>set (boot_reserved l t). region_set r) \<and>
     (\<forall>x\<in>set cds. chunk_ok (snd x)) \<and>
     length cds \<le> 72 * 2 ^ length (boot_reserved l t) * length (filter (\<lambda>x. r_start (snd x) < r_end (snd x)) (boot_work m dtb t))"

text \<open>The pieces the boot code hands out, computed from the device tree and the reserved regions alone.\<close>

definition boot_pieces :: "layout \<Rightarrow> bytes \<Rightarrow> addr \<Rightarrow> dtree \<Rightarrow> (bool \<times> addr \<times> 16 word) list" where
  "boot_pieces l m dtb t = work_pieces (boot_reserved l t) (boot_work m dtb t)"

lemma setup_memory_chunks:
  assumes "boot_tree_ok l m dtb t"
  shows "boot_chunks l m dtb t (boot_pieces l m dtb t)"
    "mem s = m \<Longrightarrow> setup_memory_capabilities l root dtb (bi, s) = foldm (\<lambda>(d, c). insert_region_cap root d c) (boot_pieces l m dtb t) (bi, s)"
proof -
  note ok = assms [unfolded boot_tree_ok_def]
  let ?D = "dtb_region m dtb" and ?w = "boot_work m dtb t" and ?R = "boot_reserved l t" and ?cds = "boot_pieces l m dtb t"
  have D: "r_start ?D \<le> r_end ?D" and rg: "\<forall>r\<in>set (boot_memory t) \<union> set (boot_devices t). r_start r \<noteq> 0 \<and> unat (r_end r) \<le> 2 ^ 36"
    and rs: "\<forall>r\<in>set ?R. r_start r \<le> r_end r" using ok by blast+
  have w: "\<forall>x\<in>set ?w. (r_start (snd x) < r_end (snd x) \<longrightarrow> r_start (snd x) \<noteq> 0) \<and> unat (r_end (snd x)) \<le> 2 ^ 36"
    using boot_work_good [OF D rg] by blast
  from insert_work_chunks [OF rs w boot_pieces_def, of root] have
    run: "\<forall>b. foldm (\<lambda>(d, r). insert_memory_region_caps root ?R d r) ?w b = foldm (\<lambda>(d, c). insert_region_cap root d c) ?cds b"
    and cov: "\<And>d. (\<Union>c\<in>set (parts d ?cds). chunk_set c) = (\<Union>r\<in>set (parts d ?w). region_set r) - (\<Union>r\<in>set ?R. region_set r)"
    and dis: "sorted_wrt (\<lambda>r r'. region_set r \<inter> region_set r' = {}) (parts False ?w) \<Longrightarrow>
      sorted_wrt (\<lambda>c c'. chunk_set c \<inter> chunk_set c' = {}) (parts False ?cds)"
    and good: "\<forall>x\<in>set ?cds. chunk_ok (snd x)"
      "length ?cds \<le> 72 * 2 ^ length ?R * length (filter (\<lambda>x. r_start (snd x) < r_end (snd x)) ?w)" by blast+
  have sub: "region_set (fst (subtract_region r ?D)) \<union> region_set (snd (subtract_region r ?D)) = region_set r - region_set ?D"
    "region_set (fst (subtract_region r ?D)) \<inter> region_set (snd (subtract_region r ?D)) = {}" for r
    using subtract_region_props [OF D prod.collapse [symmetric]] by blast+
  have one: "length (boot_memory t) \<le> 1" using ok by (simp add: CONFIG_MAX_MEMORY_REGIONS_def)
  have "(\<Union>r\<in>set (parts False ?w). region_set r) = (\<Union>r\<in>set (boot_memory t). region_set r) - region_set ?D"
    unfolding boot_work_parts using sub(1) by auto
  moreover have "sorted_wrt (\<lambda>r r'. region_set r \<inter> region_set r' = {}) (parts False ?w)"
    unfolding boot_work_parts using one sub(2) by (cases "boot_memory t") auto
  ultimately show "boot_chunks l m dtb t ?cds" using cov [of False] cov [of True] dis good
    by (simp add: boot_chunks_def boot_work_parts(1))
  show "setup_memory_capabilities l root dtb (bi, s) = foldm (\<lambda>(d, c). insert_region_cap root d c) ?cds (bi, s)" if "mem s = m"
    using setup_memory_capabilities_work [of s dtb t l root bi] ok run by (simp add: that)
qed

text \<open>
  C15: at boot the root task gets exactly the memory of the machine. Let the device tree be well formed, its
  regions fit in the arrays, none of them start at address 0, end behind the physical address space or, when reserved,
  end before it starts; let \<open>cds\<close> be the pieces of \<^const>\<open>boot_pieces\<close>, which the tree and the reserved regions determine,
  and let the root task have a free slot for each. Then \<^verbatim>\<open>setup_memory_capabilities\<close> ends, the first free slots
  hold the capabilities of the pieces in order afterwards, and no other capability changes. The pieces are naturally aligned; those for
  memory are pairwise disjoint and cover the memory nodes of the tree less the reserved regions (kernel, payload,
  stack and the nodes named mmode_resv) and the device tree itself; those for devices cover the regions of all
  other nodes, up to the end of the page, less the reserved regions.
\<close>

theorem setup_memory_capabilities_exact:
  assumes "fdt_at (mem s) dtb t" "all_nodes reg_ok 2 1 t" "length (boot_reserved l t) \<le> CONFIG_MAX_RESERVED_REGIONS"
    "length (boot_memory t) \<le> CONFIG_MAX_MEMORY_REGIONS" "length (boot_devices t) \<le> CONFIG_MAX_DEVICE_REGIONS"
    "\<forall>r\<in>set (boot_reserved l t). r_start r \<le> r_end r" "r_start (dtb_region (mem s) dtb) \<le> r_end (dtb_region (mem s) dtb)"
    "\<forall>r\<in>set (boot_memory t) \<union> set (boot_devices t). r_start r \<noteq> 0 \<and> unat (r_end r) \<le> 2 ^ 36"
    "cds = boot_pieces l (mem s) dtb t" "free_list s root xs" "alive s root" "length cds \<le> length xs"
  shows "(\<Union>c\<in>set (parts False cds). chunk_set c) = (\<Union>r\<in>set (boot_memory t). region_set r) -
      region_set (dtb_region (mem s) dtb) - (\<Union>r\<in>set (boot_reserved l t). region_set r) \<and>
    sorted_wrt (\<lambda>c c'. chunk_set c \<inter> chunk_set c' = {}) (parts False cds) \<and>
    (\<Union>c\<in>set (parts True cds). chunk_set c) =
      (\<Union>r\<in>set (boot_devices t). region_set r) - (\<Union>r\<in>set (boot_reserved l t). region_set r) \<and>
    (\<forall>x\<in>set cds. chunk_ok (snd x)) \<and>
    (\<exists>bi' s'. setup_memory_capabilities l root dtb (bi, s) = Some (bi', s') \<and> free_list s' root (drop (length cds) xs) \<and>
      (\<forall>i<length cds. cap_at s' (xs ! i) = chunk_cap (fst (cds ! i)) (snd (cds ! i))) \<and>
      (\<forall>z. z \<notin> set (take (length cds) xs) \<longrightarrow> cap_at s' z = cap_at s z))"
proof -
  have "boot_tree_ok l (mem s) dtb t" unfolding boot_tree_ok_def using assms(1-8) by (intro conjI)
  note c = setup_memory_chunks(1) [OF this] and run = setup_memory_chunks(2) [OF this refl, of root bi]
  have "\<forall>x\<in>set cds. chunk_ok (snd x)" using c assms(9) by (simp add: boot_chunks_def)
  from insert_caps_ok [OF this assms(10-12), of bi] have "\<exists>bi' s'. setup_memory_capabilities l root dtb (bi, s) = Some (bi', s') \<and>
      free_list s' root (drop (length cds) xs) \<and> (\<forall>i<length cds. cap_at s' (xs ! i) = chunk_cap (fst (cds ! i)) (snd (cds ! i))) \<and>
      (\<forall>z. z \<notin> set (take (length cds) xs) \<longrightarrow> cap_at s' z = cap_at s z)" unfolding run assms(9) by blast
  with c show ?thesis unfolding assms(9) boot_chunks_def by simp
qed

definition demo_layout :: layout where
  "demo_layout = \<lparr>kernel_start = 0x2000081000, kernel_end = 0x2000082000, payload_start = 0x2000084000,
     payload_end = 0x2000084000, root_task_stack_start = 0x2000084000, root_task_stack_end = 0x2000084000\<rparr>"

lemma demo_regs: "tree_regs 2 1 demo_tree = [(str ''memory'', \<lparr>r_start = 0x80000, r_end = 0x84000\<rparr>)]"
  "all_nodes reg_ok 2 1 demo_tree"
proof -
  have c: "child_address_cells [(str ''#address-cells'', [0, 0, 0, 1]), (str ''#size-cells'', [0, 0, 0, 1])] = 1"
    "child_size_cells [(str ''#address-cells'', [0, 0, 0, 1]), (str ''#size-cells'', [0, 0, 0, 1])] = 1"
    by (simp_all add: child_address_cells_def child_size_cells_def cells_def str_def)
  show "tree_regs 2 1 demo_tree = [(str ''memory'', \<lparr>r_start = 0x80000, r_end = 0x84000\<rparr>)]"
    by (simp add: demo_tree_def demo_memory_node_def c)
      (simp add: node_regs_def base_name_def str_def reg_regions.simps be_number_def)
  show "all_nodes reg_ok 2 1 demo_tree"
    by (simp add: demo_tree_def demo_memory_node_def c reg_ok_def) (simp add: str_def, presburger)
qed

lemma demo_boot_regions:
  "boot_memory demo_tree = [\<lparr>r_start = 0x80000, r_end = 0x84000\<rparr>]" "boot_devices demo_tree = []" "boot_reserved l demo_tree = kernel_regions l"
  "dtb_region demo_fdt 0x2000001000 = \<lparr>r_start = 0x1000, r_end = 0x2000\<rparr>"
proof -
  show "boot_memory demo_tree = [\<lparr>r_start = 0x80000, r_end = 0x84000\<rparr>]" "boot_devices demo_tree = []" "boot_reserved l demo_tree = kernel_regions l"
    by (simp_all add: boot_memory_def boot_devices_def boot_reserved_def demo_regs regs_simps, simp_all add: str_def)
  show "dtb_region demo_fdt 0x2000001000 = \<lparr>r_start = 0x1000, r_end = 0x2000\<rparr>"
    by (simp add: dtb_region_def as_phys_def CONFIG_MAPPED_SPACE_BASE_def CONFIG_KERNEL_SPACE_BASE_def CONFIG_MAX_VIRTUAL_ADDRESS_def fdt_totalsize_def load_u32_def byteswap_def
      demo_fdt_def demo_bytes_def round_up_def)
qed

text \<open>A root task with two free slots on a machine with four pages of memory, of which the kernel has the second.\<close>

lemma demo_boot_state:
  "free_list (demo_free\<lparr>mem := demo_fdt\<rparr>) 0x2000 [0x1040, 0x1068]" "alive (demo_free\<lparr>mem := demo_fdt\<rparr>) 0x2000"
proof -
  let ?s = "demo_free\<lparr>mem := demo_fdt\<rparr>"
  have "chain ?s = chain demo_free" "cap_at ?s = cap_at demo_free" "slot_task ?s = slot_task demo_free"
    by (simp_all add: fun_eq_iff chain_def nxt_def prv_def cap_at_def slot_task_def)
  with demo_free_list demo_free_ok show "free_list ?s 0x2000 [0x1040, 0x1068]" "alive ?s 0x2000"
    by (simp_all add: free_list_def alive_def task_ok_def lock_free_for_def current_tid_def)
qed

lemma demo_kernel_regions:
  "kernel_regions demo_layout = [\<lparr>r_start = 0x81000, r_end = 0x82000\<rparr>, \<lparr>r_start = 0x84000, r_end = 0x84000\<rparr>,
     \<lparr>r_start = 0x84000, r_end = 0x84000\<rparr>]"
  by (simp add: kernel_regions_def demo_layout_def as_phys_def CONFIG_MAPPED_SPACE_BASE_def CONFIG_KERNEL_SPACE_BASE_def CONFIG_MAX_VIRTUAL_ADDRESS_def)

lemma demo_pieces: "boot_pieces demo_layout demo_fdt 0x2000001000 demo_tree = [(False, 0x80000, 12), (False, 0x82000, 13)]"
proof -
  note r = demo_boot_regions
  have "region_blocks \<lparr>r_start = 0x80000, r_end = 0x81000\<rparr> = [(0x80000, 12)]" "region_blocks \<lparr>r_start = 0x82000, r_end = 0x84000\<rparr> = [(0x82000, 13)]"
    by (rule region_blocks_eq; simp)+
  moreover have "region_blocks \<lparr>r_start = 0, r_end = 0\<rparr> = []" by (simp add: region_blocks_def blocks.simps)
  ultimately show ?thesis
    by (simp add: boot_pieces_def work_pieces_def boot_work_def r demo_kernel_regions subtract_region_def)
qed

theorem setup_memory_capabilities_exact_witness:
  "\<forall>bi. \<exists>bi' s'. setup_memory_capabilities demo_layout 0x2000 0x2000001000 (bi, demo_free\<lparr>mem := demo_fdt\<rparr>) = Some (bi', s') \<and>
    free_list s' 0x2000 [] \<and> cap_at s' 0x1040 = chunk_cap False (0x80000, 12) \<and> cap_at s' 0x1068 = chunk_cap False (0x82000, 13)"
proof
  fix bi
  let ?s = "demo_free\<lparr>mem := demo_fdt\<rparr>"
  have f: "fdt_at (mem ?s) 0x2000001000 demo_tree" by (simp add: demo_fdt_at)
  note r = demo_boot_regions(1-3)
  have d: "dtb_region (mem ?s) 0x2000001000 = \<lparr>r_start = 0x1000, r_end = 0x2000\<rparr>" by (simp add: demo_boot_regions(4))
  have h: "length (boot_reserved demo_layout demo_tree) \<le> CONFIG_MAX_RESERVED_REGIONS"
    "length (boot_memory demo_tree) \<le> CONFIG_MAX_MEMORY_REGIONS" "length (boot_devices demo_tree) \<le> CONFIG_MAX_DEVICE_REGIONS"
    "\<forall>r\<in>set (boot_reserved demo_layout demo_tree). r_start r \<le> r_end r"
    "r_start (dtb_region (mem ?s) 0x2000001000) \<le> r_end (dtb_region (mem ?s) 0x2000001000)"
    "\<forall>r\<in>set (boot_memory demo_tree) \<union> set (boot_devices demo_tree). r_start r \<noteq> 0 \<and> unat (r_end r) \<le> 2 ^ 36"
    unfolding r d by (simp_all add: demo_kernel_regions CONFIG_MAX_RESERVED_REGIONS_def CONFIG_MAX_MEMORY_REGIONS_def)
  have p: "[(False, 0x80000, 12), (False, 0x82000, 13)] = boot_pieces demo_layout (mem ?s) 0x2000001000 demo_tree" by (simp add: demo_pieces)
  from setup_memory_capabilities_exact [OF f demo_regs(2) h p demo_boot_state, of bi]
  show "\<exists>bi' s'. setup_memory_capabilities demo_layout 0x2000 0x2000001000 (bi, ?s) = Some (bi', s') \<and>
    free_list s' 0x2000 [] \<and> cap_at s' 0x1040 = chunk_cap False (0x80000, 12) \<and> cap_at s' 0x1068 = chunk_cap False (0x82000, 13)"
    by (auto simp: less_Suc_eq all_conj_distrib)
qed

end
