(* ===== verification/Queues.thy ===== *)
theory Queues
  imports Slots
begin

text \<open>
  The task queues: the ready queue (\<^verbatim>\<open>push_ready_queue\<close>, \<^verbatim>\<open>remove_ready_queue\<close>,
  \<^verbatim>\<open>pop_ready_task\<close> of \<^verbatim>\<open>src/kernel/task.cpp\<close>) and the waiting queues of an endpoint
  (\<^verbatim>\<open>push_waiting_queue\<close>, \<^verbatim>\<open>remove_waiting_queue\<close> of \<^verbatim>\<open>src/kernel/ipc.cpp\<close>). All are
  doubly linked through the task control blocks, with a head and a tail pointer. The
  lemmas show that each is a first-in first-out queue from which any member can be removed.
\<close>

subsection \<open>Interface: queues on linked nodes\<close>

locale queue_links = dlinks nx pv set_nx set_pv
  for nx pv :: "'s \<Rightarrow> addr \<Rightarrow> addr" and set_nx set_pv :: "addr \<Rightarrow> addr \<Rightarrow> 's \<Rightarrow> 's" +
  fixes get_q :: "'s \<Rightarrow> task_queue_t" and set_q :: "task_queue_t \<Rightarrow> 's \<Rightarrow> 's"
  assumes get_set_q: "get_q (set_q q s) = q"
    and nx_set_q: "nx (set_q q s) = nx s" and pv_set_q: "pv (set_q q s) = pv s"
    and get_set_nx: "get_q (set_nx a v s) = get_q s" and get_set_pv: "get_q (set_pv a v s) = get_q s"
begin

lemmas q_simps = link_simps get_set_q nx_set_q pv_set_q get_set_nx get_set_pv

definition isq :: "'s \<Rightarrow> addr list \<Rightarrow> bool" where
  "isq s xs \<longleftrightarrow> on_chain s xs \<and> q_head (get_q s) = hd0 xs 0 \<and> q_tail (get_q s) = last0 0 xs"

definition q_push :: "addr \<Rightarrow> 's \<Rightarrow> 's" where
  "q_push t s = (if q_head (get_q s) = 0 then set_q \<lparr>q_head = t, q_tail = t\<rparr> s
     else let l = q_tail (get_q s) in
       set_q ((get_q s)\<lparr>q_tail := t\<rparr>) (set_pv t l (set_nx l t s)))"

definition q_remove :: "addr \<Rightarrow> 's \<Rightarrow> 's" where
  "q_remove t s =
     (let s1 = (if q_head (get_q s) = t then set_q ((get_q s)\<lparr>q_head := nx s t\<rparr>) s
                else set_nx (pv s t) (nx s t) s);
          s2 = (if q_tail (get_q s1) = t then set_q ((get_q s1)\<lparr>q_tail := pv s1 t\<rparr>) s1
                else set_pv (nx s1 t) (pv s1 t) s1)
      in set_nx t 0 (set_pv t 0 s2))"

lemma isq_head: "isq s xs \<Longrightarrow> q_head (get_q s) = 0 \<longleftrightarrow> xs = []"
  and isq_tail: "isq s xs \<Longrightarrow> q_tail (get_q s) = 0 \<longleftrightarrow> xs = []"
  using hd0_eq_default [of 0 xs] last0_eq_default [of 0 xs] dchain_null [of "nx s" "pv s" xs]
  by (auto simp: isq_def on_chain_def)

lemma isq_push:
  assumes "isq s xs" "on_chain s [t]" "t \<notin> set xs"
  shows "isq (q_push t s) (xs @ [t])"
proof (cases "xs = []")
  case True
  with assms(1,2) isq_head [OF assms(1)] show ?thesis
    by (simp add: q_push_def isq_def on_chain_def q_simps)
next
  case False
  then have l: "last0 0 xs = last xs" by (simp add: last0_def)
  have "dchain ((nx s)(last xs := t)) ((pv s)(t := last xs)) (xs @ [t])"
    using assms False unfolding isq_def on_chain_def by (intro dl_snoc) auto
  with assms(1) False isq_head [OF assms(1)] l show ?thesis
    by (simp add: q_push_def isq_def on_chain_def q_simps hd0_append)
      (cases xs; simp)
qed

lemma isq_neighbours:
  assumes "isq s (as @ t # bs)"
  shows "q_head (get_q s) = t \<longleftrightarrow> as = []" "q_tail (get_q s) = t \<longleftrightarrow> bs = []"
    "pv s t = last0 0 as" "nx s t = hd0 bs 0" "t \<noteq> 0"
    "as \<noteq> [] \<Longrightarrow> pv s t \<noteq> 0 \<and> pv s t \<noteq> t" "bs \<noteq> [] \<Longrightarrow> nx s t \<noteq> 0 \<and> nx s t \<noteq> t"
proof -
  have c: "dchain (nx s) (pv s) (as @ t # bs)" using assms by (simp add: isq_def on_chain_def)
  have d: "distinct (as @ t # bs)" "0 \<notin> set (as @ t # bs)"
    using dchain_distinct [OF c] dchain_null [OF c] by blast+
  show p: "pv s t = last0 0 as" and n: "nx s t = hd0 bs 0" and "t \<noteq> 0"
    using dchain_prev [OF c] dchain_next [OF c] d(2) by auto
  show "q_head (get_q s) = t \<longleftrightarrow> as = []" using assms d(1) by (cases as) (auto simp: isq_def)
  show "q_tail (get_q s) = t \<longleftrightarrow> bs = []"
    using assms d(1) last0_in_set [of bs t] by (cases "bs = []") (auto simp: isq_def)
  show "as \<noteq> [] \<Longrightarrow> pv s t \<noteq> 0 \<and> pv s t \<noteq> t"
    using p d last0_in_set [of as 0] by (metis IntI Un_iff distinct_append empty_iff list.set_intros(1) set_append)
  show "bs \<noteq> [] \<Longrightarrow> nx s t \<noteq> 0 \<and> nx s t \<noteq> t"
    using n d hd0_in_set [of bs 0] by auto
qed

lemma isq_remove:
  assumes "isq s (as @ t # bs)"
  shows "isq (q_remove t s) (as @ bs) \<and> on_chain (q_remove t s) [t]"
proof -
  note nb = isq_neighbours [OF assms]
  have c: "dchain (nx s) (pv s) (as @ t # bs)" using assms by (simp add: isq_def on_chain_def)
  let ?s' = "q_remove t s"
  let ?p = "pv s t" and ?n = "nx s t"
  have ends: "q_head (get_q s) = hd0 (as @ t # bs) 0" "q_tail (get_q s) = last0 t bs"
    using assms by (simp_all add: isq_def)
  have hd: "q_head (get_q s) = t \<longleftrightarrow> ?p = 0" "q_tail (get_q s) = t \<longleftrightarrow> ?n = 0" "?p \<noteq> t" "?n \<noteq> t"
    using nb by auto
  have ln: "nx ?s' = (if ?p \<noteq> 0 then (nx s)(?p := ?n) else nx s)(t := 0)"
    "pv ?s' = (if ?n \<noteq> 0 then (pv s)(?n := ?p) else pv s)(t := 0)"
    using hd by (simp_all add: q_remove_def q_simps)
  have pn: "?p = 0 \<longleftrightarrow> as = []" "?n = 0 \<longleftrightarrow> bs = []" using nb by auto
  have "q_head (get_q ?s') = (if ?p = 0 then ?n else q_head (get_q s))"
    "q_tail (get_q ?s') = (if ?n = 0 then ?p else q_tail (get_q s))"
    using hd by (simp_all add: q_remove_def q_simps)
  then have e: "q_head (get_q ?s') = (if as = [] then hd0 bs 0 else hd0 (as @ t # bs) 0)"
    "q_tail (get_q ?s') = (if bs = [] then last0 0 as else last0 t bs)"
    unfolding pn unfolding nb(3,4) ends by simp_all
  have "q_head (get_q ?s') = hd0 (as @ bs) 0" using e(1) by (cases as) simp_all
  moreover have "q_tail (get_q ?s') = last0 0 (as @ bs)" using e(2) by (cases bs) simp_all
  moreover have "dchain (nx ?s') (pv ?s') (as @ bs)" by (rule dl_erase [OF c ln])
  ultimately show ?thesis using ln nb(5) by (simp add: isq_def on_chain_def)
qed

lemma isq_remove_others:
  assumes "isq s (as @ t # bs)" "u \<notin> set (as @ t # bs)"
  shows "nx (q_remove t s) u = nx s u" "pv (q_remove t s) u = pv s u"
proof -
  note nb = isq_neighbours [OF assms(1)]
  have "as \<noteq> [] \<Longrightarrow> pv s t \<noteq> u" "bs \<noteq> [] \<Longrightarrow> nx s t \<noteq> u"
    using assms(2) nb(3,4) last0_in_set [of as 0] hd0_in_set [of bs 0] by auto
  then show "nx (q_remove t s) u = nx s u" "pv (q_remove t s) u = pv s u"
    using assms(2) nb(1,2,6,7) by (auto simp: q_remove_def q_simps)
qed

end

subsection \<open>Interface: first-in first-out\<close>

text \<open>What the scheduler and message passing rely on.\<close>

locale fifo =
  fixes q :: "'s \<Rightarrow> addr list \<Rightarrow> bool"
    and can_push :: "'s \<Rightarrow> addr \<Rightarrow> bool"
    and push :: "addr \<Rightarrow> 's \<Rightarrow> 's option"
    and pop :: "'s \<Rightarrow> (addr \<times> 's) option"
  assumes push_law: "q s xs \<Longrightarrow> can_push s x \<Longrightarrow> x \<notin> set xs \<Longrightarrow> \<exists>s'. push x s = Some s' \<and> q s' (xs @ [x])"
    and push_keeps: "q s xs \<Longrightarrow> push x s = Some s' \<Longrightarrow> can_push s y \<Longrightarrow> y \<noteq> x \<Longrightarrow> y \<notin> set xs \<Longrightarrow> can_push s' y"
    and pop_law: "q s (x # xs) \<Longrightarrow> \<exists>s'. pop s = Some (x, s') \<and> q s' xs"
begin

primrec pushes :: "addr list \<Rightarrow> 's \<Rightarrow> 's option" where
  "pushes [] s = Some s"
| "pushes (x # xs) s = do { s \<leftarrow> push x s; pushes xs s }"

primrec pops :: "nat \<Rightarrow> 's \<Rightarrow> (addr list \<times> 's) option" where
  "pops 0 s = Some ([], s)"
| "pops (Suc n) s = do { (x, s) \<leftarrow> pop s; (xs, s) \<leftarrow> pops n s; Some (x # xs, s) }"

lemma pushes_law:
  assumes "q s xs" "\<And>y. y \<in> set ys \<Longrightarrow> can_push s y" "distinct ys" "set ys \<inter> set xs = {}"
  shows "\<exists>s'. pushes ys s = Some s' \<and> q s' (xs @ ys)"
  using assms
proof (induction ys arbitrary: s xs)
  case Nil
  then show ?case by simp
next
  case (Cons y ys)
  then obtain s1 where s1: "push y s = Some s1" "q s1 (xs @ [y])"
    using push_law [of s xs y] by auto
  have "can_push s1 z" if "z \<in> set ys" for z
    using push_keeps [OF Cons.prems(1) s1(1)] Cons.prems(2-4) that by auto
  with Cons.IH [OF s1(2)] Cons.prems s1(1) show ?case by auto
qed

lemma pops_law: "q s (xs @ ys) \<Longrightarrow> \<exists>s'. pops (length xs) s = Some (xs, s') \<and> q s' ys"
proof (induction xs arbitrary: s)
  case Nil
  then show ?case by simp
next
  case (Cons x xs)
  then obtain s1 where "pop s = Some (x, s1)" "q s1 (xs @ ys)"
    using pop_law [of s x "xs @ ys"] by auto
  with Cons.IH [of s1] show ?case by auto
qed

lemma pushes_pops:
  assumes "q s xs" "\<And>y. y \<in> set ys \<Longrightarrow> can_push s y" "distinct ys" "set ys \<inter> set xs = {}"
  shows "\<exists>s' s''. pushes ys s = Some s' \<and> pops (length (xs @ ys)) s' = Some (xs @ ys, s'') \<and> q s'' []"
proof -
  obtain s' where "pushes ys s = Some s'" "q s' ((xs @ ys) @ [])" using pushes_law [OF assms] by auto
  with pops_law [of s' "xs @ ys" "[]"] show ?thesis by blast
qed

end

subsection \<open>The ready queue\<close>

definition rnext :: "kstate \<Rightarrow> addr \<Rightarrow> addr" where "rnext s t = t_next_ready_task (tasks s t)"
definition rprev :: "kstate \<Rightarrow> addr \<Rightarrow> addr" where "rprev s t = t_prev_ready_task (tasks s t)"
definition set_rnext :: "addr \<Rightarrow> addr \<Rightarrow> kstate \<Rightarrow> kstate" where
  "set_rnext t v = upd_task t (\<lambda>x. x\<lparr>t_next_ready_task := v\<rparr>)"
definition set_rprev :: "addr \<Rightarrow> addr \<Rightarrow> kstate \<Rightarrow> kstate" where
  "set_rprev t v = upd_task t (\<lambda>x. x\<lparr>t_prev_ready_task := v\<rparr>)"
definition set_ready_queue :: "task_queue_t \<Rightarrow> kstate \<Rightarrow> kstate" where
  "set_ready_queue q s = s\<lparr>ready_queue := q\<rparr>"

definition push_ready_queue :: "addr \<Rightarrow> kstate \<Rightarrow> kstate option" where
  "push_ready_queue task s = do {
     cassert (task \<noteq> 0);
     cassert (t_state (tasks s task) = ready);
     cassert (rprev s task = 0);
     cassert (rnext s task = 0);
     if q_head (ready_queue s) = 0 then Some (set_ready_queue \<lparr>q_head = task, q_tail = task\<rparr> s)
     else do {
       let tail = q_tail (ready_queue s);
       cassert (tail \<noteq> 0);
       Some (set_ready_queue ((ready_queue s)\<lparr>q_tail := task\<rparr>) (set_rprev task tail (set_rnext tail task s)))
     }
   }"

definition remove_ready_queue :: "addr \<Rightarrow> kstate \<Rightarrow> kstate option" where
  "remove_ready_queue task s = do {
     cassert (task \<noteq> 0);
     cassert (t_state (tasks s task) = ready);
     s \<leftarrow> (if q_head (ready_queue s) = task
       then Some (set_ready_queue ((ready_queue s)\<lparr>q_head := rnext s task\<rparr>) s)
       else do { cassert (rprev s task \<noteq> 0); Some (set_rnext (rprev s task) (rnext s task) s) });
     s \<leftarrow> (if q_tail (ready_queue s) = task
       then Some (set_ready_queue ((ready_queue s)\<lparr>q_tail := rprev s task\<rparr>) s)
       else do { cassert (rnext s task \<noteq> 0); Some (set_rprev (rnext s task) (rprev s task) s) });
     Some (set_rnext task 0 (set_rprev task 0 s))
   }"

definition pop_ready_task :: "kstate \<Rightarrow> (addr \<times> kstate) option" where
  "pop_ready_task s = do {
     let task = q_head (ready_queue s);
     if task = 0 then Some (0, s)
     else do { s \<leftarrow> remove_ready_queue task s; Some (task, s) }
   }"

lemma ready_link_simps [simp]:
  "rnext (set_rnext a v s) = (rnext s)(a := v)" "rprev (set_rnext a v s) = rprev s"
  "rnext (set_rprev a v s) = rnext s" "rprev (set_rprev a v s) = (rprev s)(a := v)"
  "rnext (set_ready_queue q s) = rnext s" "rprev (set_ready_queue q s) = rprev s"
  "ready_queue (set_rnext a v s) = ready_queue s" "ready_queue (set_rprev a v s) = ready_queue s"
  "ready_queue (set_ready_queue q s) = q"
  "t_state (tasks (set_rnext a v s) t) = t_state (tasks s t)"
  "t_state (tasks (set_rprev a v s) t) = t_state (tasks s t)"
  "tasks (set_ready_queue q s) = tasks s"
  by (auto simp: rnext_def rprev_def set_rnext_def set_rprev_def set_ready_queue_def)

interpretation rq: queue_links rnext rprev set_rnext set_rprev ready_queue set_ready_queue
  by unfold_locales simp_all

text \<open>A well-formed ready queue: the members are linked and all in the ready state.\<close>

definition ready_q :: "kstate \<Rightarrow> addr list \<Rightarrow> bool" where
  "ready_q s xs \<longleftrightarrow> rq.isq s xs \<and> (\<forall>x\<in>set xs. t_state (tasks s x) = ready)"

definition can_push_ready :: "kstate \<Rightarrow> addr \<Rightarrow> bool" where
  "can_push_ready s t \<longleftrightarrow> t \<noteq> 0 \<and> t_state (tasks s t) = ready \<and> rprev s t = 0 \<and> rnext s t = 0"

lemma q_push_state [simp]: "t_state (tasks (rq.q_push t s) u) = t_state (tasks s u)"
  and q_remove_state [simp]: "t_state (tasks (rq.q_remove t s) u) = t_state (tasks s u)"
  by (simp_all add: rq.q_push_def rq.q_remove_def)

lemma push_ready_queue_eq:
  assumes "ready_q s xs" "can_push_ready s t"
  shows "push_ready_queue t s = Some (rq.q_push t s)"
proof -
  have q: "rq.isq s xs" using assms(1) by (simp add: ready_q_def)
  show ?thesis
    using assms(2) rq.isq_head [OF q] rq.isq_tail [OF q]
    by (auto simp: push_ready_queue_def can_push_ready_def rq.q_push_def)
qed

lemma remove_ready_queue_eq:
  assumes "ready_q s (as @ t # bs)"
  shows "remove_ready_queue t s = Some (rq.q_remove t s)"
proof -
  have q: "rq.isq s (as @ t # bs)" and st: "t_state (tasks s t) = ready"
    using assms by (simp_all add: ready_q_def)
  show ?thesis
    using st rq.isq_neighbours [OF q]
    by (cases "as = []"; cases "bs = []"; simp add: remove_ready_queue_def rq.q_remove_def)
qed

lemma can_push_ready_chain: "can_push_ready s t \<longleftrightarrow> rq.on_chain s [t] \<and> t_state (tasks s t) = ready"
  by (auto simp: can_push_ready_def rq.on_chain_def)

lemma ready_q_push:
  assumes "ready_q s xs" "can_push_ready s t" "t \<notin> set xs"
  shows "push_ready_queue t s = Some (rq.q_push t s)" "ready_q (rq.q_push t s) (xs @ [t])"
  using assms push_ready_queue_eq [OF assms(1,2)] rq.isq_push [of s xs t]
  by (auto simp: ready_q_def can_push_ready_chain)

lemma ready_q_remove:
  assumes "ready_q s (as @ t # bs)"
  shows "remove_ready_queue t s = Some (rq.q_remove t s)" "ready_q (rq.q_remove t s) (as @ bs)"
    "can_push_ready (rq.q_remove t s) t"
  using assms remove_ready_queue_eq [OF assms] rq.isq_remove [of s as t bs]
  by (auto simp: ready_q_def can_push_ready_chain)

lemma q_push_links:
  assumes "rq.isq s xs" "u \<noteq> t" "u \<notin> set xs"
  shows "rprev (rq.q_push t s) u = rprev s u" "rnext (rq.q_push t s) u = rnext s u"
proof -
  have "xs \<noteq> [] \<Longrightarrow> q_tail (ready_queue s) \<noteq> u"
    using assms last0_in_set [of xs 0] by (auto simp: rq.isq_def)
  then show "rprev (rq.q_push t s) u = rprev s u" "rnext (rq.q_push t s) u = rnext s u"
    using assms(2) rq.isq_head [OF assms(1)] by (auto simp: rq.q_push_def)
qed

interpretation rqf: fifo ready_q can_push_ready push_ready_queue pop_ready_task
proof
  fix s xs x
  assume "ready_q s xs" "can_push_ready s x" "x \<notin> set xs"
  then show "\<exists>s'. push_ready_queue x s = Some s' \<and> ready_q s' (xs @ [x])"
    using ready_q_push by blast
next
  fix s xs x s' y
  assume a: "ready_q s xs" "push_ready_queue x s = Some s'" "can_push_ready s y" "y \<noteq> x" "y \<notin> set xs"
  then have "can_push_ready s x"
    by (simp add: push_ready_queue_def can_push_ready_def split: if_splits)
  then have "s' = rq.q_push x s" using push_ready_queue_eq [OF a(1)] a(2) by simp
  then show "can_push_ready s' y"
    using a q_push_links [of s xs y x] by (simp add: ready_q_def can_push_ready_def)
next
  fix s x xs
  assume a: "ready_q s (x # xs)"
  then have "q_head (ready_queue s) = x" "x \<noteq> 0"
    using rq.isq_neighbours(5) [of s "[]" x xs] by (simp_all add: ready_q_def rq.isq_def)
  with ready_q_remove [of s "[]" x xs] a
  show "\<exists>s'. pop_ready_task s = Some (x, s') \<and> ready_q s' xs"
    by (simp add: pop_ready_task_def)
qed

lemma pop_ready_task_empty: "ready_q s [] \<Longrightarrow> pop_ready_task s = Some (0, s)"
  by (simp add: pop_ready_task_def ready_q_def rq.isq_def)

subsection \<open>The waiting queues\<close>

text \<open>The reference \<^verbatim>\<open>task_queue_t&\<close> the operations take: a queue of an endpoint.\<close>

datatype queue_ref = sender_queue_of addr | receiver_queue_of addr

fun get_queue :: "queue_ref \<Rightarrow> kstate \<Rightarrow> task_queue_t" where
  "get_queue (sender_queue_of e) s = ep_sender_queue (endpoints s e)"
| "get_queue (receiver_queue_of e) s = ep_receiver_queue (endpoints s e)"

fun set_queue :: "queue_ref \<Rightarrow> task_queue_t \<Rightarrow> kstate \<Rightarrow> kstate" where
  "set_queue (sender_queue_of e) q s = upd_endpoint e (\<lambda>x. x\<lparr>ep_sender_queue := q\<rparr>) s"
| "set_queue (receiver_queue_of e) q s = upd_endpoint e (\<lambda>x. x\<lparr>ep_receiver_queue := q\<rparr>) s"

definition wnext :: "kstate \<Rightarrow> addr \<Rightarrow> addr" where "wnext s t = t_next_waiting_task (tasks s t)"
definition wprev :: "kstate \<Rightarrow> addr \<Rightarrow> addr" where "wprev s t = t_prev_waiting_task (tasks s t)"
definition set_wnext :: "addr \<Rightarrow> addr \<Rightarrow> kstate \<Rightarrow> kstate" where
  "set_wnext t v = upd_task t (\<lambda>x. x\<lparr>t_next_waiting_task := v\<rparr>)"
definition set_wprev :: "addr \<Rightarrow> addr \<Rightarrow> kstate \<Rightarrow> kstate" where
  "set_wprev t v = upd_task t (\<lambda>x. x\<lparr>t_prev_waiting_task := v\<rparr>)"

definition push_waiting_queue :: "queue_ref \<Rightarrow> addr \<Rightarrow> kstate \<Rightarrow> kstate option" where
  "push_waiting_queue q task s = do {
     cassert (task \<noteq> 0);
     cassert (t_state (tasks s task) = waiting);
     cassert (wprev s task = 0);
     cassert (wnext s task = 0);
     if q_head (get_queue q s) = 0 then Some (set_queue q \<lparr>q_head = task, q_tail = task\<rparr> s)
     else do {
       let tail = q_tail (get_queue q s);
       cassert (tail \<noteq> 0);
       Some (set_queue q ((get_queue q s)\<lparr>q_tail := task\<rparr>) (set_wprev task tail (set_wnext tail task s)))
     }
   }"

definition remove_waiting_queue :: "queue_ref \<Rightarrow> addr \<Rightarrow> kstate \<Rightarrow> kstate option" where
  "remove_waiting_queue q task s = do {
     cassert (task \<noteq> 0);
     cassert (t_state (tasks s task) = waiting);
     s \<leftarrow> (if q_head (get_queue q s) = task
       then Some (set_queue q ((get_queue q s)\<lparr>q_head := wnext s task\<rparr>) s)
       else do { cassert (wprev s task \<noteq> 0); Some (set_wnext (wprev s task) (wnext s task) s) });
     s \<leftarrow> (if q_tail (get_queue q s) = task
       then Some (set_queue q ((get_queue q s)\<lparr>q_tail := wprev s task\<rparr>) s)
       else do { cassert (wnext s task \<noteq> 0); Some (set_wprev (wnext s task) (wprev s task) s) });
     Some (set_wnext task 0 (set_wprev task 0 s))
   }"

lemma get_set_queue [simp]:
  "get_queue r (set_queue r q s) = q" "tasks (set_queue r q s) = tasks s"
  by (cases r; simp)+

lemma get_queue_upd_task [simp]: "get_queue r (upd_task t f s) = get_queue r s"
  by (cases r) simp_all

lemma waiting_link_simps [simp]:
  "wnext (set_wnext a v s) = (wnext s)(a := v)" "wprev (set_wnext a v s) = wprev s"
  "wnext (set_wprev a v s) = wnext s" "wprev (set_wprev a v s) = (wprev s)(a := v)"
  "wnext (set_queue r q s) = wnext s" "wprev (set_queue r q s) = wprev s"
  "get_queue r (set_wnext a v s) = get_queue r s" "get_queue r (set_wprev a v s) = get_queue r s"
  "t_state (tasks (set_wnext a v s) t) = t_state (tasks s t)"
  "t_state (tasks (set_wprev a v s) t) = t_state (tasks s t)"
  by (auto simp: wnext_def wprev_def set_wnext_def set_wprev_def)

interpretation wq: queue_links wnext wprev set_wnext set_wprev "get_queue r" "set_queue r" for r
  by unfold_locales simp_all

definition waiting_q :: "queue_ref \<Rightarrow> kstate \<Rightarrow> addr list \<Rightarrow> bool" where
  "waiting_q r s xs \<longleftrightarrow> wq.isq r s xs \<and> (\<forall>x\<in>set xs. t_state (tasks s x) = waiting)"

definition can_push_waiting :: "kstate \<Rightarrow> addr \<Rightarrow> bool" where
  "can_push_waiting s t \<longleftrightarrow> t \<noteq> 0 \<and> t_state (tasks s t) = waiting \<and> wprev s t = 0 \<and> wnext s t = 0"

text \<open>Serving a waiting queue, as the message passing operations do: take the head and remove it.\<close>

definition pop_waiting :: "queue_ref \<Rightarrow> kstate \<Rightarrow> (addr \<times> kstate) option" where
  "pop_waiting r s = do {
     let task = q_head (get_queue r s);
     if task = 0 then Some (0, s)
     else do { s \<leftarrow> remove_waiting_queue r task s; Some (task, s) }
   }"

lemma wq_push_state [simp]: "t_state (tasks (wq.q_push r t s) u) = t_state (tasks s u)"
  and wq_remove_state [simp]: "t_state (tasks (wq.q_remove r t s) u) = t_state (tasks s u)"
  by (simp_all add: wq.q_push_def wq.q_remove_def)

lemma can_push_waiting_chain:
  "can_push_waiting s t \<longleftrightarrow> wq.on_chain s [t] \<and> t_state (tasks s t) = waiting"
  by (auto simp: can_push_waiting_def wq.on_chain_def)

lemma push_waiting_queue_eq:
  assumes "waiting_q r s xs" "can_push_waiting s t"
  shows "push_waiting_queue r t s = Some (wq.q_push r t s)"
proof -
  have q: "wq.isq r s xs" using assms(1) by (simp add: waiting_q_def)
  show ?thesis
    using assms(2) wq.isq_head [OF q] wq.isq_tail [OF q]
    by (auto simp: push_waiting_queue_def can_push_waiting_def wq.q_push_def)
qed

lemma remove_waiting_queue_eq:
  assumes "waiting_q r s (as @ t # bs)"
  shows "remove_waiting_queue r t s = Some (wq.q_remove r t s)"
proof -
  have q: "wq.isq r s (as @ t # bs)" and st: "t_state (tasks s t) = waiting"
    using assms by (simp_all add: waiting_q_def)
  show ?thesis
    using st wq.isq_neighbours [OF q]
    by (cases "as = []"; cases "bs = []"; simp add: remove_waiting_queue_def wq.q_remove_def)
qed

lemma waiting_q_push:
  assumes "waiting_q r s xs" "can_push_waiting s t" "t \<notin> set xs"
  shows "push_waiting_queue r t s = Some (wq.q_push r t s)" "waiting_q r (wq.q_push r t s) (xs @ [t])"
  using assms push_waiting_queue_eq [OF assms(1,2)] wq.isq_push [of r s xs t]
  by (auto simp: waiting_q_def can_push_waiting_chain)

lemma waiting_q_remove:
  assumes "waiting_q r s (as @ t # bs)"
  shows "remove_waiting_queue r t s = Some (wq.q_remove r t s)"
    "waiting_q r (wq.q_remove r t s) (as @ bs)" "can_push_waiting (wq.q_remove r t s) t"
  using assms remove_waiting_queue_eq [OF assms] wq.isq_remove [of r s as t bs]
  by (auto simp: waiting_q_def can_push_waiting_chain)

lemma wq_push_links:
  assumes "wq.isq r s xs" "u \<noteq> t" "u \<notin> set xs"
  shows "wprev (wq.q_push r t s) u = wprev s u" "wnext (wq.q_push r t s) u = wnext s u"
proof -
  have "xs \<noteq> [] \<Longrightarrow> q_tail (get_queue r s) \<noteq> u"
    using assms last0_in_set [of xs 0] by (auto simp: wq.isq_def)
  then show "wprev (wq.q_push r t s) u = wprev s u" "wnext (wq.q_push r t s) u = wnext s u"
    using assms(2) wq.isq_head [OF assms(1)] by (auto simp: wq.q_push_def)
qed

interpretation wqf: fifo "waiting_q r" can_push_waiting "push_waiting_queue r" "pop_waiting r" for r
proof
  fix s xs x
  assume "waiting_q r s xs" "can_push_waiting s x" "x \<notin> set xs"
  then show "\<exists>s'. push_waiting_queue r x s = Some s' \<and> waiting_q r s' (xs @ [x])"
    using waiting_q_push by blast
next
  fix s xs x s' y
  assume a: "waiting_q r s xs" "push_waiting_queue r x s = Some s'" "can_push_waiting s y" "y \<noteq> x" "y \<notin> set xs"
  then have "can_push_waiting s x"
    by (simp add: push_waiting_queue_def can_push_waiting_def split: if_splits)
  then have "s' = wq.q_push r x s" using push_waiting_queue_eq [OF a(1)] a(2) by simp
  then show "can_push_waiting s' y"
    using a wq_push_links [of r s xs y x] by (simp add: waiting_q_def can_push_waiting_def)
next
  fix s x xs
  assume a: "waiting_q r s (x # xs)"
  then have "q_head (get_queue r s) = x" "x \<noteq> 0"
    using wq.isq_neighbours(5) [of r s "[]" x xs] by (simp_all add: waiting_q_def wq.isq_def)
  with waiting_q_remove [of r s "[]" x xs] a
  show "\<exists>s'. pop_waiting r s = Some (x, s') \<and> waiting_q r s' xs"
    by (simp add: pop_waiting_def)
qed

subsection \<open>Properties\<close>

text \<open>Tasks at 0x2000 and 0x3000, both ready and in no queue.\<close>

definition demo_ready :: kstate where
  "demo_ready = zero_state\<lparr>tasks := (\<lambda>_. zero_task)(0x2000 := zero_task\<lparr>t_state := ready\<rparr>,
     0x3000 := zero_task\<lparr>t_state := ready\<rparr>)\<rparr>"

lemma demo_ready_simps:
  "ready_q demo_ready []" "can_push_ready demo_ready 0x2000" "can_push_ready demo_ready 0x3000"
  by (simp_all add: demo_ready_def ready_q_def rq.isq_def rq.on_chain_def zero_state_def
      zero_object_defs can_push_ready_def rprev_def rnext_def)

text \<open>
  C38: the ready queue is first-in first-out. From any well-formed queue, pushing ready tasks
  that are in no queue and then popping as often as there are members returns the old members
  in order, then the new ones in the order they were pushed, and leaves the queue empty.
\<close>

theorem ready_queue_fifo:
  assumes "ready_q s xs" "\<forall>y\<in>set ys. can_push_ready s y" "distinct ys" "set ys \<inter> set xs = {}"
  shows "\<exists>s' s''. rqf.pushes ys s = Some s' \<and>
    rqf.pops (length (xs @ ys)) s' = Some (xs @ ys, s'') \<and> ready_q s'' []"
  using rqf.pushes_pops [OF assms(1) _ assms(3,4)] assms(2) by blast

theorem ready_queue_fifo_witness:
  "\<exists>s' s''. rqf.pushes [0x3000, 0x2000] demo_ready = Some s' \<and>
    rqf.pops 2 s' = Some ([0x3000, 0x2000], s'') \<and> ready_q s'' []"
proof -
  let ?ys = "[0x3000, 0x2000] :: addr list"
  have "\<forall>y\<in>set ?ys. can_push_ready demo_ready y" "distinct ?ys" "set ?ys \<inter> set [] = {}"
    and l: "length ?ys = 2" using demo_ready_simps by simp_all
  from ready_queue_fifo [OF demo_ready_simps(1) this(1-3)] show ?thesis unfolding append_Nil l .
qed

text \<open>
  Any member of the ready queue can be removed: \<^verbatim>\<open>remove_ready_queue\<close> takes out exactly
  that task, keeps the order of the others, and leaves the task ready to be queued again.
\<close>

theorem remove_ready_queue_removes:
  assumes "ready_q s (as @ t # bs)"
  shows "\<exists>s'. remove_ready_queue t s = Some s' \<and> ready_q s' (as @ bs) \<and> can_push_ready s' t"
  using ready_q_remove [OF assms] by blast

theorem remove_ready_queue_removes_witness:
  "\<exists>s s'. push_ready_queue 0x2000 demo_ready = Some s \<and> remove_ready_queue 0x2000 s = Some s' \<and>
    ready_q s' []"
  using ready_q_push [OF demo_ready_simps(1,2)]
    remove_ready_queue_removes [of "rq.q_push 0x2000 demo_ready" "[]" "0x2000" "[]"]
  by auto

text \<open>
  The sender and receiver queues of an endpoint serve waiting tasks in the order of
  arrival.
\<close>

theorem waiting_queue_fifo:
  assumes "waiting_q r s xs" "\<forall>y\<in>set ys. can_push_waiting s y" "distinct ys" "set ys \<inter> set xs = {}"
  shows "\<exists>s' s''. wqf.pushes r ys s = Some s' \<and>
    wqf.pops r (length (xs @ ys)) s' = Some (xs @ ys, s'') \<and> waiting_q r s'' []"
  using wqf.pushes_pops [OF assms(1) _ assms(3,4)] assms(2) by blast

theorem waiting_queue_fifo_witness:
  "\<exists>s' s''. wqf.pushes (sender_queue_of 0x40) [0x2000, 0x3000]
       (demo_ready\<lparr>tasks := (\<lambda>_. zero_task\<lparr>t_state := waiting\<rparr>)\<rparr>) = Some s' \<and>
    wqf.pops (sender_queue_of 0x40) 2 s' = Some ([0x2000, 0x3000], s'')"
proof -
  let ?s = "demo_ready\<lparr>tasks := (\<lambda>_. zero_task\<lparr>t_state := waiting\<rparr>)\<rparr>"
  let ?ys = "[0x2000, 0x3000] :: addr list"
  have "waiting_q (sender_queue_of 0x40) ?s []" "\<forall>y\<in>set ?ys. can_push_waiting ?s y"
    "distinct ?ys" "set ?ys \<inter> set [] = {}" and l: "length ?ys = 2"
    by (simp_all add: demo_ready_def waiting_q_def wq.isq_def wq.on_chain_def zero_state_def
        zero_object_defs can_push_waiting_def wprev_def wnext_def)
  from waiting_queue_fifo [OF this(1-4)] show ?thesis unfolding append_Nil l by blast
qed

end
