(* ===== verification/Sched.thy ===== *)
theory Sched
  imports Queues
begin

text \<open>
  Scheduling (\<^verbatim>\<open>switch_task\<close>, \<^verbatim>\<open>suspend_task\<close>, \<^verbatim>\<open>resume_task\<close>, \<^verbatim>\<open>set_kill_notify\<close>, \<^verbatim>\<open>resched\<close>,
  \<^verbatim>\<open>yield\<close> and \<^verbatim>\<open>idle\<close> of \<^verbatim>\<open>src/kernel/task.cpp\<close>). An operation that may switch the context is a
  resumption: it hands over a state and continues when its task runs again. The lemmas show
  who runs next and in which order, and which locks are held across a switch.

  \<^verbatim>\<open>switch_context(new, old)\<close> saves the registers in \<open>old\<close> and loads those of \<open>new\<close>; every caller has made
  the owner of \<open>new\<close> the current task before, so the handed-over state says who carries on.
\<close>

subsection \<open>Locks held across a switch\<close>

definition lock_task :: "addr \<Rightarrow> kstate \<Rightarrow> kstate option" where
  "lock_task t s = do {
     cassert (t \<noteq> 0);
     l \<leftarrow> rlock (current_tid s) (t_lock (tasks s t));
     Some (upd_task t (\<lambda>x. x\<lparr>t_lock := l\<rparr>) s)
   }"

definition unlock_task :: "addr \<Rightarrow> kstate \<Rightarrow> kstate option" where
  "unlock_task t s = do {
     l \<leftarrow> runlock (current_tid s) (t_lock (tasks s t));
     Some (upd_task t (\<lambda>x. x\<lparr>t_lock := l\<rparr>) s)
   }"

definition lock_endpoint :: "addr \<Rightarrow> kstate \<Rightarrow> kstate option" where
  "lock_endpoint e s = do {
     cassert (e \<noteq> 0);
     l \<leftarrow> rlock (current_tid s) (ep_lock (endpoints s e));
     Some (upd_endpoint e (\<lambda>x. x\<lparr>ep_lock := l\<rparr>) s)
   }"

definition unlock_endpoint :: "addr \<Rightarrow> kstate \<Rightarrow> kstate option" where
  "unlock_endpoint e s = do {
     l \<leftarrow> runlock (current_tid s) (ep_lock (endpoints s e));
     Some (upd_endpoint e (\<lambda>x. x\<lparr>ep_lock := l\<rparr>) s)
   }"

definition set_state :: "addr \<Rightarrow> task_state_t \<Rightarrow> kstate \<Rightarrow> kstate" where
  "set_state t v s = upd_task t (\<lambda>x. x\<lparr>t_state := v\<rparr>) s"

definition set_current :: "addr \<Rightarrow> kstate \<Rightarrow> kstate" where
  "set_current t s = s\<lparr>current_task := t\<rparr>"

subsection \<open>Operations\<close>

definition switch_context :: "addr \<Rightarrow> kstate \<Rightarrow> unit run" where
  "switch_context old s = Switch (upd_task old (\<lambda>x. x\<lparr>t_context := saved_context\<rparr>) s) (\<lambda>s. Done () s)"

definition resched :: "kstate \<Rightarrow> unit run" where
  "resched s = switch_context (current_task s) (set_current (idle_task s) s)"

definition yield :: "kstate \<Rightarrow> unit run" where
  "yield s =
     rbind (lift_state (do {
         let cur_task = current_task s;
         guard_task cur_task s;
         push_ready_queue cur_task (set_state cur_task ready s)
       }))
       (\<lambda>_ s. resched s)"

definition switch_task :: "addr \<Rightarrow> kstate \<Rightarrow> unit run" where
  "switch_task task s =
     rassert (task \<noteq> 0 \<and> t_state (tasks s task) = ready)
       (let old_task = current_task s in
        if task = old_task then Done () s
        else rbind (lift_state (push_ready_queue old_task
            (set_state old_task ready (set_current task (set_state task running s)))))
          (\<lambda>_ s. rbind (switch_context old_task s)
            (\<lambda>_ s. rassert (t_state (tasks s old_task) = running)
              (rassert (current_task s = old_task) (Done () s)))))"

definition suspend_task :: "addr \<Rightarrow> kstate \<Rightarrow> unit run" where
  "suspend_task task s =
     rbind (lift_state (lock_task task s)) (\<lambda>_ s.
     rbind (case t_state (tasks s task) of
         running \<Rightarrow> (let s = set_state task suspended s in
           if task = current_task s then resched s else Done () s)
       | ready \<Rightarrow> rbind (lift_state (remove_ready_queue task s)) (\<lambda>_ s. Done () (set_state task suspended s))
       | waiting \<Rightarrow> Done () (set_state task suspended s)
       | _ \<Rightarrow> Done () s) (\<lambda>_ s.
     lift_state (unlock_task task s)))"

definition resume_task :: "addr \<Rightarrow> kstate \<Rightarrow> kstate option" where
  "resume_task task s = do {
     guard_task task s;
     if t_state (tasks s task) \<noteq> suspended then Some s
     else push_ready_queue task (set_state task ready s)
   }"

definition set_kill_notify :: "addr \<Rightarrow> addr \<Rightarrow> kstate \<Rightarrow> kstate option" where
  "set_kill_notify task ep s = do {
     cassert (task \<noteq> 0);
     cassert (ep \<noteq> 0);
     guard_task task s;
     if t_state (tasks s task) = unused then Some (s\<lparr>errno := SYS_E_ILL_STATE\<rparr>)
     else Some (upd_task task (\<lambda>x. x\<lparr>t_kill_notify := ep\<rparr>) s)
   }"

text \<open>One round of the endless loop of \<^verbatim>\<open>idle\<close>.\<close>

definition idle_round :: "kstate \<Rightarrow> unit run" where
  "idle_round s =
     rbind (lift_run (pop_ready_task s)) (\<lambda>task s.
       if task = 0 then Done () s
       else switch_context (idle_task s) (set_state task running (set_current task s)))"

subsection \<open>Frames\<close>

lemma set_state_simps [simp]:
  "t_state (tasks (set_state t v s) u) = (if u = t then v else t_state (tasks s u))"
  "rnext (set_state t v s) = rnext s" "rprev (set_state t v s) = rprev s"
  "ready_queue (set_state t v s) = ready_queue s" "current_task (set_state t v s) = current_task s"
  "idle_task (set_state t v s) = idle_task s" "current_tid (set_state t v s) = current_tid s"
  "lock_free_for (set_state t v s) = lock_free_for s" "t_tid (tasks (set_state t v s) u) = t_tid (tasks s u)"
  "t_lock (tasks (set_state t v s) u) = t_lock (tasks s u)"
  by (auto simp: set_state_def rnext_def rprev_def current_tid_def lock_free_for_def fun_eq_iff)

lemma set_current_simps [simp]:
  "tasks (set_current t s) = tasks s" "ready_queue (set_current t s) = ready_queue s"
  "current_task (set_current t s) = t" "idle_task (set_current t s) = idle_task s"
  "rnext (set_current t s) = rnext s" "rprev (set_current t s) = rprev s"
  by (auto simp: set_current_def rnext_def rprev_def)

lemma save_context_simps [simp]:
  "rnext (upd_task t (\<lambda>x. x\<lparr>t_context := c\<rparr>) s) = rnext s"
  "rprev (upd_task t (\<lambda>x. x\<lparr>t_context := c\<rparr>) s) = rprev s"
  "t_state (tasks (upd_task t (\<lambda>x. x\<lparr>t_context := c\<rparr>) s) u) = t_state (tasks s u)"
  by (auto simp: rnext_def rprev_def)

lemma set_lock_simps [simp]:
  "rnext (upd_task t (\<lambda>x. x\<lparr>t_lock := l\<rparr>) s) = rnext s"
  "rprev (upd_task t (\<lambda>x. x\<lparr>t_lock := l\<rparr>) s) = rprev s"
  by (auto simp: rnext_def rprev_def)

lemma ready_q_cong:
  assumes "rnext s' = rnext s" "rprev s' = rprev s" "ready_queue s' = ready_queue s"
    "\<And>x. x \<in> set xs \<Longrightarrow> t_state (tasks s' x) = t_state (tasks s x)"
  shows "ready_q s' xs = ready_q s xs"
  using assms by (simp add: ready_q_def rq.isq_def rq.on_chain_def)

lemma ready_q_state: "ready_q s xs \<Longrightarrow> x \<in> set xs \<Longrightarrow> t_state (tasks s x) = ready"
  by (simp add: ready_q_def)

lemma queue_frame [simp]:
  "current_task (rq.q_push t s) = current_task s" "idle_task (rq.q_push t s) = idle_task s"
  "current_task (rq.q_remove t s) = current_task s" "idle_task (rq.q_remove t s) = idle_task s"
  by (simp_all add: rq.q_push_def rq.q_remove_def set_rnext_def set_rprev_def set_ready_queue_def)

lemma queue_lock_frame [simp]:
  "t_lock (tasks (rq.q_push t s) u) = t_lock (tasks s u)" "t_tid (tasks (rq.q_push t s) u) = t_tid (tasks s u)"
  "t_lock (tasks (rq.q_remove t s) u) = t_lock (tasks s u)" "t_tid (tasks (rq.q_remove t s) u) = t_tid (tasks s u)"
  by (simp_all add: rq.q_push_def rq.q_remove_def set_rnext_def set_rprev_def set_ready_queue_def)

subsection \<open>Switching\<close>

text \<open>A task that runs, or is about to, is linked in no ready queue.\<close>

definition off_queue :: "kstate \<Rightarrow> addr \<Rightarrow> addr list \<Rightarrow> bool" where
  "off_queue s t xs \<longleftrightarrow> t \<noteq> 0 \<and> rprev s t = 0 \<and> rnext s t = 0 \<and> t \<notin> set xs"

lemma push_off_queue:
  assumes "ready_q s xs" "off_queue s t xs"
  shows "push_ready_queue t (set_state t ready s) = Some (rq.q_push t (set_state t ready s))"
    "ready_q (rq.q_push t (set_state t ready s)) (xs @ [t])"
proof -
  have q: "ready_q (set_state t ready s) xs"
    using assms by (subst ready_q_cong [of _ s]) (auto simp: off_queue_def)
  have "can_push_ready (set_state t ready s) t" "t \<notin> set xs"
    using assms(2) by (simp_all add: can_push_ready_def off_queue_def)
  from ready_q_push [OF q this]
  show "push_ready_queue t (set_state t ready s) = Some (rq.q_push t (set_state t ready s))"
    "ready_q (rq.q_push t (set_state t ready s)) (xs @ [t])" .
qed

definition switched :: "addr \<Rightarrow> addr \<Rightarrow> kstate \<Rightarrow> kstate" where
  "switched task old s = upd_task old (\<lambda>x. x\<lparr>t_context := saved_context\<rparr>)
     (rq.q_push old (set_state old ready (set_current task (set_state task running s))))"

lemma switch_task_state:
  assumes "ready_q s xs" "off_queue s (current_task s) xs" "task \<noteq> current_task s" "task \<noteq> 0"
    "task \<notin> set xs" "t_state (tasks s task) = ready"
  shows "switch_task task s = Switch (switched task (current_task s) s)
      (\<lambda>s''. if t_state (tasks s'' (current_task s)) = running \<and> current_task s'' = current_task s
       then Done () s'' else Stop)" (is ?eq)
    "ready_q (switched task (current_task s) s) (xs @ [current_task s])" (is ?q)
proof -
  let ?c = "current_task s" let ?s1 = "set_current task (set_state task running s)"
  have q1: "ready_q ?s1 xs" using assms(1,5) by (subst ready_q_cong [of _ s]) auto
  have "off_queue ?s1 ?c xs" using assms(2) by (simp add: off_queue_def)
  note p = push_off_queue [OF q1 this]
  show ?eq using assms(3,4,6) p(1) by (simp add: switch_task_def switch_context_def switched_def rassert_def fun_eq_iff)
  show ?q unfolding switched_def using p(2)
    by (subst ready_q_cong [of _ "rq.q_push ?c (set_state ?c ready ?s1)"]) simp_all
qed

lemma queue_heap_frame [simp]:
  "tables (rq.q_push t s) = tables s" "mem (rq.q_push t s) = mem s" "endpoints (rq.q_push t s) = endpoints s"
  "t_root_page_table (tasks (rq.q_push t s) u) = t_root_page_table (tasks s u)"
  "t_ipc_state (tasks (rq.q_push t s) u) = t_ipc_state (tasks s u)"
  "t_endpoint (tasks (rq.q_push t s) u) = t_endpoint (tasks s u)"
  "t_next_waiting_task (tasks (rq.q_push t s) u) = t_next_waiting_task (tasks s u)"
  "t_prev_waiting_task (tasks (rq.q_push t s) u) = t_prev_waiting_task (tasks s u)"
  by (simp_all add: rq.q_push_def set_rnext_def set_rprev_def set_ready_queue_def)

lemma waiting_frame:
  assumes "\<And>u. t_next_waiting_task (tasks s' u) = t_next_waiting_task (tasks s u)"
    "\<And>u. t_prev_waiting_task (tasks s' u) = t_prev_waiting_task (tasks s u)"
  shows "wnext s' = wnext s" "wprev s' = wprev s"
  using assms by (simp_all add: wnext_def wprev_def fun_eq_iff)

lemma get_queue_cong: "endpoints s' = endpoints s \<Longrightarrow> get_queue q s' = get_queue q s"
  by (cases q) simp_all

lemma queue_waiting_frame [simp]:
  "wnext (rq.q_push t s) = wnext s" "wprev (rq.q_push t s) = wprev s" "get_queue q (rq.q_push t s) = get_queue q s"
  by (rule waiting_frame, simp_all)+ (rule get_queue_cong, simp)

lemma switched_simps [simp]:
  "current_task (switched t c s) = t" "tables (switched t c s) = tables s" "mem (switched t c s) = mem s"
  "endpoints (switched t c s) = endpoints s" "idle_task (switched t c s) = idle_task s"
  "t_state (tasks (switched t c s) u) = (if u = c then ready else if u = t then running else t_state (tasks s u))"
  "t_root_page_table (tasks (switched t c s) u) = t_root_page_table (tasks s u)"
  "t_ipc_state (tasks (switched t c s) u) = t_ipc_state (tasks s u)"
  "t_endpoint (tasks (switched t c s) u) = t_endpoint (tasks s u)"
  "t_lock (tasks (switched t c s) u) = t_lock (tasks s u)" "t_tid (tasks (switched t c s) u) = t_tid (tasks s u)"
  "t_next_waiting_task (tasks (switched t c s) u) = t_next_waiting_task (tasks s u)"
  "t_prev_waiting_task (tasks (switched t c s) u) = t_prev_waiting_task (tasks s u)"
  by (simp_all add: switched_def) (simp_all add: set_state_def set_current_def)

lemma switched_waiting [simp]:
  "wnext (switched t c s) = wnext s" "wprev (switched t c s) = wprev s" "get_queue q (switched t c s) = get_queue q s"
  by (rule waiting_frame, simp_all)+ (rule get_queue_cong, simp)

text \<open>
  C23: \<^verbatim>\<open>switch_task\<close> hands the processor over. The state it leaves in has the given task
  current and running and the old task, now ready, last in the ready queue; the call returns in exactly
  those states in which the old task is running and current again.
\<close>

theorem switch_task_hands_over:
  assumes "ready_q s xs" "off_queue s (current_task s) xs" "task \<noteq> current_task s" "task \<noteq> 0"
    "task \<notin> set xs" "t_state (tasks s task) = ready"
  shows "\<exists>s' k. switch_task task s = Switch s' k \<and> current_task s' = task \<and>
    t_state (tasks s' task) = running \<and> t_state (tasks s' (current_task s)) = ready \<and>
    ready_q s' (xs @ [current_task s]) \<and>
    (\<forall>s''. k s'' = (if t_state (tasks s'' (current_task s)) = running \<and> current_task s'' = current_task s
       then Done () s'' else Stop))"
  using switch_task_state [OF assms] assms(3) by simp

subsection \<open>Round robin\<close>

text \<open>
  The current task and the ready queue behind it, all of them with free locks, and the idle
  task apart from them.
\<close>

definition sched_ok :: "kstate \<Rightarrow> addr list \<Rightarrow> bool" where
  "sched_ok s ts \<longleftrightarrow> ts \<noteq> [] \<and> current_task s = hd ts \<and> t_state (tasks s (hd ts)) = running \<and>
     ready_q s (tl ts) \<and> rprev s (hd ts) = 0 \<and> rnext s (hd ts) = 0 \<and> distinct ts \<and> 0 \<notin> set ts \<and>
     idle_task s \<notin> set ts \<and> (\<forall>t\<in>set ts. t_lock (tasks s t) = free_lock \<and> t_tid (tasks s t) \<noteq> 0)"

text \<open>The running task yields and the idle task picks the next one.\<close>

definition turn :: "kstate \<Rightarrow> kstate option" where
  "turn s = (case yield s of
       Switch s1 _ \<Rightarrow> (case idle_round s1 of Switch s2 _ \<Rightarrow> Some s2 | _ \<Rightarrow> None)
     | _ \<Rightarrow> None)"

primrec turns :: "nat \<Rightarrow> kstate \<Rightarrow> kstate option" where
  "turns 0 s = Some s"
| "turns (Suc n) s = do { s \<leftarrow> turns n s; turn s }"

lemma idle_round_picks:
  assumes "ready_q s (x # xs)"
  shows "idle_round s = Switch (upd_task (idle_task s) (\<lambda>t. t\<lparr>t_context := saved_context\<rparr>)
      (set_state x running (set_current x (rq.q_remove x s)))) (\<lambda>s. Done () s)"
    "ready_q (rq.q_remove x s) xs" "rprev (rq.q_remove x s) x = 0" "rnext (rq.q_remove x s) x = 0" "x \<noteq> 0"
proof -
  have x: "q_head (ready_queue s) = x" "x \<noteq> 0"
    using assms rq.isq_neighbours(5) [of s "[]" x xs] by (simp_all add: ready_q_def rq.isq_def)
  note r = ready_q_remove [of s "[]" x xs, simplified, OF assms]
  show "idle_round s = Switch (upd_task (idle_task s) (\<lambda>t. t\<lparr>t_context := saved_context\<rparr>)
      (set_state x running (set_current x (rq.q_remove x s)))) (\<lambda>s. Done () s)"
    using x r(1) by (simp add: idle_round_def pop_ready_task_def switch_context_def)
  show "ready_q (rq.q_remove x s) xs" "rprev (rq.q_remove x s) x = 0" "rnext (rq.q_remove x s) x = 0" "x \<noteq> 0"
    using r x by (simp_all add: can_push_ready_def)
qed

lemma sched_ok_turn:
  assumes "sched_ok s (c # xs)"
  obtains s' where "turn s = Some s'" "sched_ok s' (xs @ [c])" "idle_task s' = idle_task s"
proof -
  have h: "current_task s = c" "ready_q s xs" "off_queue s c xs" "distinct (c # xs)" "0 \<notin> set (c # xs)"
    "idle_task s \<notin> set (c # xs)" "\<forall>t\<in>set (c # xs). t_lock (tasks s t) = free_lock \<and> t_tid (tasks s t) \<noteq> 0"
    using assms by (auto simp: sched_ok_def off_queue_def)
  have free: "lock_free_for s c" using h(1,7) by (simp add: lock_free_for_def current_tid_def)
  note p = push_off_queue [OF h(2,3)]
  let ?s1 = "rq.q_push c (set_state c ready s)"
  let ?s2 = "upd_task c (\<lambda>x. x\<lparr>t_context := saved_context\<rparr>) (set_current (idle_task s) ?s1)"
  have y: "yield s = Switch ?s2 (\<lambda>s. Done () s)"
    using h(1,5) free p(1) by (simp add: yield_def resched_def switch_context_def)
  have q2: "ready_q ?s2 (xs @ [c])" using p(2) by (subst ready_q_cong [of _ ?s1]) simp_all
  obtain x ys where xy: "xs @ [c] = x # ys" by (cases "xs @ [c]") auto
  note i = idle_round_picks [OF q2 [unfolded xy]]
  let ?s3 = "rq.q_remove x ?s2"
  let ?s' = "upd_task (idle_task s) (\<lambda>t. t\<lparr>t_context := saved_context\<rparr>) (set_state x running (set_current x ?s3))"
  have it: "idle_task ?s2 = idle_task s" by simp
  have t: "turn s = Some ?s'" unfolding turn_def y run.case i(1) it ..
  have m: "set (xs @ [c]) = set (c # xs)" "distinct (x # ys)" unfolding xy [symmetric] using h(4) by auto
  have x: "x \<notin> set ys" using m(2) by simp
  have "ready_q ?s' ys" using i(2) x by (subst ready_q_cong [of _ ?s3]) auto
  moreover have "\<forall>t\<in>set (x # ys). t_lock (tasks ?s' t) = free_lock \<and> t_tid (tasks ?s' t) \<noteq> 0"
    unfolding xy [symmetric] m(1) using h(7) by auto
  moreover have "0 \<notin> set (x # ys)" "idle_task s \<notin> set (x # ys)" unfolding xy [symmetric] m(1) by (fact h)+
  ultimately have "sched_ok ?s' (x # ys)" using i(3,4) m(2) by (simp add: sched_ok_def)
  with t show ?thesis by (intro that [of ?s']) (simp_all add: xy)
qed

text \<open>
  C22: the scheduler is round robin. When the current task and every task after it yields in its
  turn, the idle task picks the tasks in the order of the ready queue: after \<open>n\<close> turns the current task
  and the queue are the original list rotated \<open>n\<close> times, so each of the tasks runs again within
  as many turns as there are tasks.
\<close>

theorem yield_round_robin:
  assumes "sched_ok s ts"
  shows "\<exists>s'. turns n s = Some s' \<and> sched_ok s' (rotate n ts) \<and> current_task s' = hd (rotate n ts)"
proof (induction n)
  case 0
  show ?case using assms by (simp add: sched_ok_def)
next
  case (Suc n)
  then obtain s' where s': "turns n s = Some s'" "sched_ok s' (rotate n ts)" by blast
  then obtain c xs where r: "rotate n ts = c # xs" by (cases "rotate n ts") (auto simp: sched_ok_def)
  from sched_ok_turn [OF s'(2) [unfolded r]]
  obtain s'' where s'': "turn s' = Some s''" "sched_ok s'' (xs @ [c])" "idle_task s'' = idle_task s'" .
  have "rotate (Suc n) ts = xs @ [c]" using r by (simp add: rotate_Suc)
  with s' s'' show ?case by (simp add: sched_ok_def)
qed

text \<open>Three tasks, the first of them running, and an idle task.\<close>

definition demo_sched :: kstate where
  "demo_sched = zero_state\<lparr>
     tasks := (\<lambda>_. zero_task)(0x2000 := zero_task\<lparr>t_tid := 1, t_state := running\<rparr>,
       0x3000 := zero_task\<lparr>t_tid := 2, t_state := ready, t_next_ready_task := 0x4000\<rparr>,
       0x4000 := zero_task\<lparr>t_tid := 3, t_state := ready, t_prev_ready_task := 0x3000\<rparr>,
       0x5000 := zero_task\<lparr>t_tid := 4, t_state := ready\<rparr>),
     ready_queue := \<lparr>q_head = 0x3000, q_tail = 0x4000\<rparr>, current_task := 0x2000, idle_task := 0x1000\<rparr>"

lemma demo_sched_simps [simp]:
  "rnext demo_sched = (\<lambda>_. 0)(0x3000 := 0x4000)" "rprev demo_sched = (\<lambda>_. 0)(0x4000 := 0x3000)"
  "current_task demo_sched = 0x2000" "idle_task demo_sched = 0x1000"
  "ready_queue demo_sched = \<lparr>q_head = 0x3000, q_tail = 0x4000\<rparr>"
  "t_state (tasks demo_sched 0x2000) = running" "t_state (tasks demo_sched 0x3000) = ready"
  "t_state (tasks demo_sched 0x4000) = ready" "t_state (tasks demo_sched 0x5000) = ready"
  "t_tid (tasks demo_sched 0x2000) = 1" "t_tid (tasks demo_sched 0x3000) = 2" "t_tid (tasks demo_sched 0x4000) = 3"
  "t_lock (tasks demo_sched t) = free_lock"
  by (auto simp: demo_sched_def rnext_def rprev_def zero_task_def fun_eq_iff)

lemma demo_sched_q: "ready_q demo_sched [0x3000, 0x4000]"
  by (simp add: ready_q_def rq.isq_def rq.on_chain_def dchain_def)

theorem switch_task_hands_over_witness:
  "\<exists>s' k. switch_task 0x5000 demo_sched = Switch s' k \<and> current_task s' = 0x5000 \<and>
    ready_q s' [0x3000, 0x4000, 0x2000]"
  using switch_task_hands_over [OF demo_sched_q, of "0x5000"] by (auto simp: off_queue_def)

theorem yield_round_robin_witness:
  "\<exists>s'. turns 4 demo_sched = Some s' \<and> sched_ok s' [0x3000, 0x4000, 0x2000] \<and> current_task s' = 0x3000"
proof -
  have "sched_ok demo_sched [0x2000, 0x3000, 0x4000]" using demo_sched_q by (simp add: sched_ok_def)
  moreover have "rotate 4 [0x2000, 0x3000, 0x4000 :: addr] = [0x3000, 0x4000, 0x2000]"
    by (simp add: eval_nat_numeral)
  ultimately show ?thesis using yield_round_robin [of demo_sched "[0x2000, 0x3000, 0x4000]" 4] by simp
qed

subsection \<open>Suspending and resuming\<close>

lemma lock_unlock_task:
  assumes "t \<noteq> 0" "t_lock (tasks s t) = free_lock" "current_tid s \<noteq> 0"
  shows "\<exists>l. rlock (current_tid s) free_lock = Some l \<and> rl_owner l = current_tid s \<and> rl_state l \<and>
    runlock (current_tid s) l = Some free_lock \<and> lock_task t s = Some (upd_task t (\<lambda>x. x\<lparr>t_lock := l\<rparr>) s)"
  using assms by (simp add: rlock_def runlock_def lock_task_def free_lock_def)

text \<open>
  A task that suspends itself can not be resumed. \<^verbatim>\<open>suspend_task\<close> on the current task switches
  away inside the scope of its \<^verbatim>\<open>lock_guard\<close>, so the state it hands over has the lock owned by the
  suspended task; \<^verbatim>\<open>resume_task\<close> by a task with another id then spins on that lock forever.
\<close>

theorem suspend_self_blocks_resume:
  assumes "current_task s = t" "t \<noteq> 0" "t_state (tasks s t) = running" "t_lock (tasks s t) = free_lock"
    "t_tid (tasks s t) \<noteq> 0"
  shows "\<exists>s' k. suspend_task t s = Switch s' k \<and> current_task s' = idle_task s \<and>
    t_state (tasks s' t) = suspended \<and> rl_owner (t_lock (tasks s' t)) = t_tid (tasks s t) \<and>
    (\<forall>s''. t_lock (tasks s'' t) = t_lock (tasks s' t) \<and> current_tid s'' \<noteq> t_tid (tasks s t) \<longrightarrow>
       resume_task t s'' = None)"
proof -
  have tid: "current_tid s = t_tid (tasks s t)" using assms(1) by (simp add: current_tid_def)
  obtain l where l: "rl_owner l = t_tid (tasks s t)" "rl_state l"
      "lock_task t s = Some (upd_task t (\<lambda>x. x\<lparr>t_lock := l\<rparr>) s)"
    using lock_unlock_task [of t s] assms tid by auto
  let ?s1 = "set_state t suspended (upd_task t (\<lambda>x. x\<lparr>t_lock := l\<rparr>) s)"
  let ?s' = "upd_task t (\<lambda>x. x\<lparr>t_context := saved_context\<rparr>) (set_current (idle_task s) ?s1)"
  have "suspend_task t s = Switch ?s' (\<lambda>s. lift_state (unlock_task t s))"
    using assms l(3) by (simp add: suspend_task_def resched_def switch_context_def)
  moreover have "resume_task t s'' = None"
    if "t_lock (tasks s'' t) = t_lock (tasks ?s' t)" "current_tid s'' \<noteq> t_tid (tasks s t)" for s''
    using that l(1,2) by (simp add: resume_task_def lock_free_for_def rlock_def)
  ultimately show ?thesis using l(1) by (intro exI [of _ ?s'] exI) (auto simp: set_state_def)
qed

theorem suspend_self_blocks_resume_witness:
  "\<exists>s' k. suspend_task 0x2000 demo_sched = Switch s' k \<and> t_state (tasks s' 0x2000) = suspended \<and>
    resume_task 0x2000 (s'\<lparr>current_task := 0x3000, tasks := (tasks s')(0x3000 := zero_task\<lparr>t_tid := 2\<rparr>)\<rparr>) = None"
proof -
  from suspend_self_blocks_resume [of demo_sched "0x2000"] obtain s' k where
    "suspend_task 0x2000 demo_sched = Switch s' k" "t_state (tasks s' 0x2000) = suspended"
    "\<forall>s''. t_lock (tasks s'' 0x2000) = t_lock (tasks s' 0x2000) \<and> current_tid s'' \<noteq> 1 \<longrightarrow> resume_task 0x2000 s'' = None"
    by auto
  then show ?thesis by (intro exI [of _ s'] exI [of _ k]) (simp add: current_tid_def)
qed

end
