(* ===== verification/User_Memory.thy ===== *)
theory User_Memory
  imports Cap_Space
begin

text \<open>
  Access to the memory of user tasks (\<^verbatim>\<open>src/kernel/user_memory.cpp\<close>): the software walk over a
  task's page tables and the three copy loops, page by page. A buffer of the kernel is a
  list of bytes. The lemmas show that the loops end, that \<^verbatim>\<open>read_user_memory\<close> and
  \<^verbatim>\<open>write_user_memory\<close> access exactly the bytes the page tables map the range to, that a
  written range reads back, and when \<^verbatim>\<open>forward_user_memory\<close> does not copy to the range it was given.
\<close>

subsection \<open>Operations\<close>

primrec user_walk_levels :: "addr \<Rightarrow> addr \<Rightarrow> nat list \<Rightarrow> kstate \<Rightarrow> (pte_t \<times> nat) option option" where
  "user_walk_levels page_table va [] s = Some None"
| "user_walk_levels page_table va (level # levels) s = do {
     cassert (page_table \<noteq> 0);
     i \<leftarrow> walk va level;
     let pte = tables s page_table i;
     if is_disabled pte then Some None
     else if \<not> is_table pte then
       (if is_disabled pte \<or> is_table pte \<or> \<not> is_user pte then Some None else Some (Some (pte, level)))
     else user_walk_levels (get_next_page pte) va levels s
   }"

definition user_walk :: "addr \<Rightarrow> addr \<Rightarrow> kstate \<Rightarrow> (pte_t \<times> nat) option option" where
  "user_walk task va s = do {
     cassert (task \<noteq> 0);
     user_walk_levels (t_root_page_table (tasks s task)) va (levels_down KILO_PAGE_TABLE_LEVEL) s
   }"

text \<open>\<^verbatim>\<open>memcpy\<close> from and to the physical memory.\<close>

definition load_bytes :: "addr \<Rightarrow> nat \<Rightarrow> kstate \<Rightarrow> byte list" where
  "load_bytes p n s = map (\<lambda>i. mem s (p + of_nat i)) [0..<n]"

definition store_bytes :: "addr \<Rightarrow> byte list \<Rightarrow> kstate \<Rightarrow> kstate" where
  "store_bytes p bs s =
     s\<lparr>mem := (\<lambda>a. if unat (a - p) < length bs then bs ! unat (a - p) else mem s a)\<rparr>"

definition page_offset :: "addr \<Rightarrow> nat \<Rightarrow> u64" where
  "page_offset va level = va AND (get_page_size level - 1)"

definition page_length :: "addr \<Rightarrow> nat \<Rightarrow> u64 \<Rightarrow> u64" where
  "page_length va level rest =
     (let length = get_page_size level - page_offset va level in if length > rest then rest else length)"

partial_function (option) read_loop :: "addr \<Rightarrow> addr \<Rightarrow> u64 \<Rightarrow> u64 \<Rightarrow> kstate \<Rightarrow> byte list option option" where
  "read_loop task src sz read s =
     (if read < sz then do {
        w \<leftarrow> user_walk task (src + read) s;
        case w of
          None \<Rightarrow> Some None
        | Some (pte, level) \<Rightarrow> do {
            let length = page_length (src + read) level (sz - read);
            let bytes = load_bytes (get_next_page pte + page_offset (src + read) level) (unat length) s;
            rest \<leftarrow> read_loop task src sz (read + length) s;
            Some (map_option ((@) bytes) rest)
          }
      }
      else Some (Some []))"

definition read_user_memory :: "addr \<Rightarrow> addr \<Rightarrow> u64 \<Rightarrow> kstate \<Rightarrow> byte list option option" where
  "read_user_memory task src sz s = read_loop task src sz 0 s"

partial_function (option) write_loop :: "addr \<Rightarrow> byte list \<Rightarrow> addr \<Rightarrow> u64 \<Rightarrow> u64 \<Rightarrow> kstate \<Rightarrow> (bool \<times> kstate) option" where
  "write_loop task src dst sz written s =
     (if written < sz then do {
        w \<leftarrow> user_walk task (dst + written) s;
        case w of
          None \<Rightarrow> Some (False, s)
        | Some (pte, level) \<Rightarrow> do {
            let length = page_length (dst + written) level (sz - written);
            let s = store_bytes (get_next_page pte + page_offset (dst + written) level)
              (take (unat length) (drop (unat written) src)) s;
            write_loop task src dst sz (written + length) s
          }
      }
      else Some (True, s))"

definition write_user_memory :: "addr \<Rightarrow> byte list \<Rightarrow> addr \<Rightarrow> u64 \<Rightarrow> kstate \<Rightarrow> (bool \<times> kstate) option" where
  "write_user_memory task src dst sz s = write_loop task src dst sz 0 s"

partial_function (option) forward_loop ::
  "addr \<Rightarrow> addr \<Rightarrow> addr \<Rightarrow> addr \<Rightarrow> u64 \<Rightarrow> u64 \<Rightarrow> kstate \<Rightarrow> (bool \<times> kstate) option" where
  "forward_loop src_task dst_task src dst sz forwarded s =
     (if forwarded < sz then do {
        w \<leftarrow> user_walk src_task (src + forwarded) s;
        case w of
          None \<Rightarrow> Some (False, s)
        | Some (src_pte, src_level) \<Rightarrow> do {
            w' \<leftarrow> user_walk dst_task (dst + forwarded) s;
            case w' of
              None \<Rightarrow> Some (False, s)
            | Some (dst_pte, dst_level) \<Rightarrow> do {
                let src_length = page_length (src + forwarded) src_level (sz - forwarded);
                let bytes = load_bytes (get_next_page src_pte + page_offset (src + forwarded) src_level)
                  (unat src_length) s;
                let s = store_bytes (get_next_page dst_pte + page_offset (dst + forwarded) dst_level) bytes s;
                forward_loop src_task dst_task src dst sz (forwarded + src_length) s
              }
          }
      }
      else Some (True, s))"

definition forward_user_memory :: "addr \<Rightarrow> addr \<Rightarrow> addr \<Rightarrow> addr \<Rightarrow> u64 \<Rightarrow> kstate \<Rightarrow> (bool \<times> kstate) option" where
  "forward_user_memory src_task dst_task src dst sz s = forward_loop src_task dst_task src dst sz 0 s"

subsection \<open>Translation of user addresses\<close>

text \<open>The byte of physical memory, in the mapped region, that a user address stands for.\<close>

definition user_addr :: "kstate \<Rightarrow> addr \<Rightarrow> addr \<Rightarrow> addr option" where
  "user_addr s task va =
     (case user_walk task va s of
        Some (Some (pte, level)) \<Rightarrow> Some (get_next_page pte + page_offset va level)
      | _ \<Rightarrow> None)"

lemma get_next_page_not_null [simp]: "get_next_page pte \<noteq> 0"
proof -
  have "unat (pte_next_page_number pte) < 2 ^ 44"
    using unsigned_less [of "pte_next_page_number pte"] by simp
  then have "unat (ucast (pte_next_page_number pte) :: u64) < 2 ^ 44"
    by (simp add: unsigned_ucast_eq take_bit_nat_eq_self)
  then have "unat (push_bit 12 (ucast (pte_next_page_number pte)) :: u64) < 2 ^ 56"
    by (simp add: push_bit_eq_mult unat_word_ariths)
  then have "unat (get_next_page pte) \<noteq> 0"
    by (simp add: get_next_page_def as_map_def unat_word_ariths CONFIG_MAPPED_SPACE_BASE_def
        CONFIG_KERNEL_SPACE_BASE_def CONFIG_MAX_VIRTUAL_ADDRESS_def)
  then show ?thesis by auto
qed

lemma user_walk_levels_total:
  assumes "pt \<noteq> 0" "va < CONFIG_MAX_VIRTUAL_ADDRESS" "\<forall>l\<in>set levels. l \<le> 2"
  shows "\<exists>w. user_walk_levels pt va levels s = Some w"
  using assms by (induction levels arbitrary: pt) auto

lemma user_walk_levels_in:
  "user_walk_levels pt va levels s = Some (Some (pte, level)) \<Longrightarrow> level \<in> set levels"
  by (induction levels arbitrary: pt) (auto simp: bind_Some_iff split: if_splits)

lemma index_same_page:
  assumes "unat va div 2 ^ get_page_size_bit level = unat va' div 2 ^ get_page_size_bit level" "level \<le> l"
  shows "get_page_table_index va l = get_page_table_index va' l"
proof -
  have "get_page_size_bit l = get_page_size_bit level + 9 * (l - level)"
    using assms(2) by (simp add: get_page_size_bit_def)
  then have "unat va div 2 ^ get_page_size_bit l = unat va' div 2 ^ get_page_size_bit l"
    using assms(1) by (simp add: power_add div_mult2_eq)
  then show ?thesis by (intro word_unatI) (simp add: unat_get_page_table_index)
qed

lemma user_walk_levels_same_page:
  assumes "user_walk_levels pt va levels s = Some (Some (pte, level))" "sorted_wrt (>) levels"
    "unat va div 2 ^ get_page_size_bit level = unat va' div 2 ^ get_page_size_bit level"
    "va' < CONFIG_MAX_VIRTUAL_ADDRESS"
  shows "user_walk_levels pt va' levels s = Some (Some (pte, level))"
  using assms(1,2)
proof (induction levels arbitrary: pt)
  case (Cons l levels)
  have "level \<le> l" using user_walk_levels_in [OF Cons.prems(1)] Cons.prems(2) by auto
  with assms(3) have "get_page_table_index va l = get_page_table_index va' l" by (rule index_same_page)
  with Cons assms(4) show ?case by (auto simp: walk_def bind_Some_iff split: if_splits)
qed simp

declare user_walk_levels.simps [simp del]

lemma levels_down_sorted: "sorted_wrt (>) (levels_down KILO_PAGE_TABLE_LEVEL)"
  by simp

lemma user_walk_same_page:
  assumes "user_walk task va s = Some (Some (pte, level))"
    "unat va div 2 ^ get_page_size_bit level = unat va' div 2 ^ get_page_size_bit level"
    "va' < CONFIG_MAX_VIRTUAL_ADDRESS"
  shows "user_walk task va' s = Some (Some (pte, level))"
  using assms user_walk_levels_same_page [OF _ levels_down_sorted assms(2,3)]
  by (simp add: user_walk_def del: levels_down_simps split: if_splits)

lemma user_walk_level: "user_walk task va s = Some (Some (pte, level)) \<Longrightarrow> level \<le> 2"
  using user_walk_levels_in [of "t_root_page_table (tasks s task)" va "levels_down KILO_PAGE_TABLE_LEVEL" s]
  by (auto simp: user_walk_def split: if_splits)

lemma unat_page_size: "level \<le> 2 \<Longrightarrow> unat (get_page_size level) = 2 ^ get_page_size_bit level"
proof -
  assume "level \<le> 2"
  then have "get_page_size_bit level < 64" by (simp add: get_page_size_bit_def PAGE_SIZE_BIT_def)
  then have "(2 :: nat) ^ get_page_size_bit level < 2 ^ 64" by (intro power_strict_increasing) simp_all
  then show ?thesis unfolding get_page_size_pow using unat_of_nat_u64 [of "2 ^ get_page_size_bit level"] by simp
qed

lemma unat_page_offset:
  assumes "level \<le> 2"
  shows "unat (page_offset va level) = unat va mod 2 ^ get_page_size_bit level"
proof -
  have "page_offset va level = take_bit (get_page_size_bit level) va"
    by (simp add: page_offset_def get_page_size_pow take_bit_eq_mask mask_eq_exp_minus_1)
  then have "unat (page_offset va level) = take_bit (get_page_size_bit level) (unat va)"
    by (simp only: unsigned_take_bit_eq)
  then show ?thesis by (simp only: take_bit_eq_mod)
qed

lemma unat_page_length:
  assumes "level \<le> 2"
  shows "unat (page_length va level rest) =
    min (2 ^ get_page_size_bit level - unat va mod 2 ^ get_page_size_bit level) (unat rest)"
proof -
  have "page_offset va level \<le> get_page_size level"
    using unat_page_offset [OF assms, of va] unat_page_size [OF assms] by (simp add: word_le_nat_alt less_imp_le)
  then have "unat (get_page_size level - page_offset va level) =
      2 ^ get_page_size_bit level - unat va mod 2 ^ get_page_size_bit level"
    using assms by (simp add: unat_sub unat_page_offset unat_page_size)
  then show ?thesis by (simp add: page_length_def word_less_nat_alt min_def)
qed

text \<open>Bytes of one page follow each other in physical memory.\<close>

lemma user_addr_step:
  assumes w: "user_walk task va s = Some (Some (pte, level))" and va: "unat va + i < 2 ^ 38"
    and i: "i < 2 ^ get_page_size_bit level - unat va mod 2 ^ get_page_size_bit level"
  shows "user_addr s task (va + of_nat i) = Some (get_next_page pte + page_offset va level + of_nat i)"
proof -
  let ?p = "2 ^ get_page_size_bit level :: nat"
  have lv: "level \<le> 2" by (rule user_walk_level [OF w])
  have u: "unat (va + of_nat i) = unat va + i"
    using va unat_of_nat_u64 [of i] by (simp add: unat_word_ariths)
  have m: "unat va mod ?p + i < ?p" using i by linarith
  have dm: "unat va + i = unat va div ?p * ?p + (unat va mod ?p + i)"
    using div_mult_mod_eq [of "unat va" ?p] by linarith
  have "unat va div ?p = unat (va + of_nat i) div ?p" and md: "(unat va + i) mod ?p = unat va mod ?p + i"
    unfolding u using m by (subst dm, simp)+
  moreover have "va + of_nat i < CONFIG_MAX_VIRTUAL_ADDRESS"
    using va u by (simp add: word_less_nat_alt CONFIG_MAX_VIRTUAL_ADDRESS_def)
  ultimately have "user_walk task (va + of_nat i) s = Some (Some (pte, level))"
    using user_walk_same_page [OF w] by blast
  moreover have "page_offset (va + of_nat i) level = page_offset va level + of_nat i"
  proof (rule word_unatI)
    have "unat (page_offset va level) + unat (of_nat i :: u64) < 2 ^ 64"
      using m lv va unat_of_nat_u64 [of i] power_strict_increasing [of "get_page_size_bit level" 64 "2 :: nat"]
      by (simp add: unat_page_offset get_page_size_bit_def PAGE_SIZE_BIT_def)
    then show "unat (page_offset (va + of_nat i) level) = unat (page_offset va level + of_nat i)"
      using lv md u va unat_of_nat_u64 [of i] by (simp add: unat_page_offset unat_word_ariths)
  qed
  ultimately show ?thesis by (simp add: user_addr_def add.assoc)
qed

subsection \<open>The copy loops\<close>

definition has_tables :: "kstate \<Rightarrow> addr \<Rightarrow> bool" where
  "has_tables s task \<longleftrightarrow> task \<noteq> 0 \<and> t_root_page_table (tasks s task) \<noteq> 0"

lemma user_walk_total:
  assumes "has_tables s task" "unat va < 2 ^ 38"
  shows "\<exists>w. user_walk task va s = Some w"
  using assms user_walk_levels_total [of "t_root_page_table (tasks s task)" va "[2, 1, 0]" s]
  by (simp add: user_walk_def has_tables_def word_less_nat_alt CONFIG_MAX_VIRTUAL_ADDRESS_def)

lemma user_addr_None:
  "user_addr s task va = None \<longleftrightarrow> user_walk task va s = None \<or> user_walk task va s = Some None"
  by (auto simp: user_addr_def split: option.splits)

lemma user_walk_cong:
  "tables s' = tables s \<Longrightarrow> t_root_page_table (tasks s' task) = t_root_page_table (tasks s task) \<Longrightarrow>
    user_walk task va s' = user_walk task va s"
proof -
  assume a: "tables s' = tables s" "t_root_page_table (tasks s' task) = t_root_page_table (tasks s task)"
  have "user_walk_levels pt va ls s' = user_walk_levels pt va ls s" for pt ls
    by (induction ls arbitrary: pt) (simp_all add: user_walk_levels.simps a cong: if_cong)
  then show ?thesis by (simp add: user_walk_def a)
qed

lemma user_addr_cong:
  "tables s' = tables s \<Longrightarrow> t_root_page_table (tasks s' task) = t_root_page_table (tasks s task) \<Longrightarrow>
    user_addr s' task = user_addr s task"
  using user_walk_cong [of s' s] by (intro ext) (simp add: user_addr_def)

lemma store_bytes_simps [simp]:
  "tables (store_bytes p bs s) = tables s" "tasks (store_bytes p bs s) = tasks s"
  "slots (store_bytes p bs s) = slots s" "errno (store_bytes p bs s) = errno s"
  by (simp_all add: store_bytes_def)

text \<open>One round of a loop handles the rest of the page that the position lies in.\<close>

lemma page_round:
  assumes w: "user_walk task (src + pos) s = Some (Some (pte, level))" and pos: "pos < sz"
    and b: "unat src + unat sz \<le> 2 ^ 38"
    and len: "len = unat (page_length (src + pos) level (sz - pos))"
  shows "0 < len" "unat pos + len \<le> unat sz" "unat (pos + page_length (src + pos) level (sz - pos)) = unat pos + len"
    "i < len \<Longrightarrow> user_addr s task (src + of_nat (unat pos + i)) =
      Some (get_next_page pte + page_offset (src + pos) level + of_nat i)"
proof -
  have lv: "level \<le> 2" by (rule user_walk_level [OF w])
  have up: "unat pos < unat sz" "unat (sz - pos) = unat sz - unat pos" "unat (src + pos) = unat src + unat pos"
    using pos b unat_sub [of pos sz] by (simp_all add: word_less_nat_alt word_le_nat_alt unat_word_ariths)
  have l: "len = min (2 ^ get_page_size_bit level - unat (src + pos) mod 2 ^ get_page_size_bit level)
      (unat sz - unat pos)"
    unfolding len unat_page_length [OF lv] up ..
  have "unat (src + pos) mod 2 ^ get_page_size_bit level < 2 ^ get_page_size_bit level" by simp
  then show "0 < len" using l up(1) by linarith
  show le: "unat pos + len \<le> unat sz" using l up(1) by linarith
  then show "unat (pos + page_length (src + pos) level (sz - pos)) = unat pos + len"
    using len b by (simp add: unat_word_ariths)
  assume i: "i < len"
  have "src + of_nat (unat pos + i) = src + pos + of_nat i" by simp
  moreover have "user_addr s task (src + pos + of_nat i) =
      Some (get_next_page pte + page_offset (src + pos) level + of_nat i)"
    using i l le b up(3) by (intro user_addr_step [OF w]) linarith+
  ultimately show "user_addr s task (src + of_nat (unat pos + i)) =
      Some (get_next_page pte + page_offset (src + pos) level + of_nat i)" by (simp only:)
qed

text \<open>The range \<open>m ..< n\<close> of offsets from \<open>va\<close> is mapped, and to which bytes.\<close>

definition mapped :: "kstate \<Rightarrow> addr \<Rightarrow> addr \<Rightarrow> nat \<Rightarrow> nat \<Rightarrow> bool" where
  "mapped s task va m n \<longleftrightarrow> (\<forall>i\<in>{m..<n}. user_addr s task (va + of_nat i) \<noteq> None)"

definition phys :: "kstate \<Rightarrow> addr \<Rightarrow> addr \<Rightarrow> nat \<Rightarrow> addr" where
  "phys s task va i = the (user_addr s task (va + of_nat i))"

lemma mapped_mem: "mapped (s\<lparr>mem := m\<rparr>) = mapped s" and phys_mem: "phys (s\<lparr>mem := m\<rparr>) = phys s"
  and mem_mem: "s\<lparr>mem := m, mem := m'\<rparr> = s\<lparr>mem := m'\<rparr>" "mem (s\<lparr>mem := m\<rparr>) = m"
  using user_addr_cong [of "s\<lparr>mem := m\<rparr>" s] by (simp_all add: mapped_def phys_def fun_eq_iff)

lemma mapped_split: "m \<le> k \<Longrightarrow> k \<le> n \<Longrightarrow> mapped s t va m n \<longleftrightarrow> mapped s t va m k \<and> mapped s t va k n"
  by (auto simp: mapped_def)

lemma upt_split: "m \<le> k \<Longrightarrow> k \<le> n \<Longrightarrow> [m..<n] = [m..<k] @ [k..<n]"
  using upt_add_eq_append [of m k "n - k"] by simp

lemma load_round:
  assumes "\<And>i. i < len \<Longrightarrow> user_addr s task (va + of_nat (m + i)) = Some (p + of_nat i)"
  shows "load_bytes p len s = map (\<lambda>i. mem s (phys s task va i)) [m..<m + len]" "mapped s task va m (m + len)"
proof -
  show "load_bytes p len s = map (\<lambda>i. mem s (phys s task va i)) [m..<m + len]"
    using assms by (auto simp: load_bytes_def phys_def simp del: of_nat_add intro!: nth_equalityI)
  have "user_addr s task (va + of_nat j) = Some (p + of_nat (j - m))" if "m \<le> j" "j < m + len" for j
    using assms [of "j - m"] that by simp
  then show "mapped s task va m (m + len)" by (auto simp: mapped_def)
qed

lemma read_loop_spec:
  assumes "has_tables s task" "unat src + unat sz \<le> 2 ^ 38"
  shows "read_loop task src sz pos s =
    Some (if mapped s task src (unat pos) (unat sz)
      then Some (map (\<lambda>i. mem s (phys s task src i)) [unat pos..<unat sz]) else None)"
proof (induction "unat sz - unat pos" arbitrary: pos rule: less_induct)
  case less
  show ?case
  proof (cases "pos < sz")
    case False
    then show ?thesis by (simp add: read_loop.simps [of task src sz pos] mapped_def word_less_nat_alt)
  next
    case True
    then have up: "unat pos < unat sz" by (simp add: word_less_nat_alt)
    have va: "unat (src + pos) < 2 ^ 38" using assms(2) up by (simp add: unat_word_ariths)
    obtain w where w: "user_walk task (src + pos) s = Some w" using user_walk_total [OF assms(1) va] by blast
    show ?thesis
    proof (cases w)
      case None
      then have "user_addr s task (src + of_nat (unat pos)) = None" using w by (simp add: user_addr_None)
      then have "\<not> mapped s task src (unat pos) (unat sz)" using up by (force simp: mapped_def)
      then show ?thesis using w None True by (simp add: read_loop.simps [of task src sz pos])
    next
      case (Some pl)
      obtain pte level where pl: "pl = (pte, level)" by (cases pl)
      let ?l = "page_length (src + pos) level (sz - pos)"
      have wl: "user_walk task (src + pos) s = Some (Some (pte, level))" using w Some pl by simp
      note r = page_round [OF wl True assms(2) refl]
      note lr = load_round [of "unat ?l" s task src "unat pos", OF r(4)]
      have "read_loop task src sz pos s =
          do { rest \<leftarrow> read_loop task src sz (pos + ?l) s;
               Some (map_option ((@) (load_bytes (get_next_page pte + page_offset (src + pos) level) (unat ?l) s)) rest) }"
        using wl True by (simp add: read_loop.simps [of task src sz pos])
      moreover have "unat sz - unat (pos + ?l) < unat sz - unat pos" using r(1-3) by linarith
      ultimately show ?thesis
        using less [of "pos + ?l"] r(2,3) lr mapped_split [of "unat pos" "unat pos + unat ?l" "unat sz" s task src]
          upt_split [of "unat pos" "unat pos + unat ?l" "unat sz"] by simp
    qed
  qed
qed

definition put_bytes :: "(nat \<Rightarrow> addr) \<Rightarrow> byte list \<Rightarrow> nat list \<Rightarrow> (addr \<Rightarrow> byte) \<Rightarrow> addr \<Rightarrow> byte" where
  "put_bytes f src is m = fold (\<lambda>i m. m(f i := src ! i)) is m"

lemma put_bytes_append: "put_bytes f src (is @ js) m = put_bytes f src js (put_bytes f src is m)"
  by (simp add: put_bytes_def)

lemma put_bytes_other: "a \<notin> f ` set is \<Longrightarrow> put_bytes f src is m a = m a"
  unfolding put_bytes_def by (induction "is" arbitrary: m) auto

lemma put_bytes_at: "i \<in> set is \<Longrightarrow> inj_on f (set is) \<Longrightarrow> put_bytes f src is m (f i) = src ! i"
proof (induction "is" arbitrary: m)
  case (Cons j "is")
  show ?case
  proof (cases "i \<in> set is")
    case True
    then show ?thesis using Cons by (simp add: put_bytes_def inj_on_def)
  next
    case False
    then have "f i \<notin> f ` set is" using Cons.prems by (auto simp: inj_on_def)
    with put_bytes_other [of "f i" f "is" src "m(f j := src ! j)"] False Cons.prems show ?thesis
      by (simp add: put_bytes_def)
  qed
qed simp

lemma store_bytes_put:
  assumes "\<And>i. i < len \<Longrightarrow> f (m + i) = p + of_nat i" "m + len \<le> length src" "len < 2 ^ 64"
  shows "store_bytes p (take len (drop m src)) s = s\<lparr>mem := put_bytes f src [m..<m + len] (mem s)\<rparr>"
  using assms
proof (induction len)
  case 0
  then show ?case by (simp add: store_bytes_def put_bytes_def)
next
  case (Suc n)
  have u: "unat (of_nat n :: addr) = n" using Suc.prems(3) by (simp add: unat_of_nat_u64)
  have eq: "(\<lambda>a. if unat (a - p) < Suc n then src ! (m + unat (a - p)) else mem s a) =
      (\<lambda>a. if unat (a - p) < n then src ! (m + unat (a - p)) else mem s a)(p + of_nat n := src ! (m + n))"
  proof
    fix a
    have "a = p + of_nat n \<longleftrightarrow> unat (a - p) = n"
      using u by (metis add_diff_cancel_left' diff_add_cancel add.commute word_unatI)
    then show "(if unat (a - p) < Suc n then src ! (m + unat (a - p)) else mem s a) =
      ((\<lambda>a. if unat (a - p) < n then src ! (m + unat (a - p)) else mem s a)(p + of_nat n := src ! (m + n))) a"
      by (auto simp: less_Suc_eq u)
  qed
  have st: "store_bytes p (take k (drop m src)) s =
      s\<lparr>mem := \<lambda>a. if unat (a - p) < k then src ! (m + unat (a - p)) else mem s a\<rparr>" if "k \<le> Suc n" for k
  proof -
    have l: "length (take k (drop m src)) = k" using that Suc.prems(2) by simp
    have "(if unat (a - p) < k then take k (drop m src) ! unat (a - p) else mem s a) =
        (if unat (a - p) < k then src ! (m + unat (a - p)) else mem s a)" for a
      using that Suc.prems(2) by simp
    then show ?thesis unfolding store_bytes_def l by simp
  qed
  have "mem (store_bytes p (take n (drop m src)) s) = put_bytes f src [m..<m + n] (mem s)"
    using Suc by simp
  then have "(\<lambda>a. if unat (a - p) < n then src ! (m + unat (a - p)) else mem s a) =
      put_bytes f src [m..<m + n] (mem s)" using st [of n] by simp
  then show ?case using st [of "Suc n"] Suc.prems(1) [of n] eq by (simp add: put_bytes_def fun_upd_def)
qed

lemma write_loop_spec:
  assumes "has_tables s task" "unat dst + unat sz \<le> 2 ^ 38" "unat sz \<le> length src"
  shows "if mapped s task dst (unat pos) (unat sz)
    then write_loop task src dst sz pos s =
      Some (True, s\<lparr>mem := put_bytes (phys s task dst) src [unat pos..<unat sz] (mem s)\<rparr>)
    else \<exists>m. write_loop task src dst sz pos s = Some (False, s\<lparr>mem := m\<rparr>)"
  using assms(1)
proof (induction "unat sz - unat pos" arbitrary: pos s rule: less_induct)
  case less
  note eq = write_loop.simps [of task src dst sz pos s]
  show ?case
  proof (cases "pos < sz")
    case False
    then show ?thesis by (simp add: eq mapped_def put_bytes_def word_less_nat_alt)
  next
    case True
    then have up: "unat pos < unat sz" by (simp add: word_less_nat_alt)
    have va: "unat (dst + pos) < 2 ^ 38" using assms(2) up by (simp add: unat_word_ariths)
    obtain w where w: "user_walk task (dst + pos) s = Some w" using user_walk_total [OF less.prems va] by blast
    show ?thesis
    proof (cases w)
      case None
      then have "user_addr s task (dst + of_nat (unat pos)) = None" using w by (simp add: user_addr_None)
      then have "\<not> mapped s task dst (unat pos) (unat sz)" using up by (force simp: mapped_def)
      then show ?thesis using w None True by (auto simp: eq intro: exI [of _ "mem s"])
    next
      case (Some pl)
      obtain pte level where pl: "pl = (pte, level)" by (cases pl)
      let ?l = "page_length (dst + pos) level (sz - pos)"
      let ?p = "get_next_page pte + page_offset (dst + pos) level"
      let ?f = "phys s task dst" let ?m = "put_bytes ?f src [unat pos..<unat pos + unat ?l] (mem s)"
      have wl: "user_walk task (dst + pos) s = Some (Some (pte, level))" using w Some pl by simp
      note r = page_round [OF wl True assms(2) refl]
      note lr = load_round(2) [of "unat ?l" s task dst "unat pos", OF r(4)]
      have st: "store_bytes ?p (take (unat ?l) (drop (unat pos) src)) s = s\<lparr>mem := ?m\<rparr>"
        using r(2,4) assms(3) unat_u64_less [of ?l]
        by (intro store_bytes_put) (simp_all add: phys_def del: of_nat_add)
      have step: "write_loop task src dst sz pos s = write_loop task src dst sz (pos + ?l) (s\<lparr>mem := ?m\<rparr>)"
        using wl True st by (simp add: eq)
      have "unat sz - unat (pos + ?l) < unat sz - unat pos" "has_tables (s\<lparr>mem := ?m\<rparr>) task"
        using r(1-3) less.prems by (simp_all add: has_tables_def)
      from less.hyps [OF this]
      have "if mapped s task dst (unat pos + unat ?l) (unat sz)
        then write_loop task src dst sz pos s =
          Some (True, s\<lparr>mem := put_bytes ?f src [unat pos + unat ?l..<unat sz] ?m\<rparr>)
        else \<exists>m. write_loop task src dst sz pos s = Some (False, s\<lparr>mem := m\<rparr>)"
        unfolding step r(3) mapped_mem phys_mem mem_mem .
      then show ?thesis
        using r(2) lr mapped_split [of "unat pos" "unat pos + unat ?l" "unat sz" s task dst]
          upt_split [of "unat pos" "unat pos + unat ?l" "unat sz"] by (simp add: put_bytes_append)
    qed
  qed
qed

lemma write_then_read:
  assumes "has_tables s task" "unat dst + unat sz \<le> 2 ^ 38" "unat sz = length src"
    "mapped s task dst 0 (unat sz)" "inj_on (phys s task dst) {0..<unat sz}"
  shows "\<exists>m. write_user_memory task src dst sz s = Some (True, s\<lparr>mem := m\<rparr>) \<and>
    read_user_memory task dst sz (s\<lparr>mem := m\<rparr>) = Some (Some src) \<and>
    (\<forall>a. a \<notin> phys s task dst ` {0..<unat sz} \<longrightarrow> m a = mem s a)"
proof -
  let ?m = "put_bytes (phys s task dst) src [0..<unat sz] (mem s)"
  have "write_user_memory task src dst sz s = Some (True, s\<lparr>mem := ?m\<rparr>)"
    using write_loop_spec [OF assms(1,2), of src 0] assms(3,4) by (simp add: write_user_memory_def)
  moreover have "has_tables (s\<lparr>mem := ?m\<rparr>) task" using assms(1) by (simp add: has_tables_def)
  then have "read_user_memory task dst sz (s\<lparr>mem := ?m\<rparr>) =
      Some (Some (map (\<lambda>i. ?m (phys s task dst i)) [0..<unat sz]))"
    using read_loop_spec [of "s\<lparr>mem := ?m\<rparr>" task dst sz 0] assms(2,4)
    by (simp add: read_user_memory_def mapped_mem phys_mem)
  moreover have "map (\<lambda>i. ?m (phys s task dst i)) [0..<unat sz] = src"
    using assms(3,5) put_bytes_at [of _ "[0..<unat sz]" "phys s task dst" src "mem s"]
    by (intro nth_equalityI) auto
  moreover have "?m a = mem s a" if "a \<notin> phys s task dst ` {0..<unat sz}" for a
    using that by (intro put_bytes_other) simp
  ultimately show ?thesis by auto
qed

subsection \<open>Properties\<close>

text \<open>
  C18: \<^verbatim>\<open>read_user_memory\<close> reads the range it is asked for. For a task with a page table and a
  range below the end of the virtual address space, the loop ends; it returns the bytes that the page
  tables map the addresses of the range to, in order and across pages of any size, and it
  reports failure exactly when some address of the range is not mapped for the user.
\<close>

theorem read_user_memory_correct:
  assumes "has_tables s task" "unat src + unat sz \<le> 2 ^ 38"
  shows "read_user_memory task src sz s =
    Some (if mapped s task src 0 (unat sz)
      then Some (map (\<lambda>i. mem s (phys s task src i)) [0..<unat sz]) else None)"
  using read_loop_spec [OF assms, of 0] by (simp add: read_user_memory_def)

text \<open>
  C19: what \<^verbatim>\<open>write_user_memory\<close> writes, \<^verbatim>\<open>read_user_memory\<close> reads back. When the range is mapped, to
  a different byte for each address, the write succeeds, a read of the range afterwards returns
  the bytes written, and no other byte of memory and nothing else of the state changes.
\<close>

theorem write_read_user_memory:
  assumes "has_tables s task" "unat dst + unat sz \<le> 2 ^ 38" "unat sz = length src"
    "mapped s task dst 0 (unat sz)" "inj_on (phys s task dst) {0..<unat sz}"
  shows "\<exists>m. write_user_memory task src dst sz s = Some (True, s\<lparr>mem := m\<rparr>) \<and>
    read_user_memory task dst sz (s\<lparr>mem := m\<rparr>) = Some (Some src) \<and>
    (\<forall>a. a \<notin> phys s task dst ` {0..<unat sz} \<longrightarrow> m a = mem s a)"
  by (rule write_then_read [OF assms])

text \<open>
  \<^verbatim>\<open>forward_user_memory\<close> ignores where the destination page ends. It copies as many bytes as
  the source page has, so when the rest of the destination page is shorter the copy carries
  on in the physical memory behind that page, which need not belong to the receiving task, and the
  call still reports success.
\<close>

theorem forward_user_memory_overruns:
  assumes "user_walk src_task src s = Some (Some (src_pte, src_level))"
    "user_walk dst_task dst s = Some (Some (dst_pte, dst_level))"
    "0 < sz" "page_length src src_level sz = sz" "page_length dst dst_level sz < sz"
  shows "\<exists>s'. forward_user_memory src_task dst_task src dst sz s = Some (True, s') \<and>
    unat (page_offset dst dst_level) + unat sz > unat (get_page_size dst_level) \<and>
    (\<forall>i<unat sz. mem s' (get_next_page dst_pte + page_offset dst dst_level + of_nat i) =
       mem s (get_next_page src_pte + page_offset src src_level + of_nat i))"
proof -
  let ?p = "get_next_page src_pte + page_offset src src_level"
  let ?q = "get_next_page dst_pte + page_offset dst dst_level"
  let ?s' = "store_bytes ?q (load_bytes ?p (unat sz) s) s"
  have "forward_user_memory src_task dst_task src dst sz s = Some (True, ?s')"
    using assms(1-4) unfolding forward_user_memory_def
    by (simp add: forward_loop.simps [of _ _ _ _ _ 0] forward_loop.simps [of _ _ _ _ sz sz])
  moreover have "unat (page_offset dst dst_level) + unat sz > unat (get_page_size dst_level)"
    using assms(5) unat_page_length [OF user_walk_level [OF assms(2)], of dst sz]
      unat_page_offset [OF user_walk_level [OF assms(2)], of dst] unat_page_size [OF user_walk_level [OF assms(2)]]
    by (simp add: word_less_nat_alt min_def split: if_splits)
  moreover have "mem ?s' (?q + of_nat i) = mem s (?p + of_nat i)" if "i < unat sz" for i
  proof -
    have "unat (of_nat i :: addr) = i" using that unat_u64_less [of sz] by (intro unat_of_nat_u64) linarith
    then show ?thesis using that by (simp add: store_bytes_def load_bytes_def)
  qed
  ultimately show ?thesis by blast
qed

text \<open>Two tasks with one large page each, at address 0.\<close>

definition demo_leaf :: "44 word \<Rightarrow> pte_t" where
  "demo_leaf n = zero_pte\<lparr>pte_v := True, pte_r := True, pte_w := True, pte_u := True, pte_next_page_number := n\<rparr>"

definition demo_user :: kstate where
  "demo_user = zero_state\<lparr>
     tasks := (\<lambda>_. zero_task)(0x2000 := zero_task\<lparr>t_tid := 1, t_state := running, t_root_page_table := 0x9000\<rparr>,
       0x3000 := zero_task\<lparr>t_tid := 2, t_state := ready, t_root_page_table := 0xa000\<rparr>),
     tables := (\<lambda>_. zero_page_table)(0x9000 := zero_page_table(0 := demo_leaf 0x40000),
       0xa000 := zero_page_table(0 := demo_leaf 0x80000)),
     current_task := 0x2000\<rparr>"

lemma demo_user_walk:
  assumes "unat va < 2 ^ 30"
  shows "user_walk 0x2000 va demo_user = Some (Some (demo_leaf 0x40000, 2))"
    "user_walk 0x3000 va demo_user = Some (Some (demo_leaf 0x80000, 2))"
proof -
  have "unat va div 2 ^ 30 = 0" using assms by simp
  then have i: "get_page_table_index va 2 = 0"
    by (intro word_unatI) (simp add: unat_get_page_table_index get_page_size_bit_def PAGE_SIZE_BIT_def)
  have "va < CONFIG_MAX_VIRTUAL_ADDRESS"
    using assms by (simp add: word_less_nat_alt CONFIG_MAX_VIRTUAL_ADDRESS_def)
  then show "user_walk 0x2000 va demo_user = Some (Some (demo_leaf 0x40000, 2))"
    "user_walk 0x3000 va demo_user = Some (Some (demo_leaf 0x80000, 2))"
    using i by (simp_all add: user_walk_def user_walk_levels.simps demo_user_def zero_state_def demo_leaf_def
        is_enabled_def is_table_def is_user_def zero_pte_def zero_task_def)
qed

lemma demo_user_phys:
  assumes "i < 2 ^ 30"
  shows "user_addr demo_user 0x2000 (of_nat i) = Some (get_next_page (demo_leaf 0x40000) + of_nat i)"
    "user_addr demo_user 0x3000 (of_nat i) = Some (get_next_page (demo_leaf 0x80000) + of_nat i)"
proof -
  have u: "unat (of_nat i :: addr) = i" using assms by (intro unat_of_nat_u64) simp
  have "page_offset (of_nat i) 2 = of_nat i"
    using assms u unat_page_offset [of 2 "of_nat i"]
    by (intro word_unatI) (simp add: get_page_size_bit_def PAGE_SIZE_BIT_def)
  then show "user_addr demo_user 0x2000 (of_nat i) = Some (get_next_page (demo_leaf 0x40000) + of_nat i)"
    "user_addr demo_user 0x3000 (of_nat i) = Some (get_next_page (demo_leaf 0x80000) + of_nat i)"
    using demo_user_walk [of "of_nat i"] u assms by (simp_all add: user_addr_def)
qed

lemma demo_user_tables: "has_tables demo_user 0x2000" "has_tables demo_user 0x3000"
  by (simp_all add: has_tables_def demo_user_def)

theorem read_user_memory_correct_witness:
  "read_user_memory 0x2000 0x10 4 demo_user = Some (Some [0, 0, 0, 0])"
proof -
  have "user_addr demo_user 0x2000 (0x10 + of_nat i) \<noteq> None" if "i < 4" for i
    using demo_user_phys(1) [of "16 + i"] that by simp
  then have "mapped demo_user 0x2000 0x10 0 4" by (simp add: mapped_def)
  with read_user_memory_correct [OF demo_user_tables(1), of "0x10" 4] show ?thesis
    by (simp add: demo_user_def zero_state_def upt_rec)
qed

theorem write_read_user_memory_witness:
  "\<exists>m. write_user_memory 0x2000 [1, 2] 0x10 2 demo_user = Some (True, demo_user\<lparr>mem := m\<rparr>) \<and>
    read_user_memory 0x2000 0x10 2 (demo_user\<lparr>mem := m\<rparr>) = Some (Some [1, 2])"
proof -
  have a: "user_addr demo_user 0x2000 (0x10 + of_nat i) = Some (get_next_page (demo_leaf 0x40000) + of_nat (16 + i))"
    if "i < 2" for i using demo_user_phys(1) [of "16 + i"] that by simp
  have i: "unat (of_nat i :: addr) = i" if "i < 2" for i using that by (intro unat_of_nat_u64) simp
  have "mapped demo_user 0x2000 0x10 0 (unat (2 :: u64))" using a by (simp add: mapped_def)
  moreover have "inj_on (phys demo_user 0x2000 0x10) {0..<unat (2 :: u64)}"
    using a i by (auto simp: inj_on_def phys_def) metis
  ultimately show ?thesis
    using write_read_user_memory [OF demo_user_tables(1), of "0x10" 2 "[1, 2]"] by auto
qed

theorem forward_user_memory_overruns_witness:
  "\<exists>s'. forward_user_memory 0x2000 0x3000 0 0x3fffffff 2 demo_user = Some (True, s') \<and>
    mem s' (get_next_page (demo_leaf 0x80000) + 0x40000000) = mem demo_user (get_next_page (demo_leaf 0x40000) + 1)"
proof -
  from forward_user_memory_overruns [OF demo_user_walk(1) [of 0] demo_user_walk(2) [of "0x3fffffff"], of 2]
  obtain s' where "forward_user_memory 0x2000 0x3000 0 0x3fffffff 2 demo_user = Some (True, s')"
    "\<forall>i<2. mem s' (get_next_page (demo_leaf 0x80000) + 0x3fffffff + of_nat i) =
       mem demo_user (get_next_page (demo_leaf 0x40000) + of_nat i)"
    by (auto simp: page_length_def page_offset_def)
  moreover have "(p :: addr) + 0x3fffffff + of_nat 1 = p + 0x40000000" for p by simp
  ultimately show ?thesis by (intro exI [of _ s'] conjI) (assumption, metis of_nat_1 one_less_numeral_iff semiring_norm(76))
qed

end
