(* ===== verification/Cap_Derive.thy ===== *)
theory Cap_Derive
  imports Cap_Objects
begin

text \<open>
  Passing capabilities on (\<^verbatim>\<open>transfer_cap\<close>, \<^verbatim>\<open>delegate_cap\<close> and \<^verbatim>\<open>copy_cap\<close> of
  \<^verbatim>\<open>src/kernel/cap_space.cpp\<close>). The position of a slot in its chain records where its capability comes
  from; the lemmas show what each operation does to the chain and to the free slots of the two
  tasks.
\<close>

subsection \<open>Operations\<close>

text \<open>
  The guards \<^verbatim>\<open>transfer_cap\<close> and \<^verbatim>\<open>delegate_cap\<close> share: the error they set, if any. The lock
  of the source task is read through the page the slot lies in, so a null slot faults.
\<close>

definition dead :: "kstate \<Rightarrow> addr \<Rightarrow> bool" where
  "dead s t \<longleftrightarrow> t_state (tasks s t) = unused \<or> t_state (tasks s t) = killed"

definition check_pass :: "addr \<Rightarrow> addr \<Rightarrow> kstate \<Rightarrow> errno_t option" where
  "check_pass dst_task src_slot s =
     (if get_cap_type (cap_at s src_slot) = CAP_NULL \<or> get_cap_type (cap_at s src_slot) = CAP_ZOMBIE
      then Some SYS_E_CAP_TYPE
      else if dead s dst_task then Some SYS_E_ILL_STATE
      else if dead s (slot_task s src_slot) then Some SYS_E_ILL_STATE
      else None)"

definition transfer_cap :: "addr \<Rightarrow> addr \<Rightarrow> kstate \<Rightarrow> (addr \<times> kstate) option" where
  "transfer_cap dst_task src_slot s = do {
     cassert (dst_task \<noteq> 0);
     cassert (src_slot \<noteq> 0);
     let src_task = slot_task s src_slot;
     guard_task src_task s;
     guard_task dst_task s;
     case check_pass dst_task src_slot s of
       Some e \<Rightarrow> Some (0, s\<lparr>errno := e\<rparr>)
     | None \<Rightarrow> do {
         (dst_slot, s) \<leftarrow> insert_cap dst_task (cap_at s src_slot) s;
         if dst_slot = 0 then Some (0, s)
         else do {
           s \<leftarrow> replace dst_slot src_slot s;
           s \<leftarrow> push_free_slots src_task src_slot s;
           Some (dst_slot, s)
         }
       }
   }"

definition delegate_cap :: "addr \<Rightarrow> addr \<Rightarrow> kstate \<Rightarrow> (addr \<times> kstate) option" where
  "delegate_cap task src_slot s = do {
     cassert (src_slot \<noteq> 0);
     let src_task = slot_task s src_slot;
     guard_task src_task s;
     guard_task task s;
     case check_pass task src_slot s of
       Some e \<Rightarrow> Some (0, s\<lparr>errno := e\<rparr>)
     | None \<Rightarrow> do {
         (dst_slot, s) \<leftarrow> insert_cap task (cap_at s src_slot) s;
         if dst_slot = 0 then Some (0, s)
         else do {
           let s = set_cap src_slot make_zombie_cap s;
           s \<leftarrow> insert_after src_slot dst_slot s;
           Some (dst_slot, s)
         }
       }
   }"

definition copy_cap :: "addr \<Rightarrow> kstate \<Rightarrow> (addr \<times> kstate) option" where
  "copy_cap src_slot s = do {
     cassert (src_slot \<noteq> 0);
     let src_task = slot_task s src_slot;
     guard_task src_task s;
     (dst_slot, s) \<leftarrow> (case get_cap_type (cap_at s src_slot) of
         CAP_NULL \<Rightarrow> Some (0, s)
       | CAP_MEM \<Rightarrow> Some (0, s)
       | CAP_TASK \<Rightarrow> do {
           (dst_slot, s) \<leftarrow> insert_cap src_task (cap_at s src_slot) s;
           s \<leftarrow> insert_after src_slot dst_slot s;
           Some (dst_slot, s)
         }
       | CAP_ENDPOINT \<Rightarrow> do {
           (dst_slot, s) \<leftarrow> insert_cap src_task (cap_at s src_slot) s;
           s \<leftarrow> insert_after src_slot dst_slot s;
           Some (dst_slot, s)
         }
       | CAP_PAGE_TABLE \<Rightarrow> Some (0, s)
       | CAP_VIRT_PAGE \<Rightarrow> Some (0, s)
       | CAP_CAP_SPACE \<Rightarrow> Some (0, s)
       | CAP_ID \<Rightarrow> insert_cap src_task (cap_at s src_slot) s
       | CAP_ZOMBIE \<Rightarrow> Some (0, s)
       | CAP_UNKNOWN \<Rightarrow> Some (0, s));
     if dst_slot = 0 then Some (0, s\<lparr>errno := SYS_E_CAP_TYPE\<rparr>)
     else Some (dst_slot, s)
   }"

subsection \<open>Frames\<close>

lemma free_list_keep:
  assumes "free_list s t xs" "links_outside A s s'" "A \<inter> set xs = {}"
    "\<And>x. x \<in> set xs \<Longrightarrow> cap_at s' x = cap_at s x" "slot_task s' = slot_task s" "tasks s' t = tasks s t"
  shows "free_list s' t xs"
  using assms links_outside_chain [OF assms(2)] by (simp add: free_list_def)

lemma free_list_other_task:
  "free_list s t xs \<Longrightarrow> free_list s u ys \<Longrightarrow> t \<noteq> u \<Longrightarrow> set xs \<inter> set ys = {}"
  by (auto simp: free_list_def)

lemma free_list_not_null: "free_list s t xs \<Longrightarrow> cap_at s x \<noteq> NullCap \<Longrightarrow> x \<notin> set xs"
  by (auto simp: free_list_def)

lemma get_cap_type_null [simp]:
  "get_cap_type c = CAP_NULL \<longleftrightarrow> c = NullCap" "get_cap_type c = CAP_ZOMBIE \<longleftrightarrow> c = ZombieCap"
  by (cases c; simp)+

lemma links_outside_mono: "links_outside A s s' \<Longrightarrow> A \<subseteq> B \<Longrightarrow> links_outside B s s'"
  by (auto simp: links_outside_def)

lemma links_outside_trans: "links_outside A s t \<Longrightarrow> links_outside A t u \<Longrightarrow> links_outside A s u"
  by (auto simp: links_outside_def)

text \<open>A slot whose capability can be passed on, at its place in the chain.\<close>

definition passable :: "kstate \<Rightarrow> addr list \<Rightarrow> addr \<Rightarrow> addr list \<Rightarrow> bool" where
  "passable s as x bs \<longleftrightarrow> chain s (as @ x # bs) \<and> cap_at s x \<noteq> NullCap \<and> cap_at s x \<noteq> ZombieCap \<and>
     alive s (slot_task s x)"

lemma passableD:
  assumes "passable s as x bs"
  shows "chain s (as @ x # bs)" "cap_at s x \<noteq> NullCap" "cap_at s x \<noteq> ZombieCap" "alive s (slot_task s x)"
    "x \<noteq> 0" "slot_ok s x"
  using assms chain_null [of s "as @ x # bs"] by (auto simp: passable_def slot_ok_task alive_def)

lemma check_pass_none: "passable s as x bs \<Longrightarrow> alive s t \<Longrightarrow> check_pass t x s = None"
  by (simp add: check_pass_def dead_def passable_def alive_def task_ok_def)

lemma alive_guard: "alive s t \<Longrightarrow> t \<noteq> 0 \<and> lock_free_for s t"
  by (simp add: alive_def task_ok_def)

text \<open>Taking the first free slot of the receiving task leaves the chain of the source alone.\<close>

lemma insert_cap_pass:
  assumes p: "passable s as x bs" and f: "free_list s t (y # ys)" and al: "alive s t"
  obtains s1 where "insert_cap t c s = Some (y, s1)" "free_list s1 t ys" "chain s1 [y]"
    "cap_at s1 = (cap_at s)(y := c)" "same_but_pool t s s1" "links_outside (set (y # ys)) s s1"
    "chain s1 (as @ x # bs)" "set (as @ x # bs) \<inter> set (y # ys) = {}" "y \<noteq> 0"
proof -
  note d = passableD [OF p]
  from insert_cap_Cons [OF f al [unfolded alive_def, THEN conjunct1] al [unfolded alive_def, THEN conjunct2]]
  obtain s1 where s1: "insert_cap t c s = Some (y, s1)" "free_list s1 t ys" "chain s1 [y]"
    "cap_at s1 = (cap_at s)(y := c)" "same_but_pool t s s1" "links_outside (set (y # ys)) s s1" .
  have dj: "set (as @ x # bs) \<inter> set (y # ys) = {}"
    by (rule free_list_other_chain [OF f d(1) free_list_not_null [OF f d(2)]])
  then have "chain s1 (as @ x # bs)" using links_outside_chain [OF s1(6) d(1)] by blast
  moreover have "y \<noteq> 0" using chain_null [OF free_listD(1) [OF f]] by auto
  ultimately show ?thesis using that s1 dj by blast
qed

subsection \<open>Transfer\<close>

lemma transfer_cap_moves:
  assumes p: "passable s as x bs" and f: "free_list s t (y # ys)" and al: "alive s t"
    and src: "slot_task s x \<noteq> t" "free_list s (slot_task s x) xs"
  obtains s' where "transfer_cap t x s = Some (y, s')" "chain s' (as @ y # bs)"
    "cap_at s' = (cap_at s)(y := cap_at s x, x := NullCap)"
    "free_list s' t ys" "free_list s' (slot_task s x) (x # xs)" "errno s' = errno s"
proof -
  note d = passableD [OF p]
  let ?u = "slot_task s x"
  from insert_cap_pass [OF p f al, of "cap_at s x"]
  obtain s1 where s1: "insert_cap t (cap_at s x) s = Some (y, s1)" "free_list s1 t ys" "chain s1 [y]"
    "cap_at s1 = (cap_at s)(y := cap_at s x)" "same_but_pool t s s1" "links_outside (set (y # ys)) s s1"
    "chain s1 (as @ x # bs)" "set (as @ x # bs) \<inter> set (y # ys) = {}" "y \<noteq> 0" .
  note sp1 = same_but_poolD [OF s1(5)] and ok1 = same_but_pool_ok [OF s1(5)]
  have dx: "set (as @ x # bs) \<inter> set xs = {}" "set (y # ys) \<inter> set xs = {}"
    using free_list_other_chain [OF src(2) d(1) free_list_not_null [OF src(2) d(2)]]
      free_list_other_task [OF f src(2)] src(1) by auto
  have f1: "free_list s1 ?u xs"
    using src dx(2) s1(4) ok1(1) sp1(16) by (intro free_list_keep [OF src(2) s1(6)]) auto
  have y: "y \<notin> set (as @ x # bs)" using s1(8) by auto
  from replace_chain [OF s1(7,3) y] d(6) ok1(5)
  obtain s2 where s2: "replace y x s1 = Some s2" "chain s2 (as @ y # bs)" "chain s2 [x]"
    "same_but_links s1 s2" "links_outside (insert y (set (as @ x # bs))) s1 s2" by metis
  note sl2 = same_but_linksD [OF s2(4)] and ok2 = same_but_pool_ok [OF same_but_links_pool [OF s2(4), of t]]
  have f2: "free_list s2 ?u xs" "free_list s2 t ys"
    using dx y s1(8) chain_distinct [OF free_listD(1) [OF f]] sl2 ok2
    by (auto intro!: free_list_keep [OF f1 s2(5)] free_list_keep [OF s1(2) s2(5)])
  have x: "x \<notin> set xs" "task_ok s2 ?u" "slot_task s2 x = ?u"
    using dx(1) d(4) ok1 ok2 by (auto simp: alive_def)
  from push_free_slots_chain [of s2 "[]" x "[]", OF _ f2(1) x] s2(3)
  obtain s3 where s3: "push_free_slots ?u x s2 = Some s3" "free_list s3 ?u (x # xs)"
    "cap_at s3 = (cap_at s2)(x := NullCap)" "same_but_pool ?u s2 s3" "links_outside (insert x (set xs)) s2 s3"
    by auto
  note sp3 = same_but_poolD [OF s3(4)] and ok3 = same_but_pool_ok [OF s3(4)]
  have xd: "x \<notin> set (as @ y # bs)" using chain_distinct [OF d(1)] y by auto
  have "chain s3 (as @ y # bs)"
    using dx xd by (intro links_outside_chain [OF s3(5) s2(2)]) auto
  moreover have "free_list s3 t ys"
    using src(1) s1(8) dx(2) s3(3) ok3 sp3(16) by (intro free_list_keep [OF f2(2) s3(5)]) auto
  moreover have "transfer_cap t x s = Some (y, s3)"
    using d alive_guard [OF al] alive_guard [OF d(4)] check_pass_none [OF p al] s1(1,9) s2(1) s3(1)
    by (simp add: transfer_cap_def)
  moreover have "errno s3 = errno s" using sp3(8) sl2(10) sp1(8) by simp
  ultimately show ?thesis using that [of s3] s3(2,3) sl2(1) s1(4) by simp
qed

text \<open>
  C12: \<^verbatim>\<open>transfer_cap\<close> moves a capability to another task. The capability lies in the first
  free slot of the receiver afterwards, at exactly the place of the chain the source slot had,
  so whatever was derived from it stays derived from it; the source slot is free again in its
  own task, and no other capability changes.
\<close>

theorem transfer_cap_keeps_place:
  assumes "passable s as x bs" "free_list s t (y # ys)" "alive s t"
    "slot_task s x \<noteq> t" "free_list s (slot_task s x) xs"
  shows "\<exists>s'. transfer_cap t x s = Some (y, s') \<and> chain s' (as @ y # bs) \<and>
    cap_at s' = (cap_at s)(y := cap_at s x, x := NullCap) \<and> free_list s' t ys \<and>
    free_list s' (slot_task s x) (x # xs) \<and> errno s' = errno s"
  using transfer_cap_moves [OF assms] by blast

text \<open>
  Two tasks: 0x2000, running, holds an endpoint capability in the slot 0x1040 of its space; 0x3000 is
  ready and has the free slots 0x4040 and 0x4068.
\<close>

definition demo_endpoint_cap :: endpoint_cap where
  "demo_endpoint_cap = \<lparr>ec_sendable = True, ec_receivable = True, ec_endpoint = 0x5000\<rparr>"

definition demo_two :: kstate where
  "demo_two = set_cap 0x1040 (EndpointCap demo_endpoint_cap)
     (set_nxt 0x4040 0x4068 (set_prv 0x4068 0x4040 (zero_state\<lparr>
     spaces := (\<lambda>_. zero_meta)(0x1000 := \<lparr>meta_map = 0x1000, meta_task = 0x2000, meta_space_index = 0\<rparr>,
       0x4000 := \<lparr>meta_map = 0x4000, meta_task = 0x3000, meta_space_index = 0\<rparr>),
     tasks := (\<lambda>_. zero_task)(0x2000 := zero_task\<lparr>t_tid := 1, t_state := running\<rparr>,
       0x3000 := zero_task\<lparr>t_tid := 2, t_state := ready, t_free_slots := 0x4040, t_free_slots_count := 2\<rparr>),
     current_task := 0x2000\<rparr>)))"

lemma demo_two_simps [simp]:
  "nxt demo_two = (\<lambda>_. 0)(0x4040 := 0x4068)" "prv demo_two = (\<lambda>_. 0)(0x4068 := 0x4040)"
  "cap_at demo_two = (\<lambda>_. NullCap)(0x1040 := EndpointCap demo_endpoint_cap)"
  "tasks demo_two = (\<lambda>_. zero_task)(0x2000 := zero_task\<lparr>t_tid := 1, t_state := running\<rparr>,
     0x3000 := zero_task\<lparr>t_tid := 2, t_state := ready, t_free_slots := 0x4040, t_free_slots_count := 2\<rparr>)"
  "spaces demo_two = (\<lambda>_. zero_meta)(0x1000 := \<lparr>meta_map = 0x1000, meta_task = 0x2000, meta_space_index = 0\<rparr>,
       0x4000 := \<lparr>meta_map = 0x4000, meta_task = 0x3000, meta_space_index = 0\<rparr>)"
  "current_task demo_two = 0x2000"
  by (auto simp: demo_two_def zero_state_def nxt_def prv_def cap_at_def zero_slot_def set_cap_def set_nxt_def set_prv_def fun_eq_iff)

lemma demo_two_space [simp]: "get_cap_space 0x4040 = 0x4000" "get_cap_space 0x4068 = 0x4000"
  by (simp_all add: get_cap_space_def round_down_def PAGE_SIZE_def PAGE_SIZE_BIT_def)

lemma demo_two_slots [simp]:
  "slot_task demo_two 0x1040 = 0x2000" "slot_task demo_two 0x4040 = 0x3000" "slot_task demo_two 0x4068 = 0x3000"
  by (simp_all add: slot_task_def)

lemma demo_two_ok:
  "passable demo_two [] 0x1040 []" "free_list demo_two 0x3000 [0x4040, 0x4068]" "alive demo_two 0x3000"
  "free_list demo_two 0x2000 []" "slot_task demo_two 0x1040 \<noteq> 0x3000"
  by (simp_all add: passable_def alive_def task_ok_def free_list_def chain_def dchain_def lock_free_for_def
      current_tid_def rlock_def zero_task_def free_lock_def)

theorem transfer_cap_keeps_place_witness:
  "\<exists>s'. transfer_cap 0x3000 0x1040 demo_two = Some (0x4040, s') \<and> chain s' [0x4040] \<and>
    cap_at s' 0x4040 = EndpointCap demo_endpoint_cap \<and> cap_at s' 0x1040 = NullCap \<and>
    free_list s' 0x3000 [0x4068] \<and> free_list s' 0x2000 [0x1040]"
  using transfer_cap_keeps_place [OF demo_two_ok(1-3,5), of "[]"] demo_two_ok(4) by auto

subsection \<open>Delegation and copies\<close>

lemma delegate_cap_derives:
  assumes p: "passable s as x bs" and f: "free_list s t (y # ys)" and al: "alive s t"
  obtains s' where "delegate_cap t x s = Some (y, s')" "chain s' (as @ x # y # bs)"
    "cap_at s' = (cap_at s)(y := cap_at s x, x := ZombieCap)" "free_list s' t ys"
    "same_but_pool t s s'" "links_outside (set (as @ x # bs) \<union> set (y # ys)) s s'"
proof -
  note d = passableD [OF p]
  from insert_cap_pass [OF p f al, of "cap_at s x"]
  obtain s1 where s1: "insert_cap t (cap_at s x) s = Some (y, s1)" "free_list s1 t ys" "chain s1 [y]"
    "cap_at s1 = (cap_at s)(y := cap_at s x)" "same_but_pool t s s1" "links_outside (set (y # ys)) s s1"
    "chain s1 (as @ x # bs)" "set (as @ x # bs) \<inter> set (y # ys) = {}" "y \<noteq> 0" .
  note ok1 = same_but_pool_ok [OF s1(5)]
  let ?s2 = "set_cap x ZombieCap s1"
  have y: "slot_ok ?s2 y" using free_listD(4) [OF f, of y] al ok1 by (simp add: slot_ok_task alive_def)
  have dj: "set [y] \<inter> set (as @ x # bs) = {}" using s1(8) by auto
  from insert_after_chain [of ?s2 as x bs y "[]"] s1(3,7) dj y
  obtain s3 where s3: "insert_after x y ?s2 = Some s3" "chain s3 (as @ x # y # bs)"
    "same_but_links ?s2 s3" "links_outside (set (as @ x # bs) \<union> {y}) ?s2 s3" by auto
  note sl3 = same_but_linksD [OF s3(3)]
  have ys: "x \<notin> set ys" "y \<notin> set ys" using s1(8) chain_distinct [OF free_listD(1) [OF f]] by auto
  have "free_list ?s2 t ys" using s1(2) ys(1) by (auto simp: free_list_def)
  then have "free_list s3 t ys"
    using s1(8) ys sl3 same_but_pool_ok(1) [OF same_but_links_pool [OF s3(3), of t]]
    by (intro free_list_keep [OF _ s3(4)]) auto
  moreover have "delegate_cap t x s = Some (y, s3)"
    using d alive_guard [OF al] alive_guard [OF d(4)] check_pass_none [OF p al] s1(1,9) s3(1)
    by (simp add: delegate_cap_def make_zombie_cap_def)
  moreover have "same_but_pool t s s3"
    by (rule same_but_pool_trans [OF same_but_pool_upd(1) [OF s1(5)] same_but_links_pool [OF s3(3)]])
  moreover have "links_outside (set (as @ x # bs) \<union> set (y # ys)) s s3"
    using s1(6) s3(4) by (auto simp: links_outside_def)
  moreover have "cap_at s3 = (cap_at s)(y := cap_at s x, x := ZombieCap)"
    using sl3(1) s1(4) by simp
  ultimately show ?thesis using that s3(2) by blast
qed

definition copyable :: "capability_t \<Rightarrow> bool" where
  "copyable c \<longleftrightarrow> get_cap_type c \<in> {CAP_TASK, CAP_ENDPOINT}"

text \<open>
  \<^verbatim>\<open>copy_cap\<close> of a task or endpoint capability. The copy is an equal capability of the
  same task directly behind the original, which keeps its own capability and place.
\<close>

theorem copy_cap_derives:
  assumes "passable s as x bs" "free_list s (slot_task s x) (y # ys)" "copyable (cap_at s x)"
  shows "\<exists>s'. copy_cap x s = Some (y, s') \<and> chain s' (as @ x # y # bs) \<and>
    cap_at s' = (cap_at s)(y := cap_at s x) \<and> free_list s' (slot_task s x) ys \<and> errno s' = errno s"
proof -
  note d = passableD [OF assms(1)]
  let ?t = "slot_task s x"
  from insert_cap_pass [OF assms(1,2) d(4), of "cap_at s x"]
  obtain s1 where s1: "insert_cap ?t (cap_at s x) s = Some (y, s1)" "free_list s1 ?t ys" "chain s1 [y]"
    "cap_at s1 = (cap_at s)(y := cap_at s x)" "same_but_pool ?t s s1" "links_outside (set (y # ys)) s s1"
    "chain s1 (as @ x # bs)" "set (as @ x # bs) \<inter> set (y # ys) = {}" "y \<noteq> 0" .
  note ok1 = same_but_pool_ok [OF s1(5)]
  have y: "slot_ok s1 y" using free_listD(4) [OF assms(2), of y] d(4) ok1 by (simp add: slot_ok_task alive_def)
  have dj: "set [y] \<inter> set (as @ x # bs) = {}" using s1(8) by auto
  from insert_after_chain [OF s1(7,3) dj y]
  obtain s2 where s2: "insert_after x y s1 = Some s2" "chain s2 (as @ x # y # bs)"
    "same_but_links s1 s2" "links_outside (set (as @ x # bs) \<union> {y}) s1 s2" by auto
  note sl2 = same_but_linksD [OF s2(3)]
  have ys: "y \<notin> set ys" using chain_distinct [OF free_listD(1) [OF assms(2)]] by auto
  have "free_list s2 ?t ys"
    using s1(8) ys sl2 same_but_pool_ok(1) [OF same_but_links_pool [OF s2(3), of ?t]]
    by (intro free_list_keep [OF s1(2) s2(4)]) auto
  moreover have "copy_cap x s = Some (y, s2)"
    using d alive_guard [OF d(4)] s1(1,9) s2(1) assms(3) by (auto simp: copy_cap_def copyable_def)
  moreover have "errno s2 = errno s" using sl2(10) same_but_poolD(8) [OF s1(5)] by simp
  ultimately show ?thesis using s2(2) sl2(1) s1(4) by auto
qed

text \<open>The running task of \<^const>\<open>demo_two\<close> with a free slot of its own.\<close>

definition demo_copy :: kstate where
  "demo_copy = upd_task 0x2000 (\<lambda>t. t\<lparr>t_free_slots := 0x1068, t_free_slots_count := 1\<rparr>) demo_two"

theorem copy_cap_derives_witness:
  "\<exists>s'. copy_cap 0x1040 demo_copy = Some (0x1068, s') \<and> chain s' [0x1040, 0x1068] \<and>
    cap_at s' 0x1068 = EndpointCap demo_endpoint_cap \<and> free_list s' 0x2000 []"
proof -
  have "passable demo_copy [] 0x1040 []" "free_list demo_copy 0x2000 [0x1068]"
    by (simp_all add: demo_copy_def passable_def alive_def task_ok_def free_list_def chain_def dchain_def
        lock_free_for_def current_tid_def rlock_def zero_task_def free_lock_def slot_task_def)
  with copy_cap_derives [of demo_copy "[]" "0x1040" "[]" "0x1068" "[]"] show ?thesis
    by (auto simp: demo_copy_def copyable_def)
qed

subsection \<open>Revoking a delegation\<close>

text \<open>
  The branch of \<^verbatim>\<open>revoke_cap\<close> for a zombie: the slots behind it, up to and including the one that
  holds the capability, are released from the back, and the capability returns to the zombie.
\<close>

partial_function (option) release_back :: "addr \<Rightarrow> addr \<Rightarrow> kstate \<Rightarrow> kstate option" where
  "release_back slot cap_slot s =
     (if cap_slot = slot then Some s
      else do {
        cassert (cap_slot \<noteq> 0);
        let prev_slot = prv s cap_slot;
        (_, s) \<leftarrow> erase_this cap_slot s;
        s \<leftarrow> push_free_slots (slot_task s cap_slot) cap_slot s;
        release_back slot prev_slot s
      })"

definition revoke_zombie :: "addr \<Rightarrow> kstate \<Rightarrow> kstate option" where
  "revoke_zombie slot s = do {
     cap_slot \<leftarrow> skip_zombies (nxt s slot) s;
     let cap = cap_at s cap_slot;
     s \<leftarrow> release_back slot cap_slot s;
     Some (set_cap slot cap s)
   }"

text \<open>The tasks of a set can all give and take slots; a slot is free when its task's list has it.\<close>

definition pools :: "kstate \<Rightarrow> addr set \<Rightarrow> bool" where
  "pools s T \<longleftrightarrow> (\<forall>t\<in>T. task_ok s t \<and> (\<exists>xs. free_list s t xs))"

definition is_free :: "kstate \<Rightarrow> addr \<Rightarrow> bool" where
  "is_free s x \<longleftrightarrow> (\<exists>xs. free_list s (slot_task s x) xs \<and> x \<in> set xs)"

lemma free_list_unique:
  assumes "free_list s t xs" "free_list s t ys"
  shows "xs = ys"
proof -
  have h: "hd0 xs 0 = hd0 ys 0" and c: "chain s xs" "chain s ys"
    using assms by (simp_all add: free_list_def)
  show ?thesis
  proof (cases "xs = [] \<or> ys = []")
    case True
    then show ?thesis using h chain_null [OF c(1)] chain_null [OF c(2)] by (cases xs; cases ys) auto
  next
    case False
    then show ?thesis using h chain_unique [OF c, of "hd0 xs 0"] by (cases xs; cases ys) auto
  qed
qed

lemma push_free_keeps:
  assumes c: "chain s (as @ x # bs)" and x: "cap_at s x \<noteq> NullCap"
    and ok: "task_ok s (slot_task s x)" and f: "free_list s (slot_task s x) xs"
  obtains s' where "push_free_slots (slot_task s x) x s = Some s'" "chain s' (as @ bs)"
    "cap_at s' = (cap_at s)(x := NullCap)" "same_but_pool (slot_task s x) s s'"
    "\<And>u us. free_list s u us \<Longrightarrow> free_list s' u (if u = slot_task s x then x # us else us)"
    "links_outside (set (as @ x # bs) \<union> set xs) s s'"
proof -
  let ?t = "slot_task s x"
  from push_free_slots_chain [OF c f free_list_not_null [OF f x] ok refl]
  obtain s' where s': "push_free_slots ?t x s = Some s'" "free_list s' ?t (x # xs)"
    "chain s' (as @ bs)" "cap_at s' = (cap_at s)(x := NullCap)" "same_but_pool ?t s s'"
    "links_outside (set (as @ x # bs) \<union> set xs) s s'" .
  note d = same_but_poolD [OF s'(5)] same_but_pool_ok [OF s'(5)]
  have "free_list s' u (if u = ?t then x # us else us)" if u: "free_list s u us" for u us
  proof (cases "u = ?t")
    case True
    then show ?thesis using s'(2) free_list_unique [OF f, of us] u by simp
  next
    case False
    have "set (as @ x # bs) \<inter> set us = {}" "set xs \<inter> set us = {}" "x \<notin> set us"
      using free_list_other_chain [OF u c free_list_not_null [OF u x]] free_list_other_task [OF f u] False by auto
    then have "free_list s' u us"
      using s'(4) d(16) [OF False] d(17) by (intro free_list_keep [OF u s'(6)]) auto
    then show ?thesis using False by simp
  qed
  with s' that show ?thesis by blast
qed

text \<open>What releasing slots leaves alone besides.\<close>

definition quiet :: "kstate \<Rightarrow> kstate \<Rightarrow> bool" where
  "quiet s s' \<longleftrightarrow> slot_task s' = slot_task s \<and> endpoints s' = endpoints s \<and> current_tid s' = current_tid s \<and>
     errno s' = errno s \<and> (\<forall>u. t_lock (tasks s' u) = t_lock (tasks s u) \<and> t_state (tasks s' u) = t_state (tasks s u))"

lemma quiet_refl [simp]: "quiet s s"
  by (simp add: quiet_def)

lemma quiet_trans: "quiet s t \<Longrightarrow> quiet t u \<Longrightarrow> quiet s u"
  by (simp add: quiet_def)

lemma quiet_pool: "same_but_pool t s s' \<Longrightarrow> quiet s s'"
  using same_but_poolD [of t s s'] same_but_pool_ok [of t s s'] by (simp add: quiet_def)

lemma quiet_set_cap [simp]: "quiet s (set_cap x c t) = quiet s t"
  by (simp add: quiet_def slot_task_def [abs_def])

text \<open>One round of the release loop.\<close>

lemma release_one:
  assumes c: "chain s (as @ x # bs)" and x: "cap_at s x \<noteq> NullCap" and T: "pools s T" "slot_task s x \<in> T"
  obtains r s1 s' where "erase_this x s = Some (r, s1)" "push_free_slots (slot_task s1 x) x s1 = Some s'"
    "chain s' (as @ bs)" "cap_at s' = (cap_at s)(x := NullCap)" "pools s' T" "slot_task s' = slot_task s"
    "is_free s' x" "\<And>z. is_free s z \<Longrightarrow> is_free s' z" "quiet s s'"
proof -
  let ?t = "slot_task s x"
  obtain xs where f: "free_list s ?t xs" and ok: "task_ok s ?t" using T by (auto simp: pools_def)
  have "slot_ok s x" using ok by (simp add: slot_ok_task)
  from erase_this_chain [OF c this]
  obtain s1 where s1: "erase_this x s = Some (hd0 bs (last0 0 as), s1)" "chain s1 (as @ bs)" "chain s1 [x]"
    "same_but_links s s1" "links_outside (set (as @ x # bs)) s s1" .
  note l1 = same_but_linksD [OF s1(4)] and ok1 = same_but_pool_ok [OF same_but_links_pool [OF s1(4), of ?t]]
  have keep1: "free_list s1 u us" if "free_list s u us" for u us
    using free_list_other_chain [OF that c free_list_not_null [OF that x]] l1 ok1
    by (intro free_list_keep [OF that s1(5)]) auto
  have c1: "chain s1 ([] @ x # [])" using s1(3) by simp
  from push_free_keeps [OF c1, of xs] x l1(1) ok ok1 keep1 [OF f]
  obtain s' where s': "push_free_slots (slot_task s1 x) x s1 = Some s'"
    "cap_at s' = (cap_at s1)(x := NullCap)" "same_but_pool ?t s1 s'"
    "\<And>u us. free_list s1 u us \<Longrightarrow> free_list s' u (if u = ?t then x # us else us)"
    "links_outside ({x} \<union> set xs) s1 s'" by (metis append_Nil list.set(1,2))
  note ok2 = same_but_pool_ok [OF s'(3)]
  have fl: "free_list s' u (if u = ?t then x # us else us)" if "free_list s u us" for u us
    by (rule s'(4) [OF keep1 [OF that]])
  have "set (as @ bs) \<inter> ({x} \<union> set xs) = {}"
    using free_list_other_chain [OF f c free_list_not_null [OF f x]] chain_distinct [OF c] by auto
  then have "chain s' (as @ bs)" using links_outside_chain [OF s'(5) s1(2)] by blast
  moreover have "pools s' T"
    using T(1) fl ok2(4) ok1(4) unfolding pools_def by metis
  moreover have st: "slot_task s' = slot_task s" using ok1 ok2 by simp
  moreover have "is_free s' x" using fl [OF f] st by (auto simp: is_free_def)
  moreover have "is_free s' z" if "is_free s z" for z
    using that fl st by (fastforce simp: is_free_def)
  moreover have "quiet s s'" using quiet_trans quiet_pool same_but_links_pool [OF s1(4)] s'(3) by blast
  ultimately show ?thesis using that s1(1) s'(1,2) l1(1) by simp
qed

lemma release_back_all:
  assumes "chain s (as @ x # zs @ bs)" "\<forall>z\<in>set zs. cap_at s z \<noteq> NullCap \<and> slot_task s z \<in> T" "pools s T"
  shows "\<exists>s'. release_back x (last0 x zs) s = Some s' \<and> chain s' (as @ x # bs) \<and> pools s' T \<and>
    cap_at s' = (\<lambda>a. if a \<in> set zs then NullCap else cap_at s a) \<and> slot_task s' = slot_task s \<and>
    (\<forall>z\<in>set zs. is_free s' z) \<and> quiet s s' \<and> (\<forall>z. is_free s z \<longrightarrow> is_free s' z)"
  using assms
proof (induction zs arbitrary: s bs rule: rev_induct)
  case Nil
  then show ?case by (simp add: release_back.simps)
next
  case (snoc z zs)
  have c: "chain s ((as @ x # zs) @ z # bs)" using snoc.prems(1) by simp
  have z: "z \<noteq> 0" "z \<noteq> x" "prv s z = last0 x zs" "z \<notin> set zs"
    using chain_null [OF c] chain_distinct [OF c] chain_prev [OF c] by auto
  from release_one [OF c _ snoc.prems(3)] snoc.prems(2)
  obtain r s1 s2 where s2: "erase_this z s = Some (r, s1)" "push_free_slots (slot_task s1 z) z s1 = Some s2"
    "chain s2 (as @ x # zs @ bs)" "cap_at s2 = (cap_at s)(z := NullCap)" "pools s2 T" "slot_task s2 = slot_task s"
    "is_free s2 z" "\<And>z. is_free s z \<Longrightarrow> is_free s2 z" "quiet s s2" by auto
  have pre: "\<forall>u\<in>set zs. cap_at s2 u \<noteq> NullCap \<and> slot_task s2 u \<in> T"
    using snoc.prems(2) s2(4,6) z(4) by auto
  have step: "release_back x (last0 x (zs @ [z])) s = release_back x (last0 x zs) s2"
    using z s2(1,2) by (simp add: release_back.simps [of x z s])
  from snoc.IH [OF s2(3) pre s2(5)] obtain s' where s': "release_back x (last0 x zs) s2 = Some s'"
    "chain s' (as @ x # bs)" "pools s' T" "cap_at s' = (\<lambda>a. if a \<in> set zs then NullCap else cap_at s2 a)"
    "slot_task s' = slot_task s2" "\<forall>z\<in>set zs. is_free s' z" "quiet s2 s'"
    "\<forall>z. is_free s2 z \<longrightarrow> is_free s' z" by blast
  have "cap_at s' = (\<lambda>a. if a \<in> set (zs @ [z]) then NullCap else cap_at s a)"
    using s'(4) s2(4) by (auto simp: fun_eq_iff)
  moreover have "quiet s s'" by (rule quiet_trans [OF s2(9) s'(7)])
  ultimately show ?case using s' s2 step by simp
qed

lemma skip_zombies_chain:
  assumes "dlseg (nxt s) (prv s) p (zs @ y # bs) 0" "\<forall>z\<in>set zs. cap_at s z = ZombieCap" "cap_at s y \<noteq> ZombieCap"
  shows "skip_zombies (hd0 (zs @ [y]) 0) s = Some y"
  using assms
proof (induction zs arbitrary: p)
  case Nil
  then show ?case by (simp add: skip_zombies.simps)
next
  case (Cons z zs)
  then have "nxt s z = hd0 (zs @ [y]) 0" "z \<noteq> 0" by (cases zs; simp)+
  moreover have "skip_zombies (hd0 (zs @ [y]) 0) s = Some y" using Cons by auto
  ultimately show ?case using Cons.prems(2) by (simp add: skip_zombies.simps [of z])
qed

lemma set_cap_free:
  assumes "cap_at s x \<noteq> NullCap"
  shows "free_list s t xs \<Longrightarrow> free_list (set_cap x c s) t xs"
  using free_list_not_null [OF _ assms] by (auto simp: free_list_def)

lemma revoke_zombie_restores:
  assumes c: "chain s (as @ x # zs @ y # bs)" and z: "\<forall>z\<in>set (x # zs). cap_at s z = ZombieCap"
    and y: "cap_at s y \<noteq> ZombieCap" "cap_at s y \<noteq> NullCap"
    and T: "pools s T" "\<forall>z\<in>set (zs @ [y]). slot_task s z \<in> T"
  obtains s' where "revoke_zombie x s = Some s'" "chain s' (as @ x # bs)" "quiet s s'"
    "cap_at s' = (\<lambda>a. if a \<in> set (zs @ [y]) then NullCap else cap_at s a)(x := cap_at s y)"
    "\<forall>z\<in>set (zs @ [y]). is_free s' z" "pools s' T"
proof -
  have seg: "dlseg (nxt s) (prv s) x (zs @ y # bs) 0" "nxt s x = hd0 (zs @ [y]) 0"
    using c chain_next [OF c] by (cases zs; auto simp: chain_def dchain_split)+
  have x: "x \<notin> set (zs @ [y])" using chain_distinct [OF c] by auto
  have sk: "skip_zombies (nxt s x) s = Some y"
    unfolding seg(2) using z by (intro skip_zombies_chain [OF seg(1) _ y(1)]) simp
  have c': "chain s (as @ x # (zs @ [y]) @ bs)" using c by simp
  have pre: "\<forall>u\<in>set (zs @ [y]). cap_at s u \<noteq> NullCap \<and> slot_task s u \<in> T"
    using z y T(2) by auto
  from release_back_all [OF c' pre T(1)] obtain s1 where s1: "release_back x y s = Some s1"
    "chain s1 (as @ x # bs)" "cap_at s1 = (\<lambda>a. if a \<in> set (zs @ [y]) then NullCap else cap_at s a)"
    "pools s1 T" "\<forall>z\<in>set (zs @ [y]). is_free s1 z" "quiet s s1" by auto
  have "cap_at s1 x \<noteq> NullCap" using s1(3) x z by simp
  then have "\<forall>z\<in>set (zs @ [y]). is_free (set_cap x (cap_at s y) s1) z"
    using s1(5) set_cap_free by (fastforce simp: is_free_def)
  moreover have "pools (set_cap x (cap_at s y) s1) T"
    using s1(4) set_cap_free [OF \<open>cap_at s1 x \<noteq> NullCap\<close>] by (fastforce simp: pools_def task_ok_def)
  ultimately show ?thesis using that [of "set_cap x (cap_at s y) s1"] s1 sk by (simp add: revoke_zombie_def)
qed

end
