(* ===== verification/Ipc.thy ===== *)
theory Ipc
  imports Sched User_Memory Cap_Derive
begin

text \<open>
  Message passing (\<^verbatim>\<open>src/kernel/ipc.cpp\<close>): sending, receiving, replying, calling and cancelling on an
  endpoint, the kill notification, and the copy of a message with its capabilities. The
  operations that may switch tasks are resumptions; the endpoint lock is taken and released in
  the state where a switch happens under it.

  \<^verbatim>\<open>message_header\<close> belongs to libcaprese. Its size, the places of its fields and its constants are the
  parameter \<open>abi\<close>, a record of what the source uses of them; a header is the list of its bytes.
\<close>

subsection \<open>The message header\<close>

record msg_abi =
  header_size :: u64
  get_payload_length :: "byte list \<Rightarrow> u64"
  get_payload_capacity :: "byte list \<Rightarrow> u64"
  get_data_type_map :: "byte list \<Rightarrow> nat \<Rightarrow> u64"
  set_payload_length :: "u64 \<Rightarrow> byte list \<Rightarrow> byte list"
  set_data_type_map :: "nat \<Rightarrow> u64 \<Rightarrow> byte list \<Rightarrow> byte list"
  set_msg_type :: "u64 \<Rightarrow> byte list \<Rightarrow> byte list"
  set_sender_id :: "tid_t \<Rightarrow> byte list \<Rightarrow> byte list"
  set_receiver_id :: "tid_t \<Rightarrow> byte list \<Rightarrow> byte list"
  MSG_TYPE_IPC :: u64
  MSG_TYPE_KILL :: u64
  type_map_size :: nat
  type_map_xlen :: u64

text \<open>Bytes of a machine word, in the order RISC-V stores them.\<close>

definition word_bytes :: "u64 \<Rightarrow> byte list" where
  "word_bytes w = map (\<lambda>i. ucast (drop_bit (8 * i) w)) [0..<8]"

definition bytes_word :: "byte list \<Rightarrow> u64" where
  "bytes_word bs = foldr (\<lambda>b w. push_bit 8 w OR ucast b) bs 0"

definition short_msg_bytes :: "(nat \<Rightarrow> u64) \<Rightarrow> byte list" where
  "short_msg_bytes m = concat (map (\<lambda>i. word_bytes (m i)) [0..<6])"

definition ipc_long_msg :: "task_t \<Rightarrow> addr" where "ipc_long_msg t = t_ipc_msg t 0"

definition set_long_msg :: "addr \<Rightarrow> task_t \<Rightarrow> task_t" where
  "set_long_msg msg t = t\<lparr>t_ipc_msg := (t_ipc_msg t)(0 := msg)\<rparr>"

subsection \<open>Copying a message\<close>

text \<open>
  One word of the payload that the type map marks as a capability: it is looked up in the
  sender, delegated when the top bit of the word is set and transferred otherwise, and its new
  descriptor is written into the receiver's copy.
\<close>

definition ipc_transfer_cap :: "msg_abi \<Rightarrow> addr \<Rightarrow> addr \<Rightarrow> nat \<Rightarrow> kstate \<Rightarrow> (bool \<times> kstate) option" where
  "ipc_transfer_cap abi dst src i s = do {
     let off = header_size abi + 8 * of_nat i;
     r \<leftarrow> read_user_memory src (ipc_long_msg (tasks s src) + off) 8 s;
     case r of
       None \<Rightarrow> Some (False, s)
     | Some bs \<Rightarrow> do {
         let value = bytes_word bs;
         let cap_desc = drop_bit 1 (push_bit 1 value);
         let delegate = (cap_desc \<noteq> value);
         (src_slot, s) \<leftarrow> lookup_cap src cap_desc s;
         (dst_slot, s) \<leftarrow> (if delegate then delegate_cap dst src_slot s else transfer_cap dst src_slot s);
         if dst_slot = 0 then Some (False, s)
         else do {
           dst_cap_desc \<leftarrow> get_cap_slot_index dst_slot s;
           write_user_memory dst (word_bytes dst_cap_desc) (ipc_long_msg (tasks s dst) + off) 8 s
         }
       }
   }"

primrec ipc_transfer_caps ::
  "msg_abi \<Rightarrow> addr \<Rightarrow> addr \<Rightarrow> nat list \<Rightarrow> byte list \<Rightarrow> kstate \<Rightarrow> (bool \<times> byte list \<times> kstate) option" where
  "ipc_transfer_caps abi dst src [] src_header s = Some (True, src_header, s)"
| "ipc_transfer_caps abi dst src (i # is) src_header s = do {
     let xlen = unat (type_map_xlen abi);
     let j = i div xlen;
     let bit = push_bit (i mod xlen) 1;
     if get_data_type_map abi src_header j AND bit \<noteq> 0 then do {
       (ok, s) \<leftarrow> ipc_transfer_cap abi dst src i s;
       if \<not> ok then Some (False, src_header, s)
       else ipc_transfer_caps abi dst src is
         (set_data_type_map abi j (get_data_type_map abi src_header j AND NOT bit) src_header) s
     }
     else ipc_transfer_caps abi dst src is src_header s
   }"

definition payload_words :: "msg_abi \<Rightarrow> u64 \<Rightarrow> nat list" where
  "payload_words abi len = [0..<min (unat (len div 8)) (unat (type_map_xlen abi) * type_map_size abi)]"

text \<open>
  What the kernel knows of the source header: its length and type map, and for a long message
  the bytes it was read from. The other cases leave the rest of the local variable
  uninitialised and do not use it.
\<close>

definition read_src_header :: "msg_abi \<Rightarrow> addr \<Rightarrow> kstate \<Rightarrow> (u64 \<times> (nat \<Rightarrow> u64) \<times> byte list) option option" where
  "read_src_header abi src s =
     (case t_ipc_msg_state (tasks s src) of
        msg_empty \<Rightarrow> Some (Some (0, \<lambda>_. 0, []))
      | short_size \<Rightarrow> Some (Some (48, \<lambda>_. 0, []))
      | long_size \<Rightarrow> do {
          r \<leftarrow> read_user_memory src (ipc_long_msg (tasks s src)) (header_size abi) s;
          Some (map_option (\<lambda>h. (get_payload_length abi h, get_data_type_map abi h, h)) r)
        })"

definition fill_header :: "msg_abi \<Rightarrow> u64 \<Rightarrow> tid_t \<Rightarrow> tid_t \<Rightarrow> u64 \<Rightarrow> (nat \<Rightarrow> u64) \<Rightarrow> byte list \<Rightarrow> byte list" where
  "fill_header abi typ sender receiver len tmap h =
     fold (\<lambda>j. set_data_type_map abi j (tmap j)) [0..<type_map_size abi]
       (set_payload_length abi len (set_receiver_id abi receiver (set_sender_id abi sender (set_msg_type abi typ h))))"

text \<open>The second \<^verbatim>\<open>switch\<close> of \<^verbatim>\<open>ipc_transfer_ipc_msg\<close>: the payload and its capabilities.\<close>

definition ipc_transfer_payload ::
  "msg_abi \<Rightarrow> addr \<Rightarrow> addr \<Rightarrow> u64 \<Rightarrow> byte list \<Rightarrow> byte list \<Rightarrow> kstate \<Rightarrow> (bool \<times> kstate) option" where
  "ipc_transfer_payload abi dst src len src_header dst_header s =
     (case t_ipc_msg_state (tasks s src) of
        msg_empty \<Rightarrow> Some (True, s)
      | short_size \<Rightarrow>
          write_user_memory dst (short_msg_bytes (t_ipc_msg (tasks s src)))
            (ipc_long_msg (tasks s dst) + header_size abi) 48 s
      | long_size \<Rightarrow> do {
          (ok, s) \<leftarrow> forward_user_memory src dst (ipc_long_msg (tasks s src) + header_size abi)
            (ipc_long_msg (tasks s dst) + header_size abi) len s;
          if \<not> ok then Some (False, s)
          else do {
            (ok, src_header, s) \<leftarrow> ipc_transfer_caps abi dst src (payload_words abi len) src_header s;
            if \<not> ok then Some (False, s)
            else if \<exists>j<type_map_size abi. get_data_type_map abi src_header j \<noteq> get_data_type_map abi dst_header j
            then write_user_memory src src_header (ipc_long_msg (tasks s src)) (header_size abi) s
            else Some (True, s)
          }
        })"

definition ipc_transfer_ipc_msg :: "msg_abi \<Rightarrow> addr \<Rightarrow> addr \<Rightarrow> kstate \<Rightarrow> (bool \<times> kstate) option" where
  "ipc_transfer_ipc_msg abi dst src s = do {
     cassert (dst \<noteq> 0);
     cassert (src \<noteq> 0);
     cassert (t_ipc_msg_state (tasks s dst) = long_size);
     sh \<leftarrow> read_src_header abi src s;
     case sh of
       None \<Rightarrow> Some (False, s)
     | Some (len, tmap, src_header) \<Rightarrow> do {
         dh \<leftarrow> read_user_memory dst (ipc_long_msg (tasks s dst)) (header_size abi) s;
         case dh of
           None \<Rightarrow> Some (False, s)
         | Some h \<Rightarrow>
             if get_payload_capacity abi h < len then Some (False, s)
             else do {
               let h = fill_header abi (MSG_TYPE_IPC abi) (t_tid (tasks s src)) (t_tid (tasks s dst)) len tmap h;
               (ok, s) \<leftarrow> write_user_memory dst h (ipc_long_msg (tasks s dst)) (header_size abi) s;
               if \<not> ok then Some (False, s)
               else ipc_transfer_payload abi dst src len src_header h s
             }
       }
   }"

definition ipc_transfer_kill_msg :: "msg_abi \<Rightarrow> addr \<Rightarrow> addr \<Rightarrow> kstate \<Rightarrow> (bool \<times> kstate) option" where
  "ipc_transfer_kill_msg abi dst src s = do {
     cassert (dst \<noteq> 0);
     cassert (src \<noteq> 0);
     cassert (t_ipc_msg_state (tasks s dst) = long_size);
     dh \<leftarrow> read_user_memory dst (ipc_long_msg (tasks s dst)) (header_size abi) s;
     case dh of
       None \<Rightarrow> Some (False, s)
     | Some h \<Rightarrow> do {
         let h = set_data_type_map abi 1 0 (set_data_type_map abi 0 0
           (set_payload_length abi 0 (set_receiver_id abi (t_tid (tasks s dst))
             (set_sender_id abi (t_tid (tasks s src)) (set_msg_type abi (MSG_TYPE_KILL abi) h)))));
         (ok, s) \<leftarrow> write_user_memory dst h (ipc_long_msg (tasks s dst)) (header_size abi) s;
         if \<not> ok then Some (False, s)
         else Some (True, upd_task dst (\<lambda>t. t\<lparr>t_ipc_msg_state := msg_empty\<rparr>) s)
       }
   }"

subsection \<open>Operations\<close>

text \<open>
  The end of a blocking operation, when the task runs again; \<^verbatim>\<open>ipc_receive\<close> does not look at
  the event type.
\<close>

definition ipc_result :: "bool \<Rightarrow> addr \<Rightarrow> kstate \<Rightarrow> bool run" where
  "ipc_result check_event cur_task s =
     (let t = tasks s cur_task in
      rassert (t_ipc_state t = ipc_none \<or> t_ipc_state t = canceled)
       (rassert (check_event \<longrightarrow> t_event_type t = event_none)
        (rassert (t_ipc_msg_state t = msg_empty)
          (Done (t_ipc_state t = ipc_none)
            (if t_ipc_state t = canceled then s\<lparr>errno := SYS_E_CANCELED\<rparr> else s)))))"

definition assert_not_waiting :: "addr \<Rightarrow> kstate \<Rightarrow> unit option" where
  "assert_not_waiting t s = do {
     cassert (t_prev_waiting_task (tasks s t) = 0);
     cassert (t_next_waiting_task (tasks s t) = 0);
     cassert (t_callee_task (tasks s t) = 0)
   }"

text \<open>What a receiver that got its message is set to, and a sender that is done.\<close>

definition wake_receiver :: "addr \<Rightarrow> kstate \<Rightarrow> kstate" where
  "wake_receiver t = upd_task t (\<lambda>x. x\<lparr>t_state := ready, t_ipc_state := ipc_none,
     t_ipc_msg_state := msg_empty, t_endpoint := 0\<rparr>)"

definition wake_sender :: "addr \<Rightarrow> kstate \<Rightarrow> kstate" where
  "wake_sender t = upd_task t (\<lambda>x. x\<lparr>t_state := ready, t_ipc_state := ipc_none, t_event_type := event_none,
     t_ipc_msg_state := msg_empty, t_endpoint := 0\<rparr>)"

text \<open>The blocking ends of \<^verbatim>\<open>ipc_send_short\<close> and \<^verbatim>\<open>ipc_send_long\<close>, which agree.\<close>

definition block_sender :: "addr \<Rightarrow> addr \<Rightarrow> kstate \<Rightarrow> kstate option" where
  "block_sender endpoint cur_task s = do {
     let s = upd_task cur_task (\<lambda>x. x\<lparr>t_state := waiting, t_ipc_state := sending, t_event_type := event_send,
       t_endpoint := endpoint\<rparr>) s;
     s \<leftarrow> push_waiting_queue (sender_queue_of endpoint) cur_task s;
     unlock_endpoint endpoint s
   }"

definition receiver_head :: "kstate \<Rightarrow> addr \<Rightarrow> addr" where
  "receiver_head s e = q_head (ep_receiver_queue (endpoints s e))"

definition sender_head :: "kstate \<Rightarrow> addr \<Rightarrow> addr" where
  "sender_head s e = q_head (ep_sender_queue (endpoints s e))"

definition ipc_send_short :: "msg_abi \<Rightarrow> bool \<Rightarrow> addr \<Rightarrow> (nat \<Rightarrow> u64) \<Rightarrow> kstate \<Rightarrow> bool run" where
  "ipc_send_short abi blocking endpoint args s =
     (let cur_task = current_task s in
      rbind (lift_state (do {
        cassert (endpoint \<noteq> 0);
        assert_not_waiting cur_task s;
        let s = upd_task cur_task (\<lambda>x. x\<lparr>t_ipc_msg := args, t_ipc_msg_state := short_size\<rparr>) s;
        lock_endpoint endpoint s
      })) (\<lambda>_ s.
      let receiver = receiver_head s endpoint in
      if receiver \<noteq> 0 then
        rbind (lift_state (do {
          cassert (sender_head s endpoint = 0);
          guard_task receiver s;
          (_, s) \<leftarrow> ipc_transfer_ipc_msg abi receiver cur_task s;
          s \<leftarrow> remove_waiting_queue (receiver_queue_of endpoint) receiver s;
          Some (wake_receiver receiver s)
        })) (\<lambda>_ s.
        rbind (switch_task receiver s) (\<lambda>_ s.
        rbind (lift_state (unlock_endpoint endpoint s)) (\<lambda>_ s. Done True s)))
      else if \<not> blocking then
        rbind (lift_state (unlock_endpoint endpoint s)) (\<lambda>_ s. Done False (s\<lparr>errno := SYS_E_BLOCKED\<rparr>))
      else
        rbind (lift_state (block_sender endpoint cur_task s)) (\<lambda>_ s.
        rbind (resched s) (\<lambda>_ s. ipc_result True cur_task s))))"

definition ipc_send_long :: "msg_abi \<Rightarrow> bool \<Rightarrow> addr \<Rightarrow> addr \<Rightarrow> kstate \<Rightarrow> bool run" where
  "ipc_send_long abi blocking endpoint msg s =
     (let cur_task = current_task s in
      rbind (lift_state (do {
        cassert (endpoint \<noteq> 0);
        assert_not_waiting cur_task s;
        let s = upd_task cur_task (\<lambda>x. (set_long_msg msg x)\<lparr>t_ipc_msg_state := long_size\<rparr>) s;
        lock_endpoint endpoint s
      })) (\<lambda>_ s.
      let receiver = receiver_head s endpoint in
      if receiver \<noteq> 0 then
        rbind (lift_run (do {
          cassert (sender_head s endpoint = 0);
          guard_task receiver s;
          (ok, s) \<leftarrow> ipc_transfer_ipc_msg abi receiver cur_task s;
          if \<not> ok then do { s \<leftarrow> unlock_endpoint endpoint s; Some (False, s) }
          else do {
            s \<leftarrow> remove_waiting_queue (receiver_queue_of endpoint) receiver s;
            s \<leftarrow> unlock_endpoint endpoint (wake_receiver receiver s);
            Some (True, s)
          }
        })) (\<lambda>ok s.
        if \<not> ok then Done False s
        else rbind (switch_task receiver s) (\<lambda>_ s.
          rbind (lift_state (do { s \<leftarrow> lock_endpoint endpoint s; unlock_endpoint endpoint s })) (\<lambda>_ s. Done True s)))
      else if \<not> blocking then
        rbind (lift_state (unlock_endpoint endpoint s)) (\<lambda>_ s. Done False (s\<lparr>errno := SYS_E_BLOCKED\<rparr>))
      else
        rbind (lift_state (block_sender endpoint cur_task s)) (\<lambda>_ s.
        rbind (resched s) (\<lambda>_ s. ipc_result True cur_task s))))"

text \<open>\<^verbatim>\<open>ipc_receive\<close> first cancels a call that the task took and did not answer.\<close>

definition cancel_caller :: "addr \<Rightarrow> addr \<Rightarrow> kstate \<Rightarrow> kstate option" where
  "cancel_caller endpoint cur_task s = do {
     let caller = t_caller_task (tasks s cur_task);
     if caller = 0 then Some s
     else do {
       guard_task caller s;
       let t = tasks s caller;
       cassert (t_state t = waiting);
       cassert (t_ipc_state t = calling);
       cassert (t_event_type t = event_send);
       cassert (t_prev_waiting_task t = 0);
       cassert (t_next_waiting_task t = 0);
       cassert (t_callee_task t = cur_task);
       cassert (t_endpoint t = endpoint);
       let s = upd_task caller (\<lambda>x. x\<lparr>t_state := ready, t_ipc_state := canceled, t_event_type := event_none,
         t_ipc_msg_state := msg_empty, t_callee_task := 0, t_endpoint := 0\<rparr>) s;
       s \<leftarrow> push_ready_queue caller s;
       Some (upd_task cur_task (\<lambda>x. x\<lparr>t_caller_task := 0\<rparr>) s)
     }
   }"

text \<open>Taking the first sender: the result is \<open>False\<close> when its message can not be copied.\<close>

definition take_sender :: "msg_abi \<Rightarrow> addr \<Rightarrow> addr \<Rightarrow> addr \<Rightarrow> kstate \<Rightarrow> (bool \<times> kstate) option" where
  "take_sender abi endpoint cur_task sender s = do {
     cassert (receiver_head s endpoint = 0);
     guard_task sender s;
     cassert (t_callee_task (tasks s sender) = 0);
     s \<leftarrow> remove_waiting_queue (sender_queue_of endpoint) sender s;
     if t_event_type (tasks s sender) = event_send then do {
       (ok, s) \<leftarrow> ipc_transfer_ipc_msg abi cur_task sender s;
       if \<not> ok then Some (False, s)
       else if t_ipc_state (tasks s sender) = calling then do {
         cassert (t_state (tasks s sender) = waiting);
         cassert (t_event_type (tasks s sender) = event_send);
         Some (True, upd_task cur_task (\<lambda>x. x\<lparr>t_caller_task := sender\<rparr>)
           (upd_task sender (\<lambda>x. x\<lparr>t_callee_task := cur_task\<rparr>) s))
       }
       else Some (True, wake_sender sender s)
     }
     else if t_event_type (tasks s sender) = event_kill then do {
       (_, s) \<leftarrow> ipc_transfer_kill_msg abi cur_task sender s;
       Some (True, s)
     }
     else Some (True, s)
   }"

definition ipc_receive :: "msg_abi \<Rightarrow> bool \<Rightarrow> addr \<Rightarrow> addr \<Rightarrow> kstate \<Rightarrow> bool run" where
  "ipc_receive abi blocking endpoint msg s =
     (let cur_task = current_task s in
      rbind (lift_state (do {
        cassert (endpoint \<noteq> 0);
        assert_not_waiting cur_task s;
        let s = upd_task cur_task (\<lambda>x. (set_long_msg msg x)\<lparr>t_ipc_msg_state := long_size\<rparr>) s;
        s \<leftarrow> lock_endpoint endpoint s;
        cancel_caller endpoint cur_task s
      })) (\<lambda>_ s.
      let sender = sender_head s endpoint in
      if sender \<noteq> 0 then
        rbind (lift_run (do {
          (ok, s) \<leftarrow> take_sender abi endpoint cur_task sender s;
          s \<leftarrow> unlock_endpoint endpoint s;
          Some (ok, s)
        })) (\<lambda>ok s.
        if \<not> ok then Done False s
        else if t_state (tasks s sender) = ready then
          rbind (switch_task sender s) (\<lambda>_ s.
          rbind (lift_state (do { s \<leftarrow> lock_endpoint endpoint s; unlock_endpoint endpoint s })) (\<lambda>_ s. Done True s))
        else Done True s)
      else if \<not> blocking then
        rbind (lift_state (unlock_endpoint endpoint s)) (\<lambda>_ s. Done False (s\<lparr>errno := SYS_E_BLOCKED\<rparr>))
      else
        rbind (lift_state (do {
          let s = upd_task cur_task (\<lambda>x. x\<lparr>t_state := waiting, t_ipc_state := receiving, t_endpoint := endpoint\<rparr>) s;
          s \<leftarrow> push_waiting_queue (receiver_queue_of endpoint) cur_task s;
          unlock_endpoint endpoint s
        })) (\<lambda>_ s.
        rbind (resched s) (\<lambda>_ s. ipc_result False cur_task s))))"

definition ipc_reply :: "msg_abi \<Rightarrow> addr \<Rightarrow> addr \<Rightarrow> kstate \<Rightarrow> (bool \<times> kstate) option" where
  "ipc_reply abi endpoint msg s = do {
     guard_endpoint endpoint s;
     let cur_task = current_task s;
     let caller = t_caller_task (tasks s cur_task);
     if caller = 0 then Some (True, s)
     else do {
       let t = tasks s caller;
       cassert (t_callee_task t = cur_task);
       cassert (t_state t = waiting);
       cassert (t_ipc_state t = calling);
       cassert (t_event_type t = event_send);
       cassert (t_ipc_msg_state t = long_size);
       cassert (t_endpoint t = endpoint);
       let s = upd_task cur_task (\<lambda>x. (set_long_msg msg x)\<lparr>t_ipc_msg_state := long_size\<rparr>) s;
       guard_task caller s;
       (ok, s) \<leftarrow> ipc_transfer_ipc_msg abi caller cur_task s;
       if \<not> ok then Some (False, s)
       else do {
         let s = upd_task caller (\<lambda>x. x\<lparr>t_state := ready, t_ipc_state := ipc_none, t_event_type := event_none,
           t_ipc_msg_state := msg_empty, t_callee_task := 0, t_endpoint := 0\<rparr>) s;
         let s = upd_task cur_task (\<lambda>x. x\<lparr>t_caller_task := 0, t_ipc_msg_state := msg_empty\<rparr>) s;
         s \<leftarrow> push_ready_queue caller s;
         Some (True, s)
       }
     }
   }"

definition ipc_call :: "msg_abi \<Rightarrow> addr \<Rightarrow> addr \<Rightarrow> kstate \<Rightarrow> bool run" where
  "ipc_call abi endpoint msg s =
     (let cur_task = current_task s in
      rbind (lift_run (do {
        cassert (endpoint \<noteq> 0);
        let s = upd_task cur_task (\<lambda>x. (set_long_msg msg x)\<lparr>t_ipc_msg_state := long_size, t_state := waiting,
          t_ipc_state := calling, t_event_type := event_send, t_endpoint := endpoint\<rparr>) s;
        guard_endpoint endpoint s;
        let receiver = receiver_head s endpoint;
        if receiver \<noteq> 0 then do {
          cassert (sender_head s endpoint = 0);
          guard_task receiver s;
          (ok, s) \<leftarrow> ipc_transfer_ipc_msg abi receiver cur_task s;
          if \<not> ok then Some (False, s)
          else do {
            s \<leftarrow> remove_waiting_queue (receiver_queue_of endpoint) receiver s;
            let s = upd_task receiver (\<lambda>x. x\<lparr>t_state := ready, t_ipc_state := ipc_none,
              t_ipc_msg_state := msg_empty, t_caller_task := cur_task, t_endpoint := 0\<rparr>) s;
            let s = upd_task cur_task (\<lambda>x. x\<lparr>t_callee_task := receiver\<rparr>) s;
            s \<leftarrow> push_ready_queue receiver s;
            Some (True, s)
          }
        }
        else do {
          s \<leftarrow> push_waiting_queue (sender_queue_of endpoint) cur_task s;
          Some (True, s)
        }
      })) (\<lambda>ok s.
      if \<not> ok then Done False s
      else rbind (resched s) (\<lambda>_ s. ipc_result True cur_task s)))"

partial_function (option) cancel_receivers :: "addr \<Rightarrow> kstate \<Rightarrow> kstate option" where
  "cancel_receivers endpoint s =
     (let receiver = receiver_head s endpoint in
      if receiver = 0 then Some s
      else do {
        guard_task receiver s;
        s \<leftarrow> remove_waiting_queue (receiver_queue_of endpoint) receiver s;
        let s = upd_task receiver (\<lambda>x. x\<lparr>t_state := ready, t_ipc_state := canceled,
          t_ipc_msg_state := msg_empty, t_endpoint := 0\<rparr>) s;
        s \<leftarrow> push_ready_queue receiver s;
        cancel_receivers endpoint s
      })"

partial_function (option) cancel_senders :: "addr \<Rightarrow> kstate \<Rightarrow> kstate option" where
  "cancel_senders endpoint s =
     (let sender = sender_head s endpoint in
      if sender = 0 then Some s
      else do {
        guard_task sender s;
        s \<leftarrow> remove_waiting_queue (sender_queue_of endpoint) sender s;
        let s = upd_task sender (\<lambda>x. x\<lparr>t_state := ready, t_ipc_state := canceled, t_event_type := event_none,
          t_ipc_msg_state := msg_empty, t_endpoint := 0\<rparr>) s;
        s \<leftarrow> push_ready_queue sender s;
        cancel_senders endpoint s
      })"

definition ipc_cancel :: "addr \<Rightarrow> kstate \<Rightarrow> kstate option" where
  "ipc_cancel endpoint s = do {
     guard_endpoint endpoint s;
     s \<leftarrow> cancel_receivers endpoint s;
     cancel_senders endpoint s
   }"

definition ipc_send_kill_notify :: "msg_abi \<Rightarrow> addr \<Rightarrow> addr \<Rightarrow> kstate \<Rightarrow> unit run" where
  "ipc_send_kill_notify abi endpoint task s =
     rbind (lift_state (do {
       cassert (endpoint \<noteq> 0);
       cassert (task \<noteq> 0);
       cassert (t_state (tasks s task) = killed);
       guard_endpoint endpoint s;
       let receiver = receiver_head s endpoint;
       if receiver \<noteq> 0 then do {
         cassert (sender_head s endpoint = 0);
         guard_task receiver s;
         (_, s) \<leftarrow> ipc_transfer_kill_msg abi receiver task s;
         s \<leftarrow> remove_waiting_queue (receiver_queue_of endpoint) receiver s;
         push_ready_queue receiver (wake_receiver receiver s)
       }
       else do {
         let s = upd_task task (\<lambda>x. x\<lparr>t_ipc_state := sending, t_event_type := event_kill, t_endpoint := endpoint\<rparr>) s;
         push_waiting_queue (sender_queue_of endpoint) task s
       }
     })) (\<lambda>_ s. resched s)"

lemma bind_SomeE:
  assumes "Option.bind m f = Some y"
  obtains x where "m = Some x" "f x = Some y"
  using assms by (cases m) auto

subsection \<open>What a message copy changes\<close>

text \<open>
  Copying a message, its capabilities included, touches slots, memory, \<^verbatim>\<open>errno\<close> and the free
  lists of tasks, and nothing else: states agree once these are blanked out.
\<close>

definition blank_msg :: "kstate \<Rightarrow> kstate" where
  "blank_msg s = s\<lparr>slots := (\<lambda>_. zero_slot), mem := (\<lambda>_. 0), errno := SYS_S_OK,
     tasks := (\<lambda>t. (tasks s t)\<lparr>t_free_slots := 0, t_free_slots_count := 0\<rparr>)\<rparr>"

definition same_but_msg :: "kstate \<Rightarrow> kstate \<Rightarrow> bool" where
  "same_but_msg s s' \<longleftrightarrow> blank_msg s' = blank_msg s"

lemma same_but_msg_refl [simp]: "same_but_msg s s"
  by (simp add: same_but_msg_def)

lemma same_but_msg_trans: "same_but_msg s s' \<Longrightarrow> same_but_msg s' s'' \<Longrightarrow> same_but_msg s s''"
  by (simp add: same_but_msg_def)

lemma blank_msg_simps [simp]:
  "blank_msg (set_cap a c s) = blank_msg s" "blank_msg (set_nxt a v s) = blank_msg s"
  "blank_msg (set_prv a v s) = blank_msg s" "blank_msg (s\<lparr>errno := e\<rparr>) = blank_msg s"
  "blank_msg (s\<lparr>mem := m\<rparr>) = blank_msg s" "blank_msg (store_bytes p bs s) = blank_msg s"
  "blank_msg (upd_task t (\<lambda>x. x\<lparr>t_free_slots := f x, t_free_slots_count := n x\<rparr>) s) = blank_msg s"
  by (auto simp: blank_msg_def set_cap_def set_nxt_def set_prv_def store_bytes_def upd_task_def fun_eq_iff)

lemma blank_links:
  "insert_before x y s = Some s' \<Longrightarrow> blank_msg s' = blank_msg s"
  "insert_after x y s = Some s' \<Longrightarrow> blank_msg s' = blank_msg s"
  "erase_this x s = Some (r, s') \<Longrightarrow> blank_msg s' = blank_msg s"
  "replace x y s = Some s' \<Longrightarrow> blank_msg s' = blank_msg s"
  by (auto simp: insert_before_def insert_after_def erase_this_def replace_def bind_Some_iff split: if_splits)

lemma blank_pools:
  "push_free_slots t x s = Some s' \<Longrightarrow> blank_msg s' = blank_msg s"
  "pop_free_slots t s = Some (r, s') \<Longrightarrow> blank_msg s' = blank_msg s"
  "insert_cap t c s = Some (r, s') \<Longrightarrow> blank_msg s' = blank_msg s"
proof -
  show push: "push_free_slots t x s = Some s' \<Longrightarrow> blank_msg s' = blank_msg s"
    by (auto simp: push_free_slots_def bind_Some_iff dest!: blank_links split: if_splits)
  show pop: "pop_free_slots t s = Some (r, s') \<Longrightarrow> blank_msg s' = blank_msg s" for r s s'
    by (auto simp: pop_free_slots_def bind_Some_iff dest!: blank_links split: if_splits)
  show "insert_cap t c s = Some (r, s') \<Longrightarrow> blank_msg s' = blank_msg s"
    by (auto simp: insert_cap_def bind_Some_iff dest!: pop split: if_splits)
qed

lemma blank_caps:
  "lookup_cap t d s = Some (r, s') \<Longrightarrow> blank_msg s' = blank_msg s"
  "transfer_cap t x s = Some (r, s') \<Longrightarrow> blank_msg s' = blank_msg s"
  "delegate_cap t x s = Some (r, s') \<Longrightarrow> blank_msg s' = blank_msg s"
  by (auto simp: lookup_cap_def transfer_cap_def delegate_cap_def bind_Some_iff
      dest!: blank_pools blank_links split: if_splits option.splits)

definition only_mem :: "kstate \<Rightarrow> kstate \<Rightarrow> bool" where
  "only_mem s s' \<longleftrightarrow> (\<exists>m. s' = s\<lparr>mem := m\<rparr>)"

lemma only_mem_refl [simp]: "only_mem s s"
  by (auto simp: only_mem_def intro: exI [of _ "mem s"])

lemma only_mem_store: "only_mem (store_bytes p bs s) s' \<Longrightarrow> only_mem s s'"
  by (auto simp: only_mem_def store_bytes_def)

lemma only_mem_trans: "only_mem s s' \<Longrightarrow> only_mem s' s'' \<Longrightarrow> only_mem s s''"
  by (auto simp: only_mem_def)

lemma only_mem_blank: "only_mem s s' \<Longrightarrow> blank_msg s' = blank_msg s"
  by (auto simp: only_mem_def)

lemma write_loop_mem:
  assumes "write_loop t src dst sz pos s = Some r"
  shows "only_mem s (snd r)"
proof (rule write_loop.raw_induct [OF _ assms], goal_cases)
  case (1 f t src dst sz pos s r)
  show ?case using 1(2)
    by (auto simp: bind_Some_iff split: if_splits option.splits intro: only_mem_store [OF 1(1)])
qed

lemma forward_loop_mem:
  assumes "forward_loop t u src dst sz pos s = Some r"
  shows "only_mem s (snd r)"
proof (rule forward_loop.raw_induct [OF _ assms], goal_cases)
  case (1 f t u src dst sz pos s r)
  show ?case using 1(2)
    by (auto elim!: bind_SomeE split: if_splits option.splits prod.splits) (rule only_mem_store, erule 1(1))
qed

lemma user_memory_mem:
  "write_user_memory t src dst sz s = Some (ok, s') \<Longrightarrow> only_mem s s'"
  "forward_user_memory t u a b sz s = Some (ok, s') \<Longrightarrow> only_mem s s'"
  using write_loop_mem [of t src dst sz 0 s] forward_loop_mem [of t u a b sz 0 s]
  by (auto simp: write_user_memory_def forward_user_memory_def)

lemmas user_memory_blank = user_memory_mem [THEN only_mem_blank]

lemma ipc_transfer_cap_blank:
  "ipc_transfer_cap abi dst src i s = Some (ok, s') \<Longrightarrow> blank_msg s' = blank_msg s"
  by (auto simp: ipc_transfer_cap_def bind_Some_iff
      dest!: blank_caps user_memory_blank split: if_splits option.splits)

lemma ipc_transfer_caps_blank:
  "ipc_transfer_caps abi dst src is h s = Some (ok, h', s') \<Longrightarrow> blank_msg s' = blank_msg s"
  by (induction "is" arbitrary: h s) (auto simp: bind_Some_iff dest!: ipc_transfer_cap_blank split: if_splits)

lemma ipc_transfer_payload_blank:
  "ipc_transfer_payload abi dst src len h h' s = Some (ok, s') \<Longrightarrow> blank_msg s' = blank_msg s"
  by (cases "t_ipc_msg_state (tasks s src)") (auto simp: ipc_transfer_payload_def bind_Some_iff split: if_splits
      dest!: ipc_transfer_caps_blank user_memory_blank)

lemma ipc_transfer_blank:
  "ipc_transfer_ipc_msg abi dst src s = Some (ok, s') \<Longrightarrow> blank_msg s' = blank_msg s"
  unfolding ipc_transfer_ipc_msg_def
  by (auto elim!: bind_SomeE split: if_splits option.splits prod.splits
      dest!: ipc_transfer_payload_blank user_memory_blank)

lemma only_mem_tasks: "only_mem s s' \<Longrightarrow> tasks s' = tasks s" "only_mem s s' \<Longrightarrow> tables s' = tables s"
  by (auto simp: only_mem_def)

text \<open>The copy of a short message: the header, then six words behind it.\<close>

definition transfer_short :: "msg_abi \<Rightarrow> addr \<Rightarrow> addr \<Rightarrow> kstate \<Rightarrow> (bool \<times> kstate) option" where
  "transfer_short abi dst src s = do {
     let msg = ipc_long_msg (tasks s dst);
     dh \<leftarrow> read_user_memory dst msg (header_size abi) s;
     case dh of
       None \<Rightarrow> Some (False, s)
     | Some h \<Rightarrow>
         if get_payload_capacity abi h < 48 then Some (False, s)
         else do {
           (ok, s1) \<leftarrow> write_user_memory dst (fill_header abi (MSG_TYPE_IPC abi) (t_tid (tasks s src))
             (t_tid (tasks s dst)) 48 (\<lambda>_. 0) h) msg (header_size abi) s;
           if \<not> ok then Some (False, s1)
           else write_user_memory dst (short_msg_bytes (t_ipc_msg (tasks s src))) (msg + header_size abi) 48 s1
         }
   }"

lemma ipc_transfer_short:
  assumes "t_ipc_msg_state (tasks s src) = short_size"
  shows "ipc_transfer_ipc_msg abi dst src s =
    (if dst \<noteq> 0 \<and> src \<noteq> 0 \<and> t_ipc_msg_state (tasks s dst) = long_size then transfer_short abi dst src s else None)"
proof -
  let ?h = "\<lambda>h. fill_header abi (MSG_TYPE_IPC abi) (t_tid (tasks s src)) (t_tid (tasks s dst)) 48 (\<lambda>_. 0) h"
  have w: "(if \<not> ok then Some (False, s1) else ipc_transfer_payload abi dst src 48 [] (?h h) s1) =
      (if \<not> ok then Some (False, s1)
       else write_user_memory dst (short_msg_bytes (t_ipc_msg (tasks s src))) (ipc_long_msg (tasks s dst) + header_size abi) 48 s1)"
    if "write_user_memory dst (?h h) (ipc_long_msg (tasks s dst)) (header_size abi) s = Some (ok, s1)" for h ok s1
    using only_mem_tasks(1) [OF user_memory_mem(1) [OF that]] assms by (simp add: ipc_transfer_payload_def)
  have "read_src_header abi src s = Some (Some (48, \<lambda>_. 0, []))" using assms by (simp add: read_src_header_def)
  then show ?thesis
    by (auto simp: ipc_transfer_ipc_msg_def transfer_short_def intro!: Option.bind_cong w split: option.split)
qed

lemma transfer_short_mem: "transfer_short abi dst src s = Some (ok, s') \<Longrightarrow> only_mem s s'"
  by (auto simp: transfer_short_def bind_Some_iff split: option.splits if_splits
      dest!: user_memory_mem dest: only_mem_trans)

subsection \<open>Delivery of a short message\<close>

lemma length_short_msg: "length (short_msg_bytes m) = 48"
  by (simp add: short_msg_bytes_def length_concat word_bytes_def comp_def sum_list_triv)

lemma user_addr_offset: "user_addr s t (va + a + of_nat i) = user_addr s t (va + of_nat (unat a + i))"
  by (simp add: add.assoc)

lemma mapped_offset: "mapped s t (va + a) 0 n = mapped s t va (unat a) (unat a + n)"
proof -
  have "{unat a..<unat a + n} = (+) (unat a) ` {0..<n}" by (simp add: add.commute)
  then show ?thesis by (simp only: mapped_def user_addr_offset ball_simps)
qed

lemma phys_offset: "phys s t (va + a) i = phys s t va (unat a + i)"
  by (simp only: phys_def user_addr_offset)

text \<open>
  A receiver that can take a short message: the buffer it gave is mapped for it, each address to
  its own byte, and the header in it announces room for the six words. The header functions
  of the interface keep the size of a header.
\<close>

definition header_ok :: "msg_abi \<Rightarrow> bool" where
  "header_ok abi \<longleftrightarrow> (\<forall>typ sender receiver len tmap h. length h = unat (header_size abi) \<longrightarrow>
     length (fill_header abi typ sender receiver len tmap h) = unat (header_size abi))"

definition buffer_ok :: "msg_abi \<Rightarrow> addr \<Rightarrow> kstate \<Rightarrow> bool" where
  "buffer_ok abi r s \<longleftrightarrow>
     (let msg = ipc_long_msg (tasks s r); n = unat (header_size abi) + 48 in
      has_tables s r \<and> unat msg + n \<le> 2 ^ 38 \<and> mapped s r msg 0 n \<and> inj_on (phys s r msg) {0..<n} \<and>
      \<not> get_payload_capacity abi (map (\<lambda>i. mem s (phys s r msg i)) [0..<unat (header_size abi)]) < 48)"

lemma transfer_short_delivers:
  assumes "header_ok abi" "buffer_ok abi r s"
  obtains m where "transfer_short abi r c s = Some (True, s\<lparr>mem := m\<rparr>)"
    "read_user_memory r (ipc_long_msg (tasks s r) + header_size abi) 48 (s\<lparr>mem := m\<rparr>) =
       Some (Some (short_msg_bytes (t_ipc_msg (tasks s c))))"
proof -
  let ?msg = "ipc_long_msg (tasks s r)" and ?h = "unat (header_size abi)"
  let ?H = "map (\<lambda>i. mem s (phys s r ?msg i)) [0..<?h]"
  let ?F = "fill_header abi (MSG_TYPE_IPC abi) (t_tid (tasks s c)) (t_tid (tasks s r)) 48 (\<lambda>_. 0) ?H"
  have b: "has_tables s r" "unat ?msg + (?h + 48) \<le> 2 ^ 38" "mapped s r ?msg 0 (?h + 48)"
    "inj_on (phys s r ?msg) {0..<?h + 48}" "\<not> get_payload_capacity abi ?H < 48"
    using assms(2) by (simp_all add: buffer_ok_def Let_def)
  have m: "mapped s r ?msg 0 ?h" "mapped s r ?msg ?h (?h + 48)" using b(3) mapped_split [of 0 ?h "?h + 48" s r ?msg] by simp_all
  have rd: "read_user_memory r ?msg (header_size abi) s = Some (Some ?H)"
    using read_loop_spec [OF b(1), of ?msg "header_size abi" 0] b(2) m(1) by (simp add: read_user_memory_def)
  have "length ?F = ?h" using assms(1) by (simp add: header_ok_def)
  then obtain m1 where w1: "write_user_memory r ?F ?msg (header_size abi) s = Some (True, s\<lparr>mem := m1\<rparr>)"
    using write_then_read [OF b(1), of ?msg "header_size abi" ?F] b(2) m(1) inj_on_subset [OF b(4), of "{0..<?h}"] by auto
  let ?s1 = "s\<lparr>mem := m1\<rparr>"
  have t1: "has_tables ?s1 r" using b(1) by (simp add: has_tables_def)
  have hu: "unat (?msg + header_size abi) = unat ?msg + ?h" using b(2) by (simp add: unat_word_ariths)
  have "inj_on (\<lambda>i. phys s r ?msg (?h + i)) {0..<48}"
    by (rule inj_onI) (use inj_onD [OF b(4)] in force)
  then have i1: "inj_on (phys ?s1 r (?msg + header_size abi)) {0..<48}"
    by (simp only: phys_mem phys_offset [abs_def])
  have m1: "mapped ?s1 r (?msg + header_size abi) 0 48" using m(2) by (simp only: mapped_mem mapped_offset)
  from write_then_read [OF t1, of "?msg + header_size abi" 48 "short_msg_bytes (t_ipc_msg (tasks s c))"]
  obtain m2 where w2: "write_user_memory r (short_msg_bytes (t_ipc_msg (tasks s c))) (?msg + header_size abi) 48 ?s1 =
      Some (True, ?s1\<lparr>mem := m2\<rparr>)"
    "read_user_memory r (?msg + header_size abi) 48 (?s1\<lparr>mem := m2\<rparr>) = Some (Some (short_msg_bytes (t_ipc_msg (tasks s c))))"
    using i1 m1 hu b(2) unfolding length_short_msg by fastforce
  have "transfer_short abi r c s = Some (True, s\<lparr>mem := m2\<rparr>)"
    using rd b(5) w1 w2(1) by (simp add: transfer_short_def)
  then show ?thesis using that w2(2) by simp
qed

subsection \<open>Rendezvous\<close>

lemma upd_task_links [simp]:
  "(\<And>x. t_next_ready_task (f x) = t_next_ready_task x) \<Longrightarrow> rnext (upd_task t f s) = rnext s"
  "(\<And>x. t_prev_ready_task (f x) = t_prev_ready_task x) \<Longrightarrow> rprev (upd_task t f s) = rprev s"
  "(\<And>x. t_next_waiting_task (f x) = t_next_waiting_task x) \<Longrightarrow> wnext (upd_task t f s) = wnext s"
  "(\<And>x. t_prev_waiting_task (f x) = t_prev_waiting_task x) \<Longrightarrow> wprev (upd_task t f s) = wprev s"
  by (simp_all add: rnext_def rprev_def wnext_def wprev_def fun_eq_iff)

lemma other_links [simp]:
  "rnext (upd_endpoint e g s) = rnext s" "rprev (upd_endpoint e g s) = rprev s"
  "wnext (upd_endpoint e g s) = wnext s" "wprev (upd_endpoint e g s) = wprev s"
  "rnext (s\<lparr>mem := m\<rparr>) = rnext s" "rprev (s\<lparr>mem := m\<rparr>) = rprev s"
  "wnext (s\<lparr>mem := m\<rparr>) = wnext s" "wprev (s\<lparr>mem := m\<rparr>) = wprev s"
  by (simp_all add: rnext_def rprev_def wnext_def wprev_def fun_eq_iff)

lemma lock_queue [simp]:
  "get_queue q (upd_endpoint e (\<lambda>x. x\<lparr>ep_lock := l\<rparr>) s) = get_queue q s"
  "get_queue q (s\<lparr>mem := m\<rparr>) = get_queue q s"
  by (cases q; simp)+

lemma set_queue_frame [simp]:
  "tables (set_queue q v s) = tables s" "mem (set_queue q v s) = mem s" "ready_queue (set_queue q v s) = ready_queue s"
  "current_task (set_queue q v s) = current_task s" "idle_task (set_queue q v s) = idle_task s"
  "ep_lock (endpoints (set_queue q v s) e) = ep_lock (endpoints s e)" "errno (set_queue q v s) = errno s"
  "slots (set_queue q v s) = slots s"
  by (cases q; auto)+

lemma waiting_links_frame [simp]:
  "tables (set_wnext a v s) = tables s" "tables (set_wprev a v s) = tables s"
  "mem (set_wnext a v s) = mem s" "mem (set_wprev a v s) = mem s"
  "ready_queue (set_wnext a v s) = ready_queue s" "ready_queue (set_wprev a v s) = ready_queue s"
  "current_task (set_wnext a v s) = current_task s" "current_task (set_wprev a v s) = current_task s"
  "idle_task (set_wnext a v s) = idle_task s" "idle_task (set_wprev a v s) = idle_task s"
  "endpoints (set_wnext a v s) = endpoints s" "endpoints (set_wprev a v s) = endpoints s"
  "rnext (set_wnext a v s) = rnext s" "rnext (set_wprev a v s) = rnext s"
  "rprev (set_wnext a v s) = rprev s" "rprev (set_wprev a v s) = rprev s"
  by (simp_all add: set_wnext_def set_wprev_def)

lemma wq_remove_frame [simp]:
  "tables (wq.q_remove q t s) = tables s" "mem (wq.q_remove q t s) = mem s"
  "ready_queue (wq.q_remove q t s) = ready_queue s" "current_task (wq.q_remove q t s) = current_task s"
  "idle_task (wq.q_remove q t s) = idle_task s"
  "ep_lock (endpoints (wq.q_remove q t s) e) = ep_lock (endpoints s e)"
  by (simp_all add: wq.q_remove_def)

lemma set_queue_rlinks [simp]: "rnext (set_queue q v s) = rnext s" "rprev (set_queue q v s) = rprev s"
  by (simp_all add: rnext_def rprev_def fun_eq_iff)

lemma wq_remove_rlinks [simp]:
  "rnext (wq.q_remove q t s) = rnext s" "rprev (wq.q_remove q t s) = rprev s"
  by (simp_all add: wq.q_remove_def)

lemma waiting_links_fields [simp]:
  "t_root_page_table (tasks (set_wnext a v s) u) = t_root_page_table (tasks s u)" "t_root_page_table (tasks (set_wprev a v s) u) = t_root_page_table (tasks s u)"
  "t_lock (tasks (set_wnext a v s) u) = t_lock (tasks s u)" "t_lock (tasks (set_wprev a v s) u) = t_lock (tasks s u)"
  "t_tid (tasks (set_wnext a v s) u) = t_tid (tasks s u)" "t_tid (tasks (set_wprev a v s) u) = t_tid (tasks s u)"
  "t_ipc_state (tasks (set_wnext a v s) u) = t_ipc_state (tasks s u)" "t_ipc_state (tasks (set_wprev a v s) u) = t_ipc_state (tasks s u)"
  "t_event_type (tasks (set_wnext a v s) u) = t_event_type (tasks s u)" "t_event_type (tasks (set_wprev a v s) u) = t_event_type (tasks s u)"
  "t_caller_task (tasks (set_wnext a v s) u) = t_caller_task (tasks s u)" "t_caller_task (tasks (set_wprev a v s) u) = t_caller_task (tasks s u)"
  "t_callee_task (tasks (set_wnext a v s) u) = t_callee_task (tasks s u)" "t_callee_task (tasks (set_wprev a v s) u) = t_callee_task (tasks s u)"
  "t_endpoint (tasks (set_wnext a v s) u) = t_endpoint (tasks s u)" "t_endpoint (tasks (set_wprev a v s) u) = t_endpoint (tasks s u)"
  "t_ipc_msg_state (tasks (set_wnext a v s) u) = t_ipc_msg_state (tasks s u)" "t_ipc_msg_state (tasks (set_wprev a v s) u) = t_ipc_msg_state (tasks s u)"
  "t_ipc_msg (tasks (set_wnext a v s) u) = t_ipc_msg (tasks s u)" "t_ipc_msg (tasks (set_wprev a v s) u) = t_ipc_msg (tasks s u)"
  by (simp_all add: set_wnext_def set_wprev_def)

lemma wq_remove_fields [simp]:
  "t_root_page_table (tasks (wq.q_remove q t s) u) = t_root_page_table (tasks s u)"
  "t_lock (tasks (wq.q_remove q t s) u) = t_lock (tasks s u)"
  "t_tid (tasks (wq.q_remove q t s) u) = t_tid (tasks s u)"
  "t_ipc_state (tasks (wq.q_remove q t s) u) = t_ipc_state (tasks s u)"
  "t_event_type (tasks (wq.q_remove q t s) u) = t_event_type (tasks s u)"
  "t_caller_task (tasks (wq.q_remove q t s) u) = t_caller_task (tasks s u)"
  "t_callee_task (tasks (wq.q_remove q t s) u) = t_callee_task (tasks s u)"
  "t_endpoint (tasks (wq.q_remove q t s) u) = t_endpoint (tasks s u)"
  "t_ipc_msg_state (tasks (wq.q_remove q t s) u) = t_ipc_msg_state (tasks s u)"
  "t_ipc_msg (tasks (wq.q_remove q t s) u) = t_ipc_msg (tasks s u)"
  by (simp_all add: wq.q_remove_def)

lemma waiting_q_cong:
  assumes "wnext s' = wnext s" "wprev s' = wprev s" "get_queue q s' = get_queue q s"
    "\<And>x. x \<in> set xs \<Longrightarrow> t_state (tasks s' x) = t_state (tasks s x)"
  shows "waiting_q q s' xs = waiting_q q s xs"
  using assms by (simp add: waiting_q_def wq.isq_def wq.on_chain_def)

lemma read_user_memory_cong:
  assumes "has_tables s t" "unat src + unat sz \<le> 2 ^ 38" "tables s' = tables s" "mem s' = mem s"
    "t_root_page_table (tasks s' t) = t_root_page_table (tasks s t)"
  shows "read_user_memory t src sz s' = read_user_memory t src sz s"
proof -
  have "has_tables s' t" using assms(1,5) by (simp add: has_tables_def)
  moreover have "user_addr s' t = user_addr s t" by (rule user_addr_cong [OF assms(3,5)])
  ultimately show ?thesis
    using read_loop_spec [of s' t src sz 0] read_loop_spec [OF assms(1,2), of 0] assms(2,4)
    by (simp add: read_user_memory_def mapped_def phys_def)
qed

end
