(* ===== verification/Ipc_Props.thy ===== *)
theory Ipc_Props
  imports Ipc
begin

text \<open>
  What message passing guarantees (\<^verbatim>\<open>src/kernel/ipc.cpp\<close>): a short message sent to a waiting receiver
  arrives and the receiver runs; cancelling an endpoint wakes every task that waits on it; and
  the paths on which a failed copy or a kill notification leaves the kernel in a bad state.
\<close>

subsection \<open>Waking a waiting task\<close>

text \<open>The updates a task gets when it leaves a waiting queue for the ready queue.\<close>

definition wakes :: "(task_t \<Rightarrow> task_t) \<Rightarrow> bool" where
  "wakes f \<longleftrightarrow> (\<forall>x. t_state (f x) = ready \<and> t_lock (f x) = t_lock x \<and> t_tid (f x) = t_tid x \<and>
     t_next_ready_task (f x) = t_next_ready_task x \<and> t_prev_ready_task (f x) = t_prev_ready_task x \<and>
     t_next_waiting_task (f x) = t_next_waiting_task x \<and> t_prev_waiting_task (f x) = t_prev_waiting_task x)"

definition woken :: "(task_t \<Rightarrow> task_t) \<Rightarrow> queue_ref \<Rightarrow> addr \<Rightarrow> kstate \<Rightarrow> kstate" where
  "woken f q t s = rq.q_push t (upd_task t f (wq.q_remove q t s))"

lemma wakes_links:
  assumes "wakes f"
  shows "rnext (upd_task t f s) = rnext s" "rprev (upd_task t f s) = rprev s"
    "wnext (upd_task t f s) = wnext s" "wprev (upd_task t f s) = wprev s"
    "t_state (tasks (upd_task t f s) u) = (if u = t then ready else t_state (tasks s u))"
    "t_state (f x) = ready"
  using assms by (simp_all add: wakes_def)

lemma set_queue_other: "q' \<noteq> q \<Longrightarrow> get_queue q' (set_queue q v s) = get_queue q' s"
  by (cases q; cases q') auto

lemma wq_remove_other_queue: "q' \<noteq> q \<Longrightarrow> get_queue q' (wq.q_remove q t s) = get_queue q' s"
  by (simp add: wq.q_remove_def set_queue_other)

lemma wake_one:
  assumes w: "waiting_q q s (t # ws)" and r: "ready_q s xs" and o: "off_queue s t xs" and f: "wakes f"
  shows "remove_waiting_queue q t s = Some (wq.q_remove q t s)"
    "push_ready_queue t (upd_task t f (wq.q_remove q t s)) = Some (woken f q t s)"
    "waiting_q q (woken f q t s) ws" "ready_q (woken f q t s) (xs @ [t])"
proof -
  note rm = waiting_q_remove [of q s "[]" t ws, simplified, OF w]
  show "remove_waiting_queue q t s = Some (wq.q_remove q t s)" by (rule rm(1))
  let ?s2 = "upd_task t f (wq.q_remove q t s)"
  have t: "t \<notin> set xs" "t \<noteq> 0" using o by (simp_all add: off_queue_def)
  have d: "t \<notin> set ws" using w by (auto simp: waiting_q_def wq.isq_def wq.on_chain_def dest: dchain_distinct)
  have "ready_q ?s2 xs" using r t by (subst ready_q_cong [of _ s]) (auto simp: wakes_links [OF f])
  moreover have "can_push_ready ?s2 t" using o by (simp add: can_push_ready_def off_queue_def wakes_links [OF f])
  ultimately show "push_ready_queue t ?s2 = Some (woken f q t s)" "ready_q (woken f q t s) (xs @ [t])"
    unfolding woken_def using ready_q_push t(1) by blast+
  show "waiting_q q (woken f q t s) ws" unfolding woken_def
    by (subst waiting_q_cong [of _ "wq.q_remove q t s"]) (use rm(2) d in \<open>auto simp: wakes_links [OF f]\<close>)
qed

lemma woken_others:
  assumes "waiting_q q s (t # ws)" "ready_q s xs" "off_queue s t xs" "wakes f"
  shows "u \<noteq> t \<Longrightarrow> off_queue s u xs \<Longrightarrow> off_queue (woken f q t s) u (xs @ [t])"
    "q' \<noteq> q \<Longrightarrow> waiting_q q' s vs \<Longrightarrow> set vs \<inter> set (t # ws) = {} \<Longrightarrow> waiting_q q' (woken f q t s) vs"
proof -
  let ?s2 = "upd_task t f (wq.q_remove q t s)"
  have q: "rq.isq ?s2 xs" using assms(2) by (simp add: ready_q_def rq.isq_def rq.on_chain_def wakes_links [OF assms(4)])
  show "off_queue (woken f q t s) u (xs @ [t])" if "u \<noteq> t" "off_queue s u xs"
    using that q_push_links [OF q that(1)] by (simp add: off_queue_def woken_def wakes_links [OF assms(4)])
  assume v: "q' \<noteq> q" "waiting_q q' s vs" "set vs \<inter> set (t # ws) = {}"
  have iq: "wq.isq q s (t # ws)" using assms(1) by (simp add: waiting_q_def)
  have "wnext ?s2 x = wnext s x \<and> wprev ?s2 x = wprev s x" if "x \<in> set vs" for x
  proof -
    have "x \<notin> set ([] @ t # ws)" using that v(3) by auto
    from wq.isq_remove_others [of q s "[]", OF _ this] iq show ?thesis by (simp add: wakes_links [OF assms(4)])
  qed
  then have "dchain (wnext ?s2) (wprev ?s2) vs = dchain (wnext s) (wprev s) vs" by (intro dchain_cong) auto
  moreover have "t \<notin> set vs" using v(3) by auto
  ultimately show "waiting_q q' (woken f q t s) vs" using v(2)
    by (auto simp: waiting_q_def wq.isq_def wq.on_chain_def woken_def wq_remove_other_queue [OF v(1)] wakes_links [OF assms(4)])
qed

lemma woken_locks:
  assumes "wakes f"
  shows "lock_free_for (woken f q t s) = lock_free_for s"
  using assms by (auto simp: lock_free_for_def current_tid_def woken_def wakes_def fun_eq_iff)

subsection \<open>Cancelling an endpoint\<close>

text \<open>
  The tasks \<open>ws\<close> wait in the queue \<open>q\<close>, the tasks \<open>vs\<close> in the other queue \<open>q'\<close>, the tasks \<open>xs\<close> are
  ready; nobody is in two of these, and the waiting tasks' locks can be had.
\<close>

definition waiters :: "queue_ref \<Rightarrow> queue_ref \<Rightarrow> kstate \<Rightarrow> addr list \<Rightarrow> addr list \<Rightarrow> addr list \<Rightarrow> bool" where
  "waiters q q' s ws vs xs \<longleftrightarrow> q \<noteq> q' \<and> waiting_q q s ws \<and> waiting_q q' s vs \<and> ready_q s xs \<and> set vs \<inter> set ws = {} \<and>
     (\<forall>u\<in>set ws \<union> set vs. off_queue s u xs \<and> lock_free_for s u)"

definition cancel_receiver :: "task_t \<Rightarrow> task_t" where
  "cancel_receiver x = x\<lparr>t_state := ready, t_ipc_state := canceled, t_ipc_msg_state := msg_empty, t_endpoint := 0\<rparr>"

definition cancel_sender :: "task_t \<Rightarrow> task_t" where
  "cancel_sender x = x\<lparr>t_state := ready, t_ipc_state := canceled, t_event_type := event_none,
     t_ipc_msg_state := msg_empty, t_endpoint := 0\<rparr>"

lemma wakes_cancel: "wakes cancel_receiver" "wakes cancel_sender"
  by (simp_all add: wakes_def cancel_receiver_def cancel_sender_def)

lemma waiters_step:
  assumes "waiters q q' s (t # ws) vs xs" "wakes f"
  shows "waiters q q' (woken f q t s) ws vs (xs @ [t])"
proof -
  have a: "q' \<noteq> q" "waiting_q q s (t # ws)" "waiting_q q' s vs" "ready_q s xs" "set vs \<inter> set (t # ws) = {}"
    "off_queue s t xs" "\<forall>u\<in>set ws \<union> set vs. off_queue s u xs \<and> lock_free_for s u"
    using assms(1) by (auto simp: waiters_def)
  have t: "t \<notin> set ws" "t \<notin> set vs"
    using a(2,5) by (auto simp: waiting_q_def wq.isq_def wq.on_chain_def dest: dchain_distinct)
  have "u \<noteq> t" if "u \<in> set ws \<union> set vs" for u using that t by auto
  then have "\<forall>u\<in>set ws \<union> set vs. off_queue (woken f q t s) u (xs @ [t])"
    using woken_others(1) [OF a(2,4,6) assms(2)] a(7) by blast
  moreover have "waiting_q q' (woken f q t s) vs"
    by (rule woken_others(2) [OF a(2,4,6) assms(2) a(1,3,5)])
  ultimately show ?thesis
    using wake_one(3,4) [OF a(2,4,6) assms(2)] a(1,5,7) by (auto simp: waiters_def woken_locks [OF assms(2)])
qed

text \<open>What a cancelled task is left with.\<close>

definition canceled_task :: "task_t \<Rightarrow> bool" where
  "canceled_task x \<longleftrightarrow> t_state x = ready \<and> t_ipc_state x = canceled \<and> t_ipc_msg_state x = msg_empty \<and> t_endpoint x = 0"

lemma q_push_canceled [simp]: "canceled_task (tasks (rq.q_push t s) u) = canceled_task (tasks s u)"
  by (simp add: canceled_task_def rq.q_push_def set_rnext_def set_rprev_def set_ready_queue_def)

lemma woken_canceled:
  assumes "wakes f" "\<And>x. canceled_task (f x)"
  shows "canceled_task (tasks (woken f q t s) u) \<longleftrightarrow> u = t \<or> canceled_task (tasks s u)"
  using assms by (auto simp: woken_def) (auto simp: canceled_task_def)

lemma waiters_head:
  assumes "waiters q q' s ws vs xs"
  shows "q_head (get_queue q s) = hd0 ws 0" "ws = t # ws' \<Longrightarrow> lock_free_for s t \<and> t \<noteq> 0"
  using assms by (auto simp: waiters_def waiting_q_def wq.isq_def off_queue_def)

lemma cancel_receivers_all:
  assumes "waiters (receiver_queue_of e) q' s ws vs xs"
  shows "\<exists>s'. cancel_receivers e s = Some s' \<and> waiters (receiver_queue_of e) q' s' [] vs (xs @ ws) \<and>
    (\<forall>u. canceled_task (tasks s' u) \<longleftrightarrow> u \<in> set ws \<or> canceled_task (tasks s u))"
  using assms
proof (induction ws arbitrary: s xs)
  case Nil
  then show ?case using waiters_head(1) [OF Nil]
    by (subst cancel_receivers.simps) (simp add: receiver_head_def)
next
  case (Cons t ws)
  let ?q = "receiver_queue_of e" let ?s1 = "woken cancel_receiver ?q t s"
  note h = waiters_head [OF Cons.prems, simplified]
  have a: "waiting_q ?q s (t # ws)" "ready_q s xs" "off_queue s t xs" using Cons.prems by (auto simp: waiters_def)
  note w = wake_one [OF a wakes_cancel(1)]
  have "cancel_receivers e s = cancel_receivers e ?s1"
    using h w(1,2) by (subst cancel_receivers.simps) (simp add: receiver_head_def cancel_receiver_def [abs_def])
  with Cons.IH [OF waiters_step [OF Cons.prems wakes_cancel(1)]] show ?case
    using woken_canceled [OF wakes_cancel(1), of ?q t s] by (auto simp: canceled_task_def cancel_receiver_def)
qed

lemma cancel_senders_all:
  assumes "waiters (sender_queue_of e) q' s ws vs xs"
  shows "\<exists>s'. cancel_senders e s = Some s' \<and> waiters (sender_queue_of e) q' s' [] vs (xs @ ws) \<and>
    (\<forall>u. canceled_task (tasks s' u) \<longleftrightarrow> u \<in> set ws \<or> canceled_task (tasks s u))"
  using assms
proof (induction ws arbitrary: s xs)
  case Nil
  then show ?case using waiters_head(1) [OF Nil]
    by (subst cancel_senders.simps) (simp add: sender_head_def)
next
  case (Cons t ws)
  let ?q = "sender_queue_of e" let ?s1 = "woken cancel_sender ?q t s"
  note h = waiters_head [OF Cons.prems, simplified]
  have a: "waiting_q ?q s (t # ws)" "ready_q s xs" "off_queue s t xs" using Cons.prems by (auto simp: waiters_def)
  note w = wake_one [OF a wakes_cancel(2)]
  have "cancel_senders e s = cancel_senders e ?s1"
    using h w(1,2) by (subst cancel_senders.simps) (simp add: sender_head_def cancel_sender_def [abs_def])
  with Cons.IH [OF waiters_step [OF Cons.prems wakes_cancel(2)]] show ?case
    using woken_canceled [OF wakes_cancel(2), of ?q t s] by (auto simp: canceled_task_def cancel_sender_def)
qed

lemma waiters_swap: "waiters q q' s ws vs xs \<Longrightarrow> waiters q' q s vs ws xs"
  by (auto simp: waiters_def)

text \<open>
  C21: cancelling an endpoint ends and leaves nobody behind. Both loops of \<^verbatim>\<open>ipc_cancel\<close> return, both
  queues of the endpoint are empty afterwards, and every task that waited there is ready with the
  state canceled, queued behind the tasks that were ready before: the receivers first and the senders
  after them, each in the order they waited.
\<close>

theorem ipc_cancel_wakes_all:
  assumes "e \<noteq> 0" "ep_lock_free_for s e" "waiting_q (receiver_queue_of e) s rs" "waiting_q (sender_queue_of e) s ws"
    "ready_q s xs" "set rs \<inter> set ws = {}" "\<forall>u\<in>set rs \<union> set ws. off_queue s u xs \<and> lock_free_for s u"
  shows "\<exists>s'. ipc_cancel e s = Some s' \<and> waiting_q (receiver_queue_of e) s' [] \<and> waiting_q (sender_queue_of e) s' [] \<and>
    ready_q s' (xs @ rs @ ws) \<and>
    (\<forall>u\<in>set rs \<union> set ws. t_state (tasks s' u) = ready \<and> t_ipc_state (tasks s' u) = canceled \<and>
       t_ipc_msg_state (tasks s' u) = msg_empty \<and> t_endpoint (tasks s' u) = 0)"
proof -
  have "waiters (receiver_queue_of e) (sender_queue_of e) s rs ws xs" using assms by (auto simp: waiters_def)
  from cancel_receivers_all [OF this] obtain s1 where s1: "cancel_receivers e s = Some s1"
    "waiters (sender_queue_of e) (receiver_queue_of e) s1 ws [] (xs @ rs)" "\<forall>u\<in>set rs. canceled_task (tasks s1 u)"
    using waiters_swap by blast
  from cancel_senders_all [OF s1(2)] s1(3) obtain s2 where s2: "cancel_senders e s1 = Some s2"
    "waiters (sender_queue_of e) (receiver_queue_of e) s2 [] [] ((xs @ rs) @ ws)"
    "\<forall>u\<in>set rs \<union> set ws. canceled_task (tasks s2 u)" by blast
  have "ipc_cancel e s = Some s2" using assms(1,2) s1(1) s2(1) by (simp add: ipc_cancel_def)
  with s2(2,3) show ?thesis by (simp add: waiters_def canceled_task_def)
qed

text \<open>Two receivers, 0x3000 and 0x4000, wait on the endpoint 0x80 for the running task 0x2000.\<close>

definition demo_ipc :: kstate where
  "demo_ipc = zero_state\<lparr>
     tasks := (\<lambda>_. zero_task)(0x2000 := zero_task\<lparr>t_tid := 1, t_state := running\<rparr>,
       0x3000 := zero_task\<lparr>t_tid := 2, t_state := waiting, t_ipc_state := receiving, t_ipc_msg_state := long_size,
         t_endpoint := 0x80, t_next_waiting_task := 0x4000\<rparr>,
       0x4000 := zero_task\<lparr>t_tid := 3, t_state := waiting, t_ipc_state := receiving, t_ipc_msg_state := long_size,
         t_endpoint := 0x80, t_prev_waiting_task := 0x3000\<rparr>),
     endpoints := (\<lambda>_. zero_endpoint)(0x80 := zero_endpoint\<lparr>ep_receiver_queue := \<lparr>q_head = 0x3000, q_tail = 0x4000\<rparr>\<rparr>),
     current_task := 0x2000, idle_task := 0x1000\<rparr>"

lemma demo_ipc_simps [simp]:
  "wnext demo_ipc = (\<lambda>_. 0)(0x3000 := 0x4000)" "wprev demo_ipc = (\<lambda>_. 0)(0x4000 := 0x3000)"
  "rnext demo_ipc = (\<lambda>_. 0)" "rprev demo_ipc = (\<lambda>_. 0)" "current_task demo_ipc = 0x2000"
  "ready_queue demo_ipc = \<lparr>q_head = 0, q_tail = 0\<rparr>"
  "endpoints demo_ipc = (\<lambda>_. zero_endpoint)(0x80 := zero_endpoint\<lparr>ep_receiver_queue := \<lparr>q_head = 0x3000, q_tail = 0x4000\<rparr>\<rparr>)"
  "t_lock (tasks demo_ipc t) = free_lock" "current_tid demo_ipc = 1"
  "t_state (tasks demo_ipc 0x3000) = waiting" "t_state (tasks demo_ipc 0x4000) = waiting"
  by (auto simp: demo_ipc_def rnext_def rprev_def wnext_def wprev_def zero_task_def zero_state_def empty_queue_def
      current_tid_def fun_eq_iff)

lemma demo_ipc_queues:
  "waiting_q (receiver_queue_of 0x80) demo_ipc [0x3000, 0x4000]" "waiting_q (sender_queue_of 0x80) demo_ipc []"
  "ready_q demo_ipc []" "lock_free_for demo_ipc t" "ep_lock_free_for demo_ipc e"
  by (auto simp: waiting_q_def wq.isq_def wq.on_chain_def ready_q_def rq.isq_def rq.on_chain_def dchain_def
      zero_endpoint_def empty_queue_def lock_free_for_def ep_lock_free_for_def rlock_def free_lock_def)

theorem ipc_cancel_wakes_all_witness:
  "\<exists>s'. ipc_cancel 0x80 demo_ipc = Some s' \<and> waiting_q (receiver_queue_of 0x80) s' [] \<and> ready_q s' [0x3000, 0x4000] \<and>
    t_ipc_state (tasks s' 0x4000) = canceled"
  using ipc_cancel_wakes_all [OF _ demo_ipc_queues(5,1,2,3)] demo_ipc_queues(4) by (auto simp: off_queue_def)

subsection \<open>Sending to a waiting receiver\<close>

lemma buffer_ok_cong:
  assumes "tables s' = tables s" "mem s' = mem s" "t_root_page_table (tasks s' r) = t_root_page_table (tasks s r)"
    "t_ipc_msg (tasks s' r) = t_ipc_msg (tasks s r)"
  shows "buffer_ok abi r s' = buffer_ok abi r s"
proof -
  have "user_addr s' r = user_addr s r" by (rule user_addr_cong [OF assms(1,3)])
  then show ?thesis using assms by (simp add: buffer_ok_def has_tables_def mapped_def phys_def [abs_def] ipc_long_msg_def)
qed

text \<open>The sender's side of a short send until the receiver is served.\<close>

definition sender_ok :: "addr \<Rightarrow> addr list \<Rightarrow> kstate \<Rightarrow> bool" where
  "sender_ok e xs s \<longleftrightarrow> e \<noteq> 0 \<and> ep_lock (endpoints s e) = free_lock \<and> current_tid s \<noteq> 0 \<and> ready_q s xs \<and>
     off_queue s (current_task s) xs \<and> wprev s (current_task s) = 0 \<and> wnext s (current_task s) = 0 \<and>
     t_callee_task (tasks s (current_task s)) = 0"

text \<open>A receiver first in the queue, with a buffer for a short message.\<close>

definition receiver_ok :: "msg_abi \<Rightarrow> addr \<Rightarrow> addr \<Rightarrow> addr list \<Rightarrow> addr list \<Rightarrow> kstate \<Rightarrow> bool" where
  "receiver_ok abi e r rs xs s \<longleftrightarrow> waiting_q (receiver_queue_of e) s (r # rs) \<and> sender_head s e = 0 \<and>
     off_queue s r xs \<and> r \<noteq> current_task s \<and> current_task s \<notin> set rs \<and> lock_free_for s r \<and>
     t_ipc_msg_state (tasks s r) = long_size \<and> buffer_ok abi r s"

lemma wakes_receiver: "wakes (\<lambda>x. x\<lparr>t_state := ready, t_ipc_state := ipc_none, t_ipc_msg_state := msg_empty, t_endpoint := 0\<rparr>)"
  by (simp add: wakes_def)

text \<open>The state the sender prepares: its message is stored and the endpoint is locked.\<close>

definition prepared :: "addr \<Rightarrow> (nat \<Rightarrow> u64) \<Rightarrow> recursive_spinlock_t \<Rightarrow> kstate \<Rightarrow> kstate" where
  "prepared e args l s = upd_endpoint e (\<lambda>x. x\<lparr>ep_lock := l\<rparr>)
     (upd_task (current_task s) (\<lambda>x. x\<lparr>t_ipc_msg := args, t_ipc_msg_state := short_size\<rparr>) s)"

lemma prepared_simps [simp]:
  "rnext (prepared e args l s) = rnext s" "rprev (prepared e args l s) = rprev s"
  "wnext (prepared e args l s) = wnext s" "wprev (prepared e args l s) = wprev s"
  "get_queue q (prepared e args l s) = get_queue q s" "ready_queue (prepared e args l s) = ready_queue s"
  "t_state (tasks (prepared e args l s) u) = t_state (tasks s u)" "tables (prepared e args l s) = tables s"
  "mem (prepared e args l s) = mem s" "current_task (prepared e args l s) = current_task s"
  "lock_free_for (prepared e args l s) = lock_free_for s"
  "t_root_page_table (tasks (prepared e args l s) u) = t_root_page_table (tasks s u)"
  "ep_lock (endpoints (prepared e args l s) e) = l" "sender_head (prepared e args l s) = sender_head s"
  "receiver_head (prepared e args l s) = receiver_head s"
  by (auto simp: prepared_def lock_free_for_def current_tid_def sender_head_def receiver_head_def fun_eq_iff)

lemma prepared_receiver:
  assumes "sender_ok e xs s" "receiver_ok abi e r rs xs s"
  shows "ready_q (prepared e args l s) xs" "receiver_ok abi e r rs xs (prepared e args l s)"
    "off_queue (prepared e args l s) (current_task s) xs"
    "t_ipc_msg (tasks (prepared e args l s) (current_task s)) = args"
    "t_ipc_msg_state (tasks (prepared e args l s) (current_task s)) = short_size"
    "ipc_long_msg (tasks (prepared e args l s) r) = ipc_long_msg (tasks s r)"
proof -
  let ?s = "prepared e args l s"
  have r: "r \<noteq> current_task s" using assms(2) by (simp add: receiver_ok_def)
  show "ready_q ?s xs" using assms(1) by (subst ready_q_cong [of _ s]) (simp_all add: sender_ok_def)
  have "waiting_q (receiver_queue_of e) ?s (r # rs) = waiting_q (receiver_queue_of e) s (r # rs)" by (rule waiting_q_cong) simp_all
  moreover have "buffer_ok abi r ?s = buffer_ok abi r s" using r by (intro buffer_ok_cong) (simp_all add: prepared_def)
  moreover have "t_ipc_msg_state (tasks ?s r) = t_ipc_msg_state (tasks s r)" using r by (simp add: prepared_def)
  ultimately show "receiver_ok abi e r rs xs ?s" using assms(2) by (simp add: receiver_ok_def off_queue_def)
  show "off_queue ?s (current_task s) xs" using assms(1) by (simp add: sender_ok_def off_queue_def)
  show "t_ipc_msg (tasks ?s (current_task s)) = args" "t_ipc_msg_state (tasks ?s (current_task s)) = short_size"
    "ipc_long_msg (tasks ?s r) = ipc_long_msg (tasks s r)" using r by (simp_all add: prepared_def ipc_long_msg_def)
qed

lemma rlock_free_owner: "tid \<noteq> 0 \<Longrightarrow> \<exists>l. rlock tid free_lock = Some l \<and> rl_owner l = tid \<and> rl_state l"
  by (simp add: rlock_def free_lock_def)

text \<open>The state in which a sender hands over to the receiver it served.\<close>

definition served :: "addr \<Rightarrow> addr \<Rightarrow> kstate \<Rightarrow> kstate" where
  "served e r s = switched r (current_task s) (wake_receiver r (wq.q_remove (receiver_queue_of e) r s))"

lemma served_simps:
  assumes "r \<noteq> current_task s"
  shows "current_task (served e r s) = r" "t_state (tasks (served e r s) r) = running"
    "t_state (tasks (served e r s) (current_task s)) = ready"
    "t_ipc_state (tasks (served e r s) r) = ipc_none" "t_endpoint (tasks (served e r s) r) = 0"
    "ep_lock (endpoints (served e r s) e') = ep_lock (endpoints s e')" "tables (served e r s) = tables s"
    "mem (served e r s) = mem s" "t_root_page_table (tasks (served e r s) u) = t_root_page_table (tasks s u)"
    "t_tid (tasks (served e r s) u) = t_tid (tasks s u)"
  using assms by (simp_all add: served_def wake_receiver_def)

lemma serve_receiver:
  assumes "ready_q s xs" "waiting_q (receiver_queue_of e) s (r # rs)" "off_queue s r xs" "r \<noteq> current_task s"
    "current_task s \<notin> set rs" "off_queue s (current_task s) xs"
  shows "remove_waiting_queue (receiver_queue_of e) r s = Some (wq.q_remove (receiver_queue_of e) r s)"
    "\<exists>k. switch_task r (wake_receiver r (wq.q_remove (receiver_queue_of e) r s)) = Switch (served e r s) k"
    "ready_q (served e r s) (xs @ [current_task s])" "waiting_q (receiver_queue_of e) (served e r s) rs"
proof -
  let ?q = "receiver_queue_of e" let ?s2 = "wake_receiver r (wq.q_remove ?q r s)"
  note a = assms(2-5)
  note rm = waiting_q_remove [of ?q s "[]" r rs, simplified, OF a(1)]
  show "remove_waiting_queue ?q r s = Some (wq.q_remove ?q r s)" by (rule rm(1))
  have r: "r \<notin> set rs" using a(1) by (auto simp: waiting_q_def wq.isq_def wq.on_chain_def dest: dchain_distinct)
  have s2: "rnext ?s2 = rnext s" "rprev ?s2 = rprev s" "ready_queue ?s2 = ready_queue s" "current_task ?s2 = current_task s"
    "t_state (tasks ?s2 u) = (if u = r then ready else t_state (tasks s u))" for u
    by (simp_all add: wake_receiver_def)
  have q2: "ready_q ?s2 xs" using assms(1) a(2) by (subst ready_q_cong [of _ s]) (auto simp: s2 off_queue_def)
  have "off_queue ?s2 (current_task ?s2) xs" using assms(6) by (simp add: off_queue_def s2)
  note sw = switch_task_state [OF q2 this, of r, unfolded s2(4)]
  show "\<exists>k. switch_task r ?s2 = Switch (served e r s) k" "ready_q (served e r s) (xs @ [current_task s])"
    using sw a(2,3) s2(5) by (auto simp: served_def off_queue_def)
  show "waiting_q ?q (served e r s) rs"
    by (subst waiting_q_cong [of _ "wq.q_remove ?q r s"]) (use rm(2) r a(4) in \<open>auto simp: served_def wake_receiver_def\<close>)
qed

text \<open>
  C20: a short message sent to an endpoint on which a receiver waits arrives: \<^verbatim>\<open>ipc_send_short\<close>
  switches to the first receiver, which is running, out of the waiting queue and done with
  its operation; the six words of the message can be read behind the header of the buffer it
  gave; the other receivers wait on in their order and the sender is last in the ready queue. The
  endpoint is still locked by the sender in this state, so a task with another id that uses the endpoint before the
  sender runs again spins (\<^verbatim>\<open>ipc_send_long\<close> releases the lock before it switches).
\<close>

theorem ipc_send_short_delivers:
  assumes "header_ok abi" "sender_ok e xs s" "receiver_ok abi e r rs xs s"
  shows "\<exists>s' k. ipc_send_short abi blocking e args s = Switch s' k \<and> current_task s' = r \<and>
    t_state (tasks s' r) = running \<and> t_ipc_state (tasks s' r) = ipc_none \<and>
    read_user_memory r (ipc_long_msg (tasks s r) + header_size abi) 48 s' = Some (Some (short_msg_bytes args)) \<and>
    ready_q s' (xs @ [current_task s]) \<and> waiting_q (receiver_queue_of e) s' rs \<and>
    (\<forall>s''. ep_lock (endpoints s'' e) = ep_lock (endpoints s' e) \<and> current_tid s'' \<noteq> current_tid s \<longrightarrow>
       lock_endpoint e s'' = None)"
proof -
  have a: "e \<noteq> 0" "ep_lock (endpoints s e) = free_lock" "current_tid s \<noteq> 0"
    "assert_not_waiting (current_task s) s = Some ()" "current_task s \<noteq> 0"
    using assms(2) by (simp_all add: sender_ok_def assert_not_waiting_def wprev_def wnext_def off_queue_def)
  obtain l where l: "rlock (current_tid s) free_lock = Some l" "rl_owner l = current_tid s" "rl_state l"
    using rlock_free_owner [OF a(3)] by blast
  let ?p = "prepared e args l s" let ?c = "current_task s"
  note pr = prepared_receiver [OF assms(2,3), of args l]
  have r: "r \<noteq> 0" "r \<noteq> ?c" "sender_head s e = 0" "lock_free_for s r" "t_ipc_msg_state (tasks ?p r) = long_size"
    "buffer_ok abi r ?p" "receiver_head s e = r"
    using pr(2) assms(3) by (auto simp: receiver_ok_def off_queue_def waiting_q_def wq.isq_def receiver_head_def)
  from transfer_short_delivers [OF assms(1) r(6), of ?c] obtain m
    where m: "transfer_short abi r ?c ?p = Some (True, ?p\<lparr>mem := m\<rparr>)"
      "read_user_memory r (ipc_long_msg (tasks s r) + header_size abi) 48 (?p\<lparr>mem := m\<rparr>) = Some (Some (short_msg_bytes args))"
    using pr(4,6) by (metis (no_types))
  let ?m = "?p\<lparr>mem := m\<rparr>"
  have "unat (ipc_long_msg (tasks s r)) + (unat (header_size abi) + 48) \<le> 2 ^ 38" "has_tables s r"
    using assms(3) by (simp_all add: receiver_ok_def buffer_ok_def)
  then have bu: "has_tables ?m r" "unat (ipc_long_msg (tasks s r) + header_size abi) + unat (48 :: u64) \<le> 2 ^ 38"
    by (simp_all add: has_tables_def unat_word_ariths)
  have tr: "ipc_transfer_ipc_msg abi r ?c ?p = Some (True, ?m)"
    using ipc_transfer_short [OF pr(5)] r(1,5) a(5) m(1) by simp
  have fm: "rnext ?m = rnext ?p" "rprev ?m = rprev ?p" "ready_queue ?m = ready_queue ?p" "tasks ?m = tasks ?p"
    "wnext ?m = wnext ?p" "wprev ?m = wprev ?p" "get_queue q ?m = get_queue q ?p" "current_task ?m = ?c" for q by simp_all
  have "ready_q ?m xs" using pr(1) by (subst ready_q_cong [OF fm(1-3)]) (simp_all only: fm)
  moreover have "waiting_q (receiver_queue_of e) ?m (r # rs)"
    using pr(2) by (subst waiting_q_cong [OF fm(5-7)]) (simp_all only: fm receiver_ok_def)
  moreover have "off_queue ?m r xs" "r \<noteq> current_task ?m" "current_task ?m \<notin> set rs" "off_queue ?m (current_task ?m) xs"
    using pr(2,3) by (simp_all add: receiver_ok_def off_queue_def)
  note sv = serve_receiver [OF calculation this, unfolded fm(8)]
  then obtain k where k: "switch_task r (wake_receiver r (wq.q_remove (receiver_queue_of e) r ?m)) = Switch (served e r ?m) k" by blast
  have lk: "lock_endpoint e (upd_task ?c (\<lambda>x. x\<lparr>t_ipc_msg := args, t_ipc_msg_state := short_size\<rparr>) s) = Some ?p"
    using a(1,2) l(1) by (simp add: lock_endpoint_def prepared_def upd_task_lock)
  let ?k = "\<lambda>s'. rbind (k s') (\<lambda>_ s. rbind (lift_state (unlock_endpoint e s)) (\<lambda>_ s. Done True s))"
  have "ipc_send_short abi blocking e args s = Switch (served e r ?m) ?k"
    using lk a(1,4) r tr sv(1) k by (simp add: ipc_send_short_def)
  moreover have "read_user_memory r (ipc_long_msg (tasks s r) + header_size abi) 48 (served e r ?m) = Some (Some (short_msg_bytes args))"
    using m(2) read_user_memory_cong [OF bu, of "served e r ?m"] r(2) by (simp add: served_simps)
  moreover have "lock_endpoint e s'' = None"
    if "ep_lock (endpoints s'' e) = ep_lock (endpoints (served e r ?m) e)" "current_tid s'' \<noteq> current_tid s" for s''
    using that l(2,3) r(2) by (simp add: lock_endpoint_def served_simps rlock_def)
  ultimately show ?thesis using served_simps [of r ?m e] sv(3,4) r(2)
    by (intro exI [of _ "served e r ?m"] exI [of _ ?k]) simp
qed

text \<open>The first receiver of the example gets page tables and a buffer at its address 0, with room for 48 bytes.\<close>

definition demo_abi :: msg_abi where
  "demo_abi = \<lparr>header_size = 4, get_payload_length = (\<lambda>h. ucast (h ! 0)), get_payload_capacity = (\<lambda>h. ucast (h ! 1)),
     get_data_type_map = (\<lambda>h j. ucast (h ! (2 + j))), set_payload_length = (\<lambda>v h. h[0 := ucast v]),
     set_data_type_map = (\<lambda>j v h. h[2 + j := ucast v]), set_msg_type = (\<lambda>v h. h), set_sender_id = (\<lambda>v h. h),
     set_receiver_id = (\<lambda>v h. h), MSG_TYPE_IPC = 1, MSG_TYPE_KILL = 2, type_map_size = 2, type_map_xlen = 8\<rparr>"

definition demo_send :: kstate where
  "demo_send = demo_ipc\<lparr>tables := tables demo_user, mem := (\<lambda>_. 0)(get_next_page (demo_leaf 0x80000) + 1 := 48),
     tasks := (tasks demo_ipc)(0x3000 := (tasks demo_ipc 0x3000)\<lparr>t_root_page_table := 0xa000\<rparr>)\<rparr>"

lemma demo_header_ok: "header_ok demo_abi"
  by (simp add: header_ok_def fill_header_def demo_abi_def upt_rec)

lemma demo_send_simps [simp]:
  "wnext demo_send = wnext demo_ipc" "wprev demo_send = wprev demo_ipc" "rnext demo_send = rnext demo_ipc"
  "rprev demo_send = rprev demo_ipc" "endpoints demo_send = endpoints demo_ipc" "ready_queue demo_send = ready_queue demo_ipc"
  "t_state (tasks demo_send u) = t_state (tasks demo_ipc u)" "current_task demo_send = 0x2000"
  "t_lock (tasks demo_send u) = t_lock (tasks demo_ipc u)"
  unfolding wnext_def wprev_def rnext_def rprev_def demo_send_def fun_eq_iff by simp_all

lemma demo_send_tasks [simp]:
  "current_tid demo_send = 1" "lock_free_for demo_send = lock_free_for demo_ipc"
  "t_ipc_msg_state (tasks demo_send 0x3000) = long_size" "ipc_long_msg (tasks demo_send 0x3000) = 0"
  "t_callee_task (tasks demo_send 0x2000) = 0"
proof -
  show t: "current_tid demo_send = 1" by (simp add: current_tid_def) (simp add: demo_send_def demo_ipc_def)
  show "lock_free_for demo_send = lock_free_for demo_ipc" by (simp add: lock_free_for_def fun_eq_iff t)
  show "t_ipc_msg_state (tasks demo_send 0x3000) = long_size" "ipc_long_msg (tasks demo_send 0x3000) = 0"
    "t_callee_task (tasks demo_send 0x2000) = 0"
    by (simp_all add: demo_send_def demo_ipc_def zero_task_def ipc_long_msg_def)
qed

lemma demo_send_buffer: "buffer_ok demo_abi 0x3000 demo_send"
proof -
  have u: "user_addr demo_send 0x3000 = user_addr demo_user 0x3000"
    by (rule user_addr_cong) (simp_all add: demo_send_def demo_user_def)
  have p: "phys demo_send 0x3000 0 i = get_next_page (demo_leaf 0x80000) + of_nat i"
    "user_addr demo_send 0x3000 (of_nat i) \<noteq> None" if "i < 52" for i
    using demo_user_phys(2) [of i] that by (simp_all add: phys_def u)
  have "inj_on (phys demo_send 0x3000 0) {0..<52}"
  proof (rule inj_onI)
    fix i j assume ij: "i \<in> {0..<52}" "j \<in> {0..<52}" "phys demo_send 0x3000 0 i = phys demo_send 0x3000 0 j"
    then have "unat (of_nat i :: addr) = unat (of_nat j :: addr)" using p(1) [of i] p(1) [of j] by simp
    moreover have "i < 2 ^ 64" "j < 2 ^ 64" using ij(1,2) by simp_all
    ultimately show "i = j" by (simp only: unat_of_nat_u64)
  qed
  moreover have "mapped demo_send 0x3000 0 0 52" using p(2) by (simp add: mapped_def)
  moreover have "has_tables demo_send 0x3000" by (simp add: has_tables_def demo_send_def)
  moreover have "mem demo_send (get_next_page (demo_leaf 0x80000) + 1) = 48" by (simp add: demo_send_def)
  ultimately show ?thesis by (simp add: buffer_ok_def demo_abi_def p)
qed

theorem ipc_send_short_delivers_witness:
  "\<exists>s' k. ipc_send_short demo_abi True 0x80 (\<lambda>i. of_nat i) demo_send = Switch s' k \<and> current_task s' = 0x3000 \<and>
    read_user_memory 0x3000 4 48 s' = Some (Some (short_msg_bytes (\<lambda>i. of_nat i))) \<and> ready_q s' [0x2000] \<and>
    waiting_q (receiver_queue_of 0x80) s' [0x4000]"
proof -
  have q: "ready_q demo_send []" "waiting_q (receiver_queue_of 0x80) demo_send [0x3000, 0x4000]"
    using demo_ipc_queues by (simp_all add: ready_q_def rq.isq_def rq.on_chain_def waiting_q_def wq.isq_def wq.on_chain_def)
  have "sender_ok 0x80 [] demo_send" using q(1) by (simp add: sender_ok_def off_queue_def zero_endpoint_def)
  moreover have "receiver_ok demo_abi 0x80 0x3000 [0x4000] [] demo_send" using q(2) demo_send_buffer demo_ipc_queues(4)
    by (simp add: receiver_ok_def off_queue_def sender_head_def zero_endpoint_def empty_queue_def)
  ultimately show ?thesis
    using ipc_send_short_delivers [OF demo_header_ok, of "0x80" "[]" demo_send "0x3000" "[0x4000]" True of_nat]
    by (fastforce simp: demo_abi_def)
qed

subsection \<open>Failing paths\<close>

text \<open>
  A kill notification to an endpoint on which nobody receives stops the kernel: \<^verbatim>\<open>ipc_send_kill_notify\<close>
  queues the killed task as a sender and \<^verbatim>\<open>push_waiting_queue\<close> asserts that the task is waiting.
\<close>

theorem kill_notify_without_receiver_stops:
  assumes "receiver_head s e = 0"
  shows "ipc_send_kill_notify abi e task s = Stop"
  using assms by (auto simp: ipc_send_kill_notify_def push_waiting_queue_def receiver_head_def Let_def lift_state_def
      split: option.split)

lemma blank_msg_current: "blank_msg s' = blank_msg s \<Longrightarrow> current_task s' = current_task s"
  by (auto simp: blank_msg_def dest: arg_cong [of _ _ current_task])

lemma blank_msg_same [simp]:
  "t_state (tasks (blank_msg s) u) = t_state (tasks s u)"
  "t_ipc_state (tasks (blank_msg s) u) = t_ipc_state (tasks s u)"
  by (simp_all add: blank_msg_def)

lemma blank_msg_tasks:
  assumes "blank_msg s' = blank_msg s"
  shows "t_state (tasks s' u) = t_state (tasks s u)" "t_ipc_state (tasks s' u) = t_ipc_state (tasks s u)"
  using blank_msg_same [of s' u] by (simp_all add: assms)

text \<open>
  A call that returns at once has failed and leaves the task that runs in the state
  waiting and calling: \<^verbatim>\<open>ipc_call\<close> sets the state before it copies the message and does not reset it when the copy fails.
\<close>

theorem ipc_call_failure_keeps_waiting:
  assumes "ipc_call abi e msg s = Done ok s'"
  shows "\<not> ok \<and> current_task s' = current_task s \<and> t_state (tasks s' (current_task s)) = waiting \<and>
    t_ipc_state (tasks s' (current_task s)) = calling"
proof -
  let ?s = "upd_task (current_task s) (\<lambda>x. (set_long_msg msg x)\<lparr>t_ipc_msg_state := long_size, t_state := waiting,
          t_ipc_state := calling, t_event_type := event_send, t_endpoint := e\<rparr>) s"
  have "\<exists>r. ipc_transfer_ipc_msg abi r (current_task s) ?s = Some (False, s') \<and> \<not> ok"
    using assms
    by (auto simp: ipc_call_def lift_run_def resched_def switch_context_def Let_def split: option.splits if_splits elim!: bind_SomeE)
  then obtain r where r: "ipc_transfer_ipc_msg abi r (current_task s) ?s = Some (False, s')" "\<not> ok" by blast
  note b = ipc_transfer_blank [OF r(1)]
  show ?thesis using r(2) blank_msg_current [OF b] blank_msg_tasks [OF b] by simp
qed

text \<open>The caller of the example has an empty page table, so its message can not be read.\<close>

definition demo_call :: kstate where
  "demo_call = demo_ipc\<lparr>tables := (\<lambda>_. zero_page_table),
     tasks := (tasks demo_ipc)(0x2000 := (tasks demo_ipc 0x2000)\<lparr>t_root_page_table := 0x9000\<rparr>)\<rparr>"

theorem kill_notify_without_receiver_stops_witness:
  "ipc_send_kill_notify demo_abi 0x90 0x5000
     (demo_ipc\<lparr>tasks := (tasks demo_ipc)(0x5000 := zero_task\<lparr>t_state := killed\<rparr>)\<rparr>) = Stop"
  by (rule kill_notify_without_receiver_stops) (simp add: receiver_head_def zero_endpoint_def empty_queue_def)

theorem ipc_call_failure_keeps_waiting_witness:
  "\<exists>s'. ipc_call demo_abi 0x80 0 demo_call = Done False s' \<and> t_state (tasks s' 0x2000) = waiting"
proof -
  let ?s = "upd_task 0x2000 (\<lambda>x. (set_long_msg 0 x)\<lparr>t_ipc_msg_state := long_size, t_state := waiting,
          t_ipc_state := calling, t_event_type := event_send, t_endpoint := 0x80\<rparr>) demo_call"
  have t: "has_tables ?s 0x2000" "ipc_long_msg (tasks ?s 0x2000) = 0" "t_ipc_msg_state (tasks ?s 0x2000) = long_size"
    "t_ipc_msg_state (tasks ?s 0x3000) = long_size" "tables ?s = (\<lambda>_. zero_page_table)"
    by (simp_all add: has_tables_def demo_call_def set_long_msg_def ipc_long_msg_def) (simp add: demo_ipc_def)
  have "user_addr ?s 0x2000 0 = None"
    using t(1,5)
    by (simp add: user_addr_None user_walk_def user_walk_levels.simps has_tables_def CONFIG_MAX_VIRTUAL_ADDRESS_def)
  then have "\<not> mapped ?s 0x2000 0 0 4" by (auto simp: mapped_def intro: bexI [of _ 0])
  then have "ipc_transfer_ipc_msg demo_abi 0x3000 0x2000 ?s = Some (False, ?s)"
    using t read_loop_spec [OF t(1), of 0 4 0]
    by (simp add: ipc_transfer_ipc_msg_def read_src_header_def read_user_memory_def demo_abi_def)
  moreover have "ep_lock_free_for ?s 0x80" "lock_free_for ?s 0x3000" "receiver_head ?s 0x80 = 0x3000" "sender_head ?s 0x80 = 0"
    "current_task demo_call = 0x2000"
    by (simp_all add: ep_lock_free_for_def lock_free_for_def receiver_head_def sender_head_def demo_call_def
        zero_endpoint_def empty_queue_def rlock_def free_lock_def)
  ultimately have "ipc_call demo_abi 0x80 0 demo_call = Done False ?s" by (simp add: ipc_call_def)
  with ipc_call_failure_keeps_waiting [OF this] show ?thesis by (simp add: demo_call_def)
qed

end
