(* ===== verification/Cap_Map.thy ===== *)
theory Cap_Map
  imports Cap_Objects
begin

text \<open>
  Mapping page tables and pages through their capabilities (\<^verbatim>\<open>src/kernel/cap.cpp\<close>), and
  the destruction of mapped objects. The lemmas show that a failed call changes nothing but
  \<^verbatim>\<open>errno\<close>, that unmapping undoes mapping, that remapping moves the entry, and that the
  virtual address recorded in a page capability leads back to its page table entry.
\<close>

subsection \<open>Operations\<close>

definition fail :: "errno_t \<Rightarrow> kstate \<Rightarrow> (bool \<times> kstate) option" where
  "fail e s = Some (False, s\<lparr>errno := e\<rparr>)"

definition child_va :: "page_table_cap \<Rightarrow> 2 word \<Rightarrow> u64 \<Rightarrow> addr" where
  "child_va pt level index = ucast (pt_virt_addr_base pt) + get_page_size (unat level) * index"

definition map_page_table_cap :: "addr \<Rightarrow> u64 \<Rightarrow> addr \<Rightarrow> kstate \<Rightarrow> (bool \<times> kstate) option" where
  "map_page_table_cap page_table_slot index child_slot s = do {
     cassert (page_table_slot \<noteq> 0);
     case cap_at s page_table_slot of
       PageTableCap pt \<Rightarrow>
         if index \<ge> NUM_PAGE_TABLE_ENTRY then fail SYS_E_ILL_ARGS s
         else if child_slot = 0 then fail SYS_E_ILL_ARGS s
         else (case cap_at s child_slot of
           PageTableCap child \<Rightarrow> do {
             let va = child_va pt (pt_level pt) index;
             if va \<ge> CONFIG_KERNEL_SPACE_BASE then fail SYS_E_ILL_ARGS s
             else if pt_level pt = of_nat KILO_PAGE_TABLE_LEVEL then fail SYS_E_ILL_STATE s
             else do {
               cassert (pt_table pt \<noteq> 0);
               if is_enabled (tables s (pt_table pt) index) then fail SYS_E_ILL_STATE s
               else if pt_mapped child then fail SYS_E_CAP_STATE s
               else do {
                 let s = upd_pte (pt_table pt) index
                   (\<lambda>pte. enable (set_next_page (pt_table child) (set_flags no_flags pte))) s;
                 Some (True, set_cap child_slot (PageTableCap (child\<lparr>pt_mapped := True,
                   pt_level := pt_level pt - 1, pt_virt_addr_base := ucast va,
                   pt_parent_table := pt_table pt\<rparr>)) s)
               }
             }
           }
         | _ \<Rightarrow> fail SYS_E_CAP_TYPE s)
     | _ \<Rightarrow> None
   }"

definition unmap_page_table_cap :: "addr \<Rightarrow> u64 \<Rightarrow> addr \<Rightarrow> kstate \<Rightarrow> (bool \<times> kstate) option" where
  "unmap_page_table_cap page_table_slot index child_slot s = do {
     cassert (page_table_slot \<noteq> 0);
     case cap_at s page_table_slot of
       PageTableCap pt \<Rightarrow>
         if index \<ge> NUM_PAGE_TABLE_ENTRY then fail SYS_E_ILL_ARGS s
         else if child_slot = 0 then fail SYS_E_ILL_ARGS s
         else (case cap_at s child_slot of
           PageTableCap child \<Rightarrow> do {
             let va = child_va pt (pt_level pt) index;
             if va \<ge> CONFIG_KERNEL_SPACE_BASE then fail SYS_E_ILL_ARGS s
             else do {
               cassert (pt_table pt \<noteq> 0);
               if is_disabled (tables s (pt_table pt) index) then fail SYS_E_ILL_STATE s
               else if \<not> pt_mapped child then fail SYS_E_CAP_STATE s
               else if get_next_page (tables s (pt_table pt) index) \<noteq> pt_table child then fail SYS_E_ILL_STATE s
               else Some (True, set_cap child_slot
                 (PageTableCap (child\<lparr>pt_mapped := False, pt_parent_table := 0\<rparr>))
                 (upd_pte (pt_table pt) index disable s))
             }
           }
         | _ \<Rightarrow> fail SYS_E_CAP_TYPE s)
     | _ \<Rightarrow> None
   }"

definition page_flags :: "bool \<Rightarrow> bool \<Rightarrow> bool \<Rightarrow> pte_flags_t" where
  "page_flags readable writable executable = \<lparr>fl_readable = readable, fl_writable = writable,
     fl_executable = executable, fl_user = True, fl_global = False\<rparr>"

definition zero_bytes :: "addr \<Rightarrow> u64 \<Rightarrow> kstate \<Rightarrow> kstate" where
  "zero_bytes p len s = s\<lparr>mem := (\<lambda>a. if a - p < len then 0 else mem s a)\<rparr>"

definition map_virt_page_cap ::
  "addr \<Rightarrow> u64 \<Rightarrow> addr \<Rightarrow> bool \<Rightarrow> bool \<Rightarrow> bool \<Rightarrow> kstate \<Rightarrow> (bool \<times> kstate) option" where
  "map_virt_page_cap page_table_slot index virt_page_slot readable writable executable s = do {
     cassert (page_table_slot \<noteq> 0);
     case cap_at s page_table_slot of
       PageTableCap pt \<Rightarrow>
         if index \<ge> NUM_PAGE_TABLE_ENTRY then fail SYS_E_ILL_ARGS s
         else if virt_page_slot = 0 then fail SYS_E_ILL_ARGS s
         else (case cap_at s virt_page_slot of
           VirtPageCap vp \<Rightarrow> do {
             let va = child_va pt (vp_level vp) index;
             if va \<ge> CONFIG_KERNEL_SPACE_BASE then fail SYS_E_ILL_ARGS s
             else do {
               cassert (pt_table pt \<noteq> 0);
               if is_enabled (tables s (pt_table pt) index) then fail SYS_E_ILL_STATE s
               else if vp_mapped vp then fail SYS_E_CAP_STATE s
               else if vp_level vp \<noteq> pt_level pt then fail SYS_E_CAP_STATE s
               else do {
                 let s = (if \<not> vp_device vp
                   then zero_bytes (as_map (ucast (vp_phys_addr vp))) (get_page_size (unat (vp_level vp))) s else s);
                 let s = upd_pte (pt_table pt) index
                   (\<lambda>pte. enable (set_next_page (as_map (ucast (vp_phys_addr vp)))
                      (set_flags (page_flags readable writable executable) pte))) s;
                 Some (True, set_cap virt_page_slot (VirtPageCap (vp\<lparr>vp_mapped := True,
                   vp_readable := readable, vp_writable := writable, vp_executable := executable,
                   vp_index := ucast index, vp_address := va, vp_parent_table := pt_table pt\<rparr>)) s)
               }
             }
           }
         | _ \<Rightarrow> fail SYS_E_CAP_TYPE s)
     | _ \<Rightarrow> None
   }"

definition unmap_virt_page_cap :: "addr \<Rightarrow> u64 \<Rightarrow> addr \<Rightarrow> kstate \<Rightarrow> (bool \<times> kstate) option" where
  "unmap_virt_page_cap page_table_slot index virt_page_slot s = do {
     cassert (page_table_slot \<noteq> 0);
     case cap_at s page_table_slot of
       PageTableCap pt \<Rightarrow>
         if index \<ge> NUM_PAGE_TABLE_ENTRY then fail SYS_E_ILL_ARGS s
         else if virt_page_slot = 0 then fail SYS_E_ILL_ARGS s
         else (case cap_at s virt_page_slot of
           VirtPageCap vp \<Rightarrow> do {
             let va = child_va pt (vp_level vp) index;
             if va \<ge> CONFIG_KERNEL_SPACE_BASE then fail SYS_E_ILL_ARGS s
             else do {
               cassert (pt_table pt \<noteq> 0);
               if is_disabled (tables s (pt_table pt) index) then fail SYS_E_ILL_STATE s
               else if \<not> vp_mapped vp then fail SYS_E_CAP_STATE s
               else if get_next_page (tables s (pt_table pt) index) \<noteq> as_map (ucast (vp_phys_addr vp))
               then fail SYS_E_ILL_STATE s
               else Some (True, set_cap virt_page_slot
                 (VirtPageCap (vp\<lparr>vp_mapped := False, vp_parent_table := 0\<rparr>))
                 (upd_pte (pt_table pt) index disable s))
             }
           }
         | _ \<Rightarrow> fail SYS_E_CAP_TYPE s)
     | _ \<Rightarrow> None
   }"

definition remap_virt_page_cap ::
  "addr \<Rightarrow> u64 \<Rightarrow> addr \<Rightarrow> bool \<Rightarrow> bool \<Rightarrow> bool \<Rightarrow> addr \<Rightarrow> kstate \<Rightarrow> (bool \<times> kstate) option" where
  "remap_virt_page_cap new_slot index virt_page_slot readable writable executable old_slot s = do {
     cassert (new_slot \<noteq> 0);
     case cap_at s new_slot of
       PageTableCap new_pt \<Rightarrow>
         if index \<ge> NUM_PAGE_TABLE_ENTRY then fail SYS_E_ILL_ARGS s
         else if virt_page_slot = 0 then fail SYS_E_ILL_ARGS s
         else (case cap_at s virt_page_slot of
           VirtPageCap vp \<Rightarrow>
             if old_slot = 0 then fail SYS_E_ILL_ARGS s
             else (case cap_at s old_slot of
               PageTableCap old_pt \<Rightarrow> do {
                 let va = child_va new_pt (vp_level vp) index;
                 if va \<ge> CONFIG_KERNEL_SPACE_BASE then fail SYS_E_ILL_ARGS s
                 else if \<not> vp_mapped vp then fail SYS_E_CAP_STATE s
                 else if pt_level new_pt \<noteq> pt_level old_pt then fail SYS_E_CAP_STATE s
                 else if pt_level new_pt \<noteq> vp_level vp then fail SYS_E_CAP_STATE s
                 else do {
                   cassert (pt_table new_pt \<noteq> 0);
                   if is_enabled (tables s (pt_table new_pt) index) then fail SYS_E_ILL_STATE s
                   else do {
                     cassert (pt_table old_pt \<noteq> 0);
                     let old_index = ucast (vp_index vp);
                     let page = as_map (ucast (vp_phys_addr vp));
                     if is_disabled (tables s (pt_table old_pt) old_index) then fail SYS_E_ILL_STATE s
                     else if get_next_page (tables s (pt_table old_pt) old_index) \<noteq> page
                     then fail SYS_E_ILL_STATE s
                     else do {
                       let s = upd_pte (pt_table old_pt) old_index disable s;
                       let s = upd_pte (pt_table new_pt) index
                         (\<lambda>pte. enable (set_next_page page
                            (set_flags (page_flags readable writable executable) pte))) s;
                       Some (True, set_cap virt_page_slot (VirtPageCap (vp\<lparr>
                         vp_readable := readable, vp_writable := writable, vp_executable := executable,
                         vp_index := ucast index, vp_address := va,
                         vp_parent_table := pt_table new_pt\<rparr>)) s)
                     }
                   }
                 }
               }
             | _ \<Rightarrow> fail SYS_E_CAP_TYPE s)
         | _ \<Rightarrow> fail SYS_E_CAP_TYPE s)
     | _ \<Rightarrow> None
   }"

text \<open>The assertion \<^verbatim>\<open>slot->is_tail() || !is_same_object(slot, slot->next)\<close>.\<close>

definition assert_last_of_object :: "addr \<Rightarrow> kstate \<Rightarrow> unit option" where
  "assert_last_of_object slot s =
     (if is_tail s slot then Some ()
      else do { same \<leftarrow> is_same_object slot (nxt s slot) s; cassert (\<not> same) })"

definition destroy_page_table_object :: "addr \<Rightarrow> kstate \<Rightarrow> kstate option" where
  "destroy_page_table_object slot s = do {
     assert_last_of_object slot s;
     case cap_at s slot of
       PageTableCap pt \<Rightarrow>
         if pt_parent_table pt = 0 then Some s
         else do {
           i \<leftarrow> walk (ucast (pt_virt_addr_base pt)) (unat (pt_level pt) + 1);
           let pte = tables s (pt_parent_table pt) i;
           cassert (is_enabled pte);
           cassert (get_next_page pte = pt_table pt);
           Some (upd_pte (pt_parent_table pt) i disable s)
         }
     | _ \<Rightarrow> None
   }"

definition destroy_virt_page_object :: "addr \<Rightarrow> kstate \<Rightarrow> kstate option" where
  "destroy_virt_page_object slot s = do {
     assert_last_of_object slot s;
     case cap_at s slot of
       VirtPageCap vp \<Rightarrow>
         if vp_parent_table vp = 0 then Some s
         else do {
           i \<leftarrow> walk (vp_address vp) (unat (vp_level vp));
           let pte = tables s (vp_parent_table vp) i;
           cassert (is_enabled pte);
           cassert (get_next_page pte = as_map (ucast (vp_phys_addr vp)));
           Some (upd_pte (vp_parent_table vp) i disable s)
         }
     | _ \<Rightarrow> None
   }"

lemmas map_op_defs = map_page_table_cap_def unmap_page_table_cap_def map_virt_page_cap_def
  unmap_virt_page_cap_def remap_virt_page_cap_def

lemma less_not_ge: "x < y \<Longrightarrow> \<not> y \<le> x" for x :: "'a::linorder"
  by simp

subsection \<open>Failures\<close>

text \<open>An outcome that is a success or leaves the state alone but for an error code.\<close>

definition fails_cleanly :: "kstate \<Rightarrow> (bool \<times> kstate) option \<Rightarrow> bool" where
  "fails_cleanly s r \<longleftrightarrow> (\<forall>s'. r = Some (False, s') \<longrightarrow> (\<exists>e. e \<noteq> SYS_S_OK \<and> s' = s\<lparr>errno := e\<rparr>))"

lemma fails_cleanly_simps [simp]:
  "fails_cleanly s None" "fails_cleanly s (Some (True, s'))" "e \<noteq> SYS_S_OK \<Longrightarrow> fails_cleanly s (fail e s)"
  by (auto simp: fails_cleanly_def fail_def)

text \<open>
  C32: failed mapping operations change nothing. Each of the five operations either succeeds
  or leaves the state as it was, with an error code in \<^verbatim>\<open>errno\<close>.
\<close>

theorem map_ops_fail_cleanly:
  "fails_cleanly s (map_page_table_cap pts index cs s) \<and>
   fails_cleanly s (unmap_page_table_cap pts index cs s) \<and>
   fails_cleanly s (map_virt_page_cap pts index vs r w x s) \<and>
   fails_cleanly s (unmap_virt_page_cap pts index vs s) \<and>
   fails_cleanly s (remap_virt_page_cap nts index vs r w x ots s)"
proof (intro conjI)
  show "fails_cleanly s (map_page_table_cap pts index cs s)"
    by (simp add: map_page_table_cap_def split: if_split capability_t.split)
  show "fails_cleanly s (unmap_page_table_cap pts index cs s)"
    by (simp add: unmap_page_table_cap_def split: if_split capability_t.split)
  show "fails_cleanly s (map_virt_page_cap pts index vs r w x s)"
    by (simp add: map_virt_page_cap_def split: if_split capability_t.split)
  show "fails_cleanly s (unmap_virt_page_cap pts index vs s)"
    by (simp add: unmap_virt_page_cap_def split: if_split capability_t.split)
  show "fails_cleanly s (remap_virt_page_cap nts index vs r w x ots s)"
    by (simp add: remap_virt_page_cap_def split: if_split capability_t.split)
qed

subsection \<open>Types and objects\<close>

text \<open>
  Two values of a capability that stand for the same object: the type is the same, and so is the table, the page with
  its level, or everything else of the value.
\<close>

fun same_thing :: "capability_t \<Rightarrow> capability_t \<Rightarrow> bool" where
  "same_thing (PageTableCap p) (PageTableCap q) \<longleftrightarrow> pt_table p = pt_table q"
| "same_thing (VirtPageCap p) (VirtPageCap q) \<longleftrightarrow> vp_phys_addr p = vp_phys_addr q \<and> vp_level p = vp_level q \<and> vp_device p = vp_device q"
| "same_thing c d \<longleftrightarrow> c = d"

lemma same_thing_refl [simp]: "same_thing c c"
  by (cases c) simp_all

lemma same_thing_type: "same_thing c d \<Longrightarrow> get_cap_type c = get_cap_type d"
  by (cases "(c, d)" rule: same_thing.cases) auto

text \<open>
  With arguments of the types they assert, the operations return: they succeed, or fail with an error code and
  nothing else changed, and either way no capability comes to stand for another thing.
\<close>

definition settled :: "kstate \<Rightarrow> (bool \<times> kstate) option \<Rightarrow> bool" where
  "settled s r \<longleftrightarrow> r \<noteq> None \<and> (\<forall>s'. r = Some (False, s') \<longrightarrow> (\<exists>e. e \<noteq> SYS_S_OK \<and> s' = s\<lparr>errno := e\<rparr>)) \<and>
     (\<forall>ok s' z. r = Some (ok, s') \<longrightarrow> same_thing (cap_at s z) (cap_at s' z))"

lemma settled_simps [simp]:
  "e \<noteq> SYS_S_OK \<Longrightarrow> settled s (fail e s)"
  "settled s (Some (True, s')) \<longleftrightarrow> (\<forall>z. same_thing (cap_at s z) (cap_at s' z))"
  by (auto simp: settled_def fail_def cap_at_def)

lemma map_ops_settled:
  assumes "cap_at s pts = PageTableCap pt" "pts \<noteq> 0" "\<And>z p. cap_at s z = PageTableCap p \<Longrightarrow> pt_table p \<noteq> 0"
  shows "settled s (map_page_table_cap pts index cs s)" "settled s (unmap_page_table_cap pts index cs s)"
    "settled s (map_virt_page_cap pts index vs r w x s)" "settled s (unmap_virt_page_cap pts index vs s)"
    "settled s (remap_virt_page_cap pts index vs r w x ots s)"
proof -
  have n: "pt_table pt \<noteq> 0" "cap_at s z = PageTableCap p \<Longrightarrow> pt_table p \<noteq> 0" for z p using assms(1,3) by blast+
  show "settled s (map_page_table_cap pts index cs s)"
    using assms(1,2) n by (simp add: map_page_table_cap_def split: if_split capability_t.split)
  show "settled s (unmap_page_table_cap pts index cs s)"
    using assms(1,2) n by (simp add: unmap_page_table_cap_def split: if_split capability_t.split)
  show "settled s (map_virt_page_cap pts index vs r w x s)"
    using assms(1,2) n by (simp add: map_virt_page_cap_def zero_bytes_def cap_at_def Let_def split: if_split capability_t.split)
  show "settled s (unmap_virt_page_cap pts index vs s)"
    using assms(1,2) n by (simp add: unmap_virt_page_cap_def split: if_split capability_t.split)
  show "settled s (remap_virt_page_cap pts index vs r w x ots s)"
    using assms(1,2) n by (simp add: remap_virt_page_cap_def split: if_split capability_t.split)
qed

subsection \<open>Successful mapping\<close>

definition entries_outside :: "addr \<Rightarrow> u64 \<Rightarrow> kstate \<Rightarrow> kstate \<Rightarrow> bool" where
  "entries_outside tab i s s' \<longleftrightarrow> (\<forall>t j. (t, j) \<noteq> (tab, i) \<longrightarrow> tables s' t j = tables s t j)"

definition can_map_page :: "kstate \<Rightarrow> addr \<Rightarrow> u64 \<Rightarrow> addr \<Rightarrow> page_table_cap \<Rightarrow> virt_page_cap \<Rightarrow> bool" where
  "can_map_page s pts index vs pt vp \<longleftrightarrow> pts \<noteq> 0 \<and> vs \<noteq> 0 \<and> cap_at s pts = PageTableCap pt \<and>
     cap_at s vs = VirtPageCap vp \<and> index < 512 \<and> child_va pt (pt_level pt) index < CONFIG_KERNEL_SPACE_BASE \<and>
     pt_table pt \<noteq> 0 \<and> \<not> is_enabled (tables s (pt_table pt) index) \<and> \<not> vp_mapped vp \<and>
     vp_level vp = pt_level pt \<and> 4096 dvd unat (vp_phys_addr vp)"

lemma mapped_page_as_map: "4096 dvd unat (p :: 36 word) \<Longrightarrow> mapped_page (as_map (ucast p))"
  using unat_36_less [of p] by (simp add: mapped_page_def)

lemma tables_zero_bytes [simp]:
  "tables (zero_bytes p n s) = tables s" "cap_at (zero_bytes p n s) = cap_at s"
  "nxt (zero_bytes p n s) = nxt s" "prv (zero_bytes p n s) = prv s"
  by (simp_all add: zero_bytes_def)

lemma map_virt_page_cap_success:
  assumes "can_map_page s pts index vs pt vp"
  obtains s' where "map_virt_page_cap pts index vs r w x s = Some (True, s')"
    "tables s' = tables (upd_pte (pt_table pt) index (\<lambda>pte. enable (set_next_page
       (as_map (ucast (vp_phys_addr vp))) (set_flags (page_flags r w x) pte))) s)"
    "cap_at s' = (cap_at s)(vs := VirtPageCap (vp\<lparr>vp_mapped := True, vp_readable := r, vp_writable := w,
       vp_executable := x, vp_index := ucast index, vp_address := child_va pt (vp_level vp) index,
       vp_parent_table := pt_table pt\<rparr>))"
    "nxt s' = nxt s" "prv s' = prv s"
  using assms that by (simp add: can_map_page_def map_virt_page_cap_def less_not_ge)

text \<open>
  C30: unmapping undoes mapping. After a page is mapped at a free index of a page table of its
  level, unmapping it there succeeds, leaves that entry disabled and every other entry as it
  was before, and marks the capability as not mapped, all other capabilities being untouched.
\<close>

theorem map_unmap_virt_page:
  assumes can: "can_map_page s pts index vs pt vp"
  shows "\<exists>s' s'' vp'. map_virt_page_cap pts index vs r w x s = Some (True, s') \<and>
    is_enabled (tables s' (pt_table pt) index) \<and>
    get_next_page (tables s' (pt_table pt) index) = as_map (ucast (vp_phys_addr vp)) \<and>
    unmap_virt_page_cap pts index vs s' = Some (True, s'') \<and>
    \<not> is_enabled (tables s'' (pt_table pt) index) \<and> entries_outside (pt_table pt) index s s'' \<and>
    cap_at s'' = (cap_at s)(vs := VirtPageCap vp') \<and> \<not> vp_mapped vp' \<and> vp_parent_table vp' = 0 \<and>
    vp_phys_addr vp' = vp_phys_addr vp \<and> vp_level vp' = vp_level vp"
proof -
  from map_virt_page_cap_success [OF can]
  obtain s' where s': "map_virt_page_cap pts index vs r w x s = Some (True, s')"
    "tables s' = tables (upd_pte (pt_table pt) index (\<lambda>pte. enable (set_next_page
       (as_map (ucast (vp_phys_addr vp))) (set_flags (page_flags r w x) pte))) s)"
    "cap_at s' = (cap_at s)(vs := VirtPageCap (vp\<lparr>vp_mapped := True, vp_readable := r, vp_writable := w,
       vp_executable := x, vp_index := ucast index, vp_address := child_va pt (vp_level vp) index,
       vp_parent_table := pt_table pt\<rparr>))" .
  have ne: "pts \<noteq> vs" and mp: "mapped_page (as_map (ucast (vp_phys_addr vp)))"
    using can mapped_page_as_map by (auto simp: can_map_page_def)
  let ?vp = "vp\<lparr>vp_readable := r, vp_writable := w, vp_executable := x, vp_index := ucast index,
    vp_address := child_va pt (vp_level vp) index, vp_mapped := False, vp_parent_table := 0\<rparr>"
  let ?s'' = "set_cap vs (VirtPageCap ?vp) (upd_pte (pt_table pt) index disable s')"
  have "unmap_virt_page_cap pts index vs s' = Some (True, ?s'')"
    using can ne s'(2,3) mapped_page_pte [OF mp]
    by (simp add: unmap_virt_page_cap_def can_map_page_def less_not_ge)
  moreover have "entries_outside (pt_table pt) index s ?s''" "\<not> is_enabled (tables ?s'' (pt_table pt) index)"
    "is_enabled (tables s' (pt_table pt) index)"
    "get_next_page (tables s' (pt_table pt) index) = as_map (ucast (vp_phys_addr vp))"
    using s'(2) mapped_page_pte [OF mp] by (auto simp: entries_outside_def)
  moreover have "cap_at ?s'' = (cap_at s)(vs := VirtPageCap ?vp)" using s'(3) by simp
  ultimately show ?thesis using s'(1)
    by (intro exI [of _ s'] exI [of _ ?s''] exI [of _ ?vp]) simp
qed

definition demo_virt_page :: virt_page_cap where
  "demo_virt_page = \<lparr>vp_mapped = False, vp_device = False, vp_readable = False, vp_writable = False,
     vp_executable = False, vp_level = 0, vp_index = 0, vp_phys_addr = 0x8000, vp_address = 0,
     vp_parent_table = 0\<rparr>"

definition demo_pages :: kstate where
  "demo_pages = set_cap 0x1040 (PageTableCap demo_page_table)
     (set_cap 0x1068 (VirtPageCap demo_virt_page) demo_state)"

lemma demo_can_map: "can_map_page demo_pages 0x1040 3 0x1068 demo_page_table demo_virt_page"
  by (simp add: can_map_page_def demo_pages_def demo_page_table_def demo_virt_page_def child_va_def
      config_defs demo_state_def zero_state_def)

theorem map_unmap_virt_page_witness:
  "\<exists>s' s''. map_virt_page_cap 0x1040 3 0x1068 True True False demo_pages = Some (True, s') \<and>
     unmap_virt_page_cap 0x1040 3 0x1068 s' = Some (True, s'')"
  using map_unmap_virt_page [OF demo_can_map, of True True False] by blast

subsection \<open>Addresses\<close>

lemma unat_ucast_38 [simp]: "unat (ucast (w :: 38 word) :: u64) = unat w"
  by (simp add: unsigned_ucast_eq take_bit_nat_eq_self unsigned_less [THEN less_trans])

lemma unat_child_va:
  assumes "unat level \<le> 2" "index < 512"
  shows "unat (child_va pt level index) =
    unat (pt_virt_addr_base pt) + 2 ^ get_page_size_bit (unat level) * unat index"
proof -
  let ?n = "unat (pt_virt_addr_base pt) + 2 ^ get_page_size_bit (unat level) * unat index"
  have "child_va pt level index = of_nat ?n"
    by (simp add: child_va_def get_page_size_pow flip: unat_ucast_38)
  moreover have "?n < 2 ^ 64"
  proof -
    have "(2 :: nat) ^ get_page_size_bit (unat level) \<le> 2 ^ 30"
      using assms(1) by (intro power_increasing) (simp_all add: get_page_size_bit_def)
    then have "2 ^ get_page_size_bit (unat level) * unat index \<le> 2 ^ 30 * 512"
      using assms(2) by (intro mult_le_mono) (simp_all add: word_less_nat_alt)
    moreover have "unat (pt_virt_addr_base pt) < 2 ^ 38" using unsigned_less [of "pt_virt_addr_base pt"] by simp
    ultimately show ?thesis by simp
  qed
  ultimately show ?thesis by (simp only: unat_of_nat_u64)
qed

text \<open>A page table capability whose base address is a multiple of what the table spans.\<close>

definition table_aligned :: "page_table_cap \<Rightarrow> bool" where
  "table_aligned pt \<longleftrightarrow> unat (pt_level pt) \<le> 2 \<and>
     2 ^ get_page_size_bit (unat (pt_level pt) + 1) dvd unat (pt_virt_addr_base pt)"

lemma child_va_index:
  assumes "table_aligned pt" "index < 512"
  shows "get_page_table_index (child_va pt (pt_level pt) index) (unat (pt_level pt)) = index"
proof -
  let ?l = "unat (pt_level pt)"
  let ?P = "2 ^ get_page_size_bit ?l :: nat"
  obtain k where "unat (pt_virt_addr_base pt) = 2 ^ get_page_size_bit (?l + 1) * k"
    using assms(1) by (auto simp: table_aligned_def)
  then have k: "unat (pt_virt_addr_base pt) = ?P * (512 * k)"
    by (simp add: get_page_size_bit_def power_add)
  have "unat (child_va pt (pt_level pt) index) = ?P * (512 * k + unat index)"
    using assms k by (simp add: table_aligned_def unat_child_va distrib_left)
  then have "unat (get_page_table_index (child_va pt (pt_level pt) index) ?l) = (512 * k + unat index) mod 512"
    by (simp add: unat_get_page_table_index)
  also have "\<dots> = unat index" using assms(2) by (simp add: word_less_nat_alt)
  finally show ?thesis by (rule word_unatI)
qed

lemma child_va_walk:
  assumes "table_aligned pt" "index < 512" "child_va pt (pt_level pt) index < CONFIG_KERNEL_SPACE_BASE"
  shows "walk (child_va pt (pt_level pt) index) (unat (pt_level pt)) = Some index"
proof -
  have "CONFIG_KERNEL_SPACE_BASE < CONFIG_MAX_VIRTUAL_ADDRESS" by (simp add: config_defs)
  with assms(3) have "child_va pt (pt_level pt) index < CONFIG_MAX_VIRTUAL_ADDRESS" by (rule less_trans)
  with assms(1) child_va_index [OF assms(1,2)] show ?thesis by (simp add: table_aligned_def)
qed

text \<open>
  Destroying a mapped page removes its entry. The address and level recorded by
  \<^verbatim>\<open>map_virt_page_cap\<close> lead \<^verbatim>\<open>destroy_virt_page_object\<close> back to the very entry that was
  set, so the destruction succeeds and disables that entry and no other.
\<close>

theorem map_destroy_virt_page:
  assumes can: "can_map_page s pts index vs pt vp" and al: "table_aligned pt" and tl: "is_tail s vs"
  shows "\<exists>s' s''. map_virt_page_cap pts index vs r w x s = Some (True, s') \<and>
    destroy_virt_page_object vs s' = Some s'' \<and>
    \<not> is_enabled (tables s'' (pt_table pt) index) \<and> entries_outside (pt_table pt) index s s''"
proof -
  from map_virt_page_cap_success [OF can]
  obtain s' where s': "map_virt_page_cap pts index vs r w x s = Some (True, s')"
    "tables s' = tables (upd_pte (pt_table pt) index (\<lambda>pte. enable (set_next_page
       (as_map (ucast (vp_phys_addr vp))) (set_flags (page_flags r w x) pte))) s)"
    "cap_at s' = (cap_at s)(vs := VirtPageCap (vp\<lparr>vp_mapped := True, vp_readable := r, vp_writable := w,
       vp_executable := x, vp_index := ucast index, vp_address := child_va pt (vp_level vp) index,
       vp_parent_table := pt_table pt\<rparr>))" "nxt s' = nxt s" .
  have mp: "mapped_page (as_map (ucast (vp_phys_addr vp)))"
    using can mapped_page_as_map by (auto simp: can_map_page_def)
  have "walk (child_va pt (vp_level vp) index) (unat (vp_level vp)) = Some index"
    using child_va_walk [OF al] can by (simp add: can_map_page_def)
  with can s' tl mapped_page_pte [OF mp]
  have "destroy_virt_page_object vs s' = Some (upd_pte (pt_table pt) index disable s')"
    by (simp add: destroy_virt_page_object_def assert_last_of_object_def is_tail_def can_map_page_def)
  moreover have "entries_outside (pt_table pt) index s (upd_pte (pt_table pt) index disable s')"
    using s'(2) by (auto simp: entries_outside_def)
  ultimately show ?thesis using s'(1) by (intro exI conjI) (assumption | simp)+
qed

theorem map_destroy_virt_page_witness:
  "\<exists>s' s''. map_virt_page_cap 0x1040 3 0x1068 True True False demo_pages = Some (True, s') \<and>
     destroy_virt_page_object 0x1068 s' = Some s''"
proof -
  have "table_aligned demo_page_table" "is_tail demo_pages 0x1068"
    by (simp_all add: table_aligned_def demo_page_table_def is_tail_def demo_pages_def)
  from map_destroy_virt_page [OF demo_can_map this, of True True False] show ?thesis by blast
qed

text \<open>
  C31: \<^verbatim>\<open>remap_virt_page_cap\<close> moves a mapping. For a page that is mapped where its capability
  says and a free entry of another index or table, the call succeeds: the old entry is
  disabled, the new one leads to the same page and is readable, writable and executable exactly as
  asked, for the user and not global, no third entry changes, and the capability records the new
  index, address, permissions and table.
\<close>

theorem remap_virt_page_moves:
  assumes c: "cap_at s nts = PageTableCap npt" "cap_at s ots = PageTableCap opt" "cap_at s vs = VirtPageCap vp"
    and nz: "nts \<noteq> 0" "ots \<noteq> 0" "vs \<noteq> 0" "pt_table npt \<noteq> 0" "pt_table opt \<noteq> 0"
    and ix: "index < 512" "child_va npt (pt_level npt) index < CONFIG_KERNEL_SPACE_BASE"
    and lv: "pt_level opt = pt_level npt" "vp_level vp = pt_level npt"
    and old: "vp_mapped vp" "is_enabled (tables s (pt_table opt) (ucast (vp_index vp)))"
      "get_next_page (tables s (pt_table opt) (ucast (vp_index vp))) = as_map (ucast (vp_phys_addr vp))"
    and new: "\<not> is_enabled (tables s (pt_table npt) index)" and ph: "4096 dvd unat (vp_phys_addr vp)"
  shows "\<exists>s'. remap_virt_page_cap nts index vs r w x ots s = Some (True, s') \<and>
    \<not> is_enabled (tables s' (pt_table opt) (ucast (vp_index vp))) \<and>
    is_enabled (tables s' (pt_table npt) index) \<and>
    get_next_page (tables s' (pt_table npt) index) = as_map (ucast (vp_phys_addr vp)) \<and>
    pte_r (tables s' (pt_table npt) index) = r \<and> pte_w (tables s' (pt_table npt) index) = w \<and>
    pte_x (tables s' (pt_table npt) index) = x \<and> is_user (tables s' (pt_table npt) index) \<and>
    \<not> pte_g (tables s' (pt_table npt) index) \<and>
    (\<forall>t i. (t, i) \<noteq> (pt_table npt, index) \<and> (t, i) \<noteq> (pt_table opt, ucast (vp_index vp)) \<longrightarrow>
       tables s' t i = tables s t i) \<and>
    cap_at s' = (cap_at s)(vs := VirtPageCap (vp\<lparr>vp_readable := r, vp_writable := w, vp_executable := x,
      vp_index := ucast index, vp_address := child_va npt (vp_level vp) index,
      vp_parent_table := pt_table npt\<rparr>))"
proof -
  have ne: "(pt_table npt, index) \<noteq> (pt_table opt, ucast (vp_index vp))" using old(2) new by auto
  have mp: "mapped_page (as_map (ucast (vp_phys_addr vp)))" using ph by (rule mapped_page_as_map)
  let ?s1 = "upd_pte (pt_table opt) (ucast (vp_index vp)) disable s"
  let ?s2 = "upd_pte (pt_table npt) index (\<lambda>pte. enable (set_next_page (as_map (ucast (vp_phys_addr vp)))
     (set_flags (page_flags r w x) pte))) ?s1"
  let ?s' = "set_cap vs (VirtPageCap (vp\<lparr>vp_readable := r, vp_writable := w, vp_executable := x,
      vp_index := ucast index, vp_address := child_va npt (vp_level vp) index,
      vp_parent_table := pt_table npt\<rparr>)) ?s2"
  have "remap_virt_page_cap nts index vs r w x ots s = Some (True, ?s')"
    using c nz ix lv old new by (simp add: remap_virt_page_cap_def less_not_ge)
  moreover have "\<not> is_enabled (tables ?s' (pt_table opt) (ucast (vp_index vp)))"
    using ne by auto
  moreover have "get_next_page (tables ?s' (pt_table npt) index) = as_map (ucast (vp_phys_addr vp))"
    using mapped_page_pte [OF mp] by simp
  moreover have "pte_r (tables ?s' (pt_table npt) index) = r" "pte_w (tables ?s' (pt_table npt) index) = w"
    "pte_x (tables ?s' (pt_table npt) index) = x" "is_user (tables ?s' (pt_table npt) index)"
    "\<not> pte_g (tables ?s' (pt_table npt) index)"
    by (simp_all add: pte_defs page_flags_def)
  ultimately show ?thesis by (intro exI [of _ ?s']) auto
qed

theorem remap_virt_page_moves_witness:
  "\<exists>s s'. map_virt_page_cap 0x1040 3 0x1068 True True False demo_pages = Some (True, s) \<and>
     remap_virt_page_cap 0x1040 7 0x1068 True False False 0x1040 s = Some (True, s') \<and>
     \<not> is_enabled (tables s' 0x2000005000 3) \<and> is_enabled (tables s' 0x2000005000 7) \<and>
     pte_r (tables s' 0x2000005000 7) \<and> \<not> pte_w (tables s' 0x2000005000 7) \<and> \<not> pte_x (tables s' 0x2000005000 7)"
proof -
  from map_virt_page_cap_success [OF demo_can_map]
  obtain s where s: "map_virt_page_cap 0x1040 3 0x1068 True True False demo_pages = Some (True, s)"
    "tables s = tables (upd_pte (pt_table demo_page_table) 3 (\<lambda>pte. enable (set_next_page
       (as_map (ucast (vp_phys_addr demo_virt_page))) (set_flags (page_flags True True False) pte))) demo_pages)"
    "cap_at s = (cap_at demo_pages)(0x1068 := VirtPageCap (demo_virt_page\<lparr>vp_mapped := True, vp_readable := True,
       vp_writable := True, vp_executable := False, vp_index := ucast (3 :: u64),
       vp_address := child_va demo_page_table (vp_level demo_virt_page) 3,
       vp_parent_table := pt_table demo_page_table\<rparr>))" .
  have mp: "mapped_page (as_map (ucast (vp_phys_addr demo_virt_page)))"
    by (rule mapped_page_as_map) (simp add: demo_virt_page_def)
  let ?vp = "demo_virt_page\<lparr>vp_mapped := True, vp_readable := True,
       vp_writable := True, vp_executable := False, vp_index := ucast (3 :: u64),
       vp_address := child_va demo_page_table (vp_level demo_virt_page) 3,
       vp_parent_table := pt_table demo_page_table\<rparr>"
  have "cap_at s 0x1040 = PageTableCap demo_page_table" "cap_at s 0x1068 = VirtPageCap ?vp"
    using s(3) by (simp_all add: demo_pages_def)
  moreover have "\<not> is_enabled (tables s (pt_table demo_page_table) 7)"
    using s(2) by (simp add: demo_pages_def demo_state_def zero_state_def)
  ultimately show ?thesis
    using remap_virt_page_moves [of s "0x1040" demo_page_table "0x1040" demo_page_table "0x1068" ?vp 7 True False False]
      s(1,2) mapped_page_pte [OF mp]
    by (auto simp: demo_page_table_def demo_virt_page_def child_va_def config_defs)
qed

text \<open>
  A page table that was used to extend a capability space cannot be destroyed. The wrong
  parent sends \<^verbatim>\<open>destroy_page_table_object\<close> to an entry of the table itself; as long as the
  extension is unused that entry is disabled, and the kernel stops at the assertion.
\<close>

theorem extend_then_destroy_stops:
  assumes ex: "extend_cap_space_cap ts ps s = Some (True, s')"
    and c: "cap_at s ps = PageTableCap pt" "cap_at s ts = TaskCap tc" and mp: "mapped_page (pt_table pt)"
    and fresh: "\<forall>i. \<not> is_enabled (tables s (pt_table pt) i)"
      "walk_enabled (t_root_page_table (tasks s (tc_task tc)))
         (space_va (512 * ucast (t_num_extension (tasks s (tc_task tc))))) [2] s \<noteq> Some (pt_table pt)"
  shows "destroy_page_table_object ps s' = None"
proof -
  from extend_cap_space_cap_effect [OF ex c mp]
  obtain va mid j where e: "walk_enabled (t_root_page_table (tasks s (tc_task tc))) va [2] s = Some mid"
    "va = space_va (512 * ucast (t_num_extension (tasks s (tc_task tc))))"
    "tables s' = tables (upd_pte mid j (\<lambda>pte. enable (set_next_page (pt_table pt) (set_flags no_flags pte))) s)"
    "cap_at s' ps = PageTableCap (pt\<lparr>pt_mapped := True, pt_level := 0, pt_virt_addr_base := ucast va,
       pt_parent_table := pt_table pt\<rparr>)" .
  have "mid \<noteq> pt_table pt" using e(1,2) fresh(2) by auto
  moreover have "pt_table pt \<noteq> 0" using mapped_page_is_page [OF mp] by (simp add: is_page_def)
  ultimately show ?thesis
    using fresh(1) e(3,4) by (auto simp: destroy_page_table_object_def bind_eq_None_conv)
qed

theorem extend_then_destroy_stops_witness:
  "\<exists>s'. extend_cap_space_cap 0x1040 0x1068 demo_extend = Some (True, s') \<and>
     destroy_page_table_object 0x1068 s' = None"
proof -
  obtain s' where s': "extend_cap_space_cap 0x1040 0x1068 demo_extend = Some (True, s')"
    using demo_extend_ok by blast
  have t: "tc_task demo_task_cap = 0x2000004000" "t_num_extension (tasks demo_extend 0x2000004000) = 1"
    "t_root_page_table (tasks demo_extend 0x2000004000) = 0x2000001000"
    by (simp_all add: demo_task_cap_def demo_extend_def demo_tables_def zero_task_def)
  have "walk_enabled 0x2000001000 (space_va 512) [2] demo_extend = Some 0x2000002000"
    using space_va_walk [of 512 2] space_va_index [of 512]
    by (simp add: walk_enabled.simps demo_extend_def demo_tables_def mapped_page_pte)
  moreover have "cap_at demo_extend 0x1068 = PageTableCap demo_page_table"
    "cap_at demo_extend 0x1040 = TaskCap demo_task_cap" "mapped_page (pt_table demo_page_table)"
    "\<forall>i. \<not> is_enabled (tables demo_extend (pt_table demo_page_table) i)"
    "pt_table demo_page_table = 0x2000005000"
    by (simp_all add: demo_extend_def demo_page_table_def demo_tables_def)
  ultimately show ?thesis
    using extend_then_destroy_stops [OF s', of demo_page_table demo_task_cap] s' t by auto
qed

end
