(* ===== verification/Cap_Revoke.thy ===== *)
theory Cap_Revoke
  imports Ipc_Props Cap_Map
begin

text \<open>
  Killing a task (\<^verbatim>\<open>kill_task\<close> of \<^verbatim>\<open>src/kernel/task.cpp\<close>), destroying objects
  (\<^verbatim>\<open>src/kernel/cap.cpp\<close>) and revoking and destroying capabilities (\<^verbatim>\<open>src/kernel/cap_space.cpp\<close>).
  Destroying a task capability kills the task, which may switch tasks, so all of these are
  resumptions and take and release the locks they hold in the state.

  The loop of \<^verbatim>\<open>revoke_cap\<close> over the slots behind a memory capability has a bound on the number of
  rounds as its first argument. The lemmas show that the number of slots behind the capability
  is enough.
\<close>

subsection \<open>Killing a task\<close>

definition tid_index :: "tid_t \<Rightarrow> 32 word" where
  "tid_index tid = take_bit 22 tid"

text \<open>The queue or the call a waiting task takes part in.\<close>

definition leave_endpoint :: "addr \<Rightarrow> kstate \<Rightarrow> kstate option" where
  "leave_endpoint task s = do {
     let ep = t_endpoint (tasks s task);
     if ep = 0 then Some s
     else do {
       guard_endpoint ep s;
       case t_ipc_state (tasks s task) of
         sending \<Rightarrow> remove_waiting_queue (sender_queue_of ep) task s
       | receiving \<Rightarrow> remove_waiting_queue (receiver_queue_of ep) task s
       | calling \<Rightarrow> do {
           let callee = t_callee_task (tasks s task);
           guard_task callee s;
           cassert (t_caller_task (tasks s callee) = task);
           Some (upd_task callee (\<lambda>x. x\<lparr>t_caller_task := 0\<rparr>) s)
         }
       | _ \<Rightarrow> None
     }
   }"

definition kill_task :: "msg_abi \<Rightarrow> addr \<Rightarrow> 32 word \<Rightarrow> kstate \<Rightarrow> unit run" where
  "kill_task abi task exit_status s =
     rbind (lift_state (do {
       cassert (task \<noteq> 0);
       s \<leftarrow> lock_task task s;
       cassert (t_state (tasks s task) \<noteq> unused);
       s \<leftarrow> (case t_state (tasks s task) of
           ready \<Rightarrow> remove_ready_queue task s
         | waiting \<Rightarrow> leave_endpoint task s
         | _ \<Rightarrow> Some s);
       Some (upd_task task (\<lambda>x. x\<lparr>t_state := killed, t_exit_status := exit_status\<rparr>) s)
     })) (\<lambda>_ s.
     rbind (if t_kill_notify (tasks s task) \<noteq> 0
       then ipc_send_kill_notify abi (t_kill_notify (tasks s task)) task s else Done () s) (\<lambda>_ s.
     rassert (tid_index (t_tid (tasks s task)) \<noteq> 1)
       (if task = current_task s then rbind (resched s) (\<lambda>_ _. Stop)
        else lift_state (unlock_task task s))))"

subsection \<open>Destroying objects\<close>

definition destroy_memory_object :: "addr \<Rightarrow> kstate \<Rightarrow> kstate option" where
  "destroy_memory_object slot s = do {
     cassert (is_tail s slot);
     case cap_at s slot of
       MemoryCap m \<Rightarrow> Some (set_cap slot (MemoryCap (m\<lparr>mem_used_size := 0\<rparr>)) s)
     | _ \<Rightarrow> None
   }"

definition destroy_task_object :: "msg_abi \<Rightarrow> addr \<Rightarrow> kstate \<Rightarrow> unit run" where
  "destroy_task_object abi slot s =
     rbind (lift_state (do { assert_last_of_object slot s; Some s })) (\<lambda>_ s.
     case cap_at s slot of TaskCap t \<Rightarrow> kill_task abi (tc_task t) 0 s | _ \<Rightarrow> Stop)"

definition destroy_endpoint_object :: "addr \<Rightarrow> kstate \<Rightarrow> kstate option" where
  "destroy_endpoint_object slot s = do {
     assert_last_of_object slot s;
     case cap_at s slot of EndpointCap e \<Rightarrow> ipc_cancel (ec_endpoint e) s | _ \<Rightarrow> None
   }"

definition destroy_cap_space_object :: "addr \<Rightarrow> kstate \<Rightarrow> kstate option" where
  "destroy_cap_space_object slot s = do {
     assert_last_of_object slot s;
     cassert (get_cap_type (cap_at s slot) = CAP_CAP_SPACE);
     Some s
   }"

definition destroy_id_object :: "addr \<Rightarrow> kstate \<Rightarrow> kstate option" where
  "destroy_id_object slot s = do {
     assert_last_of_object slot s;
     cassert (get_cap_type (cap_at s slot) = CAP_ID);
     Some s
   }"

definition destroy_object :: "msg_abi \<Rightarrow> addr \<Rightarrow> kstate \<Rightarrow> unit run" where
  "destroy_object abi slot s =
     rassert (slot \<noteq> 0)
       (case get_cap_type (cap_at s slot) of
          CAP_MEM \<Rightarrow> lift_state (destroy_memory_object slot s)
        | CAP_TASK \<Rightarrow> destroy_task_object abi slot s
        | CAP_ENDPOINT \<Rightarrow> lift_state (destroy_endpoint_object slot s)
        | CAP_PAGE_TABLE \<Rightarrow> lift_state (destroy_page_table_object slot s)
        | CAP_VIRT_PAGE \<Rightarrow> lift_state (destroy_virt_page_object slot s)
        | CAP_CAP_SPACE \<Rightarrow> lift_state (destroy_cap_space_object slot s)
        | CAP_ID \<Rightarrow> lift_state (destroy_id_object slot s)
        | _ \<Rightarrow> Stop)"

subsection \<open>Revoking and destroying capabilities\<close>

text \<open>
  The branches of \<^verbatim>\<open>destroy_cap_slot\<close> before the slot is released. The capability of a slot behind a
  zombie returns to the zombie; the object is destroyed unless the slot in front has the same one.
\<close>

definition drop_object :: "msg_abi \<Rightarrow> addr \<Rightarrow> kstate \<Rightarrow> unit run" where
  "drop_object abi slot s =
     (if \<not> is_head s slot then
        let prev_slot = prv s slot in
        if get_cap_type (cap_at s prev_slot) = CAP_ZOMBIE
        then Done () (set_cap prev_slot (cap_at s slot) s)
        else case is_same_object prev_slot slot s of
          None \<Rightarrow> Stop
        | Some same \<Rightarrow> if same then Done () s else destroy_object abi slot s
      else destroy_object abi slot s)"

definition destroy_cap_slot :: "msg_abi \<Rightarrow> addr \<Rightarrow> kstate \<Rightarrow> unit run" where
  "destroy_cap_slot abi slot s =
     rassert (slot \<noteq> 0 \<and> is_tail s slot)
       (rbind (lift_state (do {
          s \<leftarrow> lock_task (slot_task s slot) s;
          cassert (t_state (tasks s (slot_task s slot)) \<noteq> unused);
          Some s
        })) (\<lambda>_ s1.
        rbind (drop_object abi slot s1) (\<lambda>_ s.
        rbind (lift_state (do {
          (_, s) \<leftarrow> erase_this slot s;
          push_free_slots (slot_task s slot) slot s
        })) (\<lambda>_ s. lift_state (unlock_task (slot_task s1 slot) s)))))"

primrec destroy_back :: "nat \<Rightarrow> msg_abi \<Rightarrow> addr \<Rightarrow> addr \<Rightarrow> kstate \<Rightarrow> unit run" where
  "destroy_back 0 abi slot cap_slot s = (if cap_slot = slot then Done () s else Stop)"
| "destroy_back (Suc n) abi slot cap_slot s =
     (if cap_slot = slot then Done () s
      else let prev_slot = prv s cap_slot in
        rbind (destroy_cap_slot abi cap_slot s) (\<lambda>_ s. destroy_back n abi slot prev_slot s))"

definition revoke_cap :: "nat \<Rightarrow> msg_abi \<Rightarrow> addr \<Rightarrow> kstate \<Rightarrow> bool run" where
  "revoke_cap n abi slot s =
     rassert (slot \<noteq> 0)
       (let type = get_cap_type (cap_at s slot) in
        if type \<noteq> CAP_MEM \<and> type \<noteq> CAP_ZOMBIE then Done False (s\<lparr>errno := SYS_E_CAP_TYPE\<rparr>)
        else rbind (lift_state (do {
            s \<leftarrow> lock_task (slot_task s slot) s;
            cassert (t_state (tasks s (slot_task s slot)) \<noteq> unused);
            Some s
          })) (\<lambda>_ s1.
          rbind (if type = CAP_MEM then
              (case find_tail slot s1 of None \<Rightarrow> Stop | Some cap_slot \<Rightarrow> destroy_back n abi slot cap_slot s1)
            else lift_state (revoke_zombie slot s1)) (\<lambda>_ s.
          rbind (lift_state (unlock_task (slot_task s1 slot) s)) (\<lambda>_ s. Done True s))))"

text \<open>\<^verbatim>\<open>other == nullptr || !is_same_object(other, slot)\<close>\<close>

definition no_same_object :: "addr \<Rightarrow> addr \<Rightarrow> kstate \<Rightarrow> bool option" where
  "no_same_object other slot s =
     (if other = 0 then Some True else map_option Not (is_same_object other slot s))"

text \<open>Whether \<^verbatim>\<open>destroy_cap\<close> finds no other slot of the same object next to this one.\<close>

definition only_slot_of_object :: "addr \<Rightarrow> kstate \<Rightarrow> bool option" where
  "only_slot_of_object slot s = do {
     a \<leftarrow> no_same_object (prv s slot) slot s;
     if \<not> a then Some False else no_same_object (nxt s slot) slot s
   }"

definition destroy_cap :: "nat \<Rightarrow> msg_abi \<Rightarrow> addr \<Rightarrow> kstate \<Rightarrow> bool run" where
  "destroy_cap n abi slot s =
     rassert (slot \<noteq> 0)
       (let type = get_cap_type (cap_at s slot) in
        if type = CAP_NULL then Done False (s\<lparr>errno := SYS_E_CAP_TYPE\<rparr>)
        else rbind (if type = CAP_MEM \<or> type = CAP_ZOMBIE then revoke_cap n abi slot s else Done True s) (\<lambda>ok s.
          if \<not> ok then Done False s
          else case only_slot_of_object slot s of
            None \<Rightarrow> Stop
          | Some True \<Rightarrow>
              rbind (destroy_object abi slot s) (\<lambda>_ s.
              rbind (lift_state (push_free_slots (slot_task s slot) slot s)) (\<lambda>_ s. Done True s))
          | Some False \<Rightarrow>
              if prv s slot \<noteq> 0 \<and> get_cap_type (cap_at s (prv s slot)) = CAP_ZOMBIE then
                (case is_same_object (prv s slot) slot s of
                   Some True \<Rightarrow> revoke_cap n abi (prv s slot) s
                 | _ \<Rightarrow> Stop)
              else rbind (lift_state (do {
                  (_, s) \<leftarrow> erase_this slot s;
                  push_free_slots (slot_task s slot) slot s
                })) (\<lambda>_ s. Done True s)))"

subsection \<open>Scopes that hold a lock\<close>

lemma slot_task_set_cap [simp]: "slot_task (set_cap x c s) = slot_task s"
  by (simp add: slot_task_def [abs_def])

definition held :: "addr \<Rightarrow> recursive_spinlock_t \<Rightarrow> kstate \<Rightarrow> kstate" where
  "held t l s = upd_task t (\<lambda>x. x\<lparr>t_lock := l\<rparr>) s"

lemma held_simps [simp]:
  "cap_at (held t l s) = cap_at s" "nxt (held t l s) = nxt s" "prv (held t l s) = prv s"
  "slot_task (held t l s) = slot_task s" "chain (held t l s) xs = chain s xs" "endpoints (held t l s) = endpoints s"
  "t_state (tasks (held t l s) u) = t_state (tasks s u)" "errno (held t l s) = errno s"
  "current_tid (held t l s) = current_tid s" "current_task (held t l s) = current_task s"
  "t_lock (tasks (held t l s) u) = (if u = t then l else t_lock (tasks s u))"
  by (auto simp: held_def cap_at_def nxt_def prv_def slot_task_def chain_def current_tid_def fun_eq_iff)

lemma held_free_list [simp]: "free_list (held t l s) u xs = free_list s u xs"
  by (auto simp: free_list_def) (auto simp: held_def split: if_splits)

lemma held_is_free [simp]: "is_free (held t l s) x = is_free s x"
  by (simp add: is_free_def)

text \<open>Tasks whose locks are in a proper state and can be had by the current task.\<close>

definition lockable :: "kstate \<Rightarrow> addr set \<Rightarrow> bool" where
  "lockable s T \<longleftrightarrow> current_tid s \<noteq> 0 \<and> pools s T \<and> (\<forall>t\<in>T. lock_wf (t_lock (tasks s t)))"

lemma lock_wf_rlock: "lock_wf l \<Longrightarrow> tid \<noteq> 0 \<Longrightarrow> rl_count l \<noteq> - 1 \<Longrightarrow> rlock tid l = Some l' \<Longrightarrow> lock_wf l'"
  by (auto simp: lock_wf_def rlock_def free_lock_def add_eq_0_iff2 split: if_splits)

lemma lock_scope:
  assumes "lockable s T" "t \<in> T"
  obtains l where "lock_task t s = Some (held t l s)" "pools (held t l s) T" "t_state (tasks s t) \<noteq> unused"
    "rl_count (t_lock (tasks s t)) \<noteq> - 1 \<Longrightarrow> lockable (held t l s) T" "runlock (current_tid s) l = Some (t_lock (tasks s t))"
proof -
  have t: "t \<noteq> 0" "lock_free_for s t" "lock_wf (t_lock (tasks s t))" "current_tid s \<noteq> 0" "t_state (tasks s t) \<noteq> unused"
    using assms by (auto simp: lockable_def pools_def task_ok_def)
  then obtain l where l: "rlock (current_tid s) (t_lock (tasks s t)) = Some l" by (auto simp: lock_free_for_def)
  then have o: "rl_owner l = current_tid s" by (auto simp: rlock_def split: if_splits)
  have "lock_free_for (held t l s) u = lock_free_for s u" for u
    using o t(2) by (auto simp: lock_free_for_def rlock_def)
  then have "pools (held t l s) T" using assms(1) by (simp add: lockable_def pools_def task_ok_def)
  moreover have "lock_task t s = Some (held t l s)" using t(1) l by (simp add: lock_task_def held_def)
  moreover have "lockable (held t l s) T" if "rl_count (t_lock (tasks s t)) \<noteq> - 1"
    using lock_wf_rlock [OF t(3,4) that l] assms(1) calculation by (simp add: lockable_def)
  ultimately show ?thesis using that t(5) rlock_runlock [OF t(3,4) l] by blast
qed

text \<open>Leaving the scope gives the lock back as it was.\<close>

lemma unlock_scope:
  assumes "quiet (held t l s) s'" "runlock (current_tid s) l = Some (t_lock (tasks s t))" "lockable s T" "pools s' T"
  shows "\<exists>s''. unlock_task t s' = Some s'' \<and> quiet s s'' \<and> lockable s'' T \<and> cap_at s'' = cap_at s' \<and>
    (\<forall>xs. chain s'' xs = chain s' xs) \<and> (\<forall>x. is_free s'' x = is_free s' x)"
proof -
  let ?s = "held t (t_lock (tasks s t)) s'"
  have u: "unlock_task t s' = Some ?s"
    using assms(1,2) by (simp add: unlock_task_def quiet_def) (simp add: held_def)
  have q: "quiet s ?s" using assms(1) by (auto simp: quiet_def split: if_splits)
  have "lock_free_for ?s u = lock_free_for s u" for u using q by (simp add: lock_free_for_def quiet_def)
  moreover have "task_ok s u" if "u \<in> T" for u using that assms(3) by (simp add: lockable_def pools_def)
  moreover have "t_state (tasks s' u) = t_state (tasks s u)" for u using assms(1) by (simp add: quiet_def)
  ultimately have "pools ?s T" using assms(4) by (simp add: pools_def task_ok_def)
  then have "lockable ?s T" using q assms(3) by (simp add: lockable_def quiet_def)
  with u q show ?thesis by (intro exI [of _ ?s]) simp
qed

subsection \<open>Objects that go without a switch\<close>

text \<open>
  Capabilities whose object is destroyed without stopping or switching: memory, ids, capability spaces,
  pages and page tables that are not mapped, and endpoints on which nobody waits.
\<close>

fun inert :: "kstate \<Rightarrow> capability_t \<Rightarrow> bool" where
  "inert s (MemoryCap m) = True"
| "inert s (IdCap i) = True"
| "inert s (CapSpaceCap c) = True"
| "inert s (PageTableCap pt) = (pt_parent_table pt = 0)"
| "inert s (VirtPageCap vp) = (vp_parent_table vp = 0)"
| "inert s (EndpointCap e) = (ec_endpoint e \<noteq> 0 \<and> ep_lock_free_for s (ec_endpoint e) \<and>
     receiver_head s (ec_endpoint e) = 0 \<and> sender_head s (ec_endpoint e) = 0)"
| "inert s _ = False"

lemma inert_cong: "quiet s s' \<Longrightarrow> inert s' c = inert s c"
  by (cases c) (simp_all add: quiet_def ep_lock_free_for_def receiver_head_def sender_head_def)

lemma set_cap_same [simp]: "set_cap x (cap_at s x) s = s"
  by (simp add: set_cap_def cap_at_def)

lemma destroy_inert:
  assumes "inert s (cap_at s z)" "is_tail s z" "z \<noteq> 0"
  shows "\<exists>c. destroy_object abi z s = Done () (set_cap z c s) \<and> c \<noteq> NullCap"
proof -
  have same: "destroy_object abi z s = Done () s \<and> cap_at s z \<noteq> NullCap"
    if "get_cap_type (cap_at s z) \<noteq> CAP_MEM"
    using that assms
    by (cases "cap_at s z") (simp_all add: destroy_object_def destroy_endpoint_object_def destroy_page_table_object_def
        destroy_virt_page_object_def destroy_cap_space_object_def destroy_id_object_def assert_last_of_object_def
        ipc_cancel_def cancel_receivers.simps cancel_senders.simps)
  show ?thesis
  proof (cases "get_cap_type (cap_at s z) = CAP_MEM")
    case True
    then obtain m where "cap_at s z = MemoryCap m" by (cases "cap_at s z") simp_all
    then show ?thesis using assms(2,3) by (auto simp: destroy_object_def destroy_memory_object_def)
  next
    case False
    then show ?thesis using same by (intro exI [of _ "cap_at s z"]) simp
  qed
qed

lemma drop_inert:
  assumes "chain s (as @ [p, z])" "inert s (cap_at s z)" "cap_at s p \<noteq> NullCap"
  shows "\<exists>c. drop_object abi z s = Done () (set_cap z c
      (set_cap p (if cap_at s p = ZombieCap then cap_at s z else cap_at s p) s)) \<and> c \<noteq> NullCap"
proof -
  have z: "prv s z = p" "nxt s z = 0" "z \<noteq> 0" "p \<noteq> 0" "p \<noteq> z" "cap_at s z \<noteq> NullCap" "cap_at s z \<noteq> ZombieCap"
    using chain_prev [of s "as @ [p]" z "[]"] chain_next [of s "as @ [p]" z "[]"] chain_null [OF assms(1)]
      chain_distinct [OF assms(1)] assms by auto
  then obtain c where c: "destroy_object abi z s = Done () (set_cap z c s)" "c \<noteq> NullCap"
    using destroy_inert [OF assms(2)] by (auto simp: is_tail_def)
  show ?thesis
  proof (cases "cap_at s p = ZombieCap")
    case True
    then have "drop_object abi z s = Done () (set_cap z (cap_at s z) (set_cap p (cap_at s z) s))"
      using z set_cap_same [of z "set_cap p (cap_at s z) s"] by (simp add: drop_object_def is_head_def)
    with True z show ?thesis by auto
  next
    case False
    then have "skip_zombies p s = Some p" "skip_zombies z s = Some z" using z by (simp_all add: skip_zombies.simps)
    then obtain same where "is_same_object p z s = Some same" using z by (simp add: is_same_object_def)
    then have "drop_object abi z s = Done () (set_cap z (if same then cap_at s z else c) s)"
      using False z c(1) by (simp add: drop_object_def is_head_def)
    with False z c(2) show ?thesis by (intro exI [of _ "if same then cap_at s z else c"]) simp
  qed
qed

text \<open>One round of the loop of \<^verbatim>\<open>revoke_cap\<close>: the last slot of the chain goes.\<close>

lemma destroy_cap_slot_inert:
  assumes c: "chain s (as @ [p, z])" and i: "inert s (cap_at s z)" and p: "cap_at s p \<noteq> NullCap"
    and T: "lockable s T" "slot_task s z \<in> T"
  obtains s' where "destroy_cap_slot abi z s = Done () s'" "chain s' (as @ [p])" "quiet s s'" "lockable s' T"
    "cap_at s' = (cap_at s)(p := if cap_at s p = ZombieCap then cap_at s z else cap_at s p, z := NullCap)"
    "is_free s' z" "\<forall>x. is_free s x \<longrightarrow> is_free s' x"
proof -
  let ?c = "if cap_at s p = ZombieCap then cap_at s z else cap_at s p" and ?t = "slot_task s z"
  from lock_scope [OF T] obtain l where l: "lock_task ?t s = Some (held ?t l s)" "pools (held ?t l s) T"
    "t_state (tasks s ?t) \<noteq> unused" "runlock (current_tid s) l = Some (t_lock (tasks s ?t))" .
  let ?h = "held ?t l s"
  have z: "nxt s z = 0" "z \<noteq> 0" "p \<noteq> z" "cap_at s z \<noteq> NullCap"
    using chain_next [of s "as @ [p]" z "[]"] chain_null [OF c] chain_distinct [OF c] c i by auto
  have "inert ?h (cap_at ?h z)" using i by (cases "cap_at s z") (simp_all add: ep_lock_free_for_def receiver_head_def sender_head_def)
  then obtain d where d: "drop_object abi z ?h = Done () (set_cap z d (set_cap p ?c ?h))" "d \<noteq> NullCap"
    using drop_inert [of ?h as p z abi] c p unfolding held_simps by blast
  let ?d = "set_cap z d (set_cap p ?c ?h)"
  have fl: "free_list ?d u us" if "free_list ?h u us" for u us
    using that z p by (intro set_cap_free) auto
  have st: "slot_task ?d = slot_task s" by simp
  have fr: "is_free ?d x" if "is_free s x" for x
    using that fl unfolding is_free_def st held_free_list by blast
  have "lock_free_for ?d = lock_free_for ?h" "tasks ?d = tasks ?h" by simp_all
  then have pd: "pools ?d T" using l(2) fl unfolding pools_def task_ok_def by metis
  have cd: "chain ?d ((as @ [p]) @ z # [])" "cap_at ?d z \<noteq> NullCap" "slot_task ?d z \<in> T" using c d(2) T(2) by simp_all
  from release_one [OF cd(1,2) pd cd(3)] obtain r s1 s2 where
    s2: "erase_this z ?d = Some (r, s1)" "push_free_slots (slot_task s1 z) z s1 = Some s2" "chain s2 ((as @ [p]) @ [])"
      "cap_at s2 = (cap_at ?d)(z := NullCap)" "pools s2 T" "is_free s2 z" "\<And>x. is_free ?d x \<Longrightarrow> is_free s2 x" "quiet ?d s2"
    by metis
  have "quiet ?h s2" using s2(8) by (simp add: quiet_def)
  from unlock_scope [OF this l(4) T(1) s2(5)] obtain s' where s': "unlock_task ?t s2 = Some s'" "quiet s s'" "lockable s' T"
    "cap_at s' = cap_at s2" "\<forall>xs. chain s' xs = chain s2 xs" "\<forall>x. is_free s' x = is_free s2 x" by auto
  have "destroy_cap_slot abi z s = Done () s'"
    using z(1,2) l(1,3) d(1) s2(1,2) s'(1) by (simp add: destroy_cap_slot_def is_tail_def)
  moreover have "cap_at s' = (cap_at s)(p := ?c, z := NullCap)" using s'(4) s2(4) z(3) by (simp add: fun_eq_iff)
  moreover have "chain s' (as @ [p])" "is_free s' z" "\<forall>x. is_free s x \<longrightarrow> is_free s' x" using s'(5,6) s2(3,6,7) fr by simp_all
  ultimately show ?thesis using that s'(2,3) by blast
qed

text \<open>
  The slots \<open>zs\<close> that end a chain can be dropped: each holds a zombie or an inert capability, and the
  last of them is no zombie.
\<close>

definition droppable :: "kstate \<Rightarrow> addr set \<Rightarrow> addr list \<Rightarrow> bool" where
  "droppable s T zs \<longleftrightarrow> (\<forall>z\<in>set zs. (cap_at s z = ZombieCap \<or> inert s (cap_at s z)) \<and> slot_task s z \<in> T) \<and>
     (zs \<noteq> [] \<longrightarrow> cap_at s (last zs) \<noteq> ZombieCap)"

lemma droppable_step:
  assumes "droppable s T (zs @ [z])" "quiet s s'" "distinct (x # zs @ [z])" "cap_at s x \<noteq> ZombieCap"
    "cap_at s' = (cap_at s)(p := if cap_at s p = ZombieCap then cap_at s z else cap_at s p, z := NullCap)" "p = last0 x zs"
  shows "droppable s' T zs" "cap_at s' x = cap_at s x"
proof -
  have i: "inert s (cap_at s z)" using assms(1) by (auto simp: droppable_def)
  have q: "inert s' = inert s" "slot_task s' = slot_task s" using assms(2) inert_cong by (auto simp: quiet_def fun_eq_iff)
  have nz: "\<not> inert s ZombieCap" by simp
  show "droppable s' T zs"
    using assms(1,3) i nz unfolding droppable_def q assms(5) by (auto simp: assms(6) last0_def split: if_splits)
  show "cap_at s' x = cap_at s x" using assms(3,4) unfolding assms(5) by auto
qed

lemma destroy_back_all:
  assumes "chain s (as @ x # zs)" "droppable s T zs" "cap_at s x \<noteq> ZombieCap" "cap_at s x \<noteq> NullCap" "lockable s T" "length zs \<le> n"
  shows "\<exists>s'. destroy_back n abi x (last0 x zs) s = Done () s' \<and> chain s' (as @ [x]) \<and> quiet s s' \<and> lockable s' T \<and>
    cap_at s' = (\<lambda>a. if a \<in> set zs then NullCap else cap_at s a) \<and> (\<forall>z\<in>set zs. is_free s' z) \<and>
    (\<forall>z. is_free s z \<longrightarrow> is_free s' z)"
  using assms
proof (induction zs arbitrary: s n rule: rev_induct)
  case Nil
  then show ?case by (cases n) simp_all
next
  case (snoc z zs)
  then obtain m where n: "n = Suc m" "length zs \<le> m" by (cases n) auto
  let ?p = "last0 x zs"
  obtain bs where bs: "as @ x # zs @ [z] = bs @ [?p, z]" "as @ x # zs = bs @ [?p]"
    by (cases zs rule: rev_cases) auto
  have c: "chain s (bs @ [?p, z])" using snoc.prems(1) bs(1) by simp
  have d: "distinct (x # zs @ [z])" "prv s z = ?p" "z \<noteq> x"
    using chain_distinct [OF snoc.prems(1)] chain_prev [of s "as @ x # zs" z "[]"] snoc.prems(1) by auto
  have i: "inert s (cap_at s z)" "slot_task s z \<in> T" using snoc.prems(2) by (auto simp: droppable_def)
  have p: "cap_at s ?p \<noteq> NullCap"
    using snoc.prems(2,4) last0_in_set [of zs x] by (cases "zs = []") (auto simp: droppable_def)
  from destroy_cap_slot_inert [OF c i(1) p snoc.prems(5) i(2), of abi] obtain s1 where
    s1: "destroy_cap_slot abi z s = Done () s1" "chain s1 (bs @ [?p])" "quiet s s1" "lockable s1 T"
      "cap_at s1 = (cap_at s)(?p := if cap_at s ?p = ZombieCap then cap_at s z else cap_at s ?p, z := NullCap)"
      "is_free s1 z" "\<forall>x. is_free s x \<longrightarrow> is_free s1 x" .
  note st = droppable_step [OF snoc.prems(2) s1(3) d(1) snoc.prems(3) s1(5) refl]
  from snoc.IH [of s1 m] st s1(2,4) bs(2) n(2) snoc.prems(3,4) obtain s' where
    s': "destroy_back m abi x ?p s1 = Done () s'" "chain s' (as @ [x])" "quiet s1 s'" "lockable s' T"
      "cap_at s' = (\<lambda>a. if a \<in> set zs then NullCap else cap_at s1 a)" "\<forall>z\<in>set zs. is_free s' z"
      "\<forall>z. is_free s1 z \<longrightarrow> is_free s' z" by auto
  have "cap_at s' = (\<lambda>a. if a \<in> set (zs @ [z]) then NullCap else cap_at s a)"
    unfolding s'(5) s1(5) using last0_in_set [of zs x] snoc.prems(3) by (cases "zs = []") (auto simp: fun_eq_iff)
  moreover have "destroy_back n abi x (last0 x (zs @ [z])) s = Done () s'" using n(1) d(2,3) s1(1) s'(1) by simp
  ultimately show ?case using s'(2,4,6,7) s1(6,7) quiet_trans [OF s1(3) s'(3)] by auto
qed

text \<open>
  C9: revoking a memory capability takes back what was made from it. The loop destroys the
  slots behind the capability from the back. When these hold capabilities for memory, ids and capability
  spaces, for pages and page tables that are not mapped, for endpoints on which nobody waits, and
  delegations of such capabilities, the operation succeeds in as many rounds as there are slots: all
  of them are free again in their tasks, the capability itself is the end of its chain, and every
  other capability and all locks are as before. The capability keeps its used size, so the memory
  can not be given out again. (Behind a task capability the loop kills the task, and a mapped page is unmapped
  first; those paths are not part of this statement.)
\<close>

theorem revoke_memory_releases_all:
  assumes "chain s (as @ x # zs)" "cap_at s x = MemoryCap m" "droppable s T zs" "lockable s T" "slot_task s x \<in> T"
    "rl_count (t_lock (tasks s (slot_task s x))) \<noteq> - 1" "length zs \<le> n"
  shows "\<exists>s'. revoke_cap n abi x s = Done True s' \<and> chain s' (as @ [x]) \<and>
    cap_at s' = (\<lambda>a. if a \<in> set zs then NullCap else cap_at s a) \<and> (\<forall>z\<in>set zs. is_free s' z) \<and> quiet s s'"
proof -
  let ?t = "slot_task s x"
  from lock_scope [OF assms(4,5)] obtain l where l: "lock_task ?t s = Some (held ?t l s)" "t_state (tasks s ?t) \<noteq> unused"
    "lockable (held ?t l s) T" "runlock (current_tid s) l = Some (t_lock (tasks s ?t))" using assms(6) by metis
  let ?h = "held ?t l s"
  have h: "chain ?h (as @ x # zs)" "cap_at ?h x \<noteq> ZombieCap" "cap_at ?h x \<noteq> NullCap" using assms(1,2) by simp_all
  have "inert ?h c = inert s c" for c by (cases c) (simp_all add: ep_lock_free_for_def receiver_head_def sender_head_def)
  then have "droppable ?h T zs" using assms(3) by (simp add: droppable_def)
  from destroy_back_all [OF h(1) this h(2,3) l(3) assms(7), of abi, unfolded held_simps] obtain s1 where
    s1: "destroy_back n abi x (last0 x zs) ?h = Done () s1" "chain s1 (as @ [x])" "quiet ?h s1" "lockable s1 T"
      "cap_at s1 = (\<lambda>a. if a \<in> set zs then NullCap else cap_at s a)" "\<forall>z\<in>set zs. is_free s1 z" by blast
  have "pools s1 T" using s1(4) by (simp add: lockable_def)
  from unlock_scope [OF s1(3) l(4) assms(4) this] obtain s' where s': "unlock_task ?t s1 = Some s'" "quiet s s'"
    "cap_at s' = cap_at s1" "\<forall>xs. chain s' xs = chain s1 xs" "\<forall>x. is_free s' x = is_free s1 x" by blast
  have "x \<noteq> 0" using chain_null [OF assms(1)] by auto
  moreover have "find_tail x ?h = Some (last0 x zs)" using find_tail_chain [OF h(1)] by simp
  ultimately have "revoke_cap n abi x s = Done True s'"
    using assms(2) l(1,2) s1(1) s'(1) by (simp add: revoke_cap_def)
  with s' s1(2,5,6) show ?thesis by auto
qed

text \<open>
  C10: revoking a delegated capability undoes the delegation, however often it was passed on.
  When a chain of zombies \<open>x # zs\<close> ends in the slot \<open>y\<close> that holds the capability,
  \<^verbatim>\<open>revoke_cap\<close> on \<open>x\<close> returns, the capability is back in \<open>x\<close>, the slots in between are
  unlinked and free in the tasks they belong to, and what follows them in the chain,
  every other capability and all locks stay.
\<close>

theorem revoke_undoes_delegation:
  assumes "chain s (as @ x # zs @ y # bs)" "\<forall>z\<in>set (x # zs). cap_at s z = ZombieCap"
    "cap_at s y \<noteq> ZombieCap" "cap_at s y \<noteq> NullCap" "lockable s T" "\<forall>z\<in>set (x # zs @ [y]). slot_task s z \<in> T"
  shows "\<exists>s'. revoke_cap n abi x s = Done True s' \<and> chain s' (as @ x # bs) \<and>
    cap_at s' = (\<lambda>a. if a \<in> set (zs @ [y]) then NullCap else cap_at s a)(x := cap_at s y) \<and>
    (\<forall>z\<in>set (zs @ [y]). is_free s' z) \<and> quiet s s'"
proof -
  let ?t = "slot_task s x"
  have "?t \<in> T" using assms(6) by simp
  from lock_scope [OF assms(5) this] obtain l where l: "lock_task ?t s = Some (held ?t l s)" "pools (held ?t l s) T"
    "t_state (tasks s ?t) \<noteq> unused" "runlock (current_tid s) l = Some (t_lock (tasks s ?t))" .
  let ?h = "held ?t l s"
  have h: "chain ?h (as @ x # zs @ y # bs)" "\<forall>z\<in>set (x # zs). cap_at ?h z = ZombieCap" "cap_at ?h y \<noteq> ZombieCap"
    "cap_at ?h y \<noteq> NullCap" "\<forall>z\<in>set (zs @ [y]). slot_task ?h z \<in> T" using assms by simp_all
  from revoke_zombie_restores [OF h(1-4) l(2) h(5)] obtain s1 where s1: "revoke_zombie x ?h = Some s1"
    "chain s1 (as @ x # bs)" "quiet ?h s1"
    "cap_at s1 = (\<lambda>a. if a \<in> set (zs @ [y]) then NullCap else cap_at ?h a)(x := cap_at ?h y)"
    "\<forall>z\<in>set (zs @ [y]). is_free s1 z" "pools s1 T" .
  from unlock_scope [OF s1(3) l(4) assms(5) s1(6)] obtain s' where s': "unlock_task ?t s1 = Some s'" "quiet s s'"
    "cap_at s' = cap_at s1" "\<forall>xs. chain s' xs = chain s1 xs" "\<forall>x. is_free s' x = is_free s1 x" by blast
  have "x \<noteq> 0" "get_cap_type (cap_at s x) = CAP_ZOMBIE" using chain_null [OF assms(1)] assms(2) by auto
  then have "revoke_cap n abi x s = Done True s'" using l(1,3) s1(1) s'(1) by (simp add: revoke_cap_def)
  moreover have "cap_at s' = (\<lambda>a. if a \<in> set (zs @ [y]) then NullCap else cap_at s a)(x := cap_at s y)"
    unfolding s'(3) s1(4) held_simps ..
  ultimately show ?thesis using s'(2,4,5) s1(2,5) by auto
qed

text \<open>\<^const>\<open>demo_two\<close> after a delegation to the other task.\<close>

lemma demo_two_lockable: "lockable demo_two {0x2000, 0x3000}"
  using demo_two_ok by (auto simp: lockable_def pools_def alive_def task_ok_def lock_free_for_def current_tid_def
      rlock_def zero_task_def free_lock_def lock_wf_def)

theorem revoke_undoes_delegation_witness:
  "\<exists>s1 s'. delegate_cap 0x3000 0x1040 demo_two = Some (0x4040, s1) \<and> revoke_cap 0 demo_abi 0x1040 s1 = Done True s' \<and>
    chain s' [0x1040] \<and> cap_at s' 0x1040 = EndpointCap demo_endpoint_cap \<and> cap_at s' 0x4040 = NullCap \<and>
    is_free s' 0x4040"
proof -
  from delegate_cap_derives [OF demo_two_ok(1-3)] obtain s1 where
    s1: "delegate_cap 0x3000 0x1040 demo_two = Some (0x4040, s1)" "chain s1 ([] @ 0x1040 # 0x4040 # [])"
      "cap_at s1 = (cap_at demo_two)(0x4040 := cap_at demo_two 0x1040, 0x1040 := ZombieCap)"
      "free_list s1 0x3000 [0x4068]" "same_but_pool 0x3000 demo_two s1"
      "links_outside (set ([] @ 0x1040 # []) \<union> set [0x4040, 0x4068]) demo_two s1" .
  note ok = same_but_pool_ok [OF s1(5)]
  have "free_list s1 0x2000 []" using demo_two_ok(4) same_but_poolD(16) [OF s1(5)] by (simp add: free_list_def chain_def)
  then have "lockable s1 {0x2000, 0x3000}"
    using demo_two_lockable s1(4) ok same_but_poolD(14) [OF s1(5)] by (auto simp: lockable_def pools_def)
  with revoke_undoes_delegation [of s1 "[]" "0x1040" "[]" "0x4040" "[]" "{0x2000, 0x3000}" 0 demo_abi] s1(1-3) ok(1)
  show ?thesis by auto
qed

text \<open>
  A memory capability in the slot 0x1040 with two children behind it, an id and a zombie whose
  capability is in the slot of the other task.
\<close>

definition demo_revoke :: kstate where
  "demo_revoke = set_cap 0x1040 (MemoryCap demo_memory) (set_cap 0x1068 ZombieCap (set_cap 0x4040 (EndpointCap demo_endpoint_cap)
     (set_nxt 0x1040 0x1068 (set_prv 0x1068 0x1040 (set_nxt 0x1068 0x4040 (set_prv 0x4040 0x1068 (zero_state\<lparr>
     spaces := (\<lambda>_. zero_meta)(0x1000 := \<lparr>meta_map = 0x1000, meta_task = 0x2000, meta_space_index = 0\<rparr>,
       0x4000 := \<lparr>meta_map = 0x4000, meta_task = 0x3000, meta_space_index = 0\<rparr>),
     tasks := (\<lambda>_. zero_task)(0x2000 := zero_task\<lparr>t_tid := 1, t_state := running\<rparr>,
       0x3000 := zero_task\<lparr>t_tid := 2, t_state := ready\<rparr>),
     current_task := 0x2000\<rparr>)))))))"

lemma demo_revoke_simps [simp]:
  "nxt demo_revoke = (\<lambda>_. 0)(0x1040 := 0x1068, 0x1068 := 0x4040)" "prv demo_revoke = (\<lambda>_. 0)(0x1068 := 0x1040, 0x4040 := 0x1068)"
  "cap_at demo_revoke = (\<lambda>_. NullCap)(0x1040 := MemoryCap demo_memory, 0x1068 := ZombieCap, 0x4040 := EndpointCap demo_endpoint_cap)"
  "tasks demo_revoke = (\<lambda>_. zero_task)(0x2000 := zero_task\<lparr>t_tid := 1, t_state := running\<rparr>, 0x3000 := zero_task\<lparr>t_tid := 2, t_state := ready\<rparr>)"
  "current_task demo_revoke = 0x2000" "endpoints demo_revoke = (\<lambda>_. zero_endpoint)"
  by (auto simp: demo_revoke_def zero_state_def nxt_def prv_def cap_at_def zero_slot_def set_cap_def set_nxt_def set_prv_def fun_eq_iff)

lemma demo_revoke_slots [simp]:
  "slot_task demo_revoke 0x1040 = 0x2000" "slot_task demo_revoke 0x1068 = 0x2000" "slot_task demo_revoke 0x4040 = 0x3000"
  by (simp_all add: slot_task_def demo_revoke_def get_cap_space_def round_down_def PAGE_SIZE_def PAGE_SIZE_BIT_def)

theorem revoke_memory_releases_all_witness:
  "\<exists>s'. revoke_cap 2 demo_abi 0x1040 demo_revoke = Done True s' \<and> chain s' [0x1040] \<and>
    cap_at s' = (\<lambda>_. NullCap)(0x1040 := MemoryCap demo_memory) \<and> is_free s' 0x4040"
proof -
  have "chain demo_revoke ([] @ 0x1040 # [0x1068, 0x4040])" by (simp add: chain_def dchain_def)
  moreover have "droppable demo_revoke {0x2000, 0x3000} [0x1068, 0x4040]"
    by (simp add: droppable_def demo_endpoint_cap_def ep_lock_free_for_def receiver_head_def sender_head_def
        zero_endpoint_def empty_queue_def current_tid_def rlock_def free_lock_def)
  moreover have "lockable demo_revoke {0x2000, 0x3000}"
    by (auto simp: lockable_def pools_def task_ok_def lock_free_for_def current_tid_def rlock_def free_lock_def zero_task_def
        lock_wf_def free_list_def chain_def intro!: exI [of _ "[]"])
  moreover have "rl_count (t_lock (tasks demo_revoke 0x2000)) \<noteq> - 1" by (simp add: zero_task_def free_lock_def)
  ultimately show ?thesis
    using revoke_memory_releases_all [of demo_revoke "[]" "0x1040" "[0x1068, 0x4040]" demo_memory "{0x2000, 0x3000}" 2 demo_abi]
    by (auto simp: fun_eq_iff)
qed

subsection \<open>Killing\<close>

text \<open>A task that another one can kill: no kill notification, not the root task, its lock within reach.\<close>

definition killable :: "kstate \<Rightarrow> addr \<Rightarrow> bool" where
  "killable s t \<longleftrightarrow> t \<noteq> 0 \<and> t \<noteq> current_task s \<and> t_kill_notify (tasks s t) = 0 \<and> tid_index (t_tid (tasks s t)) \<noteq> 1 \<and>
     current_tid s \<noteq> 0 \<and> lock_wf (t_lock (tasks s t)) \<and> lock_free_for s t"

text \<open>
  Killing a task that waits in a queue, given the removal from that queue: the task is marked and its
  lock is back as it was.
\<close>

lemma kill_task_queued:
  assumes "killable s t"
    and rm: "\<And>l. (case t_state (tasks s t) of ready \<Rightarrow> remove_ready_queue t (held t l s)
        | waiting \<Rightarrow> leave_endpoint t (held t l s) | _ \<Rightarrow> Some (held t l s)) = Some (f (held t l s))"
    and fr: "\<And>l u. t_lock (tasks (f (held t l s)) u) = t_lock (tasks (held t l s) u)"
      "\<And>l u. t_tid (tasks (f (held t l s)) u) = t_tid (tasks s u)" "\<And>l. current_task (f (held t l s)) = current_task s"
      "\<And>l u. t_kill_notify (tasks (f (held t l s)) u) = t_kill_notify (tasks s u)"
    and us: "t_state (tasks s t) \<noteq> unused"
  obtains l where "kill_task abi t st s = Done () (held t (t_lock (tasks s t))
      (upd_task t (\<lambda>x. x\<lparr>t_state := killed, t_exit_status := st\<rparr>) (f (held t l s))))"
proof -
  have k: "t \<noteq> 0" "t \<noteq> current_task s" "t_kill_notify (tasks s t) = 0" "tid_index (t_tid (tasks s t)) \<noteq> 1"
    "current_tid s \<noteq> 0" "lock_wf (t_lock (tasks s t))" "lock_free_for s t" using assms(1) by (simp_all add: killable_def)
  then obtain l where l: "rlock (current_tid s) (t_lock (tasks s t)) = Some l" by (auto simp: lock_free_for_def)
  let ?f = "f (held t l s)" let ?k = "upd_task t (\<lambda>x. x\<lparr>t_state := killed, t_exit_status := st\<rparr>) ?f"
  have lk: "lock_task t s = Some (held t l s)" using k(1) l by (simp add: lock_task_def held_def)
  have ct: "current_tid ?k = current_tid s" using fr(2,3) by (simp add: current_tid_def)
  have "unlock_task t ?k = Some (held t (t_lock (tasks s t)) ?k)"
    unfolding unlock_task_def ct using rlock_runlock [OF k(6,5) l] fr(1) by (simp add: held_def)
  then have "kill_task abi t st s = Done () (held t (t_lock (tasks s t)) ?k)"
    using lk k us rm [of l] fr(2-4) by (simp add: kill_task_def rassert_def)
  then show ?thesis using that by blast
qed

lemma links_kill_notify [simp]:
  "t_kill_notify (tasks (set_rnext a v s) u) = t_kill_notify (tasks s u)"
  "t_kill_notify (tasks (set_rprev a v s) u) = t_kill_notify (tasks s u)"
  "t_kill_notify (tasks (set_wnext a v s) u) = t_kill_notify (tasks s u)"
  "t_kill_notify (tasks (set_wprev a v s) u) = t_kill_notify (tasks s u)"
  by (simp_all add: set_rnext_def set_rprev_def set_wnext_def set_wprev_def)

lemma remove_kill_notify [simp]:
  "t_kill_notify (tasks (rq.q_remove t s) u) = t_kill_notify (tasks s u)"
  "t_kill_notify (tasks (wq.q_remove q t s) u) = t_kill_notify (tasks s u)"
  by (simp_all add: rq.q_remove_def wq.q_remove_def)

lemma held_links [simp]:
  "rnext (held t l s) = rnext s" "rprev (held t l s) = rprev s" "wnext (held t l s) = wnext s" "wprev (held t l s) = wprev s"
  "ready_queue (held t l s) = ready_queue s" "get_queue q (held t l s) = get_queue q s"
  "t_tid (tasks (held t l s) u) = t_tid (tasks s u)" "t_kill_notify (tasks (held t l s) u) = t_kill_notify (tasks s u)"
  "t_endpoint (tasks (held t l s) u) = t_endpoint (tasks s u)" "t_ipc_state (tasks (held t l s) u) = t_ipc_state (tasks s u)"
  by (cases q) (auto simp: held_def rnext_def rprev_def wnext_def wprev_def fun_eq_iff)

text \<open>
  Killing a ready task takes it out of the ready queue, whatever its place, and
  leaves it killed with the exit status; the order of the other tasks and all locks are as before.
\<close>

theorem kill_ready_task:
  assumes "killable s t" "ready_q s (as @ t # bs)"
  shows "\<exists>s'. kill_task abi t st s = Done () s' \<and> ready_q s' (as @ bs) \<and> t_state (tasks s' t) = killed \<and>
    t_exit_status (tasks s' t) = st \<and> current_task s' = current_task s \<and>
    (\<forall>u. t_lock (tasks s' u) = t_lock (tasks s u))"
proof -
  have r: "ready_q (held t l s) (as @ t # bs)" for l using assms(2) by (subst ready_q_cong [of _ s]) simp_all
  note rm = ready_q_remove [OF r]
  have st: "t_state (tasks s t) = ready" using assms(2) by (simp add: ready_q_def)
  from kill_task_queued [OF assms(1), of "rq.q_remove t" abi st] st rm(1)
  obtain l where k: "kill_task abi t st s = Done () (held t (t_lock (tasks s t))
      (upd_task t (\<lambda>x. x\<lparr>t_state := killed, t_exit_status := st\<rparr>) (rq.q_remove t (held t l s))))" by auto
  let ?s' = "held t (t_lock (tasks s t)) (upd_task t (\<lambda>x. x\<lparr>t_state := killed, t_exit_status := st\<rparr>) (rq.q_remove t (held t l s)))"
  have "t \<notin> set (as @ bs)" using assms(2) by (auto simp: ready_q_def rq.isq_def rq.on_chain_def dest: dchain_distinct)
  then have "ready_q ?s' (as @ bs)" using rm(2) [of l] by (subst ready_q_cong [of _ "rq.q_remove t (held t l s)"]) auto
  moreover have "t_exit_status (tasks ?s' t) = st" by (simp add: held_def)
  ultimately show ?thesis using k by (intro exI [of _ ?s']) simp
qed

text \<open>
  C39: killing a task that waits to send or to receive. For a task that is neither the current one nor the root task
  and has no endpoint set for a kill notification, the kill takes it out of the queue of the endpoint it waits on,
  whatever its place, and leaves it killed with the exit status; the tasks that wait before and after it keep their order
  and all locks are as before.
\<close>

theorem kill_waiting_task:
  assumes "killable s t" "waiting_q q s (as @ t # bs)" "t_endpoint (tasks s t) = e" "e \<noteq> 0" "ep_lock_free_for s e"
    "q = sender_queue_of e \<and> t_ipc_state (tasks s t) = sending \<or> q = receiver_queue_of e \<and> t_ipc_state (tasks s t) = receiving"
  shows "\<exists>s'. kill_task abi t st s = Done () s' \<and> waiting_q q s' (as @ bs) \<and> t_state (tasks s' t) = killed \<and>
    t_exit_status (tasks s' t) = st \<and> (\<forall>u. t_lock (tasks s' u) = t_lock (tasks s u))"
proof -
  have r: "waiting_q q (held t l s) (as @ t # bs)" for l using assms(2) by (subst waiting_q_cong [of _ s]) simp_all
  note rm = waiting_q_remove [OF r]
  have st: "t_state (tasks s t) = waiting" using assms(2) by (simp add: waiting_q_def)
  have "leave_endpoint t (held t l s) = Some (wq.q_remove q t (held t l s))" for l
    using assms(3-6) rm(1) by (auto simp: leave_endpoint_def ep_lock_free_for_def)
  with kill_task_queued [OF assms(1), of "wq.q_remove q t" abi st] st
  obtain l where k: "kill_task abi t st s = Done () (held t (t_lock (tasks s t))
      (upd_task t (\<lambda>x. x\<lparr>t_state := killed, t_exit_status := st\<rparr>) (wq.q_remove q t (held t l s))))" by auto
  let ?s' = "held t (t_lock (tasks s t)) (upd_task t (\<lambda>x. x\<lparr>t_state := killed, t_exit_status := st\<rparr>) (wq.q_remove q t (held t l s)))"
  have "t \<notin> set (as @ bs)" using assms(2) by (auto simp: waiting_q_def wq.isq_def wq.on_chain_def dest: dchain_distinct)
  then have "waiting_q q ?s' (as @ bs)" using rm(2) [of l] by (subst waiting_q_cong [of _ "wq.q_remove q t (held t l s)"]) auto
  moreover have "t_exit_status (tasks ?s' t) = st" by (simp add: held_def)
  ultimately show ?thesis using k by (intro exI [of _ ?s']) simp
qed

text \<open>
  A task that called an endpoint on which nobody received can not be killed. \<^verbatim>\<open>ipc_call\<close> queues it
  as a sender with the state calling and no callee, and \<^verbatim>\<open>kill_task\<close> takes the lock of the callee of every
  calling task.
\<close>

theorem kill_queued_caller_stops:
  assumes "t_state (tasks s t) = waiting" "t_endpoint (tasks s t) \<noteq> 0" "t_ipc_state (tasks s t) = calling"
    "t_callee_task (tasks s t) = 0"
  shows "kill_task abi t st s = Stop"
proof -
  have "leave_endpoint t (held t l s) = None" for l
    using assms by (simp add: leave_endpoint_def) (simp add: held_def)
  then show ?thesis using assms(1)
    by (auto simp: kill_task_def lock_task_def held_def [symmetric] lift_state_def split: option.split)
qed

text \<open>Two tasks of \<^const>\<open>demo_sched\<close> and \<^const>\<open>demo_ipc\<close> that can be killed.\<close>

lemma demo_killable: "killable demo_sched 0x3000" "killable demo_ipc 0x4000"
  by (simp_all add: killable_def tid_index_def current_tid_def lock_free_for_def rlock_def free_lock_def)
     (simp_all add: demo_sched_def demo_ipc_def zero_task_def take_bit_eq_mod lock_wf_def free_lock_def)

theorem kill_ready_task_witness:
  "\<exists>s'. kill_task demo_abi 0x3000 7 demo_sched = Done () s' \<and> ready_q s' [0x4000] \<and> t_state (tasks s' 0x3000) = killed"
  using kill_ready_task [OF demo_killable(1), of "[]" "[0x4000]" demo_abi 7] demo_sched_q by auto

theorem kill_waiting_task_witness:
  "\<exists>s'. kill_task demo_abi 0x4000 7 demo_ipc = Done () s' \<and> waiting_q (receiver_queue_of 0x80) s' [0x3000] \<and>
    t_exit_status (tasks s' 0x4000) = 7"
proof -
  have "t_endpoint (tasks demo_ipc 0x4000) = 0x80" "t_ipc_state (tasks demo_ipc 0x4000) = receiving" by (simp_all add: demo_ipc_def)
  then show ?thesis
    using kill_waiting_task [OF demo_killable(2), of "receiver_queue_of 0x80" "[0x3000]" "[]" "0x80" demo_abi 7] demo_ipc_queues by auto
qed

theorem kill_queued_caller_stops_witness:
  "kill_task demo_abi 0x3000 0 (demo_ipc\<lparr>tasks := (tasks demo_ipc)(0x3000 := (tasks demo_ipc 0x3000)\<lparr>t_ipc_state := calling\<rparr>)\<rparr>) = Stop"
  by (rule kill_queued_caller_stops) (simp_all add: demo_ipc_def zero_task_def)

end
