(* ===== verification/Task_Init.thy ===== *)
theory Task_Init
  imports Cap_Revoke
begin

text \<open>
  Making tasks: \<^verbatim>\<open>init_task\<close>, \<^verbatim>\<open>init_idle_task\<close> of \<^verbatim>\<open>src/kernel/task.cpp\<close>, \<^verbatim>\<open>arch_init_task\<close> of
  \<^verbatim>\<open>src/arch/rv64/kernel/trap.cpp\<close>, \<^verbatim>\<open>create_task_object\<close> and \<^verbatim>\<open>create_object\<close> of
  \<^verbatim>\<open>src/kernel/cap.cpp\<close>, and the registers of a task (\<^verbatim>\<open>src/arch/rv64/kernel/frame.cpp\<close>). The lemmas show
  what a new task starts with.
\<close>

subsection \<open>Initialising a task\<close>

definition next_tid :: "kstate \<Rightarrow> tid_t \<times> kstate" where
  "next_tid s = (cur_tid s + 1, s\<lparr>cur_tid := cur_tid s + 1\<rparr>)"

definition REG_SATP :: nat where "REG_SATP = 32"

definition SATP_MODE_SV39 :: u64 where "SATP_MODE_SV39 = push_bit 60 8"

definition arch_init_task :: "addr \<Rightarrow> payload_t \<Rightarrow> kstate \<Rightarrow> kstate option" where
  "arch_init_task task payload s = do {
     cassert (task \<noteq> 0);
     let satp = SATP_MODE_SV39 OR drop_bit PAGE_SIZE_BIT (as_phys (t_root_page_table (tasks s task)));
     Some (upd_task task (\<lambda>t. t\<lparr>t_context := payload_context payload (task + PAGE_SIZE),
       t_frame := (\<lambda>_. 0)(REG_SATP := satp)\<rparr>) s)
   }"

text \<open>The loop that maps the physical memory into the kernel's part of the address space.\<close>

definition kernel_flags :: pte_flags_t where
  "kernel_flags = \<lparr>fl_readable = True, fl_writable = True, fl_executable = True, fl_user = False, fl_global = True\<rparr>"

definition mapped_space_pages :: "u64 list" where
  "mapped_space_pages = map (\<lambda>i. get_page_size MAX_PAGE_TABLE_LEVEL * of_nat i)
     [0..<unat (CONFIG_MAPPED_SPACE_SIZE div get_page_size MAX_PAGE_TABLE_LEVEL)]"

primrec map_kernel_pages :: "addr \<Rightarrow> u64 list \<Rightarrow> kstate \<Rightarrow> kstate option" where
  "map_kernel_pages root [] s = Some s"
| "map_kernel_pages root (pa # rest) s = do {
     i \<leftarrow> walk (CONFIG_MAPPED_SPACE_BASE + pa) MAX_PAGE_TABLE_LEVEL;
     cassert (is_disabled (tables s root i));
     map_kernel_pages root rest (upd_pte root i (\<lambda>pte. enable (set_next_page (as_map pa) (set_flags kernel_flags pte))) s)
   }"

text \<open>The loop from the top level down to the last level above the tables of capability spaces.\<close>

primrec map_cap_tables :: "addr \<Rightarrow> addr list \<Rightarrow> nat list \<Rightarrow> kstate \<Rightarrow> kstate option" where
  "map_cap_tables page_table tabs [] s = Some s"
| "map_cap_tables page_table tabs (level # levels) s = do {
     i \<leftarrow> walk CONFIG_CAPABILITY_SPACE_BASE level;
     cassert (is_disabled (tables s page_table i));
     let s = upd_pte page_table i (\<lambda>pte. enable (set_flags cap_space_flags (set_next_page (tabs ! (level - 1)) pte))) s;
     map_cap_tables (get_next_page (tables s page_table i)) tabs levels s
   }"

definition reset_task :: "tid_t \<Rightarrow> addr \<Rightarrow> task_t \<Rightarrow> task_t" where
  "reset_task tid root t = t\<lparr>t_tid := tid, t_lock := free_lock, t_num_cap_space := 0, t_num_extension := 0,
     t_prev_ready_task := 0, t_next_ready_task := 0, t_prev_waiting_task := 0, t_next_waiting_task := 0,
     t_caller_task := 0, t_callee_task := 0, t_free_slots := 0, t_free_slots_count := 0, t_root_page_table := root,
     t_kill_notify := 0, t_state := suspended, t_ipc_state := ipc_none, t_ipc_msg_state := msg_empty,
     t_event_type := event_none, t_exit_status := 0\<rparr>"

definition init_task :: "addr \<Rightarrow> addr \<Rightarrow> addr \<Rightarrow> addr list \<Rightarrow> kstate \<Rightarrow> kstate option" where
  "init_task task cap_space root_page_table cap_space_page_tables s = do {
     cassert (task \<noteq> 0);
     cassert (cap_space \<noteq> 0);
     cassert (root_page_table \<noteq> 0);
     cassert (t_state (tasks s task) = unused);
     let (tid, s) = next_tid s;
     let s = upd_task task (reset_task tid root_page_table) s;
     guard_task task s;
     s \<leftarrow> map_kernel_pages root_page_table mapped_space_pages (zero_table root_page_table s);
     let s = fold zero_table cap_space_page_tables s;
     s \<leftarrow> map_cap_tables root_page_table cap_space_page_tables (levels_down GIGA_PAGE_TABLE_LEVEL) s;
     (va, s) \<leftarrow> extend_cap_space task (cap_space_page_tables ! 0) s;
     cassert (va \<noteq> 0);
     (ok, s) \<leftarrow> insert_cap_space task cap_space s;
     cassert ok;
     arch_init_task task return_to_user_mode s
   }"

definition init_idle_task :: "addr \<Rightarrow> addr \<Rightarrow> kstate \<Rightarrow> kstate option" where
  "init_idle_task task root_page_table s = do {
     cassert (task \<noteq> 0);
     cassert (root_page_table \<noteq> 0);
     cassert (t_state (tasks s task) = unused);
     guard_task task s;
     let s = upd_task task (\<lambda>t. t\<lparr>t_num_cap_space := 0, t_num_extension := 0, t_prev_ready_task := 0,
       t_next_ready_task := 0, t_prev_waiting_task := 0, t_next_waiting_task := 0, t_free_slots := 0,
       t_root_page_table := root_page_table, t_state := ready\<rparr>) s;
     s \<leftarrow> map_kernel_pages root_page_table mapped_space_pages (zero_table root_page_table s);
     arch_init_task task idle_payload s
   }"

subsection \<open>Task objects\<close>

text \<open>The assertions on the slots of the page tables, and the table each of them holds.\<close>

definition free_table :: "kstate \<Rightarrow> addr \<Rightarrow> addr option" where
  "free_table s slot = do {
     cassert (slot \<noteq> 0);
     case cap_at s slot of
       PageTableCap pt \<Rightarrow> do { cassert (\<not> pt_mapped pt); Some (pt_table pt) }
     | _ \<Rightarrow> None
   }"

primrec free_tables :: "kstate \<Rightarrow> addr list \<Rightarrow> addr list option" where
  "free_tables s [] = Some []"
| "free_tables s (x # xs) = do { t \<leftarrow> free_table s x; ts \<leftarrow> free_tables s xs; Some (t # ts) }"

definition mark_table :: "addr \<Rightarrow> nat \<Rightarrow> addr \<Rightarrow> kstate \<Rightarrow> kstate option" where
  "mark_table slot level base s =
     (case cap_at s slot of
        PageTableCap pt \<Rightarrow> Some (set_cap slot (PageTableCap (pt\<lparr>pt_level := of_nat level, pt_mapped := True,
          pt_virt_addr_base := ucast base\<rparr>)) s)
      | _ \<Rightarrow> None)"

primrec mark_tables :: "addr list \<Rightarrow> nat \<Rightarrow> kstate \<Rightarrow> kstate option" where
  "mark_tables [] i s = Some s"
| "mark_tables (x # xs) i s = do { s \<leftarrow> mark_table x i CONFIG_CAPABILITY_SPACE_BASE s; mark_tables xs (Suc i) s }"

definition all_task_flags :: "32 word" where
  "all_task_flags = TASK_CAP_KILLABLE OR TASK_CAP_SWITCHABLE OR TASK_CAP_SUSPENDABLE OR TASK_CAP_RESUMABLE OR
     TASK_CAP_REGISTER_GETTABLE OR TASK_CAP_REGISTER_SETTABLE OR TASK_CAP_KILL_NOTIFIABLE"

definition create_task_object :: "addr \<Rightarrow> addr \<Rightarrow> addr \<Rightarrow> addr \<Rightarrow> addr list \<Rightarrow> kstate \<Rightarrow> (addr \<times> kstate) option" where
  "create_task_object dst src cap_space_slot root_page_table_slot cap_space_page_table_slots s = do {
     check_create dst src s;
     cassert (cap_space_slot \<noteq> 0);
     cap_space \<leftarrow> (case cap_at s cap_space_slot of CapSpaceCap c \<Rightarrow> Some (cs_space c) | _ \<Rightarrow> None);
     root_page_table \<leftarrow> free_table s root_page_table_slot;
     cap_space_page_tables \<leftarrow> free_tables s cap_space_page_table_slots;
     device \<leftarrow> src_device src s;
     if device then Some (0, s\<lparr>errno := SYS_E_CAP_STATE\<rparr>)
     else do {
       (dst, s) \<leftarrow> create_memory_object dst src PAGE_SIZE PAGE_SIZE s;
       if dst = 0 then Some (0, s)
       else do {
         pa \<leftarrow> memory_base dst s;
         let task = as_map pa;
         let s = upd_task task (\<lambda>_. zero_task) s;
         s \<leftarrow> init_task task cap_space root_page_table cap_space_page_tables s;
         c \<leftarrow> make_task_cap all_task_flags task;
         let s = set_cap dst c s;
         s \<leftarrow> mark_table root_page_table_slot MAX_PAGE_TABLE_LEVEL 0 s;
         s \<leftarrow> mark_tables cap_space_page_table_slots 0 s;
         Some (dst, s)
       }
     }
   }"

text \<open>
  The part of \<^verbatim>\<open>create_object\<close> for a task. Its inner loop looks up the slots of the page tables; a
  \<^verbatim>\<open>break\<close> in it leaves the loop only, so the array goes into \<^verbatim>\<open>create_task_object\<close> with the slot that was
  refused, where an assertion on it fails. The list holds the slots up to that one.
\<close>

primrec lookup_tables :: "addr \<Rightarrow> u64 list \<Rightarrow> kstate \<Rightarrow> (addr list \<times> kstate) option" where
  "lookup_tables task [] s = Some ([], s)"
| "lookup_tables task (d # ds) s = do {
     (slot, s) \<leftarrow> lookup_cap task d s;
     if slot = 0 then Some ([slot], s\<lparr>errno := SYS_E_ILL_ARGS\<rparr>)
     else case cap_at s slot of
         PageTableCap pt \<Rightarrow>
           if pt_mapped pt then Some ([slot], s\<lparr>errno := SYS_E_CAP_STATE\<rparr>)
           else do { (xs, s) \<leftarrow> lookup_tables task ds s; Some (slot # xs, s) }
       | _ \<Rightarrow> Some ([slot], s\<lparr>errno := SYS_E_CAP_TYPE\<rparr>)
   }"

definition create_task_from :: "addr \<Rightarrow> addr \<Rightarrow> addr \<Rightarrow> u64 list \<Rightarrow> kstate \<Rightarrow> (addr \<times> kstate) option" where
  "create_task_from task slot cap_slot args s = do {
     (cap_space_slot, s) \<leftarrow> lookup_cap task (args ! 0) s;
     if cap_space_slot = 0 then Some (0, s\<lparr>errno := SYS_E_ILL_ARGS\<rparr>)
     else if get_cap_type (cap_at s cap_space_slot) \<noteq> CAP_CAP_SPACE then Some (0, s\<lparr>errno := SYS_E_CAP_TYPE\<rparr>)
     else do {
       (root_slot, s) \<leftarrow> lookup_cap task (args ! 1) s;
       if root_slot = 0 then Some (0, s\<lparr>errno := SYS_E_ILL_ARGS\<rparr>)
       else case cap_at s root_slot of
           PageTableCap pt \<Rightarrow>
             if pt_mapped pt then Some (0, s\<lparr>errno := SYS_E_CAP_STATE\<rparr>)
             else do {
               (tabs, s) \<leftarrow> lookup_tables task (take (NUM_INTER_PAGE_TABLE + 1) (drop 2 args)) s;
               create_task_object slot cap_slot cap_space_slot root_slot tabs s
             }
         | _ \<Rightarrow> Some (0, s\<lparr>errno := SYS_E_CAP_TYPE\<rparr>)
     }
   }"

definition create_object :: "addr \<Rightarrow> addr \<Rightarrow> cap_type_t \<Rightarrow> u64 list \<Rightarrow> kstate \<Rightarrow> (addr \<times> kstate) option" where
  "create_object task cap_slot type args s = do {
     cassert (task = current_task s);
     cassert (cap_slot \<noteq> 0);
     if get_cap_type (cap_at s cap_slot) \<noteq> CAP_MEM then Some (0, s\<lparr>errno := SYS_E_CAP_TYPE\<rparr>)
     else do {
       guard_task task s;
       if dead s task then Some (0, s\<lparr>errno := SYS_E_ILL_STATE\<rparr>)
       else do {
         (slot, s) \<leftarrow> pop_free_slots task s;
         if slot = 0 then Some (0, s\<lparr>errno := SYS_E_OUT_OF_CAP_SPACE\<rparr>)
         else do {
           (result, s) \<leftarrow> (case type of
               CAP_MEM \<Rightarrow> create_memory_object slot cap_slot (args ! 0) (args ! 1) s
             | CAP_TASK \<Rightarrow> create_task_from task slot cap_slot args s
             | CAP_ENDPOINT \<Rightarrow> create_endpoint_object slot cap_slot s
             | CAP_PAGE_TABLE \<Rightarrow> create_page_table_object slot cap_slot s
             | CAP_VIRT_PAGE \<Rightarrow> create_virt_page_object slot cap_slot (args ! 0 \<noteq> 0) (args ! 1 \<noteq> 0) (args ! 2 \<noteq> 0) (args ! 3) s
             | CAP_CAP_SPACE \<Rightarrow> create_cap_space_object slot cap_slot s
             | _ \<Rightarrow> Some (0, s));
           if result = 0 then do { s \<leftarrow> push_free_slots task slot s; Some (0, s) }
           else Some (result, s)
         }
       }
     }
   }"

subsection \<open>Registers\<close>

text \<open>\<^verbatim>\<open>LAST_REGISTER\<close> is a constant of libcaprese; the registers a user names are the words of the frame.\<close>

definition set_register :: "u64 \<Rightarrow> addr \<Rightarrow> u64 \<Rightarrow> u64 \<Rightarrow> kstate \<Rightarrow> u64 \<times> kstate" where
  "set_register LAST_REGISTER task reg value s =
     (if reg > LAST_REGISTER then (value, s)
      else (t_frame (tasks s task) (unat reg),
        upd_task task (\<lambda>t. t\<lparr>t_frame := (t_frame t)(unat reg := value)\<rparr>) s))"

definition get_register :: "u64 \<Rightarrow> addr \<Rightarrow> u64 \<Rightarrow> kstate \<Rightarrow> u64" where
  "get_register LAST_REGISTER task reg s = (if reg > LAST_REGISTER then 0 else t_frame (tasks s task) (unat reg))"

subsection \<open>The kernel's part of the address space\<close>

definition kernel_leaf :: "nat \<Rightarrow> pte_t" where
  "kernel_leaf i = enable (set_next_page (as_map (get_page_size 2 * of_nat i)) (set_flags kernel_flags zero_pte))"

definition kernel_table :: "nat \<Rightarrow> nat \<Rightarrow> page_table_t \<Rightarrow> page_table_t" where
  "kernel_table m n tb = (\<lambda>j. if 128 + m \<le> unat j \<and> unat j < 128 + n then kernel_leaf (unat j - 128) else tb j)"

lemma mapped_space_pages_eq: "mapped_space_pages = map (\<lambda>i. get_page_size 2 * of_nat i) [0..<64]"
  by (simp add: mapped_space_pages_def get_page_size_def CONFIG_MAPPED_SPACE_SIZE_def
      CONFIG_MAX_PHYSICAL_ADDRESS_def PAGE_SIZE_def)

lemma unat_kernel_va:
  assumes "i < 64"
  shows "unat (CONFIG_MAPPED_SPACE_BASE + get_page_size 2 * of_nat i :: u64) = 2 ^ 37 + 2 ^ 30 * i"
proof -
  have "CONFIG_MAPPED_SPACE_BASE + get_page_size 2 * of_nat i = (of_nat (2 ^ 37 + 2 ^ 30 * i) :: u64)"
    by (simp add: config_defs get_page_size_def PAGE_SIZE_def PAGE_SIZE_BIT_def push_bit_eq_mult)
  moreover have "2 ^ 37 + 2 ^ 30 * i < 2 ^ 64" using assms by simp
  ultimately show ?thesis by (simp only: unat_of_nat_u64)
qed

lemma walk_kernel_va:
  assumes "i < 64"
  shows "walk (CONFIG_MAPPED_SPACE_BASE + get_page_size 2 * of_nat i) MAX_PAGE_TABLE_LEVEL = Some (of_nat (128 + i))"
proof -
  let ?va = "CONFIG_MAPPED_SPACE_BASE + get_page_size 2 * of_nat i :: u64"
  have u: "unat ?va = 2 ^ 37 + 2 ^ 30 * i" by (rule unat_kernel_va [OF assms])
  have "unat (get_page_table_index ?va 2) = 128 + i"
    unfolding unat_get_page_table_index u using assms by (simp add: get_page_size_bit_def)
  moreover have "unat (of_nat (128 + i) :: u64) = 128 + i" using assms by (intro unat_of_nat_u64) simp
  ultimately have "get_page_table_index ?va 2 = of_nat (128 + i)" by (intro word_unatI) simp
  moreover have "?va < CONFIG_MAX_VIRTUAL_ADDRESS"
    using assms u by (simp add: word_less_nat_alt CONFIG_MAX_VIRTUAL_ADDRESS_def)
  ultimately show ?thesis by (simp add: walk_def)
qed

lemma kernel_table_step:
  assumes "m < n" "n \<le> 64"
  shows "kernel_table (Suc m) n (tb(of_nat (128 + m) := kernel_leaf m)) = kernel_table m n tb"
proof -
  have u: "unat (of_nat (128 + m) :: u64) = 128 + m" using assms by (intro unat_of_nat_u64) simp
  have "j = of_nat (128 + m) \<longleftrightarrow> unat j = 128 + m" for j :: u64 using u word_unatI [of j "of_nat (128 + m)"] by auto
  then show ?thesis using assms by (auto simp: kernel_table_def fun_eq_iff)
qed

lemma map_kernel_pages_table:
  assumes "m \<le> n" "n \<le> 64" "\<And>i. m \<le> i \<Longrightarrow> i < n \<Longrightarrow> tables s root (of_nat (128 + i)) = zero_pte"
  shows "map_kernel_pages root (map (\<lambda>i. get_page_size 2 * of_nat i) [m..<n]) s =
    Some (s\<lparr>tables := (tables s)(root := kernel_table m n (tables s root))\<rparr>)"
  using assms
proof (induction "n - m" arbitrary: m s)
  case 0
  then have "kernel_table m n (tables s root) = tables s root" by (auto simp: kernel_table_def fun_eq_iff)
  with 0 show ?case by simp
next
  case (Suc k)
  then have mn: "m < n" "[m..<n] = m # [Suc m..<n]" "m < 64" by (simp_all add: upt_rec)
  let ?f = "\<lambda>pte. enable (set_next_page (as_map (get_page_size 2 * of_nat m)) (set_flags kernel_flags pte))"
  let ?s = "upd_pte root (of_nat (128 + m)) ?f s"
  have z: "tables s root (of_nat (128 + m)) = zero_pte" using Suc.prems(3) [of m] mn(1) by simp
  have ne: "of_nat (128 + i) \<noteq> (of_nat (128 + m) :: u64)" if "Suc m \<le> i" "i < n" for i
  proof
    assume "of_nat (128 + i) = (of_nat (128 + m) :: u64)"
    then have "unat (of_nat (128 + i) :: u64) = unat (of_nat (128 + m) :: u64)" by simp
    moreover have "128 + i < 2 ^ 64" "128 + m < 2 ^ 64" using that mn(3) Suc.prems(2) by simp_all
    ultimately have "128 + i = 128 + m" by (simp only: unat_of_nat_u64)
    with that show False by simp
  qed
  have "map_kernel_pages root (map (\<lambda>i. get_page_size 2 * of_nat i) [Suc m..<n]) ?s =
      Some (?s\<lparr>tables := (tables ?s)(root := kernel_table (Suc m) n (tables ?s root))\<rparr>)"
    using Suc.hyps(2) Suc.prems mn(1) ne by (intro Suc.hyps(1)) (auto simp: upd_pte_def)
  moreover have "tables ?s root = (tables s root)(of_nat (128 + m) := kernel_leaf m)"
    using z by (simp add: upd_pte_def kernel_leaf_def)
  moreover have "is_disabled (tables s root (of_nat (128 + m)))" unfolding z by simp
  ultimately show ?case
    unfolding mn(2) list.map map_kernel_pages.simps walk_kernel_va [OF mn(3)]
    using kernel_table_step [OF mn(1) Suc.prems(2)] by (simp add: upd_pte_def)
qed

subsection \<open>A new task\<close>

text \<open>
  What \<^verbatim>\<open>init_task\<close> is given: an unused task, an empty page for the first capability space, and three
  different pages for the root and the two inner page tables.
\<close>

definition can_init :: "addr \<Rightarrow> addr \<Rightarrow> addr \<Rightarrow> addr \<Rightarrow> addr \<Rightarrow> kstate \<Rightarrow> bool" where
  "can_init task cs root t0 t1 s \<longleftrightarrow> task \<noteq> 0 \<and> t_state (tasks s task) = unused \<and> mapped_page cs \<and> spaces s cs = zero_meta \<and>
     (\<forall>i<101. slots s (slot_addr cs (of_nat i)) = zero_slot) \<and>
     mapped_page root \<and> mapped_page t0 \<and> mapped_page t1 \<and> distinct [root, t0, t1]"

text \<open>The state in which the first capability space is inserted.\<close>

definition with_tables :: "addr \<Rightarrow> addr \<Rightarrow> addr \<Rightarrow> addr \<Rightarrow> kstate \<Rightarrow> kstate" where
  "with_tables task root t0 t1 s = (upd_task task (\<lambda>t. (reset_task (cur_tid s + 1) root t)\<lparr>t_num_extension := 1\<rparr>) s)
     \<lparr>cur_tid := cur_tid s + 1,
      tables := (tables s)(root := (kernel_table 0 64 zero_page_table)
          (192 := enable (set_flags cap_space_flags (set_next_page t1 zero_pte))),
        t0 := zero_page_table, t1 := zero_page_table(0 := enable (set_next_page t0 (set_flags no_flags zero_pte))))\<rparr>"

lemma mapped_page_nonnull: "mapped_page p \<Longrightarrow> p \<noteq> 0"
  using unat_mapped_page [of p] by auto

lemma rlock_free_any [simp]: "rlock tid free_lock \<noteq> None"
  by (simp add: rlock_def free_lock_def)

lemma cap_base_walk:
  "walk CONFIG_CAPABILITY_SPACE_BASE 2 = Some 192" "walk CONFIG_CAPABILITY_SPACE_BASE (Suc 0) = Some 0"
  "walk CONFIG_CAPABILITY_SPACE_BASE 0 = Some 0" "CONFIG_CAPABILITY_SPACE_BASE \<noteq> 0" "space_va 0 = CONFIG_CAPABILITY_SPACE_BASE"
  by (simp_all add: walk_def config_defs get_page_table_index_def get_page_size_bit_def space_va_def drop_bit_eq_div)

lemma init_task_tables:
  assumes "can_init task cs root t0 t1 s"
  shows "init_task task cs root [t0, t1] s = do {
     (ok, s) \<leftarrow> insert_cap_space task cs (with_tables task root t0 t1 s);
     cassert ok;
     arch_init_task task return_to_user_mode s }"
proof -
  note c = assms [unfolded can_init_def]
  have n: "cs \<noteq> 0" "root \<noteq> 0" "t0 \<noteq> 0" "t1 \<noteq> 0" "task \<noteq> 0" using c mapped_page_nonnull by blast+
  let ?s1 = "upd_task task (reset_task (cur_tid s + 1) root) (s\<lparr>cur_tid := cur_tid s + 1\<rparr>)"
  let ?s2 = "zero_table root ?s1"
  let ?s3 = "?s2\<lparr>tables := (tables ?s2)(root := kernel_table 0 64 (tables ?s2 root))\<rparr>"
  have k: "map_kernel_pages root mapped_space_pages ?s2 = Some ?s3"
    unfolding mapped_space_pages_eq by (rule map_kernel_pages_table) (simp_all add: zero_table_def zero_page_table_def)
  let ?s4 = "fold zero_table [t0, t1] ?s3"
  let ?s5 = "upd_pte root 192 (\<lambda>pte. enable (set_flags cap_space_flags (set_next_page t1 pte))) ?s4"
  have r: "tables ?s4 root 192 = zero_pte" "tables ?s4 t1 = zero_page_table" "tables ?s4 t0 = zero_page_table"
    using c by (auto simp: zero_table_def kernel_table_def zero_page_table_def)
  have e: "extend_cap_space task t0 ?s5 = Some (CONFIG_CAPABILITY_SPACE_BASE, with_tables task root t0 t1 s)"
  proof -
    let ?f = "\<lambda>pte. enable (set_next_page t0 (set_flags no_flags pte))"
    have "tables ?s5 root 192 = enable (set_flags cap_space_flags (set_next_page t1 zero_pte))" "tables ?s5 t1 0 = zero_pte"
      using c r by (auto simp: upd_pte_def zero_page_table_def)
    then have w: "walk_enabled root CONFIG_CAPABILITY_SPACE_BASE [2] ?s5 = Some t1" "\<not> is_enabled (tables ?s5 t1 0)"
      using n c cap_base_walk(1) mapped_page_pte [of t1] by (simp_all add: walk_enabled.simps)
    have t: "t_num_extension (tasks ?s5 task) = 0" "t_root_page_table (tasks ?s5 task) = root" "lock_free_for ?s5 task"
      by (simp_all add: zero_table_def reset_task_def lock_free_for_def)
    have eq: "upd_task task (\<lambda>t. t\<lparr>t_num_extension := t_num_extension t + 1\<rparr>) (upd_pte t1 0 ?f ?s5) = with_tables task root t0 t1 s"
    proof (rule kstate.equality)
      have "kernel_table 0 64 (\<lambda>_. zero_pte) 192 = zero_pte" by (simp add: kernel_table_def)
      then show "tables (upd_task task (\<lambda>t. t\<lparr>t_num_extension := t_num_extension t + 1\<rparr>) (upd_pte t1 0 ?f ?s5)) =
          tables (with_tables task root t0 t1 s)"
        using c by (auto simp: with_tables_def upd_pte_def zero_table_def zero_page_table_def fun_eq_iff)
    qed (simp_all add: with_tables_def upd_pte_def upd_task_def zero_table_def reset_task_def fun_eq_iff)
    show ?thesis using w t n cap_base_walk(2) eq by (simp add: extend_cap_space_def)
  qed
  show ?thesis using n c k r(1) e cap_base_walk(1,4)
    by (simp add: init_task_def next_tid_def lock_free_for_def reset_task_def)
qed

lemma init_task_effect:
  assumes "can_init task cs root t0 t1 s"
  shows "\<exists>s'. init_task task cs root [t0, t1] s = Some s' \<and> t_state (tasks s' task) = suspended \<and>
    t_tid (tasks s' task) = cur_tid s + 1 \<and> t_num_cap_space (tasks s' task) = 1 \<and> t_num_extension (tasks s' task) = 1 \<and>
    free_list s' task (cap_space_slots cs 1) \<and> space_at s' task 0 cs \<and>
    (\<forall>i<64. tables s' root (of_nat (128 + i)) = kernel_leaf i) \<and>
    t_frame (tasks s' task) REG_SATP = SATP_MODE_SV39 OR drop_bit 12 (as_phys root) \<and>
    tables s' = tables (upd_pte t0 0 (\<lambda>pte. enable (set_flags cap_space_flags (set_next_page cs pte))) (with_tables task root t0 t1 s)) \<and>
    t_root_page_table (tasks s' task) = root \<and> t_lock (tasks s' task) = free_lock \<and>
    spaces s' = (spaces s)(cs := \<lparr>meta_map = cs, meta_task = task, meta_space_index = 0\<rparr>) \<and> current_task s' = current_task s \<and> mem s' = mem s \<and>
    (\<forall>u. u \<noteq> task \<longrightarrow> tasks s' u = tasks s u) \<and> t_context (tasks s' task) = payload_context return_to_user_mode (task + PAGE_SIZE) \<and>
    (\<forall>a. get_cap_space a \<noteq> cs \<and> slot_task s a \<noteq> task \<longrightarrow> slots s' a = slots s a)"
proof -
  note c = assms [unfolded can_init_def]
  let ?w = "with_tables task root t0 t1 s"
  have n: "root \<noteq> 0" "t0 \<noteq> 0" "t1 \<noteq> 0" "task \<noteq> 0" using c mapped_page_nonnull by blast+
  have t: "t_num_cap_space (tasks ?w task) = 0" "t_num_extension (tasks ?w task) = 1" "t_state (tasks ?w task) = suspended"
    "t_tid (tasks ?w task) = cur_tid s + 1" "t_root_page_table (tasks ?w task) = root" "lock_free_for ?w task"
    "spaces ?w = spaces s" "slots ?w = slots s" "t_free_slots (tasks ?w task) = 0" "t_free_slots_count (tasks ?w task) = 0"
    by (simp_all add: with_tables_def reset_task_def lock_free_for_def)
  have tb: "tables ?w root 192 = enable (set_flags cap_space_flags (set_next_page t1 zero_pte))"
    "tables ?w t1 0 = enable (set_next_page t0 (set_flags no_flags zero_pte))" "tables ?w t0 = zero_page_table"
    using c by (auto simp: with_tables_def)
  have ix: "get_page_table_index (space_va 0) 0 = 0" using cap_base_walk(3,5) space_va_walk [of 0 0] by simp
  have "walk_enabled root (space_va 0) [2, 1] ?w = Some t0"
    using n c cap_base_walk mapped_page_pte [of t1] mapped_page_pte [of t0] by (simp add: walk_enabled.simps tb)
  then have can: "can_insert_space ?w task cs t0"
    using c n by (simp add: can_insert_space_def t task_ok_def ix tb(3))
  have fl: "free_list ?w task []" by (simp add: free_list_def chain_def t)
  obtain s1 where s1: "insert_cap_space task cs ?w = Some (True, s1)" "free_list s1 task (cap_space_slots cs 1)"
    "t_num_cap_space (tasks s1 task) = 1" "space_at s1 task 0 cs"
    "tables s1 = tables (upd_pte t0 0 (\<lambda>pte. enable (set_flags cap_space_flags (set_next_page cs pte))) ?w)"
    "\<forall>u. t_state (tasks s1 u) = t_state (tasks ?w u) \<and> t_tid (tasks s1 u) = t_tid (tasks ?w u) \<and>
      t_root_page_table (tasks s1 u) = t_root_page_table (tasks ?w u) \<and> t_num_extension (tasks s1 u) = t_num_extension (tasks ?w u)"
    "space_added task cs ?w s1"
  proof (rule insert_cap_space_success [OF can fl], goal_cases)
    case (1 s1)
    show ?case by (rule 1(1) [of s1]) (use 1(2-) in \<open>simp_all add: t(1) ix\<close>)
  qed
  let ?F = "\<lambda>x. x\<lparr>t_context := payload_context return_to_user_mode (task + PAGE_SIZE),
      t_frame := (\<lambda>_. 0)(REG_SATP := SATP_MODE_SV39 OR drop_bit PAGE_SIZE_BIT (as_phys root))\<rparr>"
  let ?s' = "upd_task task ?F s1"
  have i: "init_task task cs root [t0, t1] s = Some ?s'"
    using init_task_tables [OF assms] s1(1,6) n(4) t(5) by (simp add: arch_init_task_def)
  have "free_list ?s' task (cap_space_slots cs 1)" using s1(2) by (simp add: free_list_def)
  moreover have "space_at ?s' task 0 cs" using s1(4) walk_check_cong [of ?s' s1] by (simp add: space_at_def)
  moreover have "tables ?s' root (of_nat (128 + j)) = kernel_leaf j" if "j < 64" for j
  proof -
    have u: "unat (of_nat (128 + j) :: u64) = 128 + j" using that by (intro unat_of_nat_u64) simp
    moreover have "of_nat (128 + j) \<noteq> (192 :: u64)"
    proof
      assume "of_nat (128 + j) = (192 :: u64)"
      then have "unat (of_nat (128 + j) :: u64) = unat (192 :: u64)" by (rule arg_cong)
      with u that show False by simp
    qed
    ultimately have "(tables ?w root) (of_nat (128 + j)) = kernel_leaf j"
      using c that by (simp only: with_tables_def kernel_table_def) simp
    then show ?thesis using c by (simp add: s1(5) upd_pte_def)
  qed
  moreover have "spaces ?s' = (spaces s)(cs := \<lparr>meta_map = cs, meta_task = task, meta_space_index = 0\<rparr>) \<and> current_task ?s' = current_task s \<and>
      mem ?s' = mem s \<and> t_lock (tasks ?s' task) = free_lock \<and> (\<forall>u. u \<noteq> task \<longrightarrow> tasks ?s' u = tasks s u) \<and> (\<forall>a. get_cap_space a \<noteq> cs \<and> slot_task s a \<noteq> task \<longrightarrow> slots ?s' a = slots s a)"
    using s1(7) t(1) by (simp add: space_added_def slot_task_def with_tables_def reset_task_def)
  ultimately show ?thesis using i s1(3,5,6) t by (intro exI [of _ ?s']) simp
qed

text \<open>
  C26: a new task is complete. Given its pages, \<^verbatim>\<open>init_task\<close> returns; the task is suspended, has the next
  thread id, one capability space and one extension; its free slots are all slots of the space but the
  first, descriptors below the capacity lead into the space, every gigabyte of the physical memory is
  mapped for the kernel alone in its root page table, and its frame selects that table.
\<close>

theorem init_task_complete:
  assumes "can_init task cs root t0 t1 s"
  shows "\<exists>s'. init_task task cs root [t0, t1] s = Some s' \<and> t_state (tasks s' task) = suspended \<and>
    t_tid (tasks s' task) = cur_tid s + 1 \<and> t_num_cap_space (tasks s' task) = 1 \<and> t_num_extension (tasks s' task) = 1 \<and>
    free_list s' task (cap_space_slots cs 1) \<and> space_at s' task 0 cs \<and>
    (\<forall>i<64. tables s' root (of_nat (128 + i)) = kernel_leaf i) \<and>
    t_frame (tasks s' task) REG_SATP = SATP_MODE_SV39 OR drop_bit 12 (as_phys root)"
  using init_task_effect [OF assms] by blast

text \<open>Pages for a task at 0x2000004000.\<close>

theorem init_task_complete_witness:
  "\<exists>s'. init_task 0x2000004000 0x2000005000 0x2000001000 [0x2000003000, 0x2000002000] zero_state = Some s' \<and>
    t_state (tasks s' 0x2000004000) = suspended \<and> t_tid (tasks s' 0x2000004000) = 1 \<and>
    free_list s' 0x2000004000 (cap_space_slots 0x2000005000 1) \<and> tables s' 0x2000001000 128 = kernel_leaf 0"
proof -
  have "mapped_page 0x2000001000" by (simp add: mapped_page_def as_phys_def config_defs)
  then have "can_init 0x2000004000 0x2000005000 0x2000001000 0x2000003000 0x2000002000 zero_state"
    by (simp add: can_init_def zero_state_def zero_task_def)
  from init_task_complete [OF this] obtain s' where
    "init_task 0x2000004000 0x2000005000 0x2000001000 [0x2000003000, 0x2000002000] zero_state = Some s'"
    "t_state (tasks s' 0x2000004000) = suspended" "t_tid (tasks s' 0x2000004000) = cur_tid zero_state + 1"
    "free_list s' 0x2000004000 (cap_space_slots 0x2000005000 1)"
    "\<forall>i<64. tables s' 0x2000001000 (of_nat (128 + i)) = kernel_leaf i" by blast
  then show ?thesis by (intro exI [of _ s']) (auto simp: zero_state_def dest: spec [of _ 0])
qed

text \<open>
  A bad descriptor stops the kernel. Asked to make a task, \<^verbatim>\<open>create_object\<close> looks up the inner page tables
  in a loop; when a descriptor leads nowhere the \<^verbatim>\<open>break\<close> leaves that loop only, \<^verbatim>\<open>create_task_object\<close> is
  called all the same and its assertion fails, where an error was meant to be returned.
\<close>

theorem create_task_bad_table_stops:
  assumes "lookup_cap task a0 s = Some (c, s)" "c \<noteq> 0" "cap_at s c = CapSpaceCap cs"
    "lookup_cap task a1 s = Some (r, s)" "r \<noteq> 0" "cap_at s r = PageTableCap pt" "\<not> pt_mapped pt"
    "lookup_cap task a2 s = Some (0, s2)"
  shows "create_task_from task slot cap_slot [a0, a1, a2, a3, a4] s = None"
proof -
  have "create_task_object slot cap_slot c r [0] t = None" for t
    by (simp add: create_task_object_def free_table_def split: bind_splits capability_t.splits)
  then show ?thesis using assms by (simp add: create_task_from_def)
qed

theorem create_task_bad_table_stops_witness:
  "\<exists>s. create_task_from 0x2000004000 1 2 [1, 2, 1000, 0, 0] s = None \<and> lookup_cap 0x2000004000 1000 s = Some (0, s\<lparr>errno := SYS_E_ILL_ARGS\<rparr>)"
proof -
  obtain s where s: "alive s 0x2000004000" "space_at s 0x2000004000 0 0x2000005000"
    "unat (t_num_cap_space (tasks s 0x2000004000)) = 1" using demo_lookup_state by blast
  let ?x = "slot_addr 0x2000005000 1" and ?y = "slot_addr 0x2000005000 2"
  let ?s = "set_cap ?x (CapSpaceCap \<lparr>cs_used = False, cs_space = 0x2000006000\<rparr>) (set_cap ?y (PageTableCap demo_page_table) s)"
  have xy: "?x \<noteq> ?y" "?x \<noteq> 0" "?y \<noteq> 0" by (simp_all add: slot_addr_def SLOT_OFFSET_def SLOT_SIZE_def)
  have l: "lookup_cap 0x2000004000 1 ?s = Some (?x, ?s)" "lookup_cap 0x2000004000 2 ?s = Some (?y, ?s)"
    using lookup_cap_slot [of ?s "0x2000004000" 0 "0x2000005000" 1] lookup_cap_slot [of ?s "0x2000004000" 0 "0x2000005000" 2] s xy
    by simp_all
  have n: "t_num_cap_space (tasks s 0x2000004000) = 1" using s(3) by (intro word_unatI) simp
  have b: "lookup_cap 0x2000004000 1000 ?s = Some (0, ?s\<lparr>errno := SYS_E_ILL_ARGS\<rparr>)"
    using s(1) n by (simp add: lookup_cap_def alive_def task_ok_def)
  have "\<not> pt_mapped demo_page_table" by (simp add: demo_page_table_def)
  with create_task_bad_table_stops [OF l(1) xy(2) _ l(2) xy(3) _ _ b] b xy show ?thesis by (intro exI [of _ ?s]) simp
qed

end
