(* ===== verification/Boot_Root.thy ===== *)
theory Boot_Root
  imports Boot_Memory Task_Init
begin

text \<open>
  The creation of the root task at boot (\<^verbatim>\<open>src/kernel/start.cpp\<close>, \<^verbatim>\<open>boot_info.cpp\<close> and the rest of \<^verbatim>\<open>setup.cpp\<close>): its
  task object with its first capabilities, its payload, stack and device tree in its address space, and the boot
  information on its stack. The lemmas show that every step returns, what the page tables map
  afterwards and which slots hold which capability.

  The static objects of \<^verbatim>\<open>boot_info.cpp\<close> and \<^verbatim>\<open>cls.cpp\<close> are addresses in the record \<open>boot_objects\<close>. What belongs to libcaprese
  (the sizes and the bytes of the boot information, the numbers of registers) and the address
  the payload is linked to are the record \<open>boot_abi\<close>. The core id register, the trap vector of the
  boot phase and the log are left out.
\<close>

subsection \<open>Boot information\<close>

record boot_abi =
  ba_payload_base :: addr
  ba_root_boot_info_size :: u64
  ba_cap_size :: u64
  ba_bytes :: "root_boot_info_t \<Rightarrow> nat \<Rightarrow> byte"
  ba_LAST_REGISTER :: u64
  ba_REG_PROGRAM_COUNTER :: u64
  ba_REG_STACK_POINTER :: u64
  ba_REG_ARG_0 :: u64

record boot_objects =
  o_root_task :: addr
  o_cap_spaces :: addr
  o_root_page_table :: addr
  o_payload_page_tables :: addr
  o_stack_page_tables :: addr
  o_cap_space_page_tables :: addr
  o_core_local_storages :: addr

definition CONFIG_ROOT_TASK_CAP_SPACES :: nat where "CONFIG_ROOT_TASK_CAP_SPACES = 8"

record boot_info_t =
  b_core_id :: u64
  b_cap_count :: u64
  b_root_task :: addr
  b_root_page_table :: addr
  b_cap_spaces :: "addr list"
  b_payload_page_tables :: "addr list"
  b_stack_page_tables :: "addr list"
  b_cap_space_page_tables :: "addr list"
  b_dtb :: addr

text \<open>The elements of an array of pages.\<close>

definition page_array :: "addr \<Rightarrow> nat \<Rightarrow> addr list" where
  "page_array base n = map (\<lambda>i. base + PAGE_SIZE * of_nat i) [0..<n]"

definition init_boot_info :: "boot_objects \<Rightarrow> u64 \<Rightarrow> addr \<Rightarrow> boot_info_t" where
  "init_boot_info objs core_id dtb =
     \<lparr>b_core_id = core_id, b_cap_count = 0, b_root_task = o_root_task objs, b_root_page_table = o_root_page_table objs,
      b_cap_spaces = page_array (o_cap_spaces objs) CONFIG_ROOT_TASK_CAP_SPACES,
      b_payload_page_tables = page_array (o_payload_page_tables objs) (NUM_INTER_PAGE_TABLE + 1),
      b_stack_page_tables = page_array (o_stack_page_tables objs) (NUM_INTER_PAGE_TABLE + 1),
      b_cap_space_page_tables = page_array (o_cap_space_page_tables objs) (NUM_INTER_PAGE_TABLE + 1),
      b_dtb = dtb\<rparr>"

definition get_root_boot_info_size :: "boot_abi \<Rightarrow> root_boot_info_t \<Rightarrow> u64" where
  "get_root_boot_info_size abi bi = ba_root_boot_info_size abi +
     ba_cap_size abi * (bi_num_mem_caps bi + bi_num_virt_page_caps bi + bi_num_dtb_vp_caps bi)"

subsection \<open>The root task and its capabilities\<close>

text \<open>\<^verbatim>\<open>insert_cap\<close> with the panic on failure.\<close>

definition insert_root_cap :: "addr \<Rightarrow> capability_t \<Rightarrow> kstate \<Rightarrow> (addr \<times> kstate) option" where
  "insert_root_cap root_task cap s = do {
     (slot, s) \<leftarrow> insert_cap root_task cap s;
     cassert (slot \<noteq> 0);
     Some (slot, s)
   }"

definition insert_root_space :: "addr \<Rightarrow> addr \<Rightarrow> kstate \<Rightarrow> kstate option" where
  "insert_root_space root_task cap_space s = do {
     (ok, s) \<leftarrow> insert_cap_space root_task cap_space s;
     cassert ok;
     Some s
   }"

definition insert_root_space_cap :: "addr \<Rightarrow> addr \<Rightarrow> kstate \<Rightarrow> kstate option" where
  "insert_root_space_cap root_task cap_space s = do {
     cap \<leftarrow> make_cap_space_cap cap_space True;
     (_, s) \<leftarrow> insert_root_cap root_task cap s;
     Some s
   }"

text \<open>The loop over the page tables of the capability spaces.\<close>

definition insert_root_table_cap :: "boot_info_t \<Rightarrow> nat \<Rightarrow> boot_state \<Rightarrow> boot_state option" where
  "insert_root_table_cap b level st = (case st of (bi, s) \<Rightarrow> do {
     let parent_table = (if level + 1 = MAX_PAGE_TABLE_LEVEL then b_root_page_table b else b_cap_space_page_tables b ! (level + 1));
     cap \<leftarrow> make_page_table_cap (b_cap_space_page_tables b ! level) True level CONFIG_CAPABILITY_SPACE_BASE parent_table;
     (slot, s) \<leftarrow> insert_root_cap (b_root_task b) cap s;
     d \<leftarrow> get_cap_slot_index slot s;
     Some (bi\<lparr>bi_cap_space_page_table_caps := (bi_cap_space_page_table_caps bi)(level := d)\<rparr>, s)
   })"

definition setup_root_task :: "boot_info_t \<Rightarrow> boot_state \<Rightarrow> boot_state option" where
  "setup_root_task b st = (case st of (bi, s) \<Rightarrow> do {
     let root = b_root_task b;
     let s = s\<lparr>current_task := root\<rparr>;
     s \<leftarrow> init_task root (b_cap_spaces b ! 0) (b_root_page_table b) (b_cap_space_page_tables b) s;
     s \<leftarrow> foldm (insert_root_space root) (drop 1 (b_cap_spaces b)) s;
     cap \<leftarrow> make_task_cap all_task_flags root;
     (slot, s) \<leftarrow> insert_root_cap root cap s;
     d \<leftarrow> get_cap_slot_index slot s;
     let bi = bi\<lparr>bi_root_task_cap := d\<rparr>;
     s \<leftarrow> foldm (insert_root_space_cap root) (b_cap_spaces b) s;
     cap \<leftarrow> make_page_table_cap (b_root_page_table b) True MAX_PAGE_TABLE_LEVEL 0 0;
     (slot, s) \<leftarrow> insert_root_cap root cap s;
     d \<leftarrow> get_cap_slot_index slot s;
     let bi = bi\<lparr>bi_root_page_table_cap := d\<rparr>;
     foldm (insert_root_table_cap b) [0..<length (b_cap_space_page_tables b)] (bi, s)
   })"

definition setup_cap_space :: "layout \<Rightarrow> boot_info_t \<Rightarrow> boot_state \<Rightarrow> boot_state option" where
  "setup_cap_space l b st = (case st of (bi, s) \<Rightarrow> do {
     (bi, s) \<leftarrow> setup_memory_capabilities l (b_root_task b) (b_dtb b) (bi\<lparr>bi_num_mem_caps := 0, bi_mem_caps_offset := 0\<rparr>, s);
     Some (bi\<lparr>bi_num_virt_page_caps := 0, bi_virt_page_caps_offset := bi_mem_caps_offset bi + bi_num_mem_caps bi\<rparr>, s)
   })"

subsection \<open>The address space of the root task\<close>

text \<open>One page of the loops: the entry in the last table, the capability, and its descriptor.\<close>

definition map_user_page :: "addr \<Rightarrow> addr \<Rightarrow> pte_flags_t \<Rightarrow> addr \<Rightarrow> addr \<Rightarrow> kstate \<Rightarrow> (u64 \<times> kstate) option" where
  "map_user_page root_task page_table flags va page s = do {
     i \<leftarrow> walk va KILO_PAGE_TABLE_LEVEL;
     cassert (is_disabled (tables s page_table i));
     let s = upd_pte page_table i (\<lambda>pte. enable (set_next_page page (set_flags flags pte))) s;
     cap \<leftarrow> make_virt_page_cap False (fl_readable flags) (fl_writable flags) (fl_executable flags) True
       KILO_PAGE_TABLE_LEVEL (as_phys page) va page_table;
     (slot, s) \<leftarrow> insert_root_cap root_task cap s;
     d \<leftarrow> get_cap_slot_index slot s;
     Some (d, s)
   }"

partial_function (option) map_user_pages ::
  "addr \<Rightarrow> addr \<Rightarrow> pte_flags_t \<Rightarrow> addr \<Rightarrow> addr \<Rightarrow> u64 \<Rightarrow> (u64 \<Rightarrow> root_boot_info_t \<Rightarrow> root_boot_info_t) \<Rightarrow> u64 \<Rightarrow> boot_state \<Rightarrow> boot_state option" where
  "map_user_pages root_task page_table flags va_base begin_page sz add va_offset st =
     (if va_offset < sz then do {
        (d, s) \<leftarrow> map_user_page root_task page_table flags (va_base + va_offset) (begin_page + va_offset) (snd st);
        map_user_pages root_task page_table flags va_base begin_page sz add (va_offset + PAGE_SIZE) (add d (fst st), s)
      }
      else Some st)"

definition add_virt_page_cap :: "u64 \<Rightarrow> root_boot_info_t \<Rightarrow> root_boot_info_t" where
  "add_virt_page_cap d bi = bi\<lparr>bi_caps := (bi_caps bi)(bi_virt_page_caps_offset bi + bi_num_virt_page_caps bi := d),
     bi_num_virt_page_caps := bi_num_virt_page_caps bi + 1\<rparr>"

definition add_dtb_vp_cap :: "u64 \<Rightarrow> root_boot_info_t \<Rightarrow> root_boot_info_t" where
  "add_dtb_vp_cap d bi = bi\<lparr>bi_caps := (bi_caps bi)(bi_dtb_vp_caps_offset bi + bi_num_dtb_vp_caps bi := d),
     bi_num_dtb_vp_caps := bi_num_dtb_vp_caps bi + 1\<rparr>"

text \<open>The loop over the inner levels; \<open>dst\<close> writes the array of descriptors it is given.\<close>

primrec map_inner_tables ::
  "addr \<Rightarrow> addr \<Rightarrow> addr list \<Rightarrow> (nat \<Rightarrow> u64 \<Rightarrow> root_boot_info_t \<Rightarrow> root_boot_info_t) \<Rightarrow> nat list \<Rightarrow> addr \<Rightarrow> boot_state \<Rightarrow> (addr \<times> boot_state) option" where
  "map_inner_tables root_task va_base page_tables dst [] page_table st = Some (page_table, st)"
| "map_inner_tables root_task va_base page_tables dst (level # levels) page_table st = (case st of (bi, s) \<Rightarrow> do {
     let next_page_table = page_tables ! (level - 1);
     i \<leftarrow> walk va_base level;
     cassert (is_disabled (tables s page_table i));
     let s = upd_pte page_table i (\<lambda>pte. enable (set_next_page next_page_table pte)) s;
     cap \<leftarrow> make_page_table_cap next_page_table True (level - 1) (round_down va_base (get_page_size level)) page_table;
     (slot, s) \<leftarrow> insert_root_cap root_task cap s;
     d \<leftarrow> get_cap_slot_index slot s;
     map_inner_tables root_task va_base page_tables dst levels next_page_table (dst (level - 1) d bi, s)
   })"

definition map_root_task ::
  "boot_info_t \<Rightarrow> addr \<Rightarrow> addr \<Rightarrow> addr \<Rightarrow> addr list \<Rightarrow> (nat \<Rightarrow> u64 \<Rightarrow> root_boot_info_t \<Rightarrow> root_boot_info_t) \<Rightarrow> pte_flags_t \<Rightarrow> boot_state \<Rightarrow> boot_state option" where
  "map_root_task b va_base begin_ptr end_ptr page_tables dst flags st = (case st of (bi, s) \<Rightarrow> do {
     let s = fold zero_table page_tables s;
     (page_table, st) \<leftarrow> map_inner_tables (b_root_task b) va_base page_tables dst (levels_down (Suc KILO_PAGE_TABLE_LEVEL))
       (b_root_page_table b) (bi, s);
     map_user_pages (b_root_task b) page_table flags va_base begin_ptr (end_ptr - begin_ptr) add_virt_page_cap 0 st
   })"

definition payload_flags :: pte_flags_t where
  "payload_flags = \<lparr>fl_readable = True, fl_writable = True, fl_executable = True, fl_user = True, fl_global = False\<rparr>"

definition stack_flags :: pte_flags_t where
  "stack_flags = \<lparr>fl_readable = True, fl_writable = True, fl_executable = False, fl_user = True, fl_global = False\<rparr>"

definition dtb_flags :: pte_flags_t where
  "dtb_flags = \<lparr>fl_readable = True, fl_writable = False, fl_executable = False, fl_user = True, fl_global = False\<rparr>"

definition set_page_table_cap :: "nat \<Rightarrow> u64 \<Rightarrow> root_boot_info_t \<Rightarrow> root_boot_info_t" where
  "set_page_table_cap i d bi = bi\<lparr>bi_page_table_caps := (bi_page_table_caps bi)(i := d)\<rparr>"

definition set_stack_page_table_cap :: "nat \<Rightarrow> u64 \<Rightarrow> root_boot_info_t \<Rightarrow> root_boot_info_t" where
  "set_stack_page_table_cap i d bi = bi\<lparr>bi_stack_page_table_caps := (bi_stack_page_table_caps bi)(i := d)\<rparr>"

definition load_root_task_payload :: "boot_abi \<Rightarrow> layout \<Rightarrow> boot_info_t \<Rightarrow> boot_state \<Rightarrow> boot_state option" where
  "load_root_task_payload abi l b st =
     map_root_task b (ba_payload_base abi) (payload_start l) (payload_end l) (b_payload_page_tables b) set_page_table_cap payload_flags st"

definition setup_root_task_stack :: "layout \<Rightarrow> boot_info_t \<Rightarrow> boot_state \<Rightarrow> boot_state option" where
  "setup_root_task_stack l b st = (
     let sz = root_task_stack_end l - root_task_stack_start l;
         va_base = CONFIG_USER_SPACE_BASE + CONFIG_USER_SPACE_SIZE - sz
     in map_root_task b va_base (root_task_stack_start l) (root_task_stack_end l) (b_stack_page_tables b) set_stack_page_table_cap
          stack_flags st)"

definition setup_arch_root_boot_info :: "boot_abi \<Rightarrow> layout \<Rightarrow> boot_info_t \<Rightarrow> boot_state \<Rightarrow> boot_state option" where
  "setup_arch_root_boot_info abi l b st = (case st of (bi, s) \<Rightarrow> do {
     (dtb_start, dtb_end) \<leftarrow> get_dtb_region (mem s) (b_dtb b);
     let bi = bi\<lparr>bi_dtb_start := dtb_start, bi_dtb_end := dtb_end, bi_num_dtb_vp_caps := 0,
       bi_dtb_vp_caps_offset := bi_virt_page_caps_offset bi + bi_num_virt_page_caps bi\<rparr>;
     let page_table = b_payload_page_tables b ! KILO_PAGE_TABLE_LEVEL;
     let dtb_size = dtb_end - dtb_start;
     let payload_size = payload_end l - payload_start l;
     let va_base = ba_payload_base abi + payload_size;
     (bi, s) \<leftarrow> map_user_pages (b_root_task b) page_table dtb_flags va_base (as_map dtb_start) dtb_size add_dtb_vp_cap 0 (bi, s);
     Some (bi\<lparr>bi_root_task_end_address := round_up (ba_payload_base abi + payload_size + dtb_size) PAGE_SIZE\<rparr>, s)
   })"

text \<open>The \<open>data\<close> that is copied is the boot information, a static object.\<close>

definition bake_stack :: "addr \<Rightarrow> (nat \<Rightarrow> byte) \<Rightarrow> u64 \<Rightarrow> kstate \<Rightarrow> (addr \<times> kstate) option" where
  "bake_stack stack data sz s = do {
     cassert (stack \<noteq> 0);
     cassert (sz > 0);
     let tp = round_down (stack - sz) 16;
     Some (tp, store_bytes tp (map data [0..<unat sz]) s)
   }"

definition setup_root_task_payload :: "boot_abi \<Rightarrow> layout \<Rightarrow> boot_info_t \<Rightarrow> boot_state \<Rightarrow> boot_state option" where
  "setup_root_task_payload abi l b st = do {
     st \<leftarrow> load_root_task_payload abi l b st;
     st \<leftarrow> setup_root_task_stack l b st;
     (bi, s) \<leftarrow> setup_arch_root_boot_info abi l b st;
     (stack, s) \<leftarrow> bake_stack (root_task_stack_end l) (ba_bytes abi bi) (get_root_boot_info_size abi bi) s;
     let sp_offset = root_task_stack_end l - stack;
     let sp = CONFIG_USER_SPACE_BASE + CONFIG_USER_SPACE_SIZE - sp_offset;
     let root = b_root_task b;
     let (_, s) = set_register (ba_LAST_REGISTER abi) root (ba_REG_PROGRAM_COUNTER abi) (ba_payload_base abi) s;
     let (_, s) = set_register (ba_LAST_REGISTER abi) root (ba_REG_STACK_POINTER abi) sp s;
     let (_, s) = set_register (ba_LAST_REGISTER abi) root (ba_REG_ARG_0 abi) sp s;
     Some (bi, s)
   }"

subsection \<open>The whole start\<close>

text \<open>
  The core local storage of a core takes three pages: the page table and the task of the idle
  task, and a page with the rest.
\<close>

definition get_cls :: "boot_objects \<Rightarrow> u64 \<Rightarrow> addr" where
  "get_cls objs core_id = o_core_local_storages objs + 3 * PAGE_SIZE * core_id"

definition setup_idle_task :: "boot_objects \<Rightarrow> boot_info_t \<Rightarrow> boot_state \<Rightarrow> boot_state option" where
  "setup_idle_task objs b st = (case st of (bi, s) \<Rightarrow> do {
     let cls = get_cls objs (b_core_id b);
     let task = cls + PAGE_SIZE;
     s \<leftarrow> init_idle_task task cls (s\<lparr>idle_task := task\<rparr>);
     Some (bi, s)
   })"

definition setup_boot :: "boot_abi \<Rightarrow> layout \<Rightarrow> boot_objects \<Rightarrow> boot_info_t \<Rightarrow> boot_state \<Rightarrow> boot_state option" where
  "setup_boot abi l objs b st = do {
     st \<leftarrow> setup_root_task b st;
     st \<leftarrow> setup_cap_space l b st;
     st \<leftarrow> setup_root_task_payload abi l b st;
     setup_idle_task objs b st
   }"

text \<open>\<^verbatim>\<open>start\<close> ends by loading the context of the root task.\<close>

definition start_root :: "boot_abi \<Rightarrow> layout \<Rightarrow> boot_objects \<Rightarrow> boot_info_t \<Rightarrow> boot_state \<Rightarrow> (context_t \<times> boot_state) option" where
  "start_root abi l objs b st = do {
     (bi, s) \<leftarrow> setup_boot abi l objs b st;
     Some (t_context (tasks s (b_root_task b)), bi, s)
   }"

definition arch_start :: "boot_abi \<Rightarrow> layout \<Rightarrow> boot_objects \<Rightarrow> u64 \<Rightarrow> addr \<Rightarrow> boot_state \<Rightarrow> (context_t \<times> boot_state) option" where
  "arch_start abi l objs hartid dtb st = start_root abi l objs (init_boot_info objs hartid dtb) st"

subsection \<open>Capabilities inserted one after the other\<close>

definition slot_desc :: "kstate \<Rightarrow> addr \<Rightarrow> u64" where
  "slot_desc s x = NUM_SLOTS * meta_space_index (spaces s (get_cap_space x)) + (x - (get_cap_space x + SLOT_OFFSET)) div SLOT_SIZE"

lemma get_cap_slot_index_desc: "x \<noteq> 0 \<Longrightarrow> get_cap_slot_index x s = Some (slot_desc s x)"
  by (simp add: get_cap_slot_index_def slot_desc_def)

lemma slot_desc_cong: "spaces s' = spaces s \<Longrightarrow> slot_desc s' = slot_desc s"
  by (simp add: slot_desc_def fun_eq_iff)

text \<open>
  \<open>s'\<close> is \<open>s\<close> with the page tables \<open>T\<close> and the capabilities \<open>cs\<close> in the first of the free slots \<open>xs\<close> of the root
  task, and nothing else changed.
\<close>

definition inserted :: "addr \<Rightarrow> capability_t list \<Rightarrow> addr list \<Rightarrow> (addr \<Rightarrow> page_table_t) \<Rightarrow> kstate \<Rightarrow> kstate \<Rightarrow> bool" where
  "inserted root cs xs T s s' \<longleftrightarrow> same_but_pool root (s\<lparr>tables := T\<rparr>) s' \<and> free_list s' root (drop (length cs) xs) \<and>
     (\<forall>i<length cs. cap_at s' (xs ! i) = cs ! i) \<and> (\<forall>z. z \<notin> set (take (length cs) xs) \<longrightarrow> cap_at s' z = cap_at s z)"

lemma tables_upd_frame [simp]:
  "free_list (s\<lparr>tables := T\<rparr>) = free_list s" "task_ok (s\<lparr>tables := T\<rparr>) = task_ok s" "alive (s\<lparr>tables := T\<rparr>) = alive s" "slot_desc (s\<lparr>tables := T\<rparr>) = slot_desc s"
  "free_list (upd_pte p i f s) = free_list s" "alive (upd_pte p i f s) = alive s" "slot_desc (upd_pte p i f s) = slot_desc s"
  by (auto simp: fun_eq_iff free_list_def chain_def slot_task_def alive_def task_ok_def lock_free_for_def current_tid_def
    slot_desc_def)

lemma insertedD:
  assumes "inserted root cs xs T s s'"
  shows "tables s' = T" "free_list s' root (drop (length cs) xs)" "slot_desc s' = slot_desc s" "mem s' = mem s"
    "t_root_page_table (tasks s' u) = t_root_page_table (tasks s u)" "alive s' u = alive s u"
    "t_num_cap_space (tasks s' u) = t_num_cap_space (tasks s u)" "t_state (tasks s' u) = t_state (tasks s u)"
    "i < length cs \<Longrightarrow> cap_at s' (xs ! i) = cs ! i" "z \<notin> set (take (length cs) xs) \<Longrightarrow> cap_at s' z = cap_at s z"
    "current_task s' = current_task s" "u \<noteq> root \<Longrightarrow> tasks s' u = tasks s u" "t_context (tasks s' u) = t_context (tasks s u)"
proof -
  from assms have p: "same_but_pool root (s\<lparr>tables := T\<rparr>) s'" by (simp add: inserted_def)
  note d = same_but_poolD [OF p] and k = same_but_pool_ok [OF p]
  show "tables s' = T" "mem s' = mem s" "t_root_page_table (tasks s' u) = t_root_page_table (tasks s u)"
    "t_num_cap_space (tasks s' u) = t_num_cap_space (tasks s u)" "t_state (tasks s' u) = t_state (tasks s u)"
    "current_task s' = current_task s" "u \<noteq> root \<Longrightarrow> tasks s' u = tasks s u" "t_context (tasks s' u) = t_context (tasks s u)"
    using d same_but_pool_context [OF p] by simp_all
  show "slot_desc s' = slot_desc s" using slot_desc_cong [of s' "s\<lparr>tables := T\<rparr>"] d(1) by simp
  show "alive s' u = alive s u" using k(4) d(10) by (simp add: alive_def)
qed (use assms in \<open>auto simp: inserted_def\<close>)

lemma blank_pool_tables: "blank_pool t (s\<lparr>tables := T\<rparr>) = (blank_pool t s)\<lparr>tables := T\<rparr>"
  by (simp add: blank_pool_def)

lemma inserted_trans:
  assumes "inserted root cs xs T s s1" "inserted root ds (drop (length cs) xs) T' s1 s2" "length cs \<le> length xs" "distinct xs"
  shows "inserted root (cs @ ds) xs T' s s2"
proof -
  have "same_but_pool root (s\<lparr>tables := T'\<rparr>) s2"
    using assms(1,2) by (simp add: inserted_def same_but_pool_def blank_pool_tables)
  moreover have "xs ! i \<notin> set (take (length ds) (drop (length cs) xs))" if "i < length cs" for i
    using assms(3,4) that by (auto simp: in_set_conv_nth nth_eq_iff_index_eq)
  moreover have "cap_at s2 (xs ! i) = ds ! (i - length cs)" if "\<not> i < length cs" "i < length cs + length ds" for i
    using insertedD(9) [OF assms(2), of "i - length cs"] assms(3) that by simp
  ultimately show ?thesis using assms unfolding inserted_def
    by (auto simp: nth_append add.commute take_add)
qed

lemma insert_root_cap_inserted:
  assumes "free_list s root (x # xs)" "alive s root"
  shows "\<exists>s'. insert_root_cap root c s = Some (x, s') \<and> inserted root [c] (x # xs) (tables s) s s'"
proof -
  have ok: "task_ok s root" "t_state (tasks s root) \<noteq> killed" using assms(2) by (simp_all add: alive_def)
  from insert_cap_Cons [OF assms(1) ok] obtain s' where
    s': "insert_cap root c s = Some (x, s')" "free_list s' root xs" "cap_at s' = (cap_at s)(x := c)" "same_but_pool root s s'" .
  have x: "x \<noteq> 0" using chain_null [OF free_listD(1) [OF assms(1)]] by auto
  with s' show ?thesis by (intro exI [of _ s']) (simp add: insert_root_cap_def inserted_def)
qed

subsection \<open>Mapping pages\<close>

definition page_off :: "nat \<Rightarrow> u64" where
  "page_off j = of_nat (4096 * j)"

lemma page_off_simps [simp]: "page_off 0 = 0" "page_off j + 4096 = page_off (Suc j)"
  by (simp_all add: page_off_def)

lemma unat_page_off: "4096 * j < 2 ^ 64 \<Longrightarrow> unat (page_off j) = 4096 * j"
  unfolding page_off_def by (rule unat_of_nat_u64)

definition page_index :: "addr \<Rightarrow> nat \<Rightarrow> u64" where
  "page_index va j = get_page_table_index (va + page_off j) 0"

definition user_leaf :: "pte_flags_t \<Rightarrow> addr \<Rightarrow> pte_t \<Rightarrow> pte_t" where
  "user_leaf flags page pte = enable (set_next_page page (set_flags flags pte))"

definition page_cap :: "pte_flags_t \<Rightarrow> addr \<Rightarrow> addr \<Rightarrow> addr \<Rightarrow> nat \<Rightarrow> capability_t" where
  "page_cap flags tab va page j = VirtPageCap \<lparr>vp_mapped = True, vp_device = False, vp_readable = fl_readable flags,
     vp_writable = fl_writable flags, vp_executable = fl_executable flags, vp_level = 0, vp_index = ucast (page_index va j),
     vp_phys_addr = ucast (as_phys page + page_off j), vp_address = va + page_off j, vp_parent_table = tab\<rparr>"

text \<open>A page table with the pages \<open>js\<close> of a range entered.\<close>

definition leaf_table :: "pte_flags_t \<Rightarrow> addr \<Rightarrow> addr \<Rightarrow> nat list \<Rightarrow> page_table_t \<Rightarrow> page_table_t" where
  "leaf_table flags va page js tab =
     fold (\<lambda>j tab. tab(page_index va j := user_leaf flags (page + page_off j) (tab (page_index va j)))) js tab"

text \<open>A range of \<open>n\<close> pages that one table of the last level maps.\<close>

definition in_table :: "addr \<Rightarrow> nat \<Rightarrow> bool" where
  "in_table va n \<longleftrightarrow> unat va + 4096 * n \<le> 2 ^ 38 \<and> unat va div 4096 mod 512 + n \<le> 512"

lemma unat_add_pages: "unat (va :: u64) + 4096 * n \<le> 2 ^ 38 \<Longrightarrow> j \<le> n \<Longrightarrow> unat (va + page_off j) = unat va + 4096 * j"
proof -
  assume a: "unat va + 4096 * n \<le> 2 ^ 38" "j \<le> n"
  have "va + page_off j = of_nat (unat va + 4096 * j)" by (simp add: page_off_def)
  moreover have "unat va + 4096 * j < 2 ^ 64" using a by simp
  ultimately show ?thesis by (simp only: unat_of_nat_u64)
qed

lemma unat_page_index:
  assumes "in_table va n" "j < n"
  shows "unat (page_index va j) = unat va div 4096 mod 512 + j"
proof -
  have a: "unat (va + page_off j) = unat va + 4096 * j"
    using assms by (intro unat_add_pages [of _ n]) (auto simp: in_table_def)
  have "unat va div 4096 mod 512 + j < 512" using assms by (simp add: in_table_def)
  then have "(unat va div 4096 + j) mod 512 = unat va div 4096 mod 512 + j" by (metis mod_add_left_eq mod_less)
  then show ?thesis by (simp add: page_index_def unat_get_page_table_index a get_page_size_bit_def add.commute)
qed

lemma page_index_inj: "in_table va n \<Longrightarrow> i < n \<Longrightarrow> j < n \<Longrightarrow> page_index va i = page_index va j \<longleftrightarrow> i = j"
  using unat_page_index [of va n] by (metis add_left_cancel)

lemma page_walk: "in_table va n \<Longrightarrow> j < n \<Longrightarrow> walk (va + page_off j) 0 = Some (page_index va j)"
  unfolding page_index_def
proof (rule walk_Some)
  assume "in_table va n" "j < n"
  then have "unat (va + page_off j) = unat va + 4096 * j" "unat va + 4096 * n \<le> 2 ^ 38"
    using unat_add_pages [of va n j] by (simp_all add: in_table_def)
  then show "va + page_off j < CONFIG_MAX_VIRTUAL_ADDRESS"
    using \<open>j < n\<close> by (simp add: word_less_nat_alt CONFIG_MAX_VIRTUAL_ADDRESS_def)
qed simp

lemma leaf_table_other: "i \<notin> page_index va ` set js \<Longrightarrow> leaf_table flags va page js tab i = tab i"
  unfolding leaf_table_def by (induction js arbitrary: tab) auto

lemma leaf_table_at:
  assumes "in_table va n" "j < n" "set js \<subseteq> {..<n}" "distinct js"
  shows "leaf_table flags va page js tab (page_index va j) =
    (if j \<in> set js then user_leaf flags (page + page_off j) (tab (page_index va j)) else tab (page_index va j))"
  using assms(3,4)
proof (induction js arbitrary: tab)
  case (Cons k js)
  let ?t = "tab(page_index va k := user_leaf flags (page + page_off k) (tab (page_index va k)))"
  have "leaf_table flags va page (k # js) tab = leaf_table flags va page js ?t" by (simp add: leaf_table_def)
  with Cons page_index_inj [OF assms(1), of j k] assms(2) show ?case by auto
qed (simp add: leaf_table_def)

lemma map_user_page_inserted:
  assumes "free_list s root (x # xs)" "alive s root" "in_table va n" "j < n" "unat (as_phys page) + 4096 * n \<le> 2 ^ 36"
    "\<not> is_enabled (tables s tab (page_index va j))"
  shows "\<exists>s'. map_user_page root tab flags (va + page_off j) (page + page_off j) s = Some (slot_desc s x, s') \<and>
    inserted root [page_cap flags tab va page j] (x # xs) ((tables s)(tab := leaf_table flags va page [j] (tables s tab))) s s'"
proof -
  let ?i = "page_index va j" and ?pg = "page + page_off j" and ?c = "page_cap flags tab va page j"
  let ?s = "upd_pte tab ?i (\<lambda>pte. enable (set_next_page ?pg (set_flags flags pte))) s"
  have ph: "as_phys ?pg = as_phys page + page_off j" by (simp add: as_phys_def)
  have "unat (as_phys ?pg) = unat (as_phys page) + 4096 * j"
    unfolding ph using assms(4,5) by (intro unat_add_pages [of _ n]) simp_all
  then have "as_phys ?pg < CONFIG_MAX_PHYSICAL_ADDRESS"
    using assms(4,5) by (simp add: word_less_nat_alt CONFIG_MAX_PHYSICAL_ADDRESS_def)
  then have c: "make_virt_page_cap False (fl_readable flags) (fl_writable flags) (fl_executable flags) True 0 (as_phys ?pg)
      (va + page_off j) tab = Some ?c"
    by (simp add: make_virt_page_cap_def page_cap_def page_index_def ph)
  obtain s' where s': "insert_root_cap root ?c ?s = Some (x, s')" "inserted root [?c] (x # xs) (tables ?s) ?s s'"
    using insert_root_cap_inserted [of ?s root x xs ?c] assms(1,2) by auto
  have x: "x \<noteq> 0" using chain_null [OF free_listD(1) [OF assms(1)]] by auto
  have ins: "inserted root [?c] (x # xs) ((tables s)(tab := leaf_table flags va page [j] (tables s tab))) s s'"
    using s'(2) by (simp add: inserted_def leaf_table_def user_leaf_def upd_pte_def)
  then show ?thesis using insertedD(3) [OF ins] s'(1) x page_walk [OF assms(3,4)] assms(6) c
    by (intro exI [of _ s']) (simp add: map_user_page_def get_cap_slot_index_desc)
qed

lemma map_user_pages_inserted:
  assumes "in_table va n" "unat (as_phys page) + 4096 * n \<le> 2 ^ 36" "n = (unat sz + 4095) div 4096" "j \<le> n"
    "free_list s root xs" "alive s root" "n - j \<le> length xs" "\<forall>k\<in>{j..<n}. \<not> is_enabled (tables s tab (page_index va k))"
  shows "\<exists>s'. map_user_pages root tab flags va page sz add (page_off j) (bi, s) =
      Some (fold add (map (slot_desc s) (take (n - j) xs)) bi, s') \<and>
    inserted root (map (page_cap flags tab va page) [j..<n]) xs
      ((tables s)(tab := leaf_table flags va page [j..<n] (tables s tab))) s s'"
  using assms(4-8)
proof (induction "n - j" arbitrary: j s xs bi)
  case 0
  then have jn: "j = n" by simp
  have "4096 * n < 2 ^ 64" using assms(1) by (simp add: in_table_def)
  then have "unat (page_off n) = 4096 * n" by (rule unat_page_off)
  moreover have "unat sz \<le> 4096 * n" using assms(3) by simp
  ultimately have "\<not> page_off n < sz" by (simp add: word_less_nat_alt)
  then show ?case using 0 jn
    by (intro exI [of _ s]) (simp add: map_user_pages.simps inserted_def leaf_table_def)
next
  case (Suc m)
  then have jn: "j < n" and m: "m = n - Suc j" by simp_all
  obtain x ys where xs: "xs = x # ys" using Suc.prems(4) jn by (cases xs) auto
  have "4096 * j < 2 ^ 64" using assms(1) jn by (simp add: in_table_def)
  then have "unat (page_off j) = 4096 * j" by (rule unat_page_off)
  moreover have "4096 * j < unat sz" using jn assms(3) by simp
  ultimately have lt: "page_off j < sz" by (simp add: word_less_nat_alt)
  have "\<not> is_enabled (tables s tab (page_index va j))" using Suc.prems(5) jn by simp
  from map_user_page_inserted [OF Suc.prems(2) [unfolded xs] Suc.prems(3) assms(1) jn assms(2) this]
  obtain s1 where s1: "map_user_page root tab flags (va + page_off j) (page + page_off j) s = Some (slot_desc s x, s1)"
    "inserted root [page_cap flags tab va page j] (x # ys) ((tables s)(tab := leaf_table flags va page [j] (tables s tab))) s s1"
    by blast
  note d = insertedD [OF s1(2)]
  have "\<forall>k\<in>{Suc j..<n}. \<not> is_enabled (tables s1 tab (page_index va k))"
    using Suc.prems(5) leaf_table_at [OF assms(1), of _ "[j]" flags page "tables s tab"] jn by (auto simp: d(1))
  moreover have "n - Suc j \<le> length ys" using Suc.prems(4) xs by simp
  ultimately
  obtain s2 where s2: "map_user_pages root tab flags va page sz add (page_off (Suc j)) (add (slot_desc s x) bi, s1) =
      Some (fold add (map (slot_desc s) (take (n - Suc j) ys)) (add (slot_desc s x) bi), s2)"
    "inserted root (map (page_cap flags tab va page) [Suc j..<n]) ys
      ((tables s1)(tab := leaf_table flags va page [Suc j..<n] (tables s1 tab))) s1 s2"
    using Suc.hyps(1) [OF m, of s1 ys "add (slot_desc s x) bi"] Suc.prems jn d(2,6) by (auto simp: d(3))
  have up: "[j..<n] = j # [Suc j..<n]" "n - j = Suc (n - Suc j)" using jn by (simp_all add: upt_rec)
  have T: "(tables s1)(tab := leaf_table flags va page [Suc j..<n] (tables s1 tab)) =
      (tables s)(tab := leaf_table flags va page [j..<n] (tables s tab))"
    by (simp add: d(1) up(1) leaf_table_def)
  have "distinct (x # ys)" using chain_distinct [OF free_listD(1) [OF Suc.prems(2)]] xs by simp
  with inserted_trans [OF s1(2), of _ _ s2] s2(2) T have
    "inserted root (map (page_cap flags tab va page) [j..<n]) xs ((tables s)(tab := leaf_table flags va page [j..<n] (tables s tab))) s s2"
    by (simp add: up(1) xs)
  then show ?case using s1(1) s2(1) lt
    by (intro exI [of _ s2]) (subst map_user_pages.simps, simp add: up(2) xs)
qed

subsection \<open>Mapping a part of the root task\<close>

definition table_cap :: "addr \<Rightarrow> nat \<Rightarrow> addr \<Rightarrow> addr \<Rightarrow> capability_t" where
  "table_cap va level tab parent = PageTableCap \<lparr>pt_mapped = True, pt_level = of_nat level,
     pt_virt_addr_base = ucast (round_down va (get_page_size (level + 1))), pt_table = tab, pt_parent_table = parent\<rparr>"

lemma round_down_mod: "a \<noteq> 0 \<Longrightarrow> round_down v a mod a = 0"
proof -
  assume "a \<noteq> 0"
  then have "unat (round_down v a) = unat v div unat a * unat a" by (simp add: round_down_def unat_word_mult_div)
  then have "unat (round_down v a mod a) = unat (0 :: u64)" by (simp add: unat_mod)
  then show ?thesis by (rule word_unatI)
qed

lemma map_inner_step:
  assumes "free_list s root (x # xs)" "alive s root" "level \<in> {1, 2}" "unat va < 2 ^ 38" "pt \<noteq> 0" "tabs ! (level - 1) \<noteq> 0"
    "\<not> is_enabled (tables s pt (get_page_table_index va level))"
  shows "\<exists>s'. map_inner_tables root va tabs dst (level # levels) pt (bi, s) =
      map_inner_tables root va tabs dst levels (tabs ! (level - 1)) (dst (level - 1) (slot_desc s x) bi, s') \<and>
    inserted root [table_cap va (level - 1) (tabs ! (level - 1)) pt] (x # xs) ((tables s)(pt := (tables s pt)
      (get_page_table_index va level := enable (set_next_page (tabs ! (level - 1)) (tables s pt (get_page_table_index va level)))))) s s'"
proof -
  let ?i = "get_page_table_index va level" and ?n = "tabs ! (level - 1)" and ?c = "table_cap va (level - 1) (tabs ! (level - 1)) pt"
  let ?s = "upd_pte pt ?i (\<lambda>pte. enable (set_next_page ?n pte)) s"
  have w: "walk va level = Some ?i"
    using assms(3,4) by (intro walk_Some) (auto simp: word_less_nat_alt CONFIG_MAX_VIRTUAL_ADDRESS_def)
  have "level - 1 + 1 = level" "get_page_size level \<noteq> 0" using assms(3) by auto
  then have c: "make_page_table_cap ?n True (level - 1) (round_down va (get_page_size level)) pt = Some ?c"
    using assms(5,6) round_down_mod [of "get_page_size level"] by (simp add: make_page_table_cap_def table_cap_def)
  obtain s' where s': "insert_root_cap root ?c ?s = Some (x, s')" "inserted root [?c] (x # xs) (tables ?s) ?s s'"
    using insert_root_cap_inserted [of ?s root x xs ?c] assms(1,2) by auto
  have x: "x \<noteq> 0" using chain_null [OF free_listD(1) [OF assms(1)]] by auto
  have ins: "inserted root [?c] (x # xs) ((tables s)(pt := (tables s pt)(?i := enable (set_next_page ?n (tables s pt ?i))))) s s'"
    using s'(2) by (simp add: inserted_def upd_pte_def)
  then show ?thesis using insertedD(3) [OF ins] s'(1) x w c assms(7)
    by (intro exI [of _ s']) (simp add: get_cap_slot_index_desc)
qed

text \<open>The page tables after a range was mapped through the fresh tables \<open>t1\<close> and \<open>t0\<close>.\<close>

definition range_tables :: "addr \<Rightarrow> addr \<Rightarrow> addr \<Rightarrow> pte_flags_t \<Rightarrow> addr \<Rightarrow> addr \<Rightarrow> nat \<Rightarrow> (addr \<Rightarrow> page_table_t) \<Rightarrow> addr \<Rightarrow> page_table_t" where
  "range_tables root_pt t1 t0 flags va page n T =
     (let i2 = get_page_table_index va 2; i1 = get_page_table_index va 1 in
      T(root_pt := (T root_pt)(i2 := enable (set_next_page t1 (T root_pt i2))),
        t1 := zero_page_table(i1 := enable (set_next_page t0 zero_pte)),
        t0 := leaf_table flags va page [0..<n] zero_page_table))"

definition range_caps :: "addr \<Rightarrow> addr \<Rightarrow> addr \<Rightarrow> pte_flags_t \<Rightarrow> addr \<Rightarrow> addr \<Rightarrow> nat \<Rightarrow> capability_t list" where
  "range_caps root_pt t1 t0 flags va page n =
     table_cap va 1 t1 root_pt # table_cap va 0 t0 t1 # map (page_cap flags t0 va page) [0..<n]"

lemma map_root_task_inserted:
  assumes "distinct [b_root_page_table b, t0, t1]" "0 \<notin> {b_root_page_table b, t0, t1}" "in_table va n" "unat va < 2 ^ 38"
    "unat (as_phys first) + 4096 * n \<le> 2 ^ 36" "n = (unat (last_ptr - first) + 4095) div 4096"
    "free_list s (b_root_task b) xs" "alive s (b_root_task b)" "n + 2 \<le> length xs"
    "\<not> is_enabled (tables s (b_root_page_table b) (get_page_table_index va 2))"
  shows "\<exists>s'. map_root_task b va first last_ptr [t0, t1] dst flags (bi, s) =
      Some (fold add_virt_page_cap (map (slot_desc s) (take n (drop 2 xs))) (dst 0 (slot_desc s (xs ! 1)) (dst 1 (slot_desc s (xs ! 0)) bi)), s') \<and>
    inserted (b_root_task b) (range_caps (b_root_page_table b) t1 t0 flags va first n) xs
      (range_tables (b_root_page_table b) t1 t0 flags va first n (tables s)) s s'"
proof -
  let ?r = "b_root_task b" and ?R = "b_root_page_table b" and ?i2 = "get_page_table_index va 2" and ?i1 = "get_page_table_index va 1"
  obtain x y zs where xs: "xs = x # y # zs" using assms(9) by (metis Suc_le_length_iff add_2_eq_Suc')
  define z where "z = s\<lparr>tables := (tables s)(t0 := zero_page_table, t1 := zero_page_table)\<rparr>"
  have f: "fold zero_table [t0, t1] s = z" by (simp add: zero_table_def z_def)
  have a: "free_list z ?r (x # y # zs)" "alive z ?r" "slot_desc z = slot_desc s" using assms(7,8) xs by (simp_all add: z_def)
  have "\<not> is_enabled (tables z ?R ?i2)" using assms(1,10) by (auto simp: z_def)
  with map_inner_step [OF a(1,2), of 2 va ?R "[t0, t1]" dst "[1]" bi] assms(2,4) obtain s1 where
    s1: "map_inner_tables ?r va [t0, t1] dst [2, 1] ?R (bi, z) = map_inner_tables ?r va [t0, t1] dst [1] t1 (dst 1 (slot_desc s x) bi, s1)"
    and i1: "inserted ?r [table_cap va 1 t1 ?R] (x # y # zs) ((tables z)(?R := (tables z ?R)(?i2 := enable (set_next_page t1 (tables z ?R ?i2))))) z s1"
    by (auto simp: a(3))
  note d1 = insertedD [OF i1]
  have "\<not> is_enabled (tables s1 t1 ?i1)" using assms(1) by (auto simp: d1(1) z_def)
  with map_inner_step [of s1 ?r y zs 1 va t1 "[t0, t1]" dst "[]" "dst 1 (slot_desc s x) bi"] d1(2,3,6) a assms(2,4) obtain s2 where
    s2: "map_inner_tables ?r va [t0, t1] dst [1] t1 (dst 1 (slot_desc s x) bi, s1) = Some (t0, dst 0 (slot_desc s y) (dst 1 (slot_desc s x) bi), s2)"
    and i2: "inserted ?r [table_cap va 0 t0 t1] (y # zs) ((tables s1)(t1 := (tables s1 t1)(?i1 := enable (set_next_page t0 (tables s1 t1 ?i1))))) s1 s2"
    by auto
  note d2 = insertedD [OF i2]
  have t: "tables s2 t0 = zero_page_table" using assms(1) by (auto simp: d2(1) d1(1) z_def)
  from map_user_pages_inserted [OF assms(3,5,6) le0, of s2 ?r zs t0 flags add_virt_page_cap "dst 0 (slot_desc s y) (dst 1 (slot_desc s x) bi)"]
    d2(2,3,6) d1(3,6) a t assms(9) xs
  obtain s3 where s3: "map_user_pages ?r t0 flags va first (last_ptr - first) add_virt_page_cap 0 (dst 0 (slot_desc s y) (dst 1 (slot_desc s x) bi), s2) =
      Some (fold add_virt_page_cap (map (slot_desc s) (take n zs)) (dst 0 (slot_desc s y) (dst 1 (slot_desc s x) bi)), s3)"
    and i3: "inserted ?r (map (page_cap flags t0 va first) [0..<n]) zs ((tables s2)(t0 := leaf_table flags va first [0..<n] (tables s2 t0))) s2 s3"
    by auto
  have dist: "distinct (x # y # zs)" using chain_distinct [OF free_listD(1) [OF a(1)]] .
  let ?T = "(tables s2)(t0 := leaf_table flags va first [0..<n] (tables s2 t0))"
  have "inserted ?r (table_cap va 0 t0 t1 # map (page_cap flags t0 va first) [0..<n]) (y # zs) ?T s1 s3"
    using inserted_trans [OF i2, of _ _ s3] i3 dist by simp
  then have "inserted ?r (range_caps ?R t1 t0 flags va first n) xs ?T z s3"
    using inserted_trans [OF i1, of _ _ s3] dist by (simp add: xs range_caps_def)
  moreover have "?T = range_tables ?R t1 t0 flags va first n (tables s)"
    using assms(1) by (auto simp: d2(1) d1(1) z_def range_tables_def zero_page_table_def fun_eq_iff)
  ultimately have "inserted ?r (range_caps ?R t1 t0 flags va first n) xs (range_tables ?R t1 t0 flags va first n (tables s)) s s3"
    by (simp add: inserted_def z_def)
  moreover have "map_root_task b va first last_ptr [t0, t1] dst flags (bi, s) =
      Some (fold add_virt_page_cap (map (slot_desc s) (take n zs)) (dst 0 (slot_desc s y) (dst 1 (slot_desc s x) bi)), s3)"
    by (simp only: map_root_task_def prod.case Let_def level_defs levels_down_simps f s1 s2 bind.bind_lunit s3)
  ultimately show ?thesis by (intro exI [of _ s3]) (simp add: xs numeral_2_eq_2)
qed

subsection \<open>Translation in a mapped range\<close>

text \<open>The page tables of the state lead from the root table through \<open>t1\<close> and \<open>t0\<close> to the \<open>n\<close> pages at \<open>page\<close>.\<close>

definition range_mapped :: "kstate \<Rightarrow> addr \<Rightarrow> addr \<Rightarrow> addr \<Rightarrow> pte_flags_t \<Rightarrow> addr \<Rightarrow> addr \<Rightarrow> nat \<Rightarrow> bool" where
  "range_mapped s task t1 t0 flags va page n \<longleftrightarrow>
     tables s (t_root_page_table (tasks s task)) (get_page_table_index va 2) = enable (set_next_page t1 zero_pte) \<and>
     tables s t1 (get_page_table_index va 1) = enable (set_next_page t0 zero_pte) \<and>
     (\<forall>j<n. tables s t0 (page_index va j) = user_leaf flags (page + page_off j) zero_pte)"

lemma in_table_block:
  assumes "in_table va n" "j < n" "l \<in> {1, 2}"
  shows "get_page_table_index (va + page_off j) l = get_page_table_index va l"
proof (rule index_same_page)
  let ?a = "unat va div 4096"
  have a: "unat (va + page_off j) = unat va + 4096 * j"
    using assms by (intro unat_add_pages [of _ n]) (auto simp: in_table_def)
  have "?a mod 512 + j < 512" using assms by (simp add: in_table_def)
  then have "(?a + j) div 512 = ?a div 512" by (simp add: div_add1_eq [of ?a j])
  moreover have "(unat va + 4096 * j) div 2097152 = (unat va + 4096 * j) div 4096 div 512" "unat va div 2097152 = ?a div 512"
    by (simp_all flip: div_mult2_eq)
  ultimately show "unat (va + page_off j) div 2 ^ get_page_size_bit 1 = unat va div 2 ^ get_page_size_bit 1"
    by (simp add: a get_page_size_bit_def add.commute)
qed (use assms(3) in auto)

lemma table_pte [simp]: "is_table (enable (set_next_page p zero_pte))"
  by (simp add: pte_defs)

lemma user_leaf_simps [simp]:
  "is_enabled (user_leaf flags p pte)" "is_user (user_leaf flags p pte) = fl_user flags"
  "get_next_page (user_leaf flags p pte) = get_next_page (set_next_page p (set_flags flags pte))"
  "fl_user flags \<Longrightarrow> \<not> is_table (user_leaf flags p pte)"
  by (simp_all add: user_leaf_def pte_defs get_next_page_def)

lemma range_user_addr:
  assumes "range_mapped s task t1 t0 flags va page n" "in_table va n" "4096 dvd unat va" "4096 dvd unat (as_phys page)"
    "unat (as_phys page) + 4096 * n \<le> 2 ^ 36" "task \<noteq> 0" "t_root_page_table (tasks s task) \<noteq> 0" "mapped_page t1" "mapped_page t0"
    "fl_user flags" "i < 4096 * n"
  shows "user_addr s task (va + of_nat i) = Some (page + of_nat i)"
proof -
  define j k where "j = i div 4096" and "k = i mod 4096"
  have i: "i = 4096 * j + k" "k < 4096" "j < n" using assms(11) by (auto simp: j_def k_def)
  let ?va = "va + page_off j" and ?pg = "page + page_off j"
  have ua: "unat ?va = unat va + 4096 * j" "unat va + 4096 * n \<le> 2 ^ 38"
    using assms(2) i(3) by (auto simp: in_table_def intro: unat_add_pages [of _ n])
  have up: "unat (as_phys page + page_off j) = unat (as_phys page) + 4096 * j"
    using assms(5) i(3) by (intro unat_add_pages [of _ n]) simp_all
  have pg: "mapped_page ?pg"
    using up assms(4,5) i(3) by (simp add: mapped_page_def as_phys_def algebra_simps)
  have w: "walk ?va 2 = Some (get_page_table_index va 2)" "walk ?va (Suc 0) = Some (get_page_table_index va 1)" "walk ?va 0 = Some (page_index va j)"
    using ua i(3) in_table_block [OF assms(2) i(3)] by (simp_all add: walk_def word_less_nat_alt CONFIG_MAX_VIRTUAL_ADDRESS_def page_index_def)
  have n: "t1 \<noteq> 0" "t0 \<noteq> 0" using assms(8,9) mapped_page_nonnull by blast+
  have "user_walk task ?va s = Some (Some (user_leaf flags ?pg zero_pte, 0))"
    using assms(1,6,7,10) i(3) n w mapped_page_pte [OF assms(8)] mapped_page_pte [OF assms(9)]
    by (simp add: user_walk_def range_mapped_def user_walk_levels.simps)
  moreover have m: "unat ?va mod 4096 = 0" using ua(1) assms(3) by (simp add: mod_eq_0_iff_dvd)
  moreover have "unat ?va + k < 2 ^ 38" using ua i(2,3) by simp
  ultimately have "user_addr s task (?va + of_nat k) = Some (get_next_page (user_leaf flags ?pg zero_pte) + page_offset ?va 0 + of_nat k)"
    using i(2) by (intro user_addr_step) (simp_all add: get_page_size_bit_def)
  moreover have "page_offset ?va 0 = 0"
    using unat_page_offset [of 0 ?va] m by (intro word_unatI) (simp add: get_page_size_bit_def)
  ultimately show ?thesis using mapped_page_pte [OF pg] i(1) by (simp add: page_off_def algebra_simps)
qed

lemma range_tables_mapped:
  assumes "tables s = range_tables R t1 t0 flags va page n T" "t_root_page_table (tasks s task) = R" "T R (get_page_table_index va 2) = zero_pte"
    "distinct [R, t0, t1]" "in_table va n"
  shows "range_mapped s task t1 t0 flags va page n"
  using assms leaf_table_at [OF assms(5), of _ "[0..<n]" flags page zero_page_table]
  by (auto simp: range_mapped_def range_tables_def zero_page_table_def lessThan_atLeast0)

subsection \<open>The parts of the root task\<close>

text \<open>The array of the boot information begins with the descriptors \<open>es\<close>.\<close>

definition listed :: "root_boot_info_t \<Rightarrow> u64 list \<Rightarrow> bool" where
  "listed bi es \<longleftrightarrow> (\<forall>i<length es. bi_caps bi (of_nat i) = es ! i)"

lemma listed_snoc:
  assumes "listed bi es" "bi_caps bi' = (bi_caps bi)(of_nat (length es) := d)" "length es < 2 ^ 64"
  shows "listed bi' (es @ [d])"
proof -
  have "(of_nat i :: u64) \<noteq> of_nat (length es)" if "i < length es" for i
    using that assms(3) unat_of_nat_u64 [of i] unat_of_nat_u64 [of "length es"] by (metis less_trans nat_neq_iff)
  then show ?thesis using assms(1,2) by (auto simp: listed_def nth_append less_Suc_eq)
qed

text \<open>The fields that the mapping of pages leaves alone.\<close>

definition same_roots :: "root_boot_info_t \<Rightarrow> root_boot_info_t \<Rightarrow> bool" where
  "same_roots bi bi' \<longleftrightarrow> bi_num_mem_caps bi' = bi_num_mem_caps bi \<and> bi_mem_caps_offset bi' = bi_mem_caps_offset bi \<and>
     bi_virt_page_caps_offset bi' = bi_virt_page_caps_offset bi \<and> bi_root_task_cap bi' = bi_root_task_cap bi \<and>
     bi_root_page_table_cap bi' = bi_root_page_table_cap bi \<and> bi_cap_space_page_table_caps bi' = bi_cap_space_page_table_caps bi"

lemma same_roots_add [simp]:
  "same_roots bi0 (add_virt_page_cap d bi) = same_roots bi0 bi" "same_roots bi0 (add_dtb_vp_cap d bi) = same_roots bi0 bi"
  "same_roots bi0 (set_page_table_cap i d bi) = same_roots bi0 bi" "same_roots bi0 (set_stack_page_table_cap i d bi) = same_roots bi0 bi"
  by (simp_all add: same_roots_def add_virt_page_cap_def add_dtb_vp_cap_def set_page_table_cap_def set_stack_page_table_cap_def)

lemma same_roots_refl [simp]: "same_roots bi bi"
  by (simp add: same_roots_def)

lemma same_roots_trans: "same_roots bi bi1 \<Longrightarrow> same_roots bi1 bi2 \<Longrightarrow> same_roots bi bi2"
  by (simp add: same_roots_def)

lemma fold_same_roots [simp]:
  "same_roots bi0 (fold add_virt_page_cap ds bi) = same_roots bi0 bi" "same_roots bi0 (fold add_dtb_vp_cap ds bi) = same_roots bi0 bi"
  by (induction ds arbitrary: bi) simp_all

lemma fold_add_caps [simp]:
  "bi_num_virt_page_caps (fold add_virt_page_cap ds bi) = bi_num_virt_page_caps bi + of_nat (length ds)"
  "bi_virt_page_caps_offset (fold add_virt_page_cap ds bi) = bi_virt_page_caps_offset bi"
  "bi_page_table_caps (fold add_virt_page_cap ds bi) = bi_page_table_caps bi"
  "bi_stack_page_table_caps (fold add_virt_page_cap ds bi) = bi_stack_page_table_caps bi"
  "bi_num_dtb_vp_caps (fold add_dtb_vp_cap ds bi) = bi_num_dtb_vp_caps bi + of_nat (length ds)"
  "bi_num_virt_page_caps (fold add_dtb_vp_cap ds bi) = bi_num_virt_page_caps bi"
  "bi_dtb_vp_caps_offset (fold add_dtb_vp_cap ds bi) = bi_dtb_vp_caps_offset bi"
  "bi_page_table_caps (fold add_dtb_vp_cap ds bi) = bi_page_table_caps bi"
  "bi_stack_page_table_caps (fold add_dtb_vp_cap ds bi) = bi_stack_page_table_caps bi"
  by (induction ds arbitrary: bi) (simp_all add: add_virt_page_cap_def add_dtb_vp_cap_def)

lemma listed_add_virt:
  assumes "listed bi es" "bi_virt_page_caps_offset bi + bi_num_virt_page_caps bi = of_nat (length es)" "length es + length ds \<le> 2 ^ 64"
  shows "listed (fold add_virt_page_cap ds bi) (es @ ds)"
  using assms
proof (induction ds arbitrary: bi es)
  case (Cons d ds)
  have "listed (add_virt_page_cap d bi) (es @ [d])" by (rule listed_snoc [OF Cons.prems(1)]) (use Cons.prems in \<open>simp_all add: add_virt_page_cap_def\<close>)
  from Cons.IH [OF this] Cons.prems(2,3) show ?case by (simp add: add_virt_page_cap_def add.assoc [symmetric])
qed simp

lemma listed_add_dtb:
  assumes "listed bi es" "bi_dtb_vp_caps_offset bi + bi_num_dtb_vp_caps bi = of_nat (length es)" "length es + length ds \<le> 2 ^ 64"
  shows "listed (fold add_dtb_vp_cap ds bi) (es @ ds)"
  using assms
proof (induction ds arbitrary: bi es)
  case (Cons d ds)
  have "listed (add_dtb_vp_cap d bi) (es @ [d])" by (rule listed_snoc [OF Cons.prems(1)]) (use Cons.prems in \<open>simp_all add: add_dtb_vp_cap_def\<close>)
  from Cons.IH [OF this] Cons.prems(2,3) show ?case by (simp add: add_dtb_vp_cap_def add.assoc [symmetric])
qed simp

lemma page_off_add: "page_off i + page_off j = page_off (i + j)"
  by (simp add: page_off_def algebra_simps)

lemma page_index_add: "page_index (va + page_off i) j = page_index va (i + j)"
  by (simp add: page_index_def add.assoc page_off_add)

lemma pages_of_off: "4096 * n \<le> 2 ^ 38 \<Longrightarrow> (unat (page_off n) + 4095) div 4096 = n"
  using unat_page_off [of n] by simp

definition stack_base :: "nat \<Rightarrow> addr" where
  "stack_base n = 2 ^ 37 - page_off n"

lemma user_space_end: "CONFIG_USER_SPACE_BASE + CONFIG_USER_SPACE_SIZE = 2 ^ 37"
  by (simp add: config_defs)

lemma stack_base_user: "CONFIG_USER_SPACE_BASE + CONFIG_USER_SPACE_SIZE - page_off n = stack_base n"
  by (simp add: user_space_end stack_base_def)

lemma stack_base_props:
  assumes "0 < n" "n \<le> 512"
  shows "unat (stack_base n) = 2 ^ 37 - 4096 * n" "in_table (stack_base n) n" "get_page_table_index (stack_base n) 2 = 127"
    "4096 dvd unat (stack_base n)"
proof -
  have o: "unat (page_off n) = 4096 * n" using assms by (intro unat_page_off) simp
  then have "page_off n \<le> 2 ^ 37" using assms by (simp add: word_le_nat_alt)
  then show u: "unat (stack_base n) = 2 ^ 37 - 4096 * n" using o by (simp add: stack_base_def unat_sub)
  have e: "(2 :: nat) ^ 37 - 4096 * n = 4096 * (2 ^ 25 - n)" by (simp add: right_diff_distrib)
  then show "4096 dvd unat (stack_base n)" by (simp add: u)
  have "(2 ^ 25 - n) mod 512 = (512 - n) mod 512"
    using assms mod_mult_self4 [of 512 65535 "512 - n"] by simp
  also have "\<dots> \<le> 512 - n" by (rule mod_less_eq_dividend)
  finally have "(2 ^ 25 - n) mod 512 \<le> 512 - n" .
  moreover have "unat (stack_base n) div 4096 = 2 ^ 25 - n" unfolding u e by simp
  ultimately show "in_table (stack_base n) n" using assms u by (simp add: in_table_def)
  have "(2 ^ 37 - 4096 * n) div 1073741824 = 127" using assms by simp
  then show "get_page_table_index (stack_base n) 2 = 127"
    by (intro word_unatI) (simp add: unat_get_page_table_index u get_page_size_bit_def)
qed

lemma low_index: "unat va < 2 ^ 37 - 2 ^ 30 \<Longrightarrow> get_page_table_index va 2 < 127"
proof -
  assume "unat va < 2 ^ 37 - 2 ^ 30"
  then have "unat va div 1073741824 < 127" by simp
  then show ?thesis by (simp add: word_less_nat_alt unat_get_page_table_index get_page_size_bit_def)
qed

lemma setup_arch_inserted:
  assumes "get_dtb_region (mem s) (b_dtb b) = Some (ds, de)" "b_payload_page_tables b ! 0 = p0"
    "in_table (ba_payload_base abi + (payload_end l - payload_start l)) n" "unat ds + 4096 * n \<le> 2 ^ 36"
    "n = (unat (de - ds) + 4095) div 4096" "free_list s (b_root_task b) xs" "alive s (b_root_task b)" "n \<le> length xs"
    "\<forall>k<n. \<not> is_enabled (tables s p0 (page_index (ba_payload_base abi + (payload_end l - payload_start l)) k))"
  shows "\<exists>bi' s'. setup_arch_root_boot_info abi l b (bi, s) = Some (bi', s') \<and>
    inserted (b_root_task b) (map (page_cap dtb_flags p0 (ba_payload_base abi + (payload_end l - payload_start l)) (as_map ds)) [0..<n]) xs
      ((tables s)(p0 := leaf_table dtb_flags (ba_payload_base abi + (payload_end l - payload_start l)) (as_map ds) [0..<n] (tables s p0))) s s' \<and>
    same_roots bi bi' \<and> bi_num_virt_page_caps bi' = bi_num_virt_page_caps bi \<and> bi_num_dtb_vp_caps bi' = of_nat n \<and>
    bi_page_table_caps bi' = bi_page_table_caps bi \<and> bi_stack_page_table_caps bi' = bi_stack_page_table_caps bi \<and>
    (\<forall>es. listed bi es \<and> bi_virt_page_caps_offset bi + bi_num_virt_page_caps bi = of_nat (length es) \<and> length es + n \<le> 2 ^ 64 \<longrightarrow>
      listed bi' (es @ map (slot_desc s) (take n xs)))"
proof -
  let ?va = "ba_payload_base abi + (payload_end l - payload_start l)"
  let ?bi = "bi\<lparr>bi_dtb_start := ds, bi_dtb_end := de, bi_num_dtb_vp_caps := 0,
       bi_dtb_vp_caps_offset := bi_virt_page_caps_offset bi + bi_num_virt_page_caps bi\<rparr>"
  have "\<forall>k\<in>{0..<n}. \<not> is_enabled (tables s p0 (page_index ?va k))" using assms(9) by simp
  with map_user_pages_inserted [OF assms(3) _ assms(5) le0 assms(6,7), of "as_map ds" p0 dtb_flags add_dtb_vp_cap ?bi] assms(4,8)
  obtain s' where s': "map_user_pages (b_root_task b) p0 dtb_flags ?va (as_map ds) (de - ds) add_dtb_vp_cap 0 (?bi, s) =
      Some (fold add_dtb_vp_cap (map (slot_desc s) (take n xs)) ?bi, s')"
    "inserted (b_root_task b) (map (page_cap dtb_flags p0 ?va (as_map ds)) [0..<n]) xs
      ((tables s)(p0 := leaf_table dtb_flags ?va (as_map ds) [0..<n] (tables s p0))) s s'"
    by auto
  let ?bi' = "(fold add_dtb_vp_cap (map (slot_desc s) (take n xs)) ?bi)\<lparr>bi_root_task_end_address := round_up (?va + (de - ds)) PAGE_SIZE\<rparr>"
  have "listed ?bi' (es @ map (slot_desc s) (take n xs))"
    if "listed bi es \<and> bi_virt_page_caps_offset bi + bi_num_virt_page_caps bi = of_nat (length es) \<and> length es + n \<le> 2 ^ 64" for es
  proof -
    have "listed (fold add_dtb_vp_cap (map (slot_desc s) (take n xs)) ?bi) (es @ map (slot_desc s) (take n xs))"
      by (rule listed_add_dtb) (use that assms(8) in \<open>simp_all add: listed_def\<close>)
    then show ?thesis by (simp add: listed_def)
  qed
  moreover have "same_roots bi ?bi'" using fold_same_roots(2) [of bi "map (slot_desc s) (take n xs)" ?bi] by (simp add: same_roots_def)
  moreover have "setup_arch_root_boot_info abi l b (bi, s) = Some (?bi', s')"
    using s'(1) assms(1,2) by (simp add: setup_arch_root_boot_info_def add.assoc)
  ultimately show ?thesis using s'(2) assms(8) by (intro exI [of _ ?bi'] exI [of _ s']) simp
qed

lemma bake_place:
  assumes "mapped_page ks" "unat (as_phys ks) + 4096 * n \<le> 2 ^ 36" "unat sz \<le> 4096 * n"
  obtains off where "round_down (ks + page_off n - sz) 16 = ks + of_nat off" "off + unat sz \<le> 4096 * n" "16 dvd off"
proof -
  define off where "off = (4096 * n - unat sz) div 16 * 16"
  have k: "unat ks = unat (as_phys ks) + 2 ^ 37" using assms(1) by (rule unat_mapped_page)
  have d: "16 dvd unat ks" using assms(1) unfolding k by (auto simp: mapped_page_def intro: dvd_trans [of 16 4096])
  have "unat (ks + page_off n) = unat ks + 4096 * n" using assms(2) by (intro unat_add_pages [of _ n]) (simp_all add: k)
  then have "unat (ks + page_off n - sz) = unat ks + (4096 * n - unat sz)"
    using assms(3) by (subst unat_sub) (auto simp: word_le_nat_alt)
  moreover have "(unat ks + (4096 * n - unat sz)) div 16 * 16 = unat ks + off" using d by (simp add: off_def div_plus_div_distrib_dvd_left distrib_right)
  ultimately have "unat (round_down (ks + page_off n - sz) 16) = unat ks + off" by (simp add: unat_round_down)
  moreover have o: "off + unat sz \<le> 4096 * n" using assms(3) div_times_less_eq_dividend [of "4096 * n - unat sz" 16] by (simp add: off_def)
  moreover have "unat ks + off < 2 ^ 64" using o assms(2) k by simp
  then have "unat (ks + of_nat off) = unat ks + off" using unat_of_nat_u64 [of "unat ks + off"] by simp
  ultimately show ?thesis by (intro that [of off] word_unatI) (simp_all add: off_def)
qed

text \<open>
  Where the parts of the root task go: fresh pages for the tables, a payload that fits with the device tree behind it
  into the range of one table, and a stack of at most as much.
\<close>

definition can_place :: "boot_abi \<Rightarrow> layout \<Rightarrow> boot_info_t \<Rightarrow> nat \<Rightarrow> nat \<Rightarrow> nat \<Rightarrow> addr \<Rightarrow> addr \<Rightarrow> bytes \<Rightarrow> bool" where
  "can_place abi l b np ns nd ds de m \<longleftrightarrow>
     (let R = b_root_page_table b; base = ba_payload_base abi
      in length (b_payload_page_tables b) = 2 \<and> length (b_stack_page_tables b) = 2 \<and>
        distinct (R # b_payload_page_tables b @ b_stack_page_tables b) \<and>
        (\<forall>p\<in>set (R # b_payload_page_tables b @ b_stack_page_tables b). mapped_page p) \<and>
        4096 dvd unat base \<and> unat base < 2 ^ 37 - 2 ^ 30 \<and> in_table base (np + nd) \<and>
        mapped_page (payload_start l) \<and> unat (as_phys (payload_start l)) + 4096 * np \<le> 2 ^ 36 \<and> payload_end l = payload_start l + page_off np \<and>
        0 < ns \<and> ns \<le> 512 \<and> mapped_page (root_task_stack_start l) \<and> unat (as_phys (root_task_stack_start l)) + 4096 * ns \<le> 2 ^ 36 \<and>
        root_task_stack_end l = root_task_stack_start l + page_off ns \<and>
        get_dtb_region m (b_dtb b) = Some (ds, de) \<and> nd = (unat (de - ds) + 4095) div 4096 \<and> unat ds + 4096 * nd \<le> 2 ^ 36)"

text \<open>
  The state they are put into: a live root task with an empty user half of its page table and enough free
  slots. The boot information, with the counts it will have, fits on the stack.
\<close>

definition loaded_size :: "boot_abi \<Rightarrow> nat \<Rightarrow> nat \<Rightarrow> nat \<Rightarrow> root_boot_info_t \<Rightarrow> u64" where
  "loaded_size abi np ns nd bi =
     get_root_boot_info_size abi (bi\<lparr>bi_num_virt_page_caps := bi_num_virt_page_caps bi + of_nat (np + ns), bi_num_dtb_vp_caps := of_nat nd\<rparr>)"

definition can_load :: "boot_abi \<Rightarrow> layout \<Rightarrow> boot_info_t \<Rightarrow> nat \<Rightarrow> nat \<Rightarrow> nat \<Rightarrow> addr \<Rightarrow> addr \<Rightarrow> addr list \<Rightarrow> root_boot_info_t \<Rightarrow> kstate \<Rightarrow> bool" where
  "can_load abi l b np ns nd ds de xs bi s \<longleftrightarrow> can_place abi l b np ns nd ds de (mem s) \<and>
     alive s (b_root_task b) \<and> free_list s (b_root_task b) xs \<and> np + ns + nd + 4 \<le> length xs \<and>
     t_root_page_table (tasks s (b_root_task b)) = b_root_page_table b \<and> (\<forall>i<128. tables s (b_root_page_table b) i = zero_pte) \<and>
     0 < loaded_size abi np ns nd bi \<and> unat (loaded_size abi np ns nd bi) \<le> 4096 * ns"

definition root_caps :: "boot_abi \<Rightarrow> layout \<Rightarrow> boot_info_t \<Rightarrow> nat \<Rightarrow> nat \<Rightarrow> nat \<Rightarrow> addr \<Rightarrow> capability_t list" where
  "root_caps abi l b np ns nd ds =
     range_caps (b_root_page_table b) (b_payload_page_tables b ! 1) (b_payload_page_tables b ! 0) payload_flags (ba_payload_base abi) (payload_start l) np @
     range_caps (b_root_page_table b) (b_stack_page_tables b ! 1) (b_stack_page_tables b ! 0) stack_flags (stack_base ns) (root_task_stack_start l) ns @
     map (page_cap dtb_flags (b_payload_page_tables b ! 0) (ba_payload_base abi + page_off np) (as_map ds)) [0..<nd]"

definition root_tables :: "boot_abi \<Rightarrow> layout \<Rightarrow> boot_info_t \<Rightarrow> nat \<Rightarrow> nat \<Rightarrow> nat \<Rightarrow> addr \<Rightarrow> (addr \<Rightarrow> page_table_t) \<Rightarrow> addr \<Rightarrow> page_table_t" where
  "root_tables abi l b np ns nd ds T =
     (let R = b_root_page_table b; p0 = b_payload_page_tables b ! 0; p1 = b_payload_page_tables b ! 1; k0 = b_stack_page_tables b ! 0; k1 = b_stack_page_tables b ! 1;
          T = range_tables R p1 p0 payload_flags (ba_payload_base abi) (payload_start l) np T;
          T = range_tables R k1 k0 stack_flags (stack_base ns) (root_task_stack_start l) ns T
      in T(p0 := leaf_table dtb_flags (ba_payload_base abi + page_off np) (as_map ds) [0..<nd] (T p0)))"

lemma length_range_caps [simp]: "length (range_caps R t1 t0 flags va page n) = n + 2"
  by (simp add: range_caps_def)

lemma set_dst_simps [simp]:
  "bi_num_virt_page_caps (set_page_table_cap i d bi) = bi_num_virt_page_caps bi" "bi_caps (set_page_table_cap i d bi) = bi_caps bi"
  "bi_virt_page_caps_offset (set_page_table_cap i d bi) = bi_virt_page_caps_offset bi"
  "bi_stack_page_table_caps (set_page_table_cap i d bi) = bi_stack_page_table_caps bi"
  "bi_page_table_caps (set_page_table_cap i d bi) = (bi_page_table_caps bi)(i := d)"
  "bi_num_virt_page_caps (set_stack_page_table_cap i d bi) = bi_num_virt_page_caps bi" "bi_caps (set_stack_page_table_cap i d bi) = bi_caps bi"
  "bi_virt_page_caps_offset (set_stack_page_table_cap i d bi) = bi_virt_page_caps_offset bi"
  "bi_page_table_caps (set_stack_page_table_cap i d bi) = bi_page_table_caps bi"
  "bi_stack_page_table_caps (set_stack_page_table_cap i d bi) = (bi_stack_page_table_caps bi)(i := d)"
  by (simp_all add: set_page_table_cap_def set_stack_page_table_cap_def)

lemma listed_dst [simp]: "listed (set_page_table_cap i d bi) = listed bi" "listed (set_stack_page_table_cap i d bi) = listed bi"
  by (simp_all add: listed_def fun_eq_iff)

text \<open>
  \<open>bi'\<close> is the boot information \<open>bi\<close> with the descriptors of the tables and pages whose capabilities stand in the
  slots \<open>xs\<close>: payload, stack and device tree, in this order.
\<close>

definition part_slots :: "nat \<Rightarrow> nat \<Rightarrow> nat \<Rightarrow> addr list \<Rightarrow> addr list" where
  "part_slots np ns nd xs = take np (drop 2 xs) @ take ns (drop (np + 4) xs) @ take nd (drop (np + ns + 4) xs)"

definition filed :: "(addr \<Rightarrow> u64) \<Rightarrow> nat \<Rightarrow> nat \<Rightarrow> nat \<Rightarrow> addr list \<Rightarrow> root_boot_info_t \<Rightarrow> root_boot_info_t \<Rightarrow> bool" where
  "filed desc np ns nd xs bi bi' \<longleftrightarrow> same_roots bi bi' \<and> bi_num_virt_page_caps bi' = bi_num_virt_page_caps bi + of_nat (np + ns) \<and>
     bi_num_dtb_vp_caps bi' = of_nat nd \<and> (\<forall>l<2. bi_page_table_caps bi' l = desc (xs ! (1 - l))) \<and>
     (\<forall>l<2. bi_stack_page_table_caps bi' l = desc (xs ! (np + 3 - l))) \<and>
     (\<forall>es. listed bi es \<and> bi_virt_page_caps_offset bi + bi_num_virt_page_caps bi = of_nat (length es) \<and> length es + np + ns + nd \<le> 2 ^ 64 \<longrightarrow>
       listed bi' (es @ map desc (part_slots np ns nd xs)))"

lemma list_of_2: "length xs = 2 \<Longrightarrow> [xs ! 0, xs ! 1] = xs"
  by (cases xs; cases "tl xs") auto

lemma in_table_le: "in_table va n \<Longrightarrow> m \<le> n \<Longrightarrow> in_table va m"
  by (simp add: in_table_def)

lemma in_table_shift: "in_table va (m + n) \<Longrightarrow> in_table (va + page_off m) n"
proof (cases n)
  assume a: "in_table va (m + n)"
  have u: "unat (va + page_off m) = unat va + 4096 * m"
    using a by (intro unat_add_pages [of _ "m + n"]) (simp_all add: in_table_def)
  case 0
  then show ?thesis using a u by (simp add: in_table_def less_imp_le)
next
  assume a: "in_table va (m + n)"
  have u: "unat (va + page_off m) = unat va + 4096 * m"
    using a by (intro unat_add_pages [of _ "m + n"]) (simp_all add: in_table_def)
  case (Suc k)
  have "unat (va + page_off m) div 4096 mod 512 = unat va div 4096 mod 512 + m"
    using unat_page_index [OF a, of m] Suc by (simp add: page_index_def unat_get_page_table_index get_page_size_bit_def)
  then show ?thesis using a u by (simp add: in_table_def)
qed

lemma can_loadD:
  assumes "can_load abi l b np ns nd ds de xs bi s"
  obtains p0 p1 k0 k1 where "b_payload_page_tables b = [p0, p1]" "b_stack_page_tables b = [k0, k1]"
    "distinct [b_root_page_table b, p0, p1, k0, k1]" "0 \<notin> {b_root_page_table b, p0, p1, k0, k1}"
    "\<And>p. p \<in> {b_root_page_table b, p0, p1, k0, k1} \<Longrightarrow> mapped_page p"
    "alive s (b_root_task b)" "free_list s (b_root_task b) xs" "distinct xs" "np + ns + nd + 4 \<le> length xs"
    "t_root_page_table (tasks s (b_root_task b)) = b_root_page_table b" "\<And>i. i < 128 \<Longrightarrow> tables s (b_root_page_table b) i = zero_pte"
proof -
  note c = assms [unfolded can_load_def can_place_def Let_def]
  let ?p = "b_payload_page_tables b" and ?k = "b_stack_page_tables b"
  have l: "length ?p = 2" "length ?k = 2" using c by blast+
  have d: "distinct (b_root_page_table b # ?p @ ?k)" "\<forall>p\<in>set (b_root_page_table b # ?p @ ?k). mapped_page p" using c by blast+
  obtain p0 p1 k0 k1 where pk: "?p = [p0, p1]" "?k = [k0, k1]" using list_of_2 [OF l(1)] list_of_2 [OF l(2)] by metis
  have "0 \<notin> {b_root_page_table b, p0, p1, k0, k1}" using d(2) pk mapped_page_nonnull by fastforce
  moreover have fl: "free_list s (b_root_task b) xs" using c by blast
  moreover have "distinct xs" using chain_distinct [OF free_listD(1) [OF fl]] .
  ultimately show ?thesis using c d pk by (intro that [of p0 p1 k0 k1]) auto
qed

lemma can_place_ranges:
  assumes "can_place abi l b np ns nd ds de m"
  shows "payload_end l - payload_start l = page_off np" "root_task_stack_end l - root_task_stack_start l = page_off ns"
    "in_table (ba_payload_base abi) np" "in_table (ba_payload_base abi + page_off np) nd" "in_table (ba_payload_base abi) (np + nd)"
    "unat (ba_payload_base abi) < 2 ^ 38" "4096 dvd unat (ba_payload_base abi)" "get_page_table_index (ba_payload_base abi) 2 < 127"
    "np = (unat (page_off np) + 4095) div 4096" "ns = (unat (page_off ns) + 4095) div 4096"
    "mapped_page (payload_start l)" "unat (as_phys (payload_start l)) + 4096 * np \<le> 2 ^ 36"
    "mapped_page (root_task_stack_start l)" "unat (as_phys (root_task_stack_start l)) + 4096 * ns \<le> 2 ^ 36"
    "0 < ns" "ns \<le> 512" "get_dtb_region m (b_dtb b) = Some (ds, de)" "nd = (unat (de - ds) + 4095) div 4096" "unat ds + 4096 * nd \<le> 2 ^ 36"
proof -
  note c = assms [unfolded can_place_def Let_def]
  show a: "in_table (ba_payload_base abi) (np + nd)" "unat (as_phys (payload_start l)) + 4096 * np \<le> 2 ^ 36"
    "unat (as_phys (root_task_stack_start l)) + 4096 * ns \<le> 2 ^ 36" using c by blast+
  show "in_table (ba_payload_base abi) np" using a(1) by (rule in_table_le) simp
  show "in_table (ba_payload_base abi + page_off np) nd" using a(1) by (rule in_table_shift)
  show "np = (unat (page_off np) + 4095) div 4096" "ns = (unat (page_off ns) + 4095) div 4096"
    using a pages_of_off [of np] pages_of_off [of ns] by simp_all
  show "get_page_table_index (ba_payload_base abi) 2 < 127" using c low_index by blast
  have "unat (ba_payload_base abi) < 2 ^ 37 - 2 ^ 30" using c by blast
  then show "unat (ba_payload_base abi) < 2 ^ 38" by simp
  have "payload_end l = payload_start l + page_off np" "root_task_stack_end l = root_task_stack_start l + page_off ns" using c by blast+
  then show "payload_end l - payload_start l = page_off np" "root_task_stack_end l - root_task_stack_start l = page_off ns" by simp_all
qed (use assms [unfolded can_place_def Let_def] in blast)+

lemma can_load_place: "can_load abi l b np ns nd ds de xs bi s \<Longrightarrow> can_place abi l b np ns nd ds de (mem s)"
  by (simp add: can_load_def)

lemmas can_load_ranges = can_place_ranges [OF can_load_place]

lemma filed_parts:
  assumes b1: "b1 = fold add_virt_page_cap (map desc (take np (drop 2 xs))) (set_page_table_cap 0 (desc (xs ! 1)) (set_page_table_cap 1 (desc (xs ! 0)) bi))"
    and b2: "b2 = fold add_virt_page_cap (map desc (take ns (drop (np + 4) xs)))
      (set_stack_page_table_cap 0 (desc (xs ! (np + 3))) (set_stack_page_table_cap 1 (desc (xs ! (np + 2))) b1))"
    and b3: "same_roots b2 b3" "bi_num_virt_page_caps b3 = bi_num_virt_page_caps b2" "bi_num_dtb_vp_caps b3 = of_nat nd"
      "bi_page_table_caps b3 = bi_page_table_caps b2" "bi_stack_page_table_caps b3 = bi_stack_page_table_caps b2"
      "\<And>es. listed b2 es \<Longrightarrow> bi_virt_page_caps_offset b2 + bi_num_virt_page_caps b2 = of_nat (length es) \<Longrightarrow> length es + nd \<le> 2 ^ 64 \<Longrightarrow>
        listed b3 (es @ map desc (take nd (drop (np + ns + 4) xs)))"
    and len: "np + ns + nd + 4 \<le> length xs"
  shows "filed desc np ns nd xs bi b3"
proof -
  have "listed b3 (es @ map desc (part_slots np ns nd xs))"
    if es: "listed bi es" "bi_virt_page_caps_offset bi + bi_num_virt_page_caps bi = of_nat (length es)" "length es + np + ns + nd \<le> 2 ^ 64" for es
  proof -
    have "listed b1 (es @ map desc (take np (drop 2 xs)))" unfolding b1 by (rule listed_add_virt) (use es len in simp_all)
    then have "listed b2 ((es @ map desc (take np (drop 2 xs))) @ map desc (take ns (drop (np + 4) xs)))"
      unfolding b2 by (intro listed_add_virt) (use es len in \<open>simp_all add: b1 add.assoc [symmetric]\<close>)
    from b3(6) [OF this] show ?thesis using es len by (simp add: b2 b1 part_slots_def add.assoc [symmetric])
  qed
  moreover have "same_roots bi b3" using b3(1) by (rule same_roots_trans [rotated]) (simp add: b2 b1)
  moreover have "bi_page_table_caps b3 l = desc (xs ! (1 - l))" "bi_stack_page_table_caps b3 l = desc (xs ! (np + 3 - l))" if "l < 2" for l
    using that b3(4,5) by (auto simp: b2 b1 less_2_cases_iff)
  ultimately show ?thesis using b3(2,3) len by (simp add: filed_def b2 b1)
qed

lemma load_parts:
  assumes "can_load abi l b np ns nd ds de xs bi s"
  shows "\<exists>bi' s'. do { st \<leftarrow> load_root_task_payload abi l b (bi, s); st \<leftarrow> setup_root_task_stack l b st; setup_arch_root_boot_info abi l b st } =
      Some (bi', s') \<and>
    inserted (b_root_task b) (root_caps abi l b np ns nd ds) xs (root_tables abi l b np ns nd ds (tables s)) s s' \<and>
    filed (slot_desc s) np ns nd xs bi bi'"
proof -
  let ?r = "b_root_task b" and ?R = "b_root_page_table b" and ?va = "ba_payload_base abi" and ?ps = "payload_start l" and ?ks = "root_task_stack_start l"
  obtain p0 p1 k0 k1 where pk: "b_payload_page_tables b = [p0, p1]" "b_stack_page_tables b = [k0, k1]"
    and t: "distinct [?R, p0, p1, k0, k1]" "0 \<notin> {?R, p0, p1, k0, k1}"
    and al: "alive s ?r" "free_list s ?r xs" "distinct xs" "np + ns + nd + 4 \<le> length xs" and z: "\<And>i. i < 128 \<Longrightarrow> tables s ?R i = zero_pte"
    using can_loadD [OF assms] by metis
  note c = can_load_ranges [OF assms] and sb = stack_base_props [of ns]
  have i127: "get_page_table_index ?va 2 < 128" "get_page_table_index ?va 2 \<noteq> 127" using c(8) by (auto intro: order.strict_trans)
  have "\<exists>s1. map_root_task b ?va ?ps (payload_end l) [p0, p1] set_page_table_cap payload_flags (bi, s) =
      Some (fold add_virt_page_cap (map (slot_desc s) (take np (drop 2 xs))) (set_page_table_cap 0 (slot_desc s (xs ! 1)) (set_page_table_cap 1 (slot_desc s (xs ! 0)) bi)), s1) \<and>
    inserted ?r (range_caps ?R p1 p0 payload_flags ?va ?ps np) xs (range_tables ?R p1 p0 payload_flags ?va ?ps np (tables s)) s s1"
    using t al z [OF i127(1)] c(1,3,6,9,12) by (intro map_root_task_inserted) simp_all
  then obtain b1 s1 where s1: "load_root_task_payload abi l b (bi, s) = Some (b1, s1)"
    and b1: "b1 = fold add_virt_page_cap (map (slot_desc s) (take np (drop 2 xs))) (set_page_table_cap 0 (slot_desc s (xs ! 1)) (set_page_table_cap 1 (slot_desc s (xs ! 0)) bi))"
    and i1: "inserted ?r (range_caps ?R p1 p0 payload_flags ?va ?ps np) xs (range_tables ?R p1 p0 payload_flags ?va ?ps np (tables s)) s s1"
    by (auto simp: load_root_task_payload_def pk)
  note d1 = insertedD [OF i1]
  let ?xs1 = "drop (np + 2) xs" and ?sb = "stack_base ns"
  have x1: "?xs1 ! 0 = xs ! (np + 2)" "?xs1 ! 1 = xs ! (np + 3)" "drop 2 ?xs1 = drop (np + 4) xs" using al(4) by (simp_all add: eval_nat_numeral)
  have "tables s1 ?R 127 = zero_pte" using t z [of 127] i127(2) by (auto simp: d1(1) range_tables_def)
  then have "\<exists>s2. map_root_task b ?sb ?ks (root_task_stack_end l) [k0, k1] set_stack_page_table_cap stack_flags (b1, s1) =
      Some (fold add_virt_page_cap (map (slot_desc s1) (take ns (drop 2 ?xs1))) (set_stack_page_table_cap 0 (slot_desc s1 (?xs1 ! 1))
        (set_stack_page_table_cap 1 (slot_desc s1 (?xs1 ! 0)) b1)), s2) \<and>
    inserted ?r (range_caps ?R k1 k0 stack_flags ?sb ?ks ns) ?xs1 (range_tables ?R k1 k0 stack_flags ?sb ?ks ns (tables s1)) s1 s2"
    using t al d1(2,6) c(2,10,14,15,16) sb by (intro map_root_task_inserted) simp_all
  then obtain b2 s2 where s2: "setup_root_task_stack l b (b1, s1) = Some (b2, s2)"
    and b2: "b2 = fold add_virt_page_cap (map (slot_desc s) (take ns (drop (np + 4) xs)))
      (set_stack_page_table_cap 0 (slot_desc s (xs ! (np + 3))) (set_stack_page_table_cap 1 (slot_desc s (xs ! (np + 2))) b1))"
    and i2: "inserted ?r (range_caps ?R k1 k0 stack_flags ?sb ?ks ns) ?xs1 (range_tables ?R k1 k0 stack_flags ?sb ?ks ns (tables s1)) s1 s2"
    unfolding x1 d1(3) by (auto simp: setup_root_task_stack_def pk c(2) stack_base_user)
  note d2 = insertedD [OF i2]
  let ?xs2 = "drop (ns + 2) ?xs1"
  have x2: "?xs2 = drop (np + ns + 4) xs" by (simp add: eval_nat_numeral ac_simps)
  have p0: "tables s2 p0 = leaf_table payload_flags ?va ?ps [0..<np] zero_page_table"
    using t by (auto simp: d2(1) d1(1) range_tables_def)
  have "\<forall>k<nd. \<not> is_enabled (tables s2 p0 (page_index (?va + page_off np) k))"
    using leaf_table_at [OF c(5), of _ "[0..<np]"] unfolding p0 page_index_add by (auto simp: lessThan_atLeast0)
  moreover have "nd \<le> length ?xs2" using al(4) by simp
  ultimately obtain b3 s3 where s3: "setup_arch_root_boot_info abi l b (b2, s2) = Some (b3, s3)"
    and i3: "inserted ?r (map (page_cap dtb_flags p0 (?va + page_off np) (as_map ds)) [0..<nd]) ?xs2
      ((tables s2)(p0 := leaf_table dtb_flags (?va + page_off np) (as_map ds) [0..<nd] (tables s2 p0))) s2 s3"
    and b3: "same_roots b2 b3" "bi_num_virt_page_caps b3 = bi_num_virt_page_caps b2" "bi_num_dtb_vp_caps b3 = of_nat nd"
      "bi_page_table_caps b3 = bi_page_table_caps b2" "bi_stack_page_table_caps b3 = bi_stack_page_table_caps b2"
      "\<forall>es. listed b2 es \<and> bi_virt_page_caps_offset b2 + bi_num_virt_page_caps b2 = of_nat (length es) \<and> length es + nd \<le> 2 ^ 64 \<longrightarrow>
        listed b3 (es @ map (slot_desc s) (take nd ?xs2))"
    using setup_arch_inserted [of s2 b ds de p0 abi l nd ?xs2 b2] c(1,4,17,18,19) d1(2,3,4,6) d2(2,3,4,6) al pk by auto
  have "filed (slot_desc s) np ns nd xs bi b3" by (rule filed_parts [OF b1 b2 b3(1-5) _ al(4)]) (use b3(6) [unfolded x2] in blast)
  have "inserted ?r (root_caps abi l b np ns nd ds) xs (root_tables abi l b np ns nd ds (tables s)) s s3"
    using inserted_trans [OF i1, of _ _ s3] inserted_trans [OF i2, of _ _ s3] i3 al
    by (simp add: root_caps_def root_tables_def pk d1(1) d2(1) add.commute)
  with \<open>filed _ _ _ _ _ _ _\<close> show ?thesis using s1 s2 s3 by (intro exI [of _ b3] exI [of _ s3]) simp
qed

lemma root_tables_mapped:
  assumes c: "can_load abi l b np ns nd ds de xs bi s" and T: "tables s' = root_tables abi l b np ns nd ds (tables s)"
    and r: "t_root_page_table (tasks s' (b_root_task b)) = b_root_page_table b"
    and pk: "b_payload_page_tables b = [p0, p1]" "b_stack_page_tables b = [k0, k1]"
  shows "range_mapped s' (b_root_task b) p1 p0 payload_flags (ba_payload_base abi) (payload_start l) np"
    "range_mapped s' (b_root_task b) k1 k0 stack_flags (stack_base ns) (root_task_stack_start l) ns"
    "0 < nd \<Longrightarrow> range_mapped s' (b_root_task b) p1 p0 dtb_flags (ba_payload_base abi + page_off np) (as_map ds) nd"
proof -
  let ?R = "b_root_page_table b" and ?va = "ba_payload_base abi" and ?ps = "payload_start l"
  have t: "distinct [?R, p0, p1, k0, k1]" and z: "\<And>i. i < 128 \<Longrightarrow> tables s ?R i = zero_pte"
    using can_loadD [OF c] pk by (metis list.inject)+
  note g = can_load_ranges [OF c] and sb = stack_base_props [of ns]
  have i: "get_page_table_index ?va 2 \<noteq> 127" "tables s ?R (get_page_table_index ?va 2) = zero_pte" "tables s ?R 127 = zero_pte"
    using g(8) z [of "get_page_table_index ?va 2"] z [of 127] order.strict_trans [OF g(8), of 128] by auto
  have tb: "tables s' ?R (get_page_table_index ?va 2) = enable (set_next_page p1 zero_pte)" "tables s' ?R 127 = enable (set_next_page k1 zero_pte)"
    "tables s' p1 = zero_page_table(get_page_table_index ?va 1 := enable (set_next_page p0 zero_pte))"
    "tables s' k1 = zero_page_table(get_page_table_index (stack_base ns) 1 := enable (set_next_page k0 zero_pte))"
    "tables s' k0 = leaf_table stack_flags (stack_base ns) (root_task_stack_start l) [0..<ns] zero_page_table"
    "tables s' p0 = leaf_table dtb_flags (?va + page_off np) (as_map ds) [0..<nd] (leaf_table payload_flags ?va ?ps [0..<np] zero_page_table)"
    using t i sb(3) g(15,16) by (auto simp: T root_tables_def range_tables_def pk)
  have "tables s' p0 (page_index ?va j) = user_leaf payload_flags (?ps + page_off j) zero_pte" if "j < np" for j
  proof -
    have "page_index ?va j \<notin> page_index (?va + page_off np) ` {0..<nd}"
      using that page_index_inj [OF g(5)] by (auto simp: page_index_add)
    then show ?thesis using that leaf_table_at [OF g(3) that, of "[0..<np]"]
      by (simp add: tb(6) leaf_table_other lessThan_atLeast0 zero_page_table_def)
  qed
  then show "range_mapped s' (b_root_task b) p1 p0 payload_flags ?va ?ps np"
    by (simp add: range_mapped_def r tb)
  show "range_mapped s' (b_root_task b) k1 k0 stack_flags (stack_base ns) (root_task_stack_start l) ns"
    using leaf_table_at [OF sb(2) [OF g(15,16)], of _ "[0..<ns]" stack_flags "root_task_stack_start l" zero_page_table] sb(3) [OF g(15,16)]
    by (simp add: range_mapped_def r tb lessThan_atLeast0 zero_page_table_def)
  show "range_mapped s' (b_root_task b) p1 p0 dtb_flags (?va + page_off np) (as_map ds) nd" if "0 < nd"
  proof -
    have "get_page_table_index (?va + page_off np) l = get_page_table_index ?va l" if "l \<in> {1, 2}" for l
      using in_table_block [OF g(5) _ that, of np] \<open>0 < nd\<close> by simp
    moreover have "leaf_table payload_flags ?va ?ps [0..<np] zero_page_table (page_index (?va + page_off np) j) = zero_pte" if "j < nd" for j
      using leaf_table_at [OF g(5), of "np + j" "[0..<np]"] that by (simp add: page_index_add lessThan_atLeast0 zero_page_table_def)
    ultimately show ?thesis using leaf_table_at [OF g(4), of _ "[0..<nd]" dtb_flags "as_map ds"]
      by (simp add: range_mapped_def r tb lessThan_atLeast0)
  qed
qed

subsection \<open>A loaded root task\<close>

lemma range_mapped_cong:
  assumes "range_mapped s task t1 t0 flags va page n" "t_root_page_table (tasks s' task) = t_root_page_table (tasks s task)"
    "\<forall>p\<in>{t_root_page_table (tasks s task), t1, t0}. tables s' p = tables s p"
  shows "range_mapped s' task t1 t0 flags va page n"
  using assms by (simp add: range_mapped_def)

text \<open>Where \<^verbatim>\<open>bake_stack\<close> puts the boot information, and the user address of that place.\<close>

definition baked_at :: "layout \<Rightarrow> u64 \<Rightarrow> addr" where
  "baked_at l sz = round_down (root_task_stack_end l - sz) 16"

definition baked_sp :: "layout \<Rightarrow> u64 \<Rightarrow> addr" where
  "baked_sp l sz = 2 ^ 37 - (root_task_stack_end l - baked_at l sz)"

lemma stack_reads:
  assumes m: "range_mapped s task t1 t0 stack_flags (stack_base n) (root_task_stack_start l) n" and n: "0 < n" "n \<le> 512"
    and ks: "mapped_page (root_task_stack_start l)" "unat (as_phys (root_task_stack_start l)) + 4096 * n \<le> 2 ^ 36" "root_task_stack_end l = root_task_stack_start l + page_off n"
    and sz: "unat sz \<le> 4096 * n" and t: "task \<noteq> 0" "t_root_page_table (tasks s task) \<noteq> 0" "mapped_page t1" "mapped_page t0"
    and dt: "\<forall>i<unat sz. mem s (baked_at l sz + of_nat i) = data i"
  shows "read_user_memory task (baked_sp l sz) sz s = Some (Some (map data [0..<unat sz]))" "16 dvd unat (baked_sp l sz)"
proof -
  let ?ks = "root_task_stack_start l" and ?sp = "baked_sp l sz" and ?tp = "baked_at l sz"
  obtain off where o: "?tp = ?ks + of_nat off" "off + unat sz \<le> 4096 * n" "16 dvd off"
    using bake_place [OF ks(1,2) sz] unfolding baked_at_def ks(3) by metis
  note sb = stack_base_props [OF n]
  have s: "?sp = stack_base n + of_nat off" by (simp add: baked_sp_def o(1) ks(3) stack_base_def)
  have u: "unat ?sp = unat (stack_base n) + off"
  proof -
    have "?sp = of_nat (unat (stack_base n) + off)" by (simp add: s)
    moreover have "unat (stack_base n) + off < 2 ^ 64" using o(2) n by (simp add: sb(1))
    ultimately show ?thesis by (simp only: unat_of_nat_u64)
  qed
  have "16 dvd unat (stack_base n)" using sb(4) by (rule dvd_trans [rotated]) simp
  then show "16 dvd unat ?sp" using o(3) by (simp add: u)
  have a: "user_addr s task (?sp + of_nat i) = Some (?tp + of_nat i)" if "i < unat sz" for i
    using range_user_addr [OF m sb(2,4) _ ks(2) t, of "off + i"] ks(1) that o(2)
    by (simp add: s o(1) mapped_page_def stack_flags_def add.assoc)
  then have "mapped s task ?sp 0 (unat sz)" by (simp add: mapped_def)
  moreover have "map (\<lambda>i. mem s (phys s task ?sp i)) [0..<unat sz] = map data [0..<unat sz]"
    using a dt by (simp add: phys_def)
  moreover have "has_tables s task" using t by (simp add: has_tables_def)
  moreover have "unat ?sp + unat sz \<le> 2 ^ 38" using o(2) n by (simp add: u sb(1))
  ultimately show "read_user_memory task ?sp sz s = Some (Some (map data [0..<unat sz]))"
    using read_loop_spec [of s task ?sp sz 0] by (simp add: read_user_memory_def)
qed

text \<open>The root task after loading, with the boot information \<open>bi\<close>.\<close>

definition root_loaded :: "boot_abi \<Rightarrow> layout \<Rightarrow> boot_info_t \<Rightarrow> nat \<Rightarrow> nat \<Rightarrow> nat \<Rightarrow> addr \<Rightarrow> root_boot_info_t \<Rightarrow> kstate \<Rightarrow> bool" where
  "root_loaded abi l b np ns nd ds bi s \<longleftrightarrow>
     (let r = b_root_task b; L = ba_LAST_REGISTER abi; sz = get_root_boot_info_size abi bi;
          p0 = b_payload_page_tables b ! 0; p1 = b_payload_page_tables b ! 1; k0 = b_stack_page_tables b ! 0; k1 = b_stack_page_tables b ! 1
      in r \<noteq> 0 \<and> t_root_page_table (tasks s r) = b_root_page_table b \<and> unat sz \<le> 4096 * ns \<and>
        get_register L r (ba_REG_PROGRAM_COUNTER abi) s = ba_payload_base abi \<and>
        get_register L r (ba_REG_STACK_POINTER abi) s = baked_sp l sz \<and> get_register L r (ba_REG_ARG_0 abi) s = baked_sp l sz \<and>
        range_mapped s r p1 p0 payload_flags (ba_payload_base abi) (payload_start l) np \<and>
        range_mapped s r k1 k0 stack_flags (stack_base ns) (root_task_stack_start l) ns \<and>
        (0 < nd \<longrightarrow> range_mapped s r p1 p0 dtb_flags (ba_payload_base abi + page_off np) (as_map ds) nd) \<and>
        (\<forall>i<unat sz. mem s (baked_at l sz + of_nat i) = ba_bytes abi bi i))"

lemma root_loaded_cong:
  assumes "root_loaded abi l b np ns nd ds bi s" "tasks s' (b_root_task b) = tasks s (b_root_task b)" "mem s' = mem s"
    "\<forall>p\<in>set (b_root_page_table b # b_payload_page_tables b @ b_stack_page_tables b). tables s' p = tables s p"
    "length (b_payload_page_tables b) = 2" "length (b_stack_page_tables b) = 2"
  shows "root_loaded abi l b np ns nd ds bi s'"
proof -
  let ?r = "b_root_task b" and ?p = "b_payload_page_tables b" and ?k = "b_stack_page_tables b"
  have t: "t_root_page_table (tasks s' ?r) = t_root_page_table (tasks s ?r)" "t_root_page_table (tasks s ?r) = b_root_page_table b"
    using assms(1,2) by (simp_all add: root_loaded_def Let_def)
  have "\<forall>p\<in>{b_root_page_table b, ?p ! 1, ?p ! 0}. tables s' p = tables s p" "\<forall>p\<in>{b_root_page_table b, ?k ! 1, ?k ! 0}. tables s' p = tables s p"
    using assms(4-6) by simp_all
  note rm = range_mapped_cong [OF _ t(1), unfolded t(2), OF _ this(1)] range_mapped_cong [OF _ t(1), unfolded t(2), OF _ this(2)]
  from assms(1) rm show ?thesis unfolding root_loaded_def Let_def get_register_def assms(2,3) by blast
qed

lemma root_loaded_reads:
  assumes c: "can_place abi l b np ns nd ds de m" and r: "root_loaded abi l b np ns nd ds bi s"
  shows "read_user_memory (b_root_task b) (baked_sp l (get_root_boot_info_size abi bi)) (get_root_boot_info_size abi bi) s =
      Some (Some (map (ba_bytes abi bi) [0..<unat (get_root_boot_info_size abi bi)]))"
    "16 dvd unat (baked_sp l (get_root_boot_info_size abi bi))"
    "i < 4096 * np \<Longrightarrow> user_addr s (b_root_task b) (ba_payload_base abi + of_nat i) = Some (payload_start l + of_nat i)"
    "4096 dvd unat ds \<Longrightarrow> i < 4096 * nd \<Longrightarrow> user_addr s (b_root_task b) (ba_payload_base abi + page_off np + of_nat i) = Some (as_map ds + of_nat i)"
proof -
  note c' = c [unfolded can_place_def Let_def] and r' = r [unfolded root_loaded_def Let_def] and g = can_place_ranges [OF c]
  have z: "b_root_task b \<noteq> 0" "t_root_page_table (tasks s (b_root_task b)) \<noteq> 0" using c' r' mapped_page_nonnull by auto
  have l: "length (b_payload_page_tables b) = 2" "length (b_stack_page_tables b) = 2" using c' by blast+
  then have mp: "mapped_page (b_payload_page_tables b ! 1)" "mapped_page (b_payload_page_tables b ! 0)" "mapped_page (b_stack_page_tables b ! 1)" "mapped_page (b_stack_page_tables b ! 0)"
    using c' by simp_all
  have m: "range_mapped s (b_root_task b) (b_payload_page_tables b ! 1) (b_payload_page_tables b ! 0) payload_flags (ba_payload_base abi) (payload_start l) np"
    "range_mapped s (b_root_task b) (b_stack_page_tables b ! 1) (b_stack_page_tables b ! 0) stack_flags (stack_base ns) (root_task_stack_start l) ns"
    "0 < nd \<Longrightarrow> range_mapped s (b_root_task b) (b_payload_page_tables b ! 1) (b_payload_page_tables b ! 0) dtb_flags (ba_payload_base abi + page_off np) (as_map ds) nd"
    and sz: "unat (get_root_boot_info_size abi bi) \<le> 4096 * ns" "\<forall>i<unat (get_root_boot_info_size abi bi). mem s (baked_at l (get_root_boot_info_size abi bi) + of_nat i) = ba_bytes abi bi i"
    using r' by blast+
  have en: "root_task_stack_end l = root_task_stack_start l + page_off ns" using c' by blast
  note sr = stack_reads [OF m(2) g(15,16,13,14) en sz(1) z mp(3,4) sz(2)]
  show "read_user_memory (b_root_task b) (baked_sp l (get_root_boot_info_size abi bi)) (get_root_boot_info_size abi bi) s =
      Some (Some (map (ba_bytes abi bi) [0..<unat (get_root_boot_info_size abi bi)]))" "16 dvd unat (baked_sp l (get_root_boot_info_size abi bi))"
    by (rule sr)+
  show "user_addr s (b_root_task b) (ba_payload_base abi + of_nat i) = Some (payload_start l + of_nat i)" if "i < 4096 * np"
    using range_user_addr [OF m(1) g(3,7) _ g(12) z mp(1,2) _ that] g(11) by (simp add: mapped_page_def payload_flags_def)
  show "user_addr s (b_root_task b) (ba_payload_base abi + page_off np + of_nat i) = Some (as_map ds + of_nat i)" if "4096 dvd unat ds" "i < 4096 * nd"
  proof -
    have "0 < nd" using that(2) by simp
    moreover have "unat (ba_payload_base abi + page_off np) = unat (ba_payload_base abi) + 4096 * np" using g(3) by (intro unat_add_pages [of _ np]) (auto simp: in_table_def)
    ultimately show ?thesis using range_user_addr [OF m(3) g(4) _ _ _ z mp(1,2) _ that(2)] g(7,19) that(1) by (simp add: dtb_flags_def)
  qed
qed

text \<open>The state with the registers of the root task set, and that \<^verbatim>\<open>setup_root_task_payload\<close> ends in it.\<close>

definition with_registers :: "boot_abi \<Rightarrow> addr \<Rightarrow> addr \<Rightarrow> kstate \<Rightarrow> kstate" where
  "with_registers abi root sp s = upd_task root (\<lambda>t. t\<lparr>t_frame := (t_frame t)(unat (ba_REG_PROGRAM_COUNTER abi) := ba_payload_base abi,
     unat (ba_REG_STACK_POINTER abi) := sp, unat (ba_REG_ARG_0 abi) := sp)\<rparr>) s"

lemma with_registers_simps [simp]:
  "tables (with_registers abi root sp s) = tables s" "mem (with_registers abi root sp s) = mem s" "cap_at (with_registers abi root sp s) = cap_at s"
  "t_root_page_table (tasks (with_registers abi root sp s) u) = t_root_page_table (tasks s u)"
  by (simp_all add: with_registers_def)

lemma with_registers_get:
  assumes "distinct [unat (ba_REG_PROGRAM_COUNTER abi), unat (ba_REG_STACK_POINTER abi), unat (ba_REG_ARG_0 abi)]"
    "\<forall>r\<in>{ba_REG_PROGRAM_COUNTER abi, ba_REG_STACK_POINTER abi, ba_REG_ARG_0 abi}. r \<le> ba_LAST_REGISTER abi"
  shows "get_register (ba_LAST_REGISTER abi) root (ba_REG_PROGRAM_COUNTER abi) (with_registers abi root sp s) = ba_payload_base abi"
    "get_register (ba_LAST_REGISTER abi) root (ba_REG_STACK_POINTER abi) (with_registers abi root sp s) = sp"
    "get_register (ba_LAST_REGISTER abi) root (ba_REG_ARG_0 abi) (with_registers abi root sp s) = sp"
  using assms by (auto simp: get_register_def with_registers_def dest: leD)

lemma setup_root_task_payload_eq:
  assumes "do { st \<leftarrow> load_root_task_payload abi l b (bi, s); st \<leftarrow> setup_root_task_stack l b st; setup_arch_root_boot_info abi l b st } = Some (bi', s1)"
    "root_task_stack_end l \<noteq> 0" "0 < get_root_boot_info_size abi bi'" "sz = get_root_boot_info_size abi bi'"
    "\<forall>r\<in>{ba_REG_PROGRAM_COUNTER abi, ba_REG_STACK_POINTER abi, ba_REG_ARG_0 abi}. r \<le> ba_LAST_REGISTER abi"
  shows "setup_root_task_payload abi l b (bi, s) = Some (bi', with_registers abi (b_root_task b) (baked_sp l sz)
    (store_bytes (baked_at l sz) (map (ba_bytes abi bi') [0..<unat sz]) s1))"
proof -
  have "Option.bind (load_root_task_payload abi l b (bi, s)) (\<lambda>st. Option.bind (setup_root_task_stack l b st) (\<lambda>st. Option.bind (setup_arch_root_boot_info abi l b st) f)) = f (bi', s1)" for f :: "boot_state \<Rightarrow> boot_state option"
    using assms(1) by (auto simp: bind_eq_Some_conv)
  moreover have "\<not> ba_LAST_REGISTER abi < ba_REG_PROGRAM_COUNTER abi" "\<not> ba_LAST_REGISTER abi < ba_REG_STACK_POINTER abi" "\<not> ba_LAST_REGISTER abi < ba_REG_ARG_0 abi"
    using assms(5) by (simp_all add: not_less)
  ultimately show ?thesis using assms(2-4)
    by (simp add: setup_root_task_payload_def bake_stack_def user_space_end set_register_def with_registers_def upd_task_def baked_sp_def baked_at_def)
qed

lemma setup_root_task_payload_state:
  assumes "can_load abi l b np ns nd ds de xs bi s"
    "distinct [unat (ba_REG_PROGRAM_COUNTER abi), unat (ba_REG_STACK_POINTER abi), unat (ba_REG_ARG_0 abi)]"
    "\<forall>r\<in>{ba_REG_PROGRAM_COUNTER abi, ba_REG_STACK_POINTER abi, ba_REG_ARG_0 abi}. r \<le> ba_LAST_REGISTER abi"
  shows "\<exists>bi' s'. setup_root_task_payload abi l b (bi, s) = Some (bi', s') \<and> root_loaded abi l b np ns nd ds bi' s' \<and>
    filed (slot_desc s) np ns nd xs bi bi' \<and> alive s' (b_root_task b) \<and> tables s' = root_tables abi l b np ns nd ds (tables s) \<and>
    (\<forall>u. t_num_cap_space (tasks s' u) = t_num_cap_space (tasks s u)) \<and>
    (\<forall>i<np + ns + nd + 4. cap_at s' (xs ! i) = root_caps abi l b np ns nd ds ! i) \<and>
    (\<forall>z. z \<notin> set (take (np + ns + nd + 4) xs) \<longrightarrow> cap_at s' z = cap_at s z) \<and> current_task s' = current_task s \<and>
    (\<forall>u. u \<noteq> b_root_task b \<longrightarrow> tasks s' u = tasks s u) \<and> t_context (tasks s' (b_root_task b)) = t_context (tasks s (b_root_task b))"
proof -
  let ?r = "b_root_task b" and ?R = "b_root_page_table b" and ?ks = "root_task_stack_start l"
  obtain p0 p1 k0 k1 where pk: "b_payload_page_tables b = [p0, p1]" "b_stack_page_tables b = [k0, k1]" and al: "alive s ?r" and rt: "t_root_page_table (tasks s ?r) = ?R"
    using can_loadD [OF assms(1)] by metis
  note g = can_load_ranges [OF assms(1)]
  obtain bi' s1 where l: "do { st \<leftarrow> load_root_task_payload abi l b (bi, s); st \<leftarrow> setup_root_task_stack l b st; setup_arch_root_boot_info abi l b st } = Some (bi', s1)"
    and ins: "inserted ?r (root_caps abi l b np ns nd ds) xs (root_tables abi l b np ns nd ds (tables s)) s s1"
    and fd: "filed (slot_desc s) np ns nd xs bi bi'"
    using load_parts [OF assms(1)] by blast
  note d = insertedD [OF ins]
  let ?sz = "get_root_boot_info_size abi bi'"
  let ?s2 = "store_bytes (baked_at l ?sz) (map (ba_bytes abi bi') [0..<unat ?sz]) s1"
  let ?s' = "with_registers abi ?r (baked_sp l ?sz) ?s2"
  have e: "?sz = loaded_size abi np ns nd bi" by (use fd in \<open>simp add: get_root_boot_info_size_def loaded_size_def filed_def same_roots_def\<close>)
  have sz: "0 < ?sz" "unat ?sz \<le> 4096 * ns" unfolding e using assms(1) [unfolded can_load_def] by blast+
  have "unat (?ks + page_off ns) = unat ?ks + 4096 * ns"
    using g(14) by (intro unat_add_pages [of _ ns]) (simp_all add: unat_mapped_page [OF g(13)])
  then have "?ks + page_off ns \<noteq> 0" using unat_mapped_page [OF g(13)] by auto
  moreover have "root_task_stack_end l = ?ks + page_off ns" using g(2) by (simp add: algebra_simps)
  ultimately have run: "setup_root_task_payload abi l b (bi, s) = Some (bi', ?s')"
    using setup_root_task_payload_eq [OF l _ sz(1) refl assms(3)] by simp
  have m: "mem ?s' (baked_at l ?sz + of_nat i) = ba_bytes abi bi' i" if "i < unat ?sz" for i
  proof -
    have "i < 2 ^ 64" using that unat_u64_less [of ?sz] by simp
    then show ?thesis using unat_of_nat_u64 [of i] that by (simp add: store_bytes_def)
  qed
  have r1: "t_root_page_table (tasks s1 ?r) = ?R" using d(5) rt by simp
  note rm = root_tables_mapped [OF assms(1) d(1) r1 pk]
  have "root_loaded abi l b np ns nd ds bi' ?s'"
    unfolding root_loaded_def Let_def
    using al r1 sz(2) m with_registers_get [OF assms(2,3)] rm by (simp add: pk range_mapped_def alive_def task_ok_def)
  moreover have "cap_at ?s' = cap_at s1" by (simp add: store_bytes_def)
  moreover have "length (root_caps abi l b np ns nd ds) = np + ns + nd + 4" by (simp add: root_caps_def)
  moreover have "current_task ?s' = current_task s1" "t_context (tasks ?s' ?r) = t_context (tasks s1 ?r)" "u \<noteq> ?r \<Longrightarrow> tasks ?s' u = tasks s1 u" for u
    by (simp_all add: with_registers_def store_bytes_def)
  moreover have "alive s1 ?r" using al d(6) by simp
  then have "alive ?s' ?r" by (auto simp: with_registers_def store_bytes_def alive_def task_ok_def lock_free_for_def current_tid_def)
  moreover have "t_num_cap_space (tasks ?s' u) = t_num_cap_space (tasks s1 u)" for u by (simp add: with_registers_def store_bytes_def)
  ultimately show ?thesis using run fd d(1,7,9-13) by (intro exI [of _ bi'] exI [of _ ?s']) simp
qed

subsection \<open>Properties\<close>

text \<open>
  \<^verbatim>\<open>map_root_task\<close> maps a part of the root task. Given two fresh tables, enough free slots and a range of pages
  within the reach of one table of the last level, it returns; the root task's page tables then translate every
  address of the range to the byte at the same offset of the given memory, the capabilities of both tables and of
  all pages stand in the first free slots in order, and no other capability changes.
\<close>

theorem map_root_task_maps:
  assumes "distinct [b_root_page_table b, t0, t1]" "\<forall>p\<in>{b_root_page_table b, t0, t1, first}. mapped_page p" "in_table va n" "unat va < 2 ^ 37"
    "4096 dvd unat va" "unat (as_phys first) + 4096 * n \<le> 2 ^ 36" "last_ptr = first + page_off n"
    "free_list s (b_root_task b) xs" "alive s (b_root_task b)" "n + 2 \<le> length xs" "fl_user flags"
    "t_root_page_table (tasks s (b_root_task b)) = b_root_page_table b" "tables s (b_root_page_table b) (get_page_table_index va 2) = zero_pte"
  shows "\<exists>bi' s'. map_root_task b va first last_ptr [t0, t1] dst flags (bi, s) = Some (bi', s') \<and>
    (\<forall>i<4096 * n. user_addr s' (b_root_task b) (va + of_nat i) = Some (first + of_nat i)) \<and>
    (\<forall>i<n + 2. cap_at s' (xs ! i) = range_caps (b_root_page_table b) t1 t0 flags va first n ! i) \<and>
    free_list s' (b_root_task b) (drop (n + 2) xs) \<and> (\<forall>z. z \<notin> set (take (n + 2) xs) \<longrightarrow> cap_at s' z = cap_at s z)"
proof -
  let ?r = "b_root_task b" and ?R = "b_root_page_table b"
  have nn: "0 \<notin> {?R, t0, t1}" using assms(2) mapped_page_nonnull by auto
  have "n = (unat (last_ptr - first) + 4095) div 4096" using assms(6,7) pages_of_off [of n] by simp
  moreover have "unat va < 2 ^ 38" using assms(4) by simp
  ultimately obtain bi' s' where e: "map_root_task b va first last_ptr [t0, t1] dst flags (bi, s) = Some (bi', s')"
    and i: "inserted ?r (range_caps ?R t1 t0 flags va first n) xs (range_tables ?R t1 t0 flags va first n (tables s)) s s'"
    using map_root_task_inserted [OF assms(1) nn assms(3) _ assms(6) _ assms(8-10), of last_ptr dst flags bi] assms(13) by auto
  note d = insertedD [OF i]
  have r: "t_root_page_table (tasks s' ?r) = ?R" using d(5) assms(12) by simp
  have m: "range_mapped s' ?r t1 t0 flags va first n"
    by (rule range_tables_mapped [OF d(1) r assms(13)]) (use assms(1,3) in auto)
  have "?r \<noteq> 0" using assms(9) by (simp add: alive_def task_ok_def)
  then have "user_addr s' ?r (va + of_nat k) = Some (first + of_nat k)" if "k < 4096 * n" for k
    using range_user_addr [OF m assms(3,5) _ assms(6) _ _ _ _ assms(11) that] assms(2) nn by (simp add: r mapped_page_def)
  with e d(2,9,10) show ?thesis by (intro exI [of _ bi'] exI [of _ s']) simp
qed

text \<open>
  C16: the root task starts with its boot information. When the payload, the stack and the device tree fit
  (\<open>can_load\<close>) and the three registers are different, \<^verbatim>\<open>setup_root_task_payload\<close> returns; the program counter is the
  base of the payload, the stack pointer is aligned to 16 bytes and is also the first argument, and reading the user memory
  at the stack pointer gives the bytes of the boot information. The page tables translate the addresses of the payload
  to the payload image and the addresses behind it to the device tree, when that starts at a page; the
  capabilities of all tables and pages stand in the first free slots in order.
\<close>

theorem setup_root_task_payload_ready:
  assumes "can_load abi l b np ns nd ds de xs bi s"
    "distinct [unat (ba_REG_PROGRAM_COUNTER abi), unat (ba_REG_STACK_POINTER abi), unat (ba_REG_ARG_0 abi)]"
    "\<forall>r\<in>{ba_REG_PROGRAM_COUNTER abi, ba_REG_STACK_POINTER abi, ba_REG_ARG_0 abi}. r \<le> ba_LAST_REGISTER abi"
  shows "\<exists>bi' s' sp. setup_root_task_payload abi l b (bi, s) = Some (bi', s') \<and>
    get_register (ba_LAST_REGISTER abi) (b_root_task b) (ba_REG_PROGRAM_COUNTER abi) s' = ba_payload_base abi \<and>
    get_register (ba_LAST_REGISTER abi) (b_root_task b) (ba_REG_STACK_POINTER abi) s' = sp \<and>
    get_register (ba_LAST_REGISTER abi) (b_root_task b) (ba_REG_ARG_0 abi) s' = sp \<and> 16 dvd unat sp \<and>
    read_user_memory (b_root_task b) sp (get_root_boot_info_size abi bi') s' =
      Some (Some (map (ba_bytes abi bi') [0..<unat (get_root_boot_info_size abi bi')])) \<and>
    (\<forall>i<4096 * np. user_addr s' (b_root_task b) (ba_payload_base abi + of_nat i) = Some (payload_start l + of_nat i)) \<and>
    (4096 dvd unat ds \<longrightarrow> (\<forall>i<4096 * nd. user_addr s' (b_root_task b) (ba_payload_base abi + page_off np + of_nat i) = Some (as_map ds + of_nat i))) \<and>
    (\<forall>i<np + ns + nd + 4. cap_at s' (xs ! i) = root_caps abi l b np ns nd ds ! i)"
proof -
  from setup_root_task_payload_state [OF assms] obtain bi' s' where e: "setup_root_task_payload abi l b (bi, s) = Some (bi', s')"
    and r: "root_loaded abi l b np ns nd ds bi' s'" and c: "\<forall>i<np + ns + nd + 4. cap_at s' (xs ! i) = root_caps abi l b np ns nd ds ! i" by blast
  have p: "can_place abi l b np ns nd ds de (mem s)" using assms(1) by (simp add: can_load_def)
  let ?sp = "baked_sp l (get_root_boot_info_size abi bi')"
  have "get_register (ba_LAST_REGISTER abi) (b_root_task b) (ba_REG_PROGRAM_COUNTER abi) s' = ba_payload_base abi"
    "get_register (ba_LAST_REGISTER abi) (b_root_task b) (ba_REG_STACK_POINTER abi) s' = ?sp" "get_register (ba_LAST_REGISTER abi) (b_root_task b) (ba_REG_ARG_0 abi) s' = ?sp"
    using r by (simp_all add: root_loaded_def Let_def)
  then show ?thesis using e c root_loaded_reads [OF p r] by (intro exI [of _ bi'] exI [of _ s'] exI [of _ ?sp]) simp
qed

end
