(* ===== verification/Boot_Setup.thy ===== *)
theory Boot_Setup
  imports Boot_Root
begin

text \<open>
  The first capabilities of the root task: what \<^verbatim>\<open>setup_root_task\<close> of \<^verbatim>\<open>src/kernel/start.cpp\<close> leaves. The lemmas follow the
  capability spaces of the task through the insertions (\<open>spaces_ok\<close>) and show that the descriptors written to the boot
  information lead to the capabilities they are meant for.
\<close>

subsection \<open>The capability spaces of a task\<close>

text \<open>The free slots of the spaces \<open>qs\<close>, the last space in front and without the very first slot.\<close>

definition space_slots :: "addr list \<Rightarrow> addr list" where
  "space_slots qs = concat (rev (map (\<lambda>i. cap_space_slots (qs ! i) (if i = 0 then 1 else 0)) [0..<length qs]))"

lemma space_slots_append: "space_slots (qs @ [p]) = cap_space_slots p (if qs = [] then 1 else 0) @ space_slots qs"
proof -
  have "map (\<lambda>i. cap_space_slots ((qs @ [p]) ! i) (if i = 0 then 1 else 0)) [0..<length qs] =
    map (\<lambda>i. cap_space_slots (qs ! i) (if i = 0 then 1 else 0)) [0..<length qs]"
    by (simp add: nth_append)
  then show ?thesis by (simp add: space_slots_def del: map_eq_conv)
qed

definition fresh_page :: "kstate \<Rightarrow> addr \<Rightarrow> bool" where
  "fresh_page s p \<longleftrightarrow> mapped_page p \<and> spaces s p = zero_meta \<and> (\<forall>i<101. slots s (slot_addr p (of_nat i)) = zero_slot)"

definition spaces_ok :: "kstate \<Rightarrow> addr \<Rightarrow> addr \<Rightarrow> addr list \<Rightarrow> bool" where
  "spaces_ok s t tab qs \<longleftrightarrow> alive s t \<and> free_list s t (space_slots qs) \<and> unat (t_num_cap_space (tasks s t)) = length qs \<and> tab \<noteq> 0 \<and>
     (\<forall>k<512. walk_enabled (t_root_page_table (tasks s t)) (space_va (of_nat k)) [2, 1] s = Some tab) \<and>
     (\<forall>k<512. length qs \<le> k \<longrightarrow> \<not> is_enabled (tables s tab (get_page_table_index (space_va (of_nat k)) 0))) \<and>
     (\<forall>i<length qs. mapped_page (qs ! i) \<and> space_at s t (of_nat i) (qs ! i) \<and> meta_space_index (spaces s (qs ! i)) = of_nat i)"

text \<open>What the insertions keep: the running task, the memory, the other tasks and the rest of the root task.\<close>

definition kept :: "addr \<Rightarrow> kstate \<Rightarrow> kstate \<Rightarrow> bool" where
  "kept t s s' \<longleftrightarrow> current_task s' = current_task s \<and> mem s' = mem s \<and> (\<forall>u. u \<noteq> t \<longrightarrow> tasks s' u = tasks s u) \<and>
     t_state (tasks s' t) = t_state (tasks s t) \<and> t_root_page_table (tasks s' t) = t_root_page_table (tasks s t) \<and>
     t_context (tasks s' t) = t_context (tasks s t)"

lemma kept_trans: "kept t s s1 \<Longrightarrow> kept t s1 s2 \<Longrightarrow> kept t s s2"
  by (simp add: kept_def)

lemma inserted_kept: "inserted t cs xs T s s' \<Longrightarrow> kept t s s'"
  using insertedD [of t cs xs T s s'] by (simp add: kept_def)

lemma walk_check_upd_pte:
  assumes "walk_check r va ls s = Some q" "q \<noteq> 0" "\<not> is_enabled (tables s tab i)" "tables s' = tables (upd_pte tab i f s)"
  shows "walk_check r va ls s' = Some q"
  using assms(1)
proof (induction ls arbitrary: r)
  case (Cons l ls)
  then obtain x where x: "r \<noteq> 0" "walk va l = Some x" "is_enabled (tables s r x)" "walk_check (get_next_page (tables s r x)) va ls s = Some q"
    using assms(2) by (auto simp: walk_check.simps monad_simps split: if_splits)
  then have "tables s' r x = tables s r x" using assms(3,4) by auto
  with x Cons.IH [OF x(4)] show ?case by (simp add: walk_check.simps)
qed (simp add: walk_check.simps)

lemma space_index_inj:
  assumes "j < 512" "k < 512" "j \<noteq> k"
  shows "get_page_table_index (space_va (of_nat j)) 0 \<noteq> get_page_table_index (space_va (of_nat k)) 0"
proof -
  have u: "unat (of_nat j :: u64) = j" "unat (of_nat k :: u64) = k" using assms by (simp_all add: unat_of_nat_u64)
  then have "unat (get_page_table_index (space_va (of_nat j)) 0) = j" "unat (get_page_table_index (space_va (of_nat k)) 0) = k"
    using assms space_va_index(3) [of "of_nat j"] space_va_index(3) [of "of_nat k"] by simp_all
  with assms(3) show ?thesis by auto
qed

lemma fresh_page_kept:
  assumes "fresh_page s q" "q \<noteq> p" "t \<noteq> 0" "spaces s' q = spaces s q"
    "\<And>a. get_cap_space a \<noteq> p \<Longrightarrow> slot_task s a \<noteq> t \<Longrightarrow> slots s' a = slots s a"
  shows "fresh_page s' q"
proof -
  have q: "is_page q" using assms(1) mapped_page_is_page by (simp add: fresh_page_def)
  have "slots s' (slot_addr q (of_nat i)) = zero_slot" if "i < 101" for i
  proof -
    have "get_cap_space (slot_addr q (of_nat i)) = q" using get_cap_space_slot [OF q that] .
    then show ?thesis using assms that by (simp add: fresh_page_def slot_task_def zero_meta_def)
  qed
  then show ?thesis using assms(1,4) by (simp add: fresh_page_def)
qed

lemma spaces_ok_insert:
  assumes ok: "spaces_ok s t tab qs" and fr: "fresh_page s p" and new: "p \<notin> set qs" and n: "length qs < 512"
  shows "\<exists>s'. insert_root_space t p s = Some s' \<and> spaces_ok s' t tab (qs @ [p]) \<and> (\<forall>q. q \<noteq> p \<and> fresh_page s q \<longrightarrow> fresh_page s' q) \<and>
    (\<forall>pt. pt \<noteq> tab \<longrightarrow> tables s' pt = tables s pt) \<and> kept t s s'"
proof -
  note o = ok [unfolded spaces_ok_def]
  let ?n = "t_num_cap_space (tasks s t)"
  have t: "t \<noteq> 0" "task_ok s t" using o by (auto simp: alive_def task_ok_def)
  have un: "unat ?n = length qs" using o by blast
  then have k: "(ucast ?n :: u64) = of_nat (length qs)" using n by (intro word_unatI) (simp add: unat_of_nat_u64)
  have z: "?n = 0 \<longleftrightarrow> qs = []" using un by (metis length_0_conv unat_eq_zero)
  have "(ucast ?n :: u64) div 512 = 0" using n k by (intro word_unatI) (simp add: unat_div unat_of_nat_u64)
  then have can: "can_insert_space s t p tab"
    using o fr n t by (simp add: can_insert_space_def k fresh_page_def)
  from o have fl: "free_list s t (space_slots qs)" by blast
  obtain s' where s': "insert_cap_space t p s = Some (True, s')" "free_list s' t (space_slots (qs @ [p]))" "t_num_cap_space (tasks s' t) = ?n + 1"
    "space_at s' t (of_nat (length qs)) p" "meta_space_index (spaces s' p) = of_nat (length qs)"
    and tb: "tables s' = tables (upd_pte tab (get_page_table_index (space_va (of_nat (length qs))) 0) (\<lambda>pte. enable (set_flags cap_space_flags (set_next_page p pte))) s)"
    and tk: "\<forall>u. t_state (tasks s' u) = t_state (tasks s u) \<and> t_tid (tasks s' u) = t_tid (tasks s u) \<and>
      t_root_page_table (tasks s' u) = t_root_page_table (tasks s u)" and ad: "space_added t p s s'"
    using insert_cap_space_success [OF can fl] unfolding k z space_slots_append by metis
  let ?i = "get_page_table_index (space_va (of_nat (length qs))) 0"
  note a = ad [unfolded space_added_def]
  have dis: "\<not> is_enabled (tables s tab ?i)" using o n by blast
  have "length qs < 2 ^ LENGTH(18)" using n by simp
  then have un': "unat (t_num_cap_space (tasks s' t)) = length (qs @ [p])"
    using un n by (simp add: s'(3) unat_word_ariths)
  have al: "alive s' t" using o a tk by (simp add: alive_def task_ok_def lock_free_for_def current_tid_def)
  have we: "walk_enabled (t_root_page_table (tasks s' t)) (space_va (of_nat j)) [2, 1] s' = Some tab" if "j < 512" for j
    using o tk walk_enabled_upd_pte [OF _ dis tb] that by simp
  have nd: "\<not> is_enabled (tables s' tab (get_page_table_index (space_va (of_nat j)) 0))" if "j < 512" "length (qs @ [p]) \<le> j" for j
    using o that space_index_inj [of j "length qs"] by (simp add: tb)
  have sp: "mapped_page ((qs @ [p]) ! i) \<and> space_at s' t (of_nat i) ((qs @ [p]) ! i) \<and> meta_space_index (spaces s' ((qs @ [p]) ! i)) = of_nat i"
    if "i < length (qs @ [p])" for i
  proof (cases "i < length qs")
    case True
    then have "qs ! i \<noteq> p" "space_at s t (of_nat i) (qs ! i)" using new o by auto
    then have "space_at s' t (of_nat i) (qs ! i)" "spaces s' (qs ! i) = spaces s (qs ! i)"
      using walk_check_upd_pte [OF _ _ dis tb] tk a by (simp_all add: space_at_def)
    with o True show ?thesis by (simp add: nth_append)
  next
    case False
    with that have "i = length qs" by simp
    with s'(4,5) fr show ?thesis by (simp add: fresh_page_def)
  qed
  have "spaces_ok s' t tab (qs @ [p])" unfolding spaces_ok_def using al s'(2) un' we nd sp o by blast
  moreover have "fresh_page s' q" if "q \<noteq> p" "fresh_page s q" for q
    by (rule fresh_page_kept [of s q p t]) (use a that t(1) in simp_all)
  ultimately show ?thesis using s'(1) a tk tb by (intro exI [of _ s']) (simp add: insert_root_space_def kept_def)
qed

lemma spaces_ok_inserts:
  assumes "spaces_ok s t tab qs" "\<forall>p\<in>set ps. fresh_page s p" "distinct (qs @ ps)" "length (qs @ ps) \<le> 512"
  shows "\<exists>s'. foldm (insert_root_space t) ps s = Some s' \<and> spaces_ok s' t tab (qs @ ps) \<and>
    (\<forall>pt. pt \<noteq> tab \<longrightarrow> tables s' pt = tables s pt) \<and> kept t s s'"
  using assms
proof (induction ps arbitrary: s qs)
  case (Cons p ps)
  from spaces_ok_insert [OF Cons.prems(1), of p] Cons.prems obtain s1 where
    s1: "insert_root_space t p s = Some s1" "spaces_ok s1 t tab (qs @ [p])" "\<forall>q. q \<noteq> p \<and> fresh_page s q \<longrightarrow> fresh_page s1 q"
      "\<forall>pt. pt \<noteq> tab \<longrightarrow> tables s1 pt = tables s pt" "kept t s s1" by auto
  have "\<forall>q\<in>set ps. fresh_page s1 q" using Cons.prems(2,3) s1(3) by auto
  from Cons.IH [OF s1(2) this] Cons.prems(3,4) s1 kept_trans [OF s1(5)] show ?case by auto
qed (simp add: kept_def)

lemma init_task_spaces:
  assumes "can_init t cs R t0 t1 s"
  shows "\<exists>s'. init_task t cs R [t0, t1] s = Some s' \<and> spaces_ok s' t t0 [cs] \<and> (\<forall>q. q \<noteq> cs \<and> fresh_page s q \<longrightarrow> fresh_page s' q) \<and>
    (\<forall>i<128. tables s' R i = zero_pte) \<and> get_next_page (tables s' R 192) = t1 \<and> current_task s' = current_task s \<and> mem s' = mem s \<and> (\<forall>u. u \<noteq> t \<longrightarrow> tasks s' u = tasks s u) \<and>
    t_state (tasks s' t) = suspended \<and> t_root_page_table (tasks s' t) = R \<and> t_context (tasks s' t) = payload_context return_to_user_mode (t + PAGE_SIZE)"
proof -
  note c = assms [unfolded can_init_def]
  have n: "R \<noteq> 0" "t0 \<noteq> 0" "t1 \<noteq> 0" "t \<noteq> 0" using c mapped_page_nonnull by blast+
  obtain s' where i: "init_task t cs R [t0, t1] s = Some s'" and st: "t_state (tasks s' t) = suspended" "t_num_cap_space (tasks s' t) = 1"
    "t_root_page_table (tasks s' t) = R" "t_lock (tasks s' t) = free_lock"
    and fl: "free_list s' t (cap_space_slots cs 1)" and sp: "space_at s' t 0 cs"
    and tb: "tables s' = tables (upd_pte t0 0 (\<lambda>pte. enable (set_flags cap_space_flags (set_next_page cs pte))) (with_tables t R t0 t1 s))"
    and fr: "spaces s' = (spaces s)(cs := \<lparr>meta_map = cs, meta_task = t, meta_space_index = 0\<rparr>)" "current_task s' = current_task s" "mem s' = mem s"
      "\<forall>a. get_cap_space a \<noteq> cs \<and> slot_task s a \<noteq> t \<longrightarrow> slots s' a = slots s a" "\<forall>u. u \<noteq> t \<longrightarrow> tasks s' u = tasks s u"
      "t_context (tasks s' t) = payload_context return_to_user_mode (t + PAGE_SIZE)"
    using init_task_effect [OF assms] by blast
  have t: "tables s' R 192 = enable (set_flags cap_space_flags (set_next_page t1 zero_pte))" "tables s' t1 0 = enable (set_next_page t0 (set_flags no_flags zero_pte))"
    "i \<noteq> 0 \<Longrightarrow> tables s' t0 i = zero_pte" for i
    using c by (auto simp: tb with_tables_def zero_page_table_def)
  have "walk_enabled R (space_va (of_nat k)) [2, 1] s' = Some t0" if "k < 512" for k
  proof -
    have u: "unat (of_nat k :: u64) = k" "(of_nat k :: u64) = of_nat k" using that by (simp_all add: unat_of_nat_u64)
    have "get_page_table_index (space_va (of_nat k)) 1 = 0"
      using space_va_index(2) [of "of_nat k"] u that by (intro word_unatI) simp
    then show ?thesis using space_va_walk [of "of_nat k"] space_va_index(1) [of "of_nat k"] u that n c mapped_page_pte [of t1] mapped_page_pte [of t0]
      by (simp add: walk_enabled.simps t)
  qed
  moreover have "\<not> is_enabled (tables s' t0 (get_page_table_index (space_va (of_nat k)) 0))" if "k < 512" "1 \<le> k" for k
  proof -
    have "get_page_table_index (space_va (of_nat 0)) 0 = 0" using cap_base_walk(3,5) space_va_walk [of 0 0] by simp
    then show ?thesis using space_index_inj [of k 0] that t(3) by simp
  qed
  moreover have "alive s' t" using n(4) st by (simp add: alive_def task_ok_def lock_free_for_def)
  ultimately have "spaces_ok s' t t0 [cs]" using fl sp c st n by (simp add: spaces_ok_def space_slots_def fr(1))
  moreover have "fresh_page s' q" if "q \<noteq> cs" "fresh_page s q" for q
    by (rule fresh_page_kept [of s q cs t]) (use fr that n(4) in simp_all)
  moreover have "tables s' R i = zero_pte" if "i < 128" for i
  proof -
    have "i \<noteq> 192" "unat i < 128" using that by (auto simp: word_less_nat_alt)
    then show ?thesis using c by (auto simp: tb with_tables_def kernel_table_def zero_page_table_def)
  qed
  ultimately show ?thesis using i fr st c mapped_page_pte [of t1] by (intro exI [of _ s']) (simp add: t(1))
qed

subsection \<open>Slots and descriptors\<close>

lemma length_space_slots: "qs \<noteq> [] \<Longrightarrow> length (space_slots qs) = 101 * length qs - 1"
proof (induction qs rule: rev_induct)
  case (snoc p qs)
  have "length (cap_space_slots p f) = 101 - f" for f by (simp add: cap_space_slots_def)
  moreover have "space_slots [] = []" by (simp add: space_slots_def)
  moreover have "0 < length qs" if "qs \<noteq> []" using that by simp
  ultimately show ?case using snoc by (cases "qs = []") (simp_all add: space_slots_append space_slots_append [of "[]", simplified])
qed simp

lemma space_slots_in:
  assumes "x \<in> set (space_slots qs)"
  obtains i j where "i < length qs" "j < 101" "x = slot_addr (qs ! i) (of_nat j)"
proof -
  from assms obtain i where i: "i < length qs" "x \<in> set (cap_space_slots (qs ! i) (if i = 0 then 1 else 0))"
    unfolding space_slots_def by auto
  then obtain j where "j < 101" "x = slot_addr (qs ! i) (of_nat j)" by (auto simp: cap_space_slots_def)
  with i(1) that show ?thesis by blast
qed

lemma desc_of_space_slot:
  assumes "spaces_ok s t tab qs" "k < length qs" "j < 101"
  shows "slot_desc s (slot_addr (qs ! k) (of_nat j)) = 101 * of_nat k + of_nat j"
proof -
  note o = assms(1) [unfolded spaces_ok_def]
  have pg: "is_page (qs ! k)" using o assms(2) mapped_page_is_page by blast
  have "get_cap_slot_index (slot_addr (qs ! k) (of_nat j)) s = Some (101 * of_nat k + of_nat j)"
    using index_of_slot [OF pg assms(3), of s] o assms(2) by simp
  then show ?thesis using get_cap_slot_index_desc [of _ s] slot_addr_nonnull [OF pg assms(3)] by simp
qed

lemma spaces_ok_lookup:
  assumes ok: "spaces_ok s t tab qs" and i: "inserted t cs (space_slots qs) (tables s) s s'" and x: "x \<in> set (space_slots qs)"
    and c: "cap_at s' x \<noteq> NullCap"
  shows "lookup_cap t (slot_desc s x) s' = Some (x, s')"
proof -
  note o = ok [unfolded spaces_ok_def] and d = insertedD [OF i]
  obtain k j where k: "k < length qs" "j < 101" "x = slot_addr (qs ! k) (of_nat j)" using space_slots_in [OF x] .
  have e: "slot_desc s x = 101 * of_nat k + of_nat j" using desc_of_space_slot [OF ok k(1,2)] k(3) by simp
  have "space_at s t (of_nat k) (qs ! k)" using o k(1) by blast
  then have "space_at s' t (of_nat k) (qs ! k)" using d(1,5) walk_check_cong [of s' s] by (simp add: space_at_def)
  moreover have "alive s' t" using o d(6) by blast
  moreover have "k < unat (t_num_cap_space (tasks s t))" using o k(1) by simp
  moreover from this have "k < 262144" using unat_18_less [of "t_num_cap_space (tasks s t)"] by linarith
  then have "unat (of_nat k :: u64) = k" by (simp add: unat_of_nat_u64)
  ultimately show ?thesis using lookup_cap_slot [of s' t "of_nat k" "qs ! k" j] k(2,3) c d(7) e by simp
qed

subsection \<open>The sequence of insertions\<close>

text \<open>
  A run that has stored the capabilities \<open>cs\<close> in the first of the free slots \<open>xs\<close> of a live task goes on with the
  next slot.
\<close>

definition stored :: "addr \<Rightarrow> capability_t list \<Rightarrow> addr list \<Rightarrow> kstate \<Rightarrow> kstate \<Rightarrow> bool" where
  "stored t cs xs s s' \<longleftrightarrow> alive s t \<and> free_list s t xs \<and> inserted t cs xs (tables s) s s'"

lemma stored_start: "alive s t \<Longrightarrow> free_list s t xs \<Longrightarrow> stored t [] xs s s"
  by (simp add: stored_def inserted_def)

lemma stored_next:
  assumes "stored t cs xs s s1" "length cs < length xs"
  shows "\<exists>s'. insert_root_cap t c s1 = Some (xs ! length cs, s') \<and> get_cap_slot_index (xs ! length cs) s' = Some (slot_desc s (xs ! length cs)) \<and>
    stored t (cs @ [c]) xs s s'"
proof -
  have al: "alive s t" and fl: "free_list s t xs" and i: "inserted t cs xs (tables s) s s1" using assms(1) by (simp_all add: stored_def)
  note d = insertedD [OF i] and ch = free_listD(1) [OF fl]
  have e: "drop (length cs) xs = xs ! length cs # drop (Suc (length cs)) xs" using assms(2) by (simp add: Cons_nth_drop_Suc)
  obtain s' where s': "insert_root_cap t c s1 = Some (xs ! length cs, s')" "inserted t [c] (drop (length cs) xs) (tables s) s1 s'"
    using insert_root_cap_inserted [OF d(2) [unfolded e], of c] al d(1,6) e by auto
  have i': "inserted t (cs @ [c]) xs (tables s) s s'"
    using inserted_trans [OF i s'(2)] assms(2) chain_distinct [OF ch] by simp
  have "xs ! length cs \<noteq> 0" using chain_null [OF ch] assms(2) nth_mem by metis
  then show ?thesis using s'(1) i' al fl get_cap_slot_index_desc insertedD(3) [OF i'] by (simp add: stored_def)
qed

lemma stored_take:
  assumes "stored t (take k cs) xs s s1" "k < length cs" "length cs \<le> length xs"
  obtains s' where "insert_root_cap t (cs ! k) s1 = Some (xs ! k, s')" "get_cap_slot_index (xs ! k) s' = Some (slot_desc s (xs ! k))"
    "stored t (take (Suc k) cs) xs s s'"
proof -
  have "length (take k cs) = k" "length (take k cs) < length xs" using assms(2,3) by simp_all
  with stored_next [OF assms(1), of "cs ! k"] that assms(2) show ?thesis by (auto simp: take_Suc_conv_app_nth)
qed

definition space_cap :: "addr \<Rightarrow> capability_t" where
  "space_cap p = CapSpaceCap \<lparr>cs_used = True, cs_space = p\<rparr>"

lemma stored_spaces:
  assumes "stored t cs xs s s1" "length cs + length qs \<le> length xs" "0 \<notin> set qs"
  shows "\<exists>s'. foldm (insert_root_space_cap t) qs s1 = Some s' \<and> stored t (cs @ map space_cap qs) xs s s'"
  using assms
proof (induction qs arbitrary: cs s1)
  case (Cons q qs)
  from stored_next [OF Cons.prems(1), of "space_cap q"] Cons.prems(2) obtain s2 where
    s2: "insert_root_cap t (space_cap q) s1 = Some (xs ! length cs, s2)" "stored t (cs @ [space_cap q]) xs s s2" by auto
  from Cons.IH [OF s2(2)] Cons.prems(2,3) s2(1) show ?case
    by (simp add: insert_root_space_cap_def make_cap_space_cap_def space_cap_def)
qed simp

text \<open>The first capabilities: the task, its spaces, its root page table and the two tables of the capability area.\<close>

definition first_caps :: "boot_info_t \<Rightarrow> capability_t list" where
  "first_caps b = TaskCap \<lparr>tc_killable = True, tc_switchable = True, tc_suspendable = True, tc_resumable = True, tc_register_gettable = True,
       tc_register_settable = True, tc_kill_notifiable = True, tc_task = b_root_task b\<rparr> # map space_cap (b_cap_spaces b) @
     [PageTableCap \<lparr>pt_mapped = True, pt_level = 2, pt_virt_addr_base = 0, pt_table = b_root_page_table b, pt_parent_table = 0\<rparr>,
      PageTableCap \<lparr>pt_mapped = True, pt_level = 0, pt_virt_addr_base = ucast CONFIG_CAPABILITY_SPACE_BASE, pt_table = b_cap_space_page_tables b ! 0,
        pt_parent_table = b_cap_space_page_tables b ! 1\<rparr>,
      PageTableCap \<lparr>pt_mapped = True, pt_level = 1, pt_virt_addr_base = ucast CONFIG_CAPABILITY_SPACE_BASE, pt_table = b_cap_space_page_tables b ! 1,
        pt_parent_table = b_root_page_table b\<rparr>]"

lemma make_first_caps:
  assumes "b_root_task b \<noteq> 0" "b_root_page_table b \<noteq> 0" "b_cap_space_page_tables b ! 0 \<noteq> 0" "b_cap_space_page_tables b ! 1 \<noteq> 0"
  shows "make_task_cap all_task_flags (b_root_task b) = Some (first_caps b ! 0)"
    "make_page_table_cap (b_root_page_table b) True MAX_PAGE_TABLE_LEVEL 0 0 = Some (first_caps b ! (length (b_cap_spaces b) + 1))"
    "make_page_table_cap (b_cap_space_page_tables b ! 0) True 0 CONFIG_CAPABILITY_SPACE_BASE (b_cap_space_page_tables b ! 1) =
      Some (first_caps b ! (length (b_cap_spaces b) + 2))"
    "make_page_table_cap (b_cap_space_page_tables b ! 1) True 1 CONFIG_CAPABILITY_SPACE_BASE (b_root_page_table b) =
      Some (first_caps b ! (length (b_cap_spaces b) + 3))"
  using assms
  by (simp_all add: first_caps_def nth_append make_task_cap_def make_page_table_cap_def all_task_flags_def task_cap_flag_defs config_defs
    flip: numeral_2_eq_2)

subsection \<open>Properties\<close>

text \<open>
  The objects \<^verbatim>\<open>boot_info\<close> names are fresh: an unused task, empty pages for the capability spaces and different
  pages for the root and the two inner page tables.
\<close>

definition can_boot :: "boot_info_t \<Rightarrow> kstate \<Rightarrow> bool" where
  "can_boot b s \<longleftrightarrow> (\<exists>p ps t0 t1. b_cap_spaces b = p # ps \<and> b_cap_space_page_tables b = [t0, t1] \<and>
     can_init (b_root_task b) p (b_root_page_table b) t0 t1 s \<and> (\<forall>q\<in>set ps. fresh_page s q) \<and> distinct (p # ps) \<and> length (p # ps) \<le> 512)"

definition root_task_made :: "boot_info_t \<Rightarrow> kstate \<Rightarrow> kstate \<Rightarrow> bool" where
  "root_task_made b s s' \<longleftrightarrow> current_task s' = b_root_task b \<and> mem s' = mem s \<and> (\<forall>u. u \<noteq> b_root_task b \<longrightarrow> tasks s' u = tasks s u) \<and>
     t_state (tasks s' (b_root_task b)) = suspended \<and> t_root_page_table (tasks s' (b_root_task b)) = b_root_page_table b \<and>
     t_context (tasks s' (b_root_task b)) = payload_context return_to_user_mode (b_root_task b + PAGE_SIZE)"

lemma root_task_made_kept: "root_task_made b s s1 \<Longrightarrow> kept (b_root_task b) s1 s2 \<Longrightarrow> root_task_made b s s2"
  by (simp add: root_task_made_def kept_def)

lemma root_spaces:
  assumes "can_boot b s"
  obtains t0 t1 s1 s2 where "b_cap_space_page_tables b = [t0, t1]" "b_root_task b \<noteq> 0" "b_root_page_table b \<noteq> 0" "t0 \<noteq> 0" "t1 \<noteq> 0"
    "b_cap_spaces b \<noteq> []" "init_task (b_root_task b) (b_cap_spaces b ! 0) (b_root_page_table b) (b_cap_space_page_tables b) (s\<lparr>current_task := b_root_task b\<rparr>) = Some s1"
    "foldm (insert_root_space (b_root_task b)) (drop 1 (b_cap_spaces b)) s1 = Some s2" "spaces_ok s2 (b_root_task b) t0 (b_cap_spaces b)"
    "\<forall>i<128. tables s2 (b_root_page_table b) i = zero_pte" "root_task_made b s s2" "get_next_page (tables s2 (b_root_page_table b) 192) = t1"
proof -
  let ?r = "b_root_task b" and ?R = "b_root_page_table b" and ?s = "s\<lparr>current_task := b_root_task b\<rparr>"
  obtain p ps t0 t1 where b: "b_cap_spaces b = p # ps" "b_cap_space_page_tables b = [t0, t1]" and ci: "can_init ?r p ?R t0 t1 s"
    and fp: "\<forall>q\<in>set ps. fresh_page s q" and di: "distinct (p # ps)" "length (p # ps) \<le> 512"
    using assms by (auto simp: can_boot_def)
  have n: "?r \<noteq> 0" "?R \<noteq> 0" "t0 \<noteq> 0" "t1 \<noteq> 0" "?R \<noteq> t0" using ci mapped_page_nonnull by (auto simp: can_init_def)
  have "can_init ?r p ?R t0 t1 ?s" using ci by (simp add: can_init_def)
  from init_task_spaces [OF this] obtain s1 where s1: "init_task ?r p ?R [t0, t1] ?s = Some s1" "spaces_ok s1 ?r t0 [p]"
    "\<forall>q. q \<noteq> p \<and> fresh_page ?s q \<longrightarrow> fresh_page s1 q" "\<forall>i<128. tables s1 ?R i = zero_pte" "root_task_made b s s1" "get_next_page (tables s1 ?R 192) = t1"
    by (auto simp: root_task_made_def)
  have "\<forall>q\<in>set ps. fresh_page s1 q" using s1(3) fp di(1) by (auto simp: fresh_page_def)
  from spaces_ok_inserts [OF s1(2) this] di obtain s2 where "foldm (insert_root_space ?r) ps s1 = Some s2" "spaces_ok s2 ?r t0 (p # ps)"
    "\<forall>pt. pt \<noteq> t0 \<longrightarrow> tables s2 pt = tables s1 pt" "root_task_made b s s2" using root_task_made_kept [OF s1(5)] by auto
  with that [of t0 t1 s1 s2] b n s1(1,4,6) show ?thesis by simp
qed

lemma spaces_nonnull: "spaces_ok s t tab qs \<Longrightarrow> 0 \<notin> set qs"
  using mapped_page_nonnull by (auto simp: spaces_ok_def in_set_conv_nth)

lemma store_first_caps:
  assumes b: "b_cap_space_page_tables b = [t0, t1]" "b_root_task b \<noteq> 0" "b_root_page_table b \<noteq> 0" "t0 \<noteq> 0" "t1 \<noteq> 0" "0 \<notin> set (b_cap_spaces b)"
    and run: "init_task (b_root_task b) (b_cap_spaces b ! 0) (b_root_page_table b) (b_cap_space_page_tables b) (s\<lparr>current_task := b_root_task b\<rparr>) = Some s1"
      "foldm (insert_root_space (b_root_task b)) (drop 1 (b_cap_spaces b)) s1 = Some s2"
    and s2: "alive s2 (b_root_task b)" "free_list s2 (b_root_task b) xs" and len: "n = length (b_cap_spaces b)" "n + 4 \<le> length xs"
  shows "\<exists>s'. setup_root_task b (bi, s) = Some (bi\<lparr>bi_root_task_cap := slot_desc s2 (xs ! 0), bi_root_page_table_cap := slot_desc s2 (xs ! (n + 1)),
      bi_cap_space_page_table_caps := (bi_cap_space_page_table_caps bi)(0 := slot_desc s2 (xs ! (n + 2)), 1 := slot_desc s2 (xs ! (n + 3)))\<rparr>, s') \<and>
    inserted (b_root_task b) (first_caps b) xs (tables s2) s2 s'"
proof -
  let ?r = "b_root_task b" and ?c = "first_caps b"
  have lc: "length ?c = n + 4" "length ?c \<le> length xs" using len by (simp_all add: first_caps_def)
  have tk: "take 1 ?c @ map space_cap (b_cap_spaces b) = take (n + 1) ?c" by (simp add: first_caps_def len(1))
  note mk = make_first_caps [of b, folded len(1), unfolded b(1), simplified, OF b(2-5)]
  have "stored ?r (take 0 ?c) xs s2 s2" using stored_start [OF s2] by simp
  then obtain s3 where s3: "insert_root_cap ?r (?c ! 0) s2 = Some (xs ! 0, s3)" "get_cap_slot_index (xs ! 0) s3 = Some (slot_desc s2 (xs ! 0))"
    and st3: "stored ?r (take 1 ?c) xs s2 s3" by (rule stored_take) (use lc in simp_all)
  obtain s4 where s4: "foldm (insert_root_space_cap ?r) (b_cap_spaces b) s3 = Some s4" and st4: "stored ?r (take (n + 1) ?c) xs s2 s4"
    using stored_spaces [OF st3, of "b_cap_spaces b"] len b(6) lc unfolding tk by auto
  obtain s5 where s5: "insert_root_cap ?r (?c ! (n + 1)) s4 = Some (xs ! (n + 1), s5)" "get_cap_slot_index (xs ! (n + 1)) s5 = Some (slot_desc s2 (xs ! (n + 1)))"
    and st5: "stored ?r (take (Suc (n + 1)) ?c) xs s2 s5" using st4 by (rule stored_take) (use lc in simp_all)
  obtain s6 where s6: "insert_root_cap ?r (?c ! (n + 2)) s5 = Some (xs ! (n + 2), s6)" "get_cap_slot_index (xs ! (n + 2)) s6 = Some (slot_desc s2 (xs ! (n + 2)))"
    and st6: "stored ?r (take (Suc (n + 2)) ?c) xs s2 s6" by (rule stored_take [of ?r "n + 2" ?c xs s2 s5]) (use st5 lc in simp_all)
  obtain s7 where s7: "insert_root_cap ?r (?c ! (n + 3)) s6 = Some (xs ! (n + 3), s7)" "get_cap_slot_index (xs ! (n + 3)) s7 = Some (slot_desc s2 (xs ! (n + 3)))"
    and st7: "stored ?r (take (Suc (n + 3)) ?c) xs s2 s7" by (rule stored_take [of ?r "n + 3" ?c xs s2 s6]) (use st6 lc in \<open>simp_all add: numeral_3_eq_3\<close>)
  have "inserted ?r ?c xs (tables s2) s2 s7" using st7 lc by (simp add: stored_def)
  moreover have "[0..<2] = [0, 1 :: nat]" by (simp add: upt_rec)
  ultimately show ?thesis using run mk s3 s4 s5 s6 s7
    by (intro exI [of _ s7]) (simp add: setup_root_task_def insert_root_table_cap_def b(1) numeral_2_eq_2 [symmetric] del: take_Suc_Cons)
qed

lemma setup_root_task_state:
  assumes "can_boot b s" "n = length (b_cap_spaces b)" "xs = space_slots (b_cap_spaces b)"
  shows "\<exists>bi' s2 s'. setup_root_task b (bi, s) = Some (bi', s') \<and> root_task_made b s s' \<and> n + 4 \<le> length xs \<and>
    spaces_ok s2 (b_root_task b) (b_cap_space_page_tables b ! 0) (b_cap_spaces b) \<and>
    get_next_page (tables s2 (b_root_page_table b) 192) = b_cap_space_page_tables b ! 1 \<and>
    t_root_page_table (tasks s2 (b_root_task b)) = b_root_page_table b \<and>
    inserted (b_root_task b) (first_caps b) xs (tables s2) s2 s' \<and> alive s' (b_root_task b) \<and>
    (\<forall>i<128. tables s' (b_root_page_table b) i = zero_pte) \<and>
    (\<forall>k<n + 4. lookup_cap (b_root_task b) (slot_desc s2 (xs ! k)) s' = Some (xs ! k, s')) \<and>
    bi_root_task_cap bi' = slot_desc s2 (xs ! 0) \<and> bi_root_page_table_cap bi' = slot_desc s2 (xs ! (n + 1)) \<and>
    bi_cap_space_page_table_caps bi' 0 = slot_desc s2 (xs ! (n + 2)) \<and> bi_cap_space_page_table_caps bi' 1 = slot_desc s2 (xs ! (n + 3))"
proof -
  let ?r = "b_root_task b" and ?c = "first_caps b"
  obtain t0 t1 s1 s2 where b: "b_cap_space_page_tables b = [t0, t1]" "?r \<noteq> 0" "b_root_page_table b \<noteq> 0" "t0 \<noteq> 0" "t1 \<noteq> 0" "b_cap_spaces b \<noteq> []"
    and run: "init_task ?r (b_cap_spaces b ! 0) (b_root_page_table b) (b_cap_space_page_tables b) (s\<lparr>current_task := ?r\<rparr>) = Some s1"
      "foldm (insert_root_space ?r) (drop 1 (b_cap_spaces b)) s1 = Some s2"
    and ok: "spaces_ok s2 ?r t0 (b_cap_spaces b)" and s2: "\<forall>i<128. tables s2 (b_root_page_table b) i = zero_pte" "root_task_made b s s2" "get_next_page (tables s2 (b_root_page_table b) 192) = t1"
    using root_spaces [OF assms(1)] .
  have len: "n + 4 \<le> length xs" using length_space_slots [OF b(6)] b(6) assms(2,3) by (cases "b_cap_spaces b") simp_all
  have al: "alive s2 ?r" "free_list s2 ?r xs" using ok assms(3) by (simp_all add: spaces_ok_def)
  from store_first_caps [OF b(1-5) spaces_nonnull [OF ok] run al assms(2) len, of bi] obtain bi' s' where
    e: "setup_root_task b (bi, s) = Some (bi', s')" and bi': "bi_root_task_cap bi' = slot_desc s2 (xs ! 0)" "bi_root_page_table_cap bi' = slot_desc s2 (xs ! (n + 1))"
      "bi_cap_space_page_table_caps bi' 0 = slot_desc s2 (xs ! (n + 2))" "bi_cap_space_page_table_caps bi' 1 = slot_desc s2 (xs ! (n + 3))"
    and i: "inserted ?r ?c xs (tables s2) s2 s'" by (auto simp: fun_upd_def)
  note d = insertedD [OF i]
  have lc: "length ?c = n + 4" by (simp add: first_caps_def assms(2))
  have "lookup_cap ?r (slot_desc s2 (xs ! k)) s' = Some (xs ! k, s')" if "k < n + 4" for k
  proof (rule spaces_ok_lookup [OF ok i [unfolded assms(3)]])
    show "xs ! k \<in> set (space_slots (b_cap_spaces b))" using that len by (simp add: assms(3))
    have "?c ! k \<noteq> NullCap" using that by (auto simp: first_caps_def assms(2) nth_append nth_Cons space_cap_def split: nat.splits)
    then show "cap_at s' (xs ! k) \<noteq> NullCap" using d(9) [of k] that lc by simp
  qed
  moreover have "t_root_page_table (tasks s2 ?r) = b_root_page_table b" using s2(2) by (simp add: root_task_made_def)
  ultimately show ?thesis using e i ok bi' len al d(1,6) s2(1,3) b(1) root_task_made_kept [OF s2(2) inserted_kept [OF i]]
    by (intro exI [of _ bi'] exI [of _ s2] exI [of _ s']) simp
qed

text \<open>
  The root task begins with the capabilities of its own parts. On fresh objects \<^verbatim>\<open>setup_root_task\<close> returns; the
  root task is current, its spaces are all inserted, and the first free slots hold, in order, the capabilities of the task with all
  rights, of its capability spaces, of its root page table and of the two tables of the capability area. The descriptors in the
  boot information lead \<^verbatim>\<open>lookup_cap\<close> to these slots, the remaining slots are free, and the user half of the
  address space is empty. The task runs from here on although its state is suspended.
\<close>

theorem setup_root_task_complete:
  assumes "can_boot b s" "n = length (b_cap_spaces b)" "xs = space_slots (b_cap_spaces b)"
  shows "\<exists>bi' s'. setup_root_task b (bi, s) = Some (bi', s') \<and> current_task s' = b_root_task b \<and> alive s' (b_root_task b) \<and>
    t_state (tasks s' (b_root_task b)) = suspended \<and> t_root_page_table (tasks s' (b_root_task b)) = b_root_page_table b \<and>
    free_list s' (b_root_task b) (drop (n + 4) xs) \<and> (\<forall>i<n + 4. cap_at s' (xs ! i) = first_caps b ! i) \<and>
    lookup_cap (b_root_task b) (bi_root_task_cap bi') s' = Some (xs ! 0, s') \<and>
    lookup_cap (b_root_task b) (bi_root_page_table_cap bi') s' = Some (xs ! (n + 1), s') \<and>
    (\<forall>l<2. lookup_cap (b_root_task b) (bi_cap_space_page_table_caps bi' l) s' = Some (xs ! (n + 2 + l), s')) \<and>
    (\<forall>i<128. tables s' (b_root_page_table b) i = zero_pte) \<and> mem s' = mem s"
proof -
  let ?r = "b_root_task b"
  from setup_root_task_state [OF assms, of bi] obtain bi' s2 s' where e: "setup_root_task b (bi, s) = Some (bi', s')" and m: "root_task_made b s s'"
    and i: "inserted ?r (first_caps b) xs (tables s2) s2 s'" and al: "alive s' ?r" and z: "\<forall>i<128. tables s' (b_root_page_table b) i = zero_pte"
    and lk: "\<And>k. k < n + 4 \<Longrightarrow> lookup_cap ?r (slot_desc s2 (xs ! k)) s' = Some (xs ! k, s')"
    and bi': "bi_root_task_cap bi' = slot_desc s2 (xs ! 0)" "bi_root_page_table_cap bi' = slot_desc s2 (xs ! (n + 1))"
      "bi_cap_space_page_table_caps bi' 0 = slot_desc s2 (xs ! (n + 2))" "bi_cap_space_page_table_caps bi' 1 = slot_desc s2 (xs ! (n + 3))" by auto
  have "length (first_caps b) = n + 4" by (simp add: first_caps_def assms(2))
  moreover have "lookup_cap ?r (bi_cap_space_page_table_caps bi' l) s' = Some (xs ! (n + 2 + l), s')" if "l < 2" for l
    using that lk [of "n + 2"] lk [of "n + 3"] bi' by (cases l) (simp_all add: numeral_3_eq_3)
  ultimately show ?thesis using e al m z insertedD(2,9) [OF i] lk [of 0] lk [of "n + 1"] bi'
    by (intro exI [of _ bi'] exI [of _ s']) (simp add: root_task_made_def)
qed

subsection \<open>An example\<close>

text \<open>A machine with two capability spaces, one page of payload, one page of stack and the device tree of the theory \<open>Dtb\<close>.\<close>

definition demo_boot :: boot_info_t where
  "demo_boot = \<lparr>b_core_id = 0, b_cap_count = 0, b_root_task = 0x2000104000, b_root_page_table = 0x2000101000,
     b_cap_spaces = [0x2000105000, 0x2000106000], b_payload_page_tables = [0x2000107000, 0x2000108000],
     b_stack_page_tables = [0x2000109000, 0x200010a000], b_cap_space_page_tables = [0x2000103000, 0x2000102000], b_dtb = 0x2000001000\<rparr>"

definition demo_load :: layout where
  "demo_load = \<lparr>kernel_start = 0x2000081000, kernel_end = 0x2000082000, payload_start = 0x2000083000, payload_end = 0x2000084000,
     root_task_stack_start = 0x2000084000, root_task_stack_end = 0x2000085000\<rparr>"

definition demo_boot_abi :: boot_abi where
  "demo_boot_abi = \<lparr>ba_payload_base = 0xa0000000, ba_root_boot_info_size = 200, ba_cap_size = 8, ba_bytes = (\<lambda>bi i. of_nat i),
     ba_LAST_REGISTER = 33, ba_REG_PROGRAM_COUNTER = 31, ba_REG_STACK_POINTER = 1, ba_REG_ARG_0 = 9\<rparr>"

definition zero_boot_info :: root_boot_info_t where
  "zero_boot_info = \<lparr>bi_mem_caps_offset = 0, bi_num_mem_caps = 0, bi_caps = (\<lambda>_. 0), bi_num_virt_page_caps = 0, bi_virt_page_caps_offset = 0,
     bi_root_task_cap = 0, bi_root_page_table_cap = 0, bi_cap_space_page_table_caps = (\<lambda>_. 0), bi_page_table_caps = (\<lambda>_. 0),
     bi_stack_page_table_caps = (\<lambda>_. 0), bi_root_task_end_address = 0, bi_dtb_start = 0, bi_dtb_end = 0, bi_num_dtb_vp_caps = 0,
     bi_dtb_vp_caps_offset = 0\<rparr>"

lemma demo_mapped_pages [simp]:
  "mapped_page 0x2000101000" "mapped_page 0x2000102000" "mapped_page 0x2000103000" "mapped_page 0x2000105000" "mapped_page 0x2000106000"
  "mapped_page 0x2000107000" "mapped_page 0x2000108000" "mapped_page 0x2000109000" "mapped_page 0x200010a000" "mapped_page 0x2000083000" "mapped_page 0x2000084000"
  by (simp_all add: mapped_page_def as_phys_def config_defs)

lemma demo_can_boot: "can_boot demo_boot (zero_state\<lparr>mem := demo_fdt\<rparr>)"
  by (simp add: can_boot_def demo_boot_def can_init_def fresh_page_def zero_state_def zero_task_def)

lemma demo_root_state:
  "\<exists>s :: kstate. alive s 0x2000104000 \<and> free_list s 0x2000104000 (space_slots [0x2000105000, 0x2000106000]) \<and>
     t_root_page_table (tasks s 0x2000104000) = 0x2000101000 \<and> (\<forall>i<128. tables s 0x2000101000 i = zero_pte) \<and> mem s = demo_fdt"
proof (rule root_spaces [OF demo_can_boot])
  fix t0 t1 s1 and s2 :: kstate
  assume "spaces_ok s2 (b_root_task demo_boot) t0 (b_cap_spaces demo_boot)" "\<forall>i<128. tables s2 (b_root_page_table demo_boot) i = zero_pte"
    "root_task_made demo_boot (zero_state\<lparr>mem := demo_fdt\<rparr>) s2"
  then show ?thesis by (intro exI [of _ s2]) (simp add: demo_boot_def spaces_ok_def root_task_made_def)
qed

theorem setup_root_task_complete_witness:
  "\<exists>bi' s'. setup_root_task demo_boot (zero_boot_info, zero_state\<lparr>mem := demo_fdt\<rparr>) = Some (bi', s') \<and> current_task s' = 0x2000104000 \<and>
    lookup_cap 0x2000104000 (bi_root_task_cap bi') s' = Some (space_slots [0x2000105000, 0x2000106000] ! 0, s') \<and>
    cap_at s' (space_slots [0x2000105000, 0x2000106000] ! 0) = first_caps demo_boot ! 0"
  using setup_root_task_complete [OF demo_can_boot refl refl, of zero_boot_info] by (auto simp: demo_boot_def)

theorem map_root_task_maps_witness:
  "\<exists>(s :: kstate) bi' s'. map_root_task demo_boot 0xa0000000 0x2000083000 0x2000084000 [0x2000107000, 0x2000108000] set_page_table_cap payload_flags
      (zero_boot_info, s) = Some (bi', s') \<and> user_addr s' 0x2000104000 0xa0000008 = Some 0x2000083008"
proof -
  obtain s :: kstate where s: "alive s 0x2000104000" "free_list s 0x2000104000 (space_slots [0x2000105000, 0x2000106000])"
    "t_root_page_table (tasks s 0x2000104000) = 0x2000101000" "\<forall>i<128. tables s 0x2000101000 i = zero_pte"
    using demo_root_state by blast
  have "get_page_table_index 0xa0000000 2 = 2" by (simp add: get_page_table_index_def get_page_size_bit_def drop_bit_eq_div)
  moreover have "in_table 0xa0000000 1" by (simp add: in_table_def)
  moreover have "0x2000084000 = 0x2000083000 + page_off 1" by (simp add: page_off_def)
  moreover have "1 + 2 \<le> length (space_slots [0x2000105000, 0x2000106000])" by (simp add: length_space_slots)
  ultimately obtain bi' s' where "map_root_task demo_boot 0xa0000000 0x2000083000 0x2000084000 [0x2000107000, 0x2000108000] set_page_table_cap payload_flags
      (zero_boot_info, s) = Some (bi', s')" "\<forall>i<4096. user_addr s' 0x2000104000 (0xa0000000 + of_nat i) = Some (0x2000083000 + of_nat i)"
    using map_root_task_maps [of demo_boot "0x2000107000" "0x2000108000" "0x2000083000" "0xa0000000" 1 "0x2000084000" s "space_slots [0x2000105000, 0x2000106000]"
        payload_flags set_page_table_cap zero_boot_info] s
    by (auto simp: demo_boot_def payload_flags_def as_phys_def config_defs)
  then show ?thesis by (intro exI [of _ s] exI [of _ bi'] exI [of _ s']) (auto dest: spec [of _ 8])
qed

theorem setup_root_task_payload_ready_witness:
  "\<exists>(s :: kstate) bi' s' sp. setup_root_task_payload demo_boot_abi demo_load demo_boot (zero_boot_info, s) = Some (bi', s') \<and>
    get_register 33 0x2000104000 31 s' = 0xa0000000 \<and> get_register 33 0x2000104000 1 s' = sp \<and> 16 dvd unat sp \<and>
    read_user_memory 0x2000104000 sp (get_root_boot_info_size demo_boot_abi bi') s' =
      Some (Some (map of_nat [0..<unat (get_root_boot_info_size demo_boot_abi bi')]))"
proof -
  obtain s :: kstate where s: "alive s 0x2000104000" "free_list s 0x2000104000 (space_slots [0x2000105000, 0x2000106000])"
    "t_root_page_table (tasks s 0x2000104000) = 0x2000101000" "\<forall>i<128. tables s 0x2000101000 i = zero_pte" "mem s = demo_fdt"
    using demo_root_state by blast
  have d: "\<exists>de. get_dtb_region demo_fdt 0x2000001000 = Some (0x1000, de) \<and> (unat (de - 0x1000) + 4095) div 4096 = 1"
    by (simp add: get_dtb_region_def fdt_magic_def fdt_totalsize_def load_u32_def byteswap_def demo_fdt_def demo_bytes_def FDT_HEADER_MAGIC_def as_phys_def config_defs)
  then obtain de where de: "get_dtb_region demo_fdt 0x2000001000 = Some (0x1000, de)" "(unat (de - 0x1000) + 4095) div 4096 = 1" by blast
  have "can_load demo_boot_abi demo_load demo_boot 1 1 1 0x1000 de (space_slots [0x2000105000, 0x2000106000]) zero_boot_info s"
    using s de unfolding can_load_def can_place_def loaded_size_def
    by (simp add: demo_boot_abi_def demo_load_def demo_boot_def length_space_slots in_table_def page_off_def as_phys_def config_defs
      get_root_boot_info_size_def zero_boot_info_def)
  from setup_root_task_payload_ready [OF this] show ?thesis by (auto simp: demo_boot_abi_def demo_boot_def)
qed

end
