(* ===== verification/Boot_Start.thy ===== *)
theory Boot_Start
  imports Boot_Setup
begin

text \<open>
  The boot of the kernel from end to end: \<^verbatim>\<open>arch_start\<close> runs the setup of the root task, of its memory capabilities, of its
  payload and of the idle task one after the other. The lemmas join what the theories \<open>Boot_Setup\<close>, \<open>Boot_Memory\<close> and \<open>Boot_Root\<close>
  show of each step; the boot information keeps a list of descriptors, and each of them leads the root task to the
  capability it stands for. The theorem that joins them is in the theory \<open>Spec2Isabelle\<close>.
\<close>

subsection \<open>Capabilities by descriptor\<close>

text \<open>The task finds the capability \<open>c\<close> under the descriptor \<open>d\<close>.\<close>

definition names :: "kstate \<Rightarrow> addr \<Rightarrow> u64 \<Rightarrow> capability_t \<Rightarrow> bool" where
  "names s t d c \<longleftrightarrow> (\<exists>x. lookup_cap t d s = Some (x, s) \<and> cap_at s x = c)"

lemma space_at_path:
  assumes "space_at s t (of_nat k) p" "walk_enabled (t_root_page_table (tasks s t)) (space_va (of_nat k)) [2, 1] s = Some tab"
    "get_next_page (tables s (t_root_page_table (tasks s t)) 192) = t1" "k < 512"
    "t_root_page_table (tasks s' t) = t_root_page_table (tasks s t)"
    "tables s' (t_root_page_table (tasks s t)) 192 = tables s (t_root_page_table (tasks s t)) 192" "tables s' t1 = tables s t1" "tables s' tab = tables s tab"
  shows "space_at s' t (of_nat k) p"
proof -
  have u: "unat (of_nat k :: u64) < 262144" using assms(4) by (simp add: unat_of_nat_u64)
  note w = space_va_walk [OF u] and i = space_va_index(1) [OF u]
  from assms(2) have "walk_check (t_root_page_table (tasks s t)) (space_va (of_nat k)) [2, 1, 0] s' =
    walk_check (t_root_page_table (tasks s t)) (space_va (of_nat k)) [2, 1, 0] s"
    using w i assms(3,6-8) by (auto simp: walk_enabled.simps walk_check.simps monad_simps split: if_splits)
  then show ?thesis using assms(1,5) by (simp add: space_at_def)
qed

lemma spaces_ok_names:
  assumes ok: "spaces_ok s t tab qs" "length qs \<le> 512" and nx: "get_next_page (tables s (t_root_page_table (tasks s t)) 192) = t1"
    and s': "alive s' t" "t_root_page_table (tasks s' t) = t_root_page_table (tasks s t)" "t_num_cap_space (tasks s' t) = t_num_cap_space (tasks s t)"
      "tables s' (t_root_page_table (tasks s t)) 192 = tables s (t_root_page_table (tasks s t)) 192" "tables s' t1 = tables s t1" "tables s' tab = tables s tab"
    and x: "x \<in> set (space_slots qs)" "cap_at s' x = c" "c \<noteq> NullCap"
  shows "names s' t (slot_desc s x) c"
proof -
  note o = ok(1) [unfolded spaces_ok_def]
  obtain k j where k: "k < length qs" "j < 101" "x = slot_addr (qs ! k) (of_nat j)" using space_slots_in [OF x(1)] .
  have k5: "k < 512" using k(1) ok(2) by simp
  have pg: "is_page (qs ! k)" using o k(1) mapped_page_is_page by blast
  have e: "slot_desc s x = 101 * of_nat k + of_nat j" using desc_of_space_slot [OF ok(1) k(1,2)] k(3) by simp
  have at: "space_at s' t (of_nat k) (qs ! k)"
    by (rule space_at_path [OF _ _ nx k5 s'(2,4,5,6)]) (use o k(1) k5 in blast)+
  have "unat (of_nat k :: u64) < unat (t_num_cap_space (tasks s' t))" using k(1) k5 o s'(3) by (simp add: unat_of_nat_u64)
  from lookup_cap_slot [OF s'(1) at this k(2)] show ?thesis using x(2,3) k(3) e by (simp add: names_def)
qed

subsection \<open>The memory capabilities\<close>

lemma insert_region_stored:
  assumes "stored t cs xs s s1" "length cs < length xs" "chunk_ok c"
  shows "\<exists>s'. insert_region_cap t d c (bi, s1) = Some (bi\<lparr>bi_caps := (bi_caps bi)(bi_mem_caps_offset bi + bi_num_mem_caps bi := slot_desc s (xs ! length cs)),
      bi_num_mem_caps := bi_num_mem_caps bi + 1\<rparr>, s') \<and> stored t (cs @ [chunk_cap d c]) xs s s'"
proof -
  obtain a k where c: "c = (a, k)" by (cases c)
  have mk: "make_memory_cap d (push_bit (unat k) 1) a = Some (chunk_cap d c)"
    using make_region_cap [of k a d] assms(3) by (simp add: chunk_ok_def chunk_cap_def c)
  from stored_next [OF assms(1,2), of "chunk_cap d c"] obtain s' where
    "insert_root_cap t (chunk_cap d c) s1 = Some (xs ! length cs, s')" "get_cap_slot_index (xs ! length cs) s' = Some (slot_desc s (xs ! length cs))"
    "stored t (cs @ [chunk_cap d c]) xs s s'" by blast
  then show ?thesis using mk by (auto simp: insert_region_cap_def insert_root_cap_def c monad_simps split: if_splits)
qed

lemma insert_regions_stored:
  assumes "stored t cs xs s s1" "length cs + length cds \<le> length xs" "\<forall>x\<in>set cds. chunk_ok (snd x)"
    "listed bi es" "bi_mem_caps_offset bi = 0" "bi_num_mem_caps bi = of_nat (length es)" "length es + length cds \<le> 2 ^ 64"
  shows "\<exists>f s'. foldm (\<lambda>(d, c). insert_region_cap t d c) cds (bi, s1) =
      Some (bi\<lparr>bi_caps := f, bi_num_mem_caps := of_nat (length es + length cds)\<rparr>, s') \<and>
    stored t (cs @ map (\<lambda>(d, c). chunk_cap d c) cds) xs s s' \<and>
    listed (bi\<lparr>bi_caps := f\<rparr>) (es @ map (slot_desc s) (take (length cds) (drop (length cs) xs)))"
  using assms
proof (induction cds arbitrary: cs s1 bi es)
  case Nil
  then show ?case by (intro exI [of _ "bi_caps bi"] exI [of _ s1]) (simp add: listed_def)
next
  case (Cons x cds)
  obtain d c where x: "x = (d, c)" by (cases x)
  let ?e = "slot_desc s (xs ! length cs)"
  let ?bi = "bi\<lparr>bi_caps := (bi_caps bi)(of_nat (length es) := ?e), bi_num_mem_caps := bi_num_mem_caps bi + 1\<rparr>"
  from insert_region_stored [OF Cons.prems(1), of c d bi] Cons.prems(2,3,5,6) x obtain s2 where
    s2: "insert_region_cap t d c (bi, s1) = Some (?bi, s2)" "stored t (cs @ [chunk_cap d c]) xs s s2" by auto
  have "listed ?bi (es @ [?e])" by (rule listed_snoc [OF Cons.prems(4)]) (use Cons.prems(7) in simp_all)
  from Cons.IH [OF s2(2) _ _ this] Cons.prems(2,3,5,6,7) obtain f s' where
    r: "foldm (\<lambda>(d, c). insert_region_cap t d c) cds (?bi, s2) = Some (?bi\<lparr>bi_caps := f, bi_num_mem_caps := of_nat (length (es @ [?e]) + length cds)\<rparr>, s')"
      "stored t ((cs @ [chunk_cap d c]) @ map (\<lambda>(d, c). chunk_cap d c) cds) xs s s'"
      "listed (?bi\<lparr>bi_caps := f\<rparr>) ((es @ [?e]) @ map (slot_desc s) (take (length cds) (drop (length (cs @ [chunk_cap d c])) xs)))"
    by auto
  have "take (length (x # cds)) (drop (length cs) xs) = xs ! length cs # take (length cds) (drop (Suc (length cs)) xs)"
    using Cons.prems(2) by (simp add: take_Suc_conv_app_nth Cons_nth_drop_Suc [symmetric])
  then show ?case using s2(1) r by (intro exI [of _ f] exI [of _ s']) (simp add: x listed_def)
qed

text \<open>What \<^verbatim>\<open>setup_cap_space\<close> leaves for the pieces \<open>cds\<close> of the memory.\<close>

lemma setup_cap_space_stored:
  assumes "boot_tree_ok l (mem s1) (b_dtb b) t" "cds = boot_pieces l (mem s1) (b_dtb b) t" "alive s1 (b_root_task b)"
    "free_list s1 (b_root_task b) xs" "length cds \<le> length xs" "length cds < 2 ^ 64"
  shows "\<exists>f s'. setup_cap_space l b (bi, s1) = Some (bi\<lparr>bi_mem_caps_offset := 0, bi_caps := f, bi_num_mem_caps := of_nat (length cds), bi_num_virt_page_caps := 0,
        bi_virt_page_caps_offset := of_nat (length cds)\<rparr>, s') \<and>
      stored (b_root_task b) (map (\<lambda>(d, c). chunk_cap d c) cds) xs s1 s' \<and>
      listed (bi\<lparr>bi_caps := f\<rparr>) (map (slot_desc s1) (take (length cds) xs))"
proof -
  have ok: "\<forall>x\<in>set cds. chunk_ok (snd x)" using setup_memory_chunks(1) [OF assms(1)] by (simp add: boot_chunks_def assms(2))
  have "listed (bi\<lparr>bi_num_mem_caps := 0, bi_mem_caps_offset := 0\<rparr>) []" by (simp add: listed_def)
  from insert_regions_stored [OF stored_start [OF assms(3,4)] _ ok this] assms(5,6) obtain f s' where
    "foldm (\<lambda>(d, c). insert_region_cap (b_root_task b) d c) cds (bi\<lparr>bi_num_mem_caps := 0, bi_mem_caps_offset := 0\<rparr>, s1) =
      Some (bi\<lparr>bi_mem_caps_offset := 0, bi_caps := f, bi_num_mem_caps := of_nat (length cds)\<rparr>, s')"
    "stored (b_root_task b) (map (\<lambda>(d, c). chunk_cap d c) cds) xs s1 s'" "listed (bi\<lparr>bi_caps := f\<rparr>) (map (slot_desc s1) (take (length cds) xs))"
    by (auto simp: listed_def)
  then show ?thesis using setup_memory_chunks(2) [OF assms(1) refl, folded assms(2)]
    by (intro exI [of _ f] exI [of _ s']) (simp add: setup_cap_space_def)
qed

subsection \<open>The idle task\<close>

lemma init_idle_task_effect:
  assumes "t \<noteq> 0" "R \<noteq> 0" "t_state (tasks s t) = unused" "t_lock (tasks s t) = free_lock"
  shows "\<exists>s'. init_idle_task t R s = Some s' \<and> t_state (tasks s' t) = ready \<and> t_context (tasks s' t) = payload_context idle_payload (t + PAGE_SIZE) \<and>
    tables s' = (tables s)(R := kernel_table 0 64 zero_page_table) \<and> mem s' = mem s \<and> (\<forall>u. u \<noteq> t \<longrightarrow> tasks s' u = tasks s u) \<and>
    current_task s' = current_task s \<and> idle_task s' = idle_task s \<and> cap_at s' = cap_at s"
proof -
  let ?s1 = "zero_table R (upd_task t (\<lambda>t. t\<lparr>t_num_cap_space := 0, t_num_extension := 0, t_prev_ready_task := 0, t_next_ready_task := 0,
    t_prev_waiting_task := 0, t_next_waiting_task := 0, t_free_slots := 0, t_root_page_table := R, t_state := ready\<rparr>) s)"
  have "map_kernel_pages R mapped_space_pages ?s1 = Some (?s1\<lparr>tables := (tables ?s1)(R := kernel_table 0 64 (tables ?s1 R))\<rparr>)"
    unfolding mapped_space_pages_eq by (rule map_kernel_pages_table) (simp_all add: zero_table_def zero_page_table_def)
  moreover have "lock_free_for s t" using assms(4) by (simp add: lock_free_for_def)
  ultimately show ?thesis using assms by (simp add: init_idle_task_def arch_init_task_def zero_table_def)
qed

text \<open>
  The objects of the boot are separate: the tables of the capability spaces are not those of the payload and the stack, and
  the core local storage of the booting core is apart from all of them.
\<close>

definition separate :: "boot_objects \<Rightarrow> boot_info_t \<Rightarrow> kstate \<Rightarrow> bool" where
  "separate objs b s \<longleftrightarrow> (let cls = get_cls objs (b_core_id b); idle = cls + PAGE_SIZE in
     cls \<noteq> 0 \<and> idle \<noteq> 0 \<and> idle \<noteq> b_root_task b \<and> t_state (tasks s idle) = unused \<and> t_lock (tasks s idle) = free_lock \<and>
     cls \<notin> set (b_root_page_table b # b_payload_page_tables b @ b_stack_page_tables b @ b_cap_space_page_tables b) \<and>
     set (b_cap_space_page_tables b) \<inter> set (b_root_page_table b # b_payload_page_tables b @ b_stack_page_tables b) = {})"

lemma setup_idle_task_effect:
  assumes "separate objs b s" "\<forall>u. u \<noteq> b_root_task b \<longrightarrow> tasks s1 u = tasks s u"
  shows "\<exists>s'. setup_idle_task objs b (bi, s1) = Some (bi, s') \<and> idle_task s' = get_cls objs (b_core_id b) + PAGE_SIZE \<and>
    t_state (tasks s' (idle_task s')) = ready \<and> t_context (tasks s' (idle_task s')) = payload_context idle_payload (idle_task s' + PAGE_SIZE) \<and>
    (\<forall>p\<in>set (b_root_page_table b # b_payload_page_tables b @ b_stack_page_tables b @ b_cap_space_page_tables b). tables s' p = tables s1 p) \<and>
    mem s' = mem s1 \<and> tasks s' (b_root_task b) = tasks s1 (b_root_task b) \<and> current_task s' = current_task s1 \<and> cap_at s' = cap_at s1"
proof -
  note p = assms(1) [unfolded separate_def Let_def]
  let ?c = "get_cls objs (b_core_id b)" and ?s = "s1\<lparr>idle_task := get_cls objs (b_core_id b) + PAGE_SIZE\<rparr>"
  have "cap_at ?s = cap_at s1" by (simp add: cap_at_def fun_eq_iff)
  with init_idle_task_effect [of "?c + PAGE_SIZE" ?c ?s] p assms(2) obtain s' where s': "init_idle_task (?c + PAGE_SIZE) ?c ?s = Some s'"
    "t_state (tasks s' (?c + PAGE_SIZE)) = ready" "t_context (tasks s' (?c + PAGE_SIZE)) = payload_context idle_payload (?c + PAGE_SIZE + PAGE_SIZE)"
    "tables s' = (tables s1)(?c := kernel_table 0 64 zero_page_table)" "mem s' = mem s1" "\<forall>u. u \<noteq> ?c + PAGE_SIZE \<longrightarrow> tasks s' u = tasks s1 u"
    "current_task s' = current_task s1" "idle_task s' = ?c + PAGE_SIZE" "cap_at s' = cap_at s1" by auto
  have "tables s' q = tables s1 q" if "q \<in> set (b_root_page_table b # b_payload_page_tables b @ b_stack_page_tables b @ b_cap_space_page_tables b)" for q
    using p s'(4) that by (metis fun_upd_other)
  moreover have "tasks s' (b_root_task b) = tasks s1 (b_root_task b)" using p s'(6) by metis
  ultimately show ?thesis using s' by (intro exI [of _ s']) (simp add: setup_idle_task_def)
qed

lemma root_tables_other:
  "p \<notin> set (b_root_page_table b # b_payload_page_tables b @ b_stack_page_tables b) \<Longrightarrow> length (b_payload_page_tables b) = 2 \<Longrightarrow>
    length (b_stack_page_tables b) = 2 \<Longrightarrow> root_tables abi l b np ns nd ds T p = T p"
  using nth_mem [of 0 "b_payload_page_tables b"] nth_mem [of 1 "b_payload_page_tables b"] nth_mem [of 0 "b_stack_page_tables b"] nth_mem [of 1 "b_stack_page_tables b"]
  by (auto simp: root_tables_def range_tables_def Let_def)

lemma root_tables_high:
  assumes "can_place abi l b np ns nd ds de m"
  shows "root_tables abi l b np ns nd ds T (b_root_page_table b) 192 = T (b_root_page_table b) 192"
proof -
  note c = assms [unfolded can_place_def Let_def] and g = can_place_ranges [OF assms]
  have "b_root_page_table b \<notin> set (b_payload_page_tables b @ b_stack_page_tables b)" "length (b_payload_page_tables b) = 2" "length (b_stack_page_tables b) = 2"
    using c by simp_all
  then have "b_root_page_table b \<noteq> b_payload_page_tables b ! i" "b_root_page_table b \<noteq> b_stack_page_tables b ! i" if "i < 2" for i
    using that by (metis UnI1 UnI2 nth_mem set_append)+
  moreover have "get_page_table_index (ba_payload_base abi) 2 \<noteq> 192" using g(8) by auto
  ultimately show ?thesis using stack_base_props(3) [OF g(15,16)] by (simp add: root_tables_def range_tables_def Let_def)
qed

subsection \<open>The boot from end to end\<close>

text \<open>The capabilities of the root task in the order of its slots, and those the array of the boot information lists.\<close>

definition boot_caps :: "boot_abi \<Rightarrow> layout \<Rightarrow> boot_info_t \<Rightarrow> nat \<Rightarrow> nat \<Rightarrow> nat \<Rightarrow> addr \<Rightarrow> (bool \<times> addr \<times> 16 word) list \<Rightarrow> capability_t list" where
  "boot_caps abi l b np ns nd ds cds = first_caps b @ map (\<lambda>(d, c). chunk_cap d c) cds @ root_caps abi l b np ns nd ds"

definition boot_list :: "boot_abi \<Rightarrow> layout \<Rightarrow> boot_info_t \<Rightarrow> nat \<Rightarrow> nat \<Rightarrow> nat \<Rightarrow> addr \<Rightarrow> (bool \<times> addr \<times> 16 word) list \<Rightarrow> capability_t list" where
  "boot_list abi l b np ns nd ds cds = map (\<lambda>(d, c). chunk_cap d c) cds @
     map (page_cap payload_flags (b_payload_page_tables b ! 0) (ba_payload_base abi) (payload_start l)) [0..<np] @
     map (page_cap stack_flags (b_stack_page_tables b ! 0) (stack_base ns) (root_task_stack_start l)) [0..<ns] @
     map (page_cap dtb_flags (b_payload_page_tables b ! 0) (ba_payload_base abi + page_off np) (as_map ds)) [0..<nd]"

lemma length_first_caps [simp]: "length (first_caps b) = length (b_cap_spaces b) + 4"
  by (simp add: first_caps_def)

lemma length_boot_caps [simp]:
  "length (boot_caps abi l b np ns nd ds cds) = length (b_cap_spaces b) + length cds + np + ns + nd + 8"
  "length (boot_list abi l b np ns nd ds cds) = length cds + np + ns + nd"
  by (simp_all add: boot_caps_def boot_list_def root_caps_def)

lemma boot_caps_nonnull: "NullCap \<notin> set (boot_caps abi l b np ns nd ds cds)"
  by (auto simp: boot_caps_def first_caps_def root_caps_def range_caps_def space_cap_def chunk_cap_def table_cap_def page_cap_def)

lemma part_slots_caps:
  assumes "i < length (part_slots np ns nd xs)" "np + ns + nd + 4 \<le> length xs" "\<forall>j<np + ns + nd + 4. names s t (desc (xs ! j)) (root_caps abi l b np ns nd ds ! j)"
  shows "names s t (desc (part_slots np ns nd xs ! i)) (boot_list abi l b np ns nd ds [] ! i)"
proof -
  define j where "j = (if i < np then i + 2 else i + 4)"
  have i: "i < np + ns + nd" using assms(1,2) by (simp add: part_slots_def)
  then have j: "j < np + ns + nd + 4" by (simp add: j_def)
  moreover have "part_slots np ns nd xs ! i = xs ! j"
    using assms(2) i by (auto simp: part_slots_def j_def nth_append add.commute)
  moreover have "root_caps abi l b np ns nd ds ! j = boot_list abi l b np ns nd ds [] ! i"
    using i by (auto simp: root_caps_def boot_list_def range_caps_def j_def nth_append nth_Cons' split: if_splits)
  ultimately show ?thesis using assms(3) by metis
qed

text \<open>Every descriptor of the boot information names its capability.\<close>

definition boot_info_ok :: "boot_abi \<Rightarrow> layout \<Rightarrow> boot_info_t \<Rightarrow> nat \<Rightarrow> nat \<Rightarrow> nat \<Rightarrow> addr \<Rightarrow> (bool \<times> addr \<times> 16 word) list \<Rightarrow> root_boot_info_t \<Rightarrow> kstate \<Rightarrow> bool" where
  "boot_info_ok abi l b np ns nd ds cds bi s \<longleftrightarrow> (let r = b_root_task b; R = b_root_page_table b; p = b_payload_page_tables b; k = b_stack_page_tables b; n = length (b_cap_spaces b) in
     names s r (bi_root_task_cap bi) (first_caps b ! 0) \<and> names s r (bi_root_page_table_cap bi) (first_caps b ! (n + 1)) \<and>
     (\<forall>l<2. names s r (bi_cap_space_page_table_caps bi l) (first_caps b ! (n + 2 + l))) \<and>
     (\<forall>l<2. names s r (bi_page_table_caps bi l) (table_cap (ba_payload_base abi) l (p ! l) (if l = 0 then p ! 1 else R))) \<and>
     (\<forall>l<2. names s r (bi_stack_page_table_caps bi l) (table_cap (stack_base ns) l (k ! l) (if l = 0 then k ! 1 else R))) \<and>
     bi_mem_caps_offset bi = 0 \<and> bi_num_mem_caps bi = of_nat (length cds) \<and>
     bi_virt_page_caps_offset bi = of_nat (length cds) \<and> bi_num_virt_page_caps bi = of_nat (np + ns) \<and> bi_num_dtb_vp_caps bi = of_nat nd \<and>
     (\<forall>i<length cds + np + ns + nd. names s r (bi_caps bi (of_nat i)) (boot_list abi l b np ns nd ds cds ! i)))"

lemma boot_info_ok_mem:
  assumes "boot_info_ok abi l b np ns nd ds cds bi s" "i < length cds"
  shows "names s (b_root_task b) (bi_caps bi (of_nat i)) (chunk_cap (fst (cds ! i)) (snd (cds ! i)))"
proof -
  have "names s (b_root_task b) (bi_caps bi (of_nat i)) (boot_list abi l b np ns nd ds cds ! i)" using assms by (simp add: boot_info_ok_def Let_def)
  then show ?thesis using assms(2) by (simp add: boot_list_def nth_append case_prod_beta)
qed

text \<open>The boot information after the memory capabilities: descriptors of the first capabilities, then \<open>m\<close> entries in the array.\<close>

definition mem_filed :: "(addr \<Rightarrow> u64) \<Rightarrow> nat \<Rightarrow> nat \<Rightarrow> addr list \<Rightarrow> root_boot_info_t \<Rightarrow> bool" where
  "mem_filed desc n m xs bi \<longleftrightarrow> bi_root_task_cap bi = desc (xs ! 0) \<and> bi_root_page_table_cap bi = desc (xs ! (n + 1)) \<and>
     (\<forall>l<2. bi_cap_space_page_table_caps bi l = desc (xs ! (n + 2 + l))) \<and> bi_mem_caps_offset bi = 0 \<and> bi_num_mem_caps bi = of_nat m \<and>
     bi_num_virt_page_caps bi = 0 \<and> bi_virt_page_caps_offset bi = of_nat m \<and> listed bi (map desc (take m (drop (n + 4) xs)))"

lemma boot_info_names:
  assumes nm: "\<forall>i<length (boot_caps abi l b np ns nd ds cds). names s (b_root_task b) (desc (xs ! i)) (boot_caps abi l b np ns nd ds cds ! i)"
    and len: "length (boot_caps abi l b np ns nd ds cds) \<le> length xs" "length xs < 2 ^ 64" and n: "n = length (b_cap_spaces b)" and m: "m = length cds"
    and mf: "mem_filed desc n m xs b1"
    and f: "filed desc np ns nd (drop (n + 4 + m) xs) b1 bi"
  shows "boot_info_ok abi l b np ns nd ds cds bi s"
proof -
  note f' = f [unfolded filed_def same_roots_def]
  have b1: "bi_root_task_cap b1 = desc (xs ! 0)" "bi_root_page_table_cap b1 = desc (xs ! (n + 1))" "\<forall>l<2. bi_cap_space_page_table_caps b1 l = desc (xs ! (n + 2 + l))"
    "bi_mem_caps_offset b1 = 0" "bi_num_mem_caps b1 = of_nat m" "bi_num_virt_page_caps b1 = 0" "bi_virt_page_caps_offset b1 = of_nat m"
    "listed b1 (map desc (take m (drop (n + 4) xs)))" using mf unfolding mem_filed_def by blast+
  let ?c = "boot_caps abi l b np ns nd ds cds" and ?r = "b_root_task b" and ?ys = "drop (n + 4 + m) xs"
  have c: "?c ! i = first_caps b ! i" if "i < n + 4" for i using that n by (simp add: boot_caps_def nth_append)
  have c2: "?c ! (n + 4 + m + i) = root_caps abi l b np ns nd ds ! i" for i using n m by (simp add: boot_caps_def nth_append)
  have lc: "length ?c = n + m + np + ns + nd + 8" using n m by simp
  have rc: "names s ?r (desc (?ys ! i)) (root_caps abi l b np ns nd ds ! i)" if "i < np + ns + nd + 4" for i
  proof -
    have "?ys ! i = xs ! (n + 4 + m + i)" "n + 4 + m + i < length ?c" using that len(1) lc by simp_all
    then show ?thesis using nm [rule_format, of "n + 4 + m + i"] c2 [of i] by simp
  qed
  have t: "root_caps abi l b np ns nd ds ! (1 - i) = table_cap (ba_payload_base abi) i (b_payload_page_tables b ! i) (if i = 0 then b_payload_page_tables b ! 1 else b_root_page_table b)"
    "root_caps abi l b np ns nd ds ! (np + 3 - i) = table_cap (stack_base ns) i (b_stack_page_tables b ! i) (if i = 0 then b_stack_page_tables b ! 1 else b_root_page_table b)"
    if "i < 2" for i using that by (auto simp: less_2_cases_iff root_caps_def range_caps_def nth_append)
  have ls: "listed bi (map desc (take m (drop (n + 4) xs)) @ map desc (part_slots np ns nd ?ys))"
    using f' b1(6-8) len lc by simp
  have lp: "length (part_slots np ns nd ?ys) = np + ns + nd" using len(1) lc by (simp add: part_slots_def)
  have "names s ?r (bi_caps bi (of_nat i)) (boot_list abi l b np ns nd ds cds ! i)" if i: "i < m + np + ns + nd" for i
  proof (cases "i < m")
    case True
    have "bi_caps bi (of_nat i) = desc (xs ! (n + 4 + i))" using ls True len(1) lc by (auto simp: listed_def nth_append)
    moreover have "?c ! (n + 4 + i) = boot_list abi l b np ns nd ds cds ! i" using True n m by (simp add: boot_caps_def boot_list_def nth_append)
    moreover have "n + 4 + i < length ?c" using True lc by simp
    ultimately show ?thesis using nm [rule_format, of "n + 4 + i"] by simp
  next
    case False
    have "bi_caps bi (of_nat i) = desc (part_slots np ns nd ?ys ! (i - m))" using ls False i len(1) lc lp by (auto simp: listed_def nth_append)
    moreover have "boot_list abi l b np ns nd ds cds ! i = boot_list abi l b np ns nd ds [] ! (i - m)" using False m by (simp add: boot_list_def nth_append)
    ultimately show ?thesis using part_slots_caps [of "i - m" np ns nd ?ys s ?r desc abi l b ds] rc False i len(1) lc lp by simp
  qed
  moreover have "names s ?r (desc (xs ! i)) (first_caps b ! i)" if "i < n + 4" for i using nm [rule_format, of i] c [OF that] that lc by simp
  then have "names s ?r (bi_root_task_cap bi) (first_caps b ! 0)" "names s ?r (bi_root_page_table_cap bi) (first_caps b ! (n + 1))"
    "\<forall>i<2. names s ?r (bi_cap_space_page_table_caps bi i) (first_caps b ! (n + 2 + i))" using f' b1(1-3) by simp_all
  moreover have "names s ?r (bi_page_table_caps bi i) (root_caps abi l b np ns nd ds ! (1 - i))"
    "names s ?r (bi_stack_page_table_caps bi i) (root_caps abi l b np ns nd ds ! (np + 3 - i))" if "i < 2" for i
    using f' rc [of "1 - i"] rc [of "np + 3 - i"] that by simp_all
  then have "\<forall>i<2. names s ?r (bi_page_table_caps bi i) (table_cap (ba_payload_base abi) i (b_payload_page_tables b ! i) (if i = 0 then b_payload_page_tables b ! 1 else b_root_page_table b))"
    "\<forall>i<2. names s ?r (bi_stack_page_table_caps bi i) (table_cap (stack_base ns) i (b_stack_page_tables b ! i) (if i = 0 then b_stack_page_tables b ! 1 else b_root_page_table b))"
    using t by metis+
  ultimately show ?thesis unfolding boot_info_ok_def Let_def n [symmetric] m [symmetric] using f' b1(4-7) by simp
qed

text \<open>The spaces have a slot for every capability, and the stack has room for the boot information.\<close>

definition boot_fits :: "boot_abi \<Rightarrow> boot_info_t \<Rightarrow> nat \<Rightarrow> nat \<Rightarrow> nat \<Rightarrow> nat \<Rightarrow> bool" where
  "boot_fits abi b np ns nd m \<longleftrightarrow> (let sz = ba_root_boot_info_size abi + ba_cap_size abi * of_nat (m + np + ns + nd) in
     length (b_cap_spaces b) + m + np + ns + nd + 8 < 101 * length (b_cap_spaces b) \<and> 0 < sz \<and> unat sz \<le> 4096 * ns)"

text \<open>
  The boot in two halves. After the first one the root task has its capability spaces, seen in the state \<open>s0\<close>, and holds its first
  capabilities and those of the memory.
\<close>

definition boot_spaces :: "boot_info_t \<Rightarrow> kstate \<Rightarrow> bool" where
  "boot_spaces b s \<longleftrightarrow> spaces_ok s (b_root_task b) (b_cap_space_page_tables b ! 0) (b_cap_spaces b) \<and> length (b_cap_spaces b) \<le> 512 \<and>
     length (b_cap_space_page_tables b) = 2 \<and> get_next_page (tables s (b_root_page_table b) 192) = b_cap_space_page_tables b ! 1 \<and> t_root_page_table (tasks s (b_root_task b)) = b_root_page_table b"

definition half_booted :: "boot_info_t \<Rightarrow> (bool \<times> addr \<times> 16 word) list \<Rightarrow> kstate \<Rightarrow> kstate \<Rightarrow> root_boot_info_t \<Rightarrow> kstate \<Rightarrow> bool" where
  "half_booted b cds s s0 bi s2 \<longleftrightarrow> boot_spaces b s0 \<and> root_task_made b s s2 \<and> alive s2 (b_root_task b) \<and>
     (\<forall>i<128. tables s2 (b_root_page_table b) i = zero_pte) \<and>
     inserted (b_root_task b) (first_caps b @ map (\<lambda>(d, c). chunk_cap d c) cds) (space_slots (b_cap_spaces b)) (tables s0) s0 s2 \<and>
     mem_filed (slot_desc s0) (length (b_cap_spaces b)) (length cds) (space_slots (b_cap_spaces b)) bi"

lemma root_task_and_memory:
  assumes cb: "can_boot b s" and mem: "\<And>bi xs s1. mem s1 = mem s \<Longrightarrow> alive s1 (b_root_task b) \<Longrightarrow> free_list s1 (b_root_task b) xs \<Longrightarrow> length cds \<le> length xs \<Longrightarrow>
      (\<exists>f s'. setup_cap_space l b (bi, s1) = Some (bi\<lparr>bi_mem_caps_offset := 0, bi_caps := f, bi_num_mem_caps := of_nat (length cds), bi_num_virt_page_caps := 0,
        bi_virt_page_caps_offset := of_nat (length cds)\<rparr>, s') \<and> stored (b_root_task b) (map (\<lambda>(d, c). chunk_cap d c) cds) xs s1 s' \<and>
        listed (bi\<lparr>bi_caps := f\<rparr>) (map (slot_desc s1) (take (length cds) xs)))"
    and len: "length (b_cap_spaces b) + 4 + length cds \<le> length (space_slots (b_cap_spaces b))"
  shows "\<exists>b2 s0 s2. do { st \<leftarrow> setup_root_task b (bi, s); setup_cap_space l b st } = Some (b2, s2) \<and> half_booted b cds s s0 b2 s2"
proof -
  let ?r = "b_root_task b" and ?R = "b_root_page_table b" and ?xs = "space_slots (b_cap_spaces b)" and ?n = "length (b_cap_spaces b)" and ?m = "length cds"
  from setup_root_task_state [OF cb refl refl, of bi] obtain b1 s0 s1 where
    s1: "setup_root_task b (bi, s) = Some (b1, s1)" "root_task_made b s s1" "alive s1 ?r" "\<forall>i<128. tables s1 ?R i = zero_pte"
    and s0: "spaces_ok s0 ?r (b_cap_space_page_tables b ! 0) (b_cap_spaces b)" "get_next_page (tables s0 ?R 192) = b_cap_space_page_tables b ! 1"
      "t_root_page_table (tasks s0 ?r) = ?R"
    and i1: "inserted ?r (first_caps b) ?xs (tables s0) s0 s1"
    and b1: "bi_root_task_cap b1 = slot_desc s0 (?xs ! 0)" "bi_root_page_table_cap b1 = slot_desc s0 (?xs ! (?n + 1))"
      "bi_cap_space_page_table_caps b1 0 = slot_desc s0 (?xs ! (?n + 2))" "bi_cap_space_page_table_caps b1 1 = slot_desc s0 (?xs ! (?n + 3))" by blast
  note d1 = insertedD [OF i1]
  have m1: "mem s1 = mem s" "length cds \<le> length (drop (length (first_caps b)) ?xs)" using s1(2) len by (simp_all add: root_task_made_def)
  from mem [OF m1(1) s1(3) d1(2) m1(2), of b1] obtain f s2 where
    s2: "setup_cap_space l b (b1, s1) = Some (b1\<lparr>bi_mem_caps_offset := 0, bi_caps := f, bi_num_mem_caps := of_nat ?m, bi_num_virt_page_caps := 0,
        bi_virt_page_caps_offset := of_nat ?m\<rparr>, s2)" "stored ?r (map (\<lambda>(d, c). chunk_cap d c) cds) (drop (?n + 4) ?xs) s1 s2"
      "listed (b1\<lparr>bi_caps := f\<rparr>) (map (slot_desc s0) (take ?m (drop (?n + 4) ?xs)))" by (auto simp: d1(3))
  have i2: "inserted ?r (map (\<lambda>(d, c). chunk_cap d c) cds) (drop (?n + 4) ?xs) (tables s1) s1 s2" using s2(2) by (simp add: stored_def)
  note d2 = insertedD [OF i2]
  have "free_list s0 ?r ?xs" using s0(1) by (simp add: spaces_ok_def)
  then have "distinct ?xs" using chain_distinct free_listD(1) by blast
  then have "inserted ?r (first_caps b @ map (\<lambda>(d, c). chunk_cap d c) cds) ?xs (tables s0) s0 s2"
    using inserted_trans [OF i1, of _ _ s2] i2 len by (simp add: d1(1))
  moreover have "root_task_made b s s2" using root_task_made_kept [OF s1(2) inserted_kept [OF i2]] .
  moreover have "?n \<le> 512" "length (b_cap_space_page_tables b) = 2" using cb by (auto simp: can_boot_def)
  moreover have "mem_filed (slot_desc s0) ?n ?m ?xs (b1\<lparr>bi_mem_caps_offset := 0, bi_caps := f, bi_num_mem_caps := of_nat ?m, bi_num_virt_page_caps := 0,
        bi_virt_page_caps_offset := of_nat ?m\<rparr>)"
    using b1 s2(3) by (auto simp: mem_filed_def listed_def less_2_cases_iff numeral_3_eq_3)
  ultimately show ?thesis using s1(1,3,4) s2(1) s0 d1(1) d2(1,6)
    by (intro exI [of _ _] exI [of _ s0] exI [of _ s2]) (auto simp: half_booted_def boot_spaces_def)
qed

lemma half_booted_can_load:
  assumes h: "half_booted b cds s s0 bi s2" and pl: "can_place abi l b np ns nd ds de (mem s)" and fits: "boot_fits abi b np ns nd (length cds)"
  shows "can_load abi l b np ns nd ds de (drop (length (b_cap_spaces b) + 4 + length cds) (space_slots (b_cap_spaces b))) bi s2"
proof -
  note h' = h [unfolded half_booted_def]
  let ?xs = "space_slots (b_cap_spaces b)" and ?n = "length (b_cap_spaces b)"
  have "inserted (b_root_task b) (first_caps b @ map (\<lambda>(d, c). chunk_cap d c) cds) ?xs (tables s0) s0 s2" using h' by blast
  note d = insertedD [OF this]
  have f: "?n + length cds + np + ns + nd + 8 < 101 * ?n" "0 < ba_root_boot_info_size abi + ba_cap_size abi * of_nat (length cds + np + ns + nd)"
    "unat (ba_root_boot_info_size abi + ba_cap_size abi * of_nat (length cds + np + ns + nd)) \<le> 4096 * ns" using fits unfolding boot_fits_def Let_def by blast+
  then have "b_cap_spaces b \<noteq> []" by auto
  then have "np + ns + nd + 4 \<le> length (drop (?n + 4 + length cds) ?xs)" using f(1) by (simp add: length_space_slots)
  moreover have "loaded_size abi np ns nd bi = ba_root_boot_info_size abi + ba_cap_size abi * of_nat (length cds + np + ns + nd)"
    using h' by (simp add: loaded_size_def get_root_boot_info_size_def mem_filed_def add.assoc)
  moreover have "mem s2 = mem s" "t_root_page_table (tasks s2 (b_root_task b)) = b_root_page_table b" using h' by (simp_all add: root_task_made_def)
  moreover have "free_list s2 (b_root_task b) (drop (?n + 4 + length cds) ?xs)" using d(2) by (simp add: add.commute)
  ultimately show ?thesis unfolding can_load_def using pl h' f(2,3) by simp
qed

lemma boot_fits_slots:
  assumes "can_boot b s" "boot_fits abi b np ns nd m"
  shows "length (b_cap_spaces b) + 4 + m \<le> length (space_slots (b_cap_spaces b))" "m < 2 ^ 64"
proof -
  have f: "length (b_cap_spaces b) + m + np + ns + nd + 8 < 101 * length (b_cap_spaces b)" "length (b_cap_spaces b) \<le> 512" "b_cap_spaces b \<noteq> []"
    using assms by (auto simp: boot_fits_def can_boot_def Let_def)
  then show "m < 2 ^ 64" by simp
  show "length (b_cap_spaces b) + 4 + m \<le> length (space_slots (b_cap_spaces b))" using f length_space_slots [of "b_cap_spaces b"] by simp
qed

text \<open>The slots keep their capabilities and the spaces their places in the page tables until the end.\<close>

lemma half_booted_caps:
  assumes h: "half_booted b cds s s0 b2 s2" and cl: "can_load abi l b np ns nd ds de (drop (length (b_cap_spaces b) + 4 + length cds) (space_slots (b_cap_spaces b))) b2 s2"
    and cp: "\<forall>i<np + ns + nd + 4. cap_at s3 (drop (length (b_cap_spaces b) + 4 + length cds) (space_slots (b_cap_spaces b)) ! i) = root_caps abi l b np ns nd ds ! i"
      "\<forall>z. z \<notin> set (take (np + ns + nd + 4) (drop (length (b_cap_spaces b) + 4 + length cds) (space_slots (b_cap_spaces b)))) \<longrightarrow> cap_at s3 z = cap_at s2 z"
    and i: "i < length (boot_caps abi l b np ns nd ds cds)"
  shows "i < length (space_slots (b_cap_spaces b)) \<and> cap_at s3 (space_slots (b_cap_spaces b) ! i) = boot_caps abi l b np ns nd ds cds ! i"
proof -
  let ?xs = "space_slots (b_cap_spaces b)" and ?n = "length (b_cap_spaces b) + 4 + length cds" and ?F = "first_caps b @ map (\<lambda>(d, c). chunk_cap d c) cds"
  have i2: "inserted (b_root_task b) ?F ?xs (tables s0) s0 s2" and sp: "boot_spaces b s0" using h unfolding half_booted_def by blast+
  have "free_list s0 (b_root_task b) ?xs" using sp by (simp add: boot_spaces_def spaces_ok_def)
  then have di: "distinct ?xs" using chain_distinct free_listD(1) by blast
  have "np + ns + nd + 4 \<le> length (drop ?n ?xs)" using cl unfolding can_load_def by blast
  then have len: "?n + (np + ns + nd + 4) \<le> length ?xs" by simp
  have e: "boot_caps abi l b np ns nd ds cds = ?F @ root_caps abi l b np ns nd ds" "length ?F = ?n" by (simp_all add: boot_caps_def)
  show ?thesis
  proof (cases "i < ?n")
    case True
    have "?xs ! i \<notin> set (take (np + ns + nd + 4) (drop ?n ?xs))"
      using True len di by (auto simp: in_set_conv_nth nth_eq_iff_index_eq)
    then have "cap_at s3 (?xs ! i) = ?F ! i" using cp(2) insertedD(9) [OF i2, of i] True e(2) by simp
    then show ?thesis using True len e by (simp add: nth_append del: append_assoc)
  next
    case False
    then have j: "i - ?n < np + ns + nd + 4" using i by simp
    have "cap_at s3 (?xs ! i) = root_caps abi l b np ns nd ds ! (i - ?n)" using cp(1) [rule_format, OF j] False len by simp
    then show ?thesis using False j len e by (simp add: nth_append del: append_assoc)
  qed
qed

lemma half_booted_names:
  assumes h: "half_booted b cds s s0 b2 s2" and sep: "separate objs b s" and pl: "can_place abi l b np ns nd ds de m"
    and s4: "alive s4 (b_root_task b)" "t_root_page_table (tasks s4 (b_root_task b)) = b_root_page_table b"
      "t_num_cap_space (tasks s4 (b_root_task b)) = t_num_cap_space (tasks s2 (b_root_task b))"
      "\<forall>p\<in>set (b_root_page_table b # b_cap_space_page_tables b). tables s4 p = root_tables abi l b np ns nd ds (tables s2) p"
    and x: "x \<in> set (space_slots (b_cap_spaces b))" "cap_at s4 x = c" "c \<noteq> NullCap"
  shows "names s4 (b_root_task b) (slot_desc s0 x) c"
proof -
  have i2: "inserted (b_root_task b) (first_caps b @ map (\<lambda>(d, c). chunk_cap d c) cds) (space_slots (b_cap_spaces b)) (tables s0) s0 s2"
    and sp: "boot_spaces b s0" using h unfolding half_booted_def by blast+
  note d = insertedD [OF i2] and b = sp [unfolded boot_spaces_def]
  have len2: "length (b_payload_page_tables b) = 2" "length (b_stack_page_tables b) = 2" using pl unfolding can_place_def Let_def by blast+
  have "tables s4 p = tables s0 p" if "p \<in> set (b_cap_space_page_tables b)" for p
  proof -
    have "p \<notin> set (b_root_page_table b # b_payload_page_tables b @ b_stack_page_tables b)" using sep that unfolding separate_def Let_def by blast
    from root_tables_other [OF this len2] show ?thesis using s4(4) that by (simp add: d(1))
  qed
  moreover have "tables s4 (b_root_page_table b) 192 = tables s0 (b_root_page_table b) 192" using s4(4) root_tables_high [OF pl] by (simp add: d(1))
  ultimately show ?thesis using b spaces_ok_names [of s0 "b_root_task b" "b_cap_space_page_tables b ! 0" "b_cap_spaces b" "b_cap_space_page_tables b ! 1" s4 x c] s4 x d(7)
    by simp
qed

lemma payload_and_idle:
  assumes h: "half_booted b cds s s0 b2 s2" and sep: "separate objs b s" and pl: "can_place abi l b np ns nd ds de (mem s)"
    and fits: "boot_fits abi b np ns nd (length cds)"
    and regs: "distinct [unat (ba_REG_PROGRAM_COUNTER abi), unat (ba_REG_STACK_POINTER abi), unat (ba_REG_ARG_0 abi)]"
      "\<forall>r\<in>{ba_REG_PROGRAM_COUNTER abi, ba_REG_STACK_POINTER abi, ba_REG_ARG_0 abi}. r \<le> ba_LAST_REGISTER abi"
  shows "\<exists>bi' s'. do { st \<leftarrow> setup_root_task_payload abi l b (b2, s2); setup_idle_task objs b st } = Some (bi', s') \<and>
    root_loaded abi l b np ns nd ds bi' s' \<and> boot_info_ok abi l b np ns nd ds cds bi' s' \<and>
    t_context (tasks s' (b_root_task b)) = payload_context return_to_user_mode (b_root_task b + PAGE_SIZE) \<and> current_task s' = b_root_task b \<and>
    idle_task s' = get_cls objs (b_core_id b) + PAGE_SIZE \<and> t_state (tasks s' (idle_task s')) = ready \<and>
    t_context (tasks s' (idle_task s')) = payload_context idle_payload (idle_task s' + PAGE_SIZE)"
proof -
  note h' = h [unfolded half_booted_def] and cl = half_booted_can_load [OF h pl fits]
  let ?r = "b_root_task b" and ?R = "b_root_page_table b" and ?xs = "space_slots (b_cap_spaces b)" and ?n = "length (b_cap_spaces b)" and ?m = "length cds"
  let ?zs = "drop (?n + 4 + ?m) ?xs" and ?c = "boot_caps abi l b np ns nd ds cds" and ?k = "np + ns + nd + 4"
  have i2: "inserted ?r (first_caps b @ map (\<lambda>(d, c). chunk_cap d c) cds) ?xs (tables s0) s0 s2" using h' by blast
  note d2 = insertedD [OF i2]
  from setup_root_task_payload_state [OF cl regs] obtain b3 s3 where s3: "setup_root_task_payload abi l b (b2, s2) = Some (b3, s3)"
    and rl: "root_loaded abi l b np ns nd ds b3 s3" and fd: "filed (slot_desc s2) np ns nd ?zs b2 b3" and al: "alive s3 ?r"
    and tb: "tables s3 = root_tables abi l b np ns nd ds (tables s2)" and nc: "\<forall>u. t_num_cap_space (tasks s3 u) = t_num_cap_space (tasks s2 u)"
    and cp: "\<forall>i<?k. cap_at s3 (?zs ! i) = root_caps abi l b np ns nd ds ! i" "\<forall>z. z \<notin> set (take ?k ?zs) \<longrightarrow> cap_at s3 z = cap_at s2 z"
    and t3: "current_task s3 = current_task s2" "\<forall>u. u \<noteq> ?r \<longrightarrow> tasks s3 u = tasks s2 u" "t_context (tasks s3 ?r) = t_context (tasks s2 ?r)" by blast
  have ot: "\<forall>u. u \<noteq> ?r \<longrightarrow> tasks s3 u = tasks s u" using t3(2) h' by (simp add: root_task_made_def)
  from setup_idle_task_effect [OF sep ot, of b3] obtain s4 where s4: "setup_idle_task objs b (b3, s3) = Some (b3, s4)"
    and id: "idle_task s4 = get_cls objs (b_core_id b) + PAGE_SIZE" "t_state (tasks s4 (idle_task s4)) = ready"
      "t_context (tasks s4 (idle_task s4)) = payload_context idle_payload (idle_task s4 + PAGE_SIZE)"
    and k4: "\<forall>p\<in>set (?R # b_payload_page_tables b @ b_stack_page_tables b @ b_cap_space_page_tables b). tables s4 p = tables s3 p"
      "mem s4 = mem s3" "tasks s4 ?r = tasks s3 ?r" "current_task s4 = current_task s3" "cap_at s4 = cap_at s3" by blast
  have len2: "length (b_payload_page_tables b) = 2" "length (b_stack_page_tables b) = 2" using pl unfolding can_place_def Let_def by blast+
  have cr: "current_task s4 = ?r" "t_context (tasks s4 ?r) = payload_context return_to_user_mode (?r + PAGE_SIZE)"
    using h' k4(3,4) t3(1,3) by (simp_all add: root_task_made_def)
  have "root_loaded abi l b np ns nd ds b3 s4"
    by (rule root_loaded_cong [OF rl k4(3,2) _ len2]) (use k4(1) in auto)
  moreover have "boot_info_ok abi l b np ns nd ds cds b3 s4"
  proof (rule boot_info_names [OF _ _ _ refl refl, where desc = "slot_desc s0"])
    have al4: "alive s4 ?r" using al k4(3,4) cr(1) by (simp add: alive_def task_ok_def lock_free_for_def current_tid_def)
    have rp: "t_root_page_table (tasks s4 ?r) = ?R" using rl k4(3) by (simp add: root_loaded_def Let_def)
    have pt: "\<forall>p\<in>set (?R # b_cap_space_page_tables b). tables s4 p = root_tables abi l b np ns nd ds (tables s2) p" using k4(1) tb by auto
    have cs: "i < length ?xs \<and> cap_at s4 (?xs ! i) = ?c ! i" if "i < length ?c" for i using half_booted_caps [OF h cl cp that] k4(5) by simp
    show "\<forall>i<length ?c. names s4 ?r (slot_desc s0 (?xs ! i)) (?c ! i)"
      using half_booted_names [OF h sep pl al4 rp _ pt] nc k4(3) cs boot_caps_nonnull nth_mem by metis
    show "length ?c \<le> length ?xs" using cs by (metis leI less_irrefl)
    show "mem_filed (slot_desc s0) ?n ?m ?xs b2" "filed (slot_desc s0) np ns nd ?zs b2 b3" using h' fd d2(3) by simp_all
    have "?n \<le> 512" using h' by (simp add: boot_spaces_def)
    then show "length ?xs < 2 ^ 64" using length_space_slots [of "b_cap_spaces b"] by (cases "b_cap_spaces b = []") (simp_all add: space_slots_def)
  qed
  ultimately show ?thesis using s3 s4 id cr by (intro exI [of _ b3] exI [of _ s4]) simp
qed

end
