(* ===== verification/Boot_Loader.thy ===== *)
theory Boot_Loader
  imports Task_Init
begin

text \<open>
  The boot loader (\<^verbatim>\<open>src/arch/rv64/boot/start.cpp\<close>). It runs with physical addresses, fills a page table of its own and
  enters the kernel at the mapped address of its image, with the core and the mapped address of the device tree as
  arguments. The lemmas show that its loop ends and that its table is the kernel's part of every task's root page table. The output on the
  console and the instructions that write the registers are left out; the values they write are the record \<open>handover\<close>.
\<close>

subsection \<open>The page table of the boot loader\<close>

record page_table_entry_t =
  e_v :: bool
  e_r :: bool
  e_w :: bool
  e_x :: bool
  e_u :: bool
  e_g :: bool
  e_a :: bool
  e_d :: bool
  e_rsv :: "2 word"
  e_npn :: "44 word"

definition zero_entry :: page_table_entry_t where
  "zero_entry = \<lparr>e_v = False, e_r = False, e_w = False, e_x = False, e_u = False, e_g = False, e_a = False, e_d = False, e_rsv = 0, e_npn = 0\<rparr>"

text \<open>In this file \<^verbatim>\<open>PAGE_SIZE\<close> is the size of the page an entry of the root table maps.\<close>

definition BOOT_PAGE_SIZE_BIT :: nat where "BOOT_PAGE_SIZE_BIT = 9 + 9 + 12"

definition BOOT_PAGE_SIZE :: u64 where "BOOT_PAGE_SIZE = push_bit BOOT_PAGE_SIZE_BIT 1"

definition mapped_entry :: "u64 \<Rightarrow> page_table_entry_t" where
  "mapped_entry pa = \<lparr>e_v = True, e_r = True, e_w = True, e_x = True, e_u = False, e_g = True, e_a = True, e_d = True, e_rsv = 0,
     e_npn = ucast (drop_bit 12 pa)\<rparr>"

partial_function (option) map_mapped_loop :: "u64 \<Rightarrow> (u64 \<Rightarrow> page_table_entry_t) \<Rightarrow> (u64 \<Rightarrow> page_table_entry_t) option" where
  "map_mapped_loop pa page_table =
     (if pa < CONFIG_MAPPED_SPACE_SIZE then
        (let virt = CONFIG_MAPPED_SPACE_BASE + pa;
             index = drop_bit BOOT_PAGE_SIZE_BIT virt AND 0x1ff
         in map_mapped_loop (pa + BOOT_PAGE_SIZE) (page_table(index := mapped_entry pa)))
      else Some page_table)"

definition map_mapped_space :: "(u64 \<Rightarrow> page_table_entry_t) \<Rightarrow> (u64 \<Rightarrow> page_table_entry_t) option" where
  "map_mapped_space page_table = map_mapped_loop 0 page_table"

subsection \<open>Entering the kernel\<close>

record handover =
  ho_satp :: u64
  ho_stvec :: addr
  ho_a0 :: u64
  ho_a1 :: addr

text \<open>The arguments are the physical addresses of the static table and of the kernel image, and those of the function itself.\<close>

definition boot_start :: "addr \<Rightarrow> addr \<Rightarrow> u64 \<Rightarrow> addr \<Rightarrow> (u64 \<Rightarrow> page_table_entry_t) \<Rightarrow> (handover \<times> (u64 \<Rightarrow> page_table_entry_t)) option" where
  "boot_start root_page_table payload hartid dtb table = do {
     table \<leftarrow> map_mapped_space table;
     let satp = drop_bit 12 root_page_table OR SATP_MODE_SV39;
     Some (\<lparr>ho_satp = satp, ho_stvec = CONFIG_MAPPED_SPACE_BASE + payload, ho_a0 = hartid, ho_a1 = CONFIG_MAPPED_SPACE_BASE + dtb\<rparr>, table)
   }"

subsection \<open>The loop\<close>

text \<open>The same bits as an entry of the kernel's page tables.\<close>

definition as_pte :: "page_table_entry_t \<Rightarrow> pte_t" where
  "as_pte e = \<lparr>pte_v = e_v e, pte_r = e_r e, pte_w = e_w e, pte_x = e_x e, pte_u = e_u e, pte_g = e_g e, pte_a = e_a e, pte_d = e_d e,
     pte_rsv = e_rsv e, pte_next_page_number = e_npn e\<rparr>"

lemma as_pte_zero [simp]: "as_pte zero_entry = zero_pte"
  by (simp add: as_pte_def zero_entry_def zero_pte_def)

lemma as_pte_mapped: "as_pte (mapped_entry (get_page_size 2 * of_nat i)) = kernel_leaf i"
  by (simp add: as_pte_def mapped_entry_def kernel_leaf_def enable_def set_next_page_def set_flags_def kernel_flags_def zero_pte_def as_map_def as_phys_def
    PAGE_SIZE_BIT_def)

lemma boot_index:
  assumes "i < 64"
  shows "drop_bit BOOT_PAGE_SIZE_BIT (CONFIG_MAPPED_SPACE_BASE + get_page_size 2 * of_nat i) AND 0x1ff = (of_nat (128 + i) :: u64)"
proof -
  have "drop_bit BOOT_PAGE_SIZE_BIT va AND 0x1ff = get_page_table_index va 2" for va
    by (simp add: get_page_table_index_def get_page_size_bit_def BOOT_PAGE_SIZE_BIT_def)
  then show ?thesis using walk_kernel_va [OF assms] by (simp add: walk_def level_defs split: if_splits)
qed

lemma map_mapped_loop_table:
  assumes "m \<le> 64"
  shows "\<exists>tab'. map_mapped_loop (get_page_size 2 * of_nat m) tab = Some tab' \<and> (\<lambda>i. as_pte (tab' i)) = kernel_table m 64 (\<lambda>i. as_pte (tab i))"
  using assms
proof (induction "64 - m" arbitrary: m tab)
  case 0
  then have "m = 64" by simp
  moreover have "kernel_table 64 64 t = t" for t by (rule ext) (auto simp: kernel_table_def)
  ultimately show ?case by (simp add: map_mapped_loop.simps get_page_size_def config_defs)
next
  case (Suc k)
  then have m: "m < 64" "k = 64 - Suc m" by simp_all
  let ?pa = "get_page_size 2 * of_nat m :: u64" and ?t = "tab(of_nat (128 + m) := mapped_entry (get_page_size 2 * of_nat m))"
  have "unat ?pa = 2 ^ 30 * m"
    using m(1) unat_of_nat_u64 [of "2 ^ 30 * m"] by (simp add: get_page_size_def push_bit_eq_mult)
  then have lt: "?pa < CONFIG_MAPPED_SPACE_SIZE" using m(1) by (simp add: word_less_nat_alt config_defs)
  have nx: "?pa + BOOT_PAGE_SIZE = get_page_size 2 * of_nat (Suc m)"
    by (simp add: BOOT_PAGE_SIZE_def BOOT_PAGE_SIZE_BIT_def get_page_size_def algebra_simps)
  have run: "map_mapped_loop ?pa tab = map_mapped_loop (get_page_size 2 * of_nat (Suc m)) ?t"
    by (subst map_mapped_loop.simps) (simp only: lt boot_index [OF m(1)] nx Let_def if_True)
  from Suc.hyps(1) [OF m(2), of ?t] m(1) obtain tab' where
    t: "map_mapped_loop (get_page_size 2 * of_nat (Suc m)) ?t = Some tab'" "(\<lambda>i. as_pte (tab' i)) = kernel_table (Suc m) 64 (\<lambda>i. as_pte (?t i))" by auto
  have "(\<lambda>i. as_pte (?t i)) = (\<lambda>i. as_pte (tab i))(of_nat (128 + m) := kernel_leaf m)" using as_pte_mapped [of m] by (simp add: fun_eq_iff)
  then have "(\<lambda>i. as_pte (tab' i)) = kernel_table m 64 (\<lambda>i. as_pte (tab i))" using t(2) kernel_table_step [OF m(1)] by simp
  with run t(1) show ?case by simp
qed

subsection \<open>Properties\<close>

text \<open>
  C34: the boot loader and the kernel agree on the kernel's part of the address space. The loop of the boot loader ends; on its zeroed
  table it makes, entry for entry and bit for bit, the root page table that \<^verbatim>\<open>init_task\<close> makes from a zeroed table before it adds the capability
  spaces, so that the switch to the address space of a task keeps the mapped memory in place. The kernel is entered at the mapped
  address of its image, with the core in the first register, the mapped address of the device tree in the second and the table of the
  boot loader in \<^verbatim>\<open>satp\<close>.
\<close>

theorem boot_loader_maps_kernel:
  "\<exists>table s'. boot_start root img hartid dtb (\<lambda>_. zero_entry) = Some (\<lparr>ho_satp = SATP_MODE_SV39 OR drop_bit 12 root, ho_stvec = as_map img,
      ho_a0 = hartid, ho_a1 = as_map dtb\<rparr>, table) \<and>
    map_kernel_pages pt mapped_space_pages (zero_table pt s) = Some s' \<and> (\<forall>i. as_pte (table i) = tables s' pt i) \<and>
    (\<forall>i<64. get_next_page (as_pte (table (of_nat (128 + i)))) = as_map (get_page_size 2 * of_nat i))"
proof -
  from map_mapped_loop_table [of 0 "\<lambda>_. zero_entry"] obtain table where
    t: "map_mapped_space (\<lambda>_. zero_entry) = Some table" "(\<lambda>i. as_pte (table i)) = kernel_table 0 64 zero_page_table"
    by (auto simp: map_mapped_space_def zero_page_table_def)
  have k: "map_kernel_pages pt mapped_space_pages (zero_table pt s) =
      Some (zero_table pt s\<lparr>tables := (tables (zero_table pt s))(pt := kernel_table 0 64 (tables (zero_table pt s) pt))\<rparr>)"
    unfolding mapped_space_pages_eq by (rule map_kernel_pages_table) (simp_all add: zero_table_def zero_page_table_def)
  have e: "as_pte (table i) = kernel_table 0 64 zero_page_table i" for i using t(2) by metis
  have "get_next_page (as_pte (table (of_nat (128 + i)))) = as_map (get_page_size 2 * of_nat i)" if "i < 64" for i
  proof -
    let ?pa = "get_page_size 2 * of_nat i :: u64"
    have u: "unat ?pa = 2 ^ 30 * i" using that unat_of_nat_u64 [of "2 ^ 30 * i"] by (simp add: get_page_size_def push_bit_eq_mult)
    have "get_next_page (kernel_leaf i) = as_map ?pa"
      using get_next_page_set_next_page [of "as_map ?pa" "set_flags kernel_flags zero_pte"] u that
      by (simp add: kernel_leaf_def enable_def get_next_page_def as_map_def as_phys_def)
    moreover have "unat (of_nat (128 + i) :: u64) = 128 + i" using that unat_of_nat_u64 [of "128 + i"] by simp
    ultimately show ?thesis using that by (simp add: e kernel_table_def)
  qed
  then show ?thesis using t(1) k e
    by (simp add: boot_start_def as_map_def zero_table_def add.commute or.commute)
qed

theorem boot_loader_maps_kernel_witness:
  "\<exists>table. boot_start 0x80201000 0x80210000 0 0x88000000 (\<lambda>_. zero_entry) = Some (\<lparr>ho_satp = 0x8000000000080201, ho_stvec = 0x2080210000,
      ho_a0 = 0, ho_a1 = 0x2088000000\<rparr>, table) \<and> get_next_page (as_pte (table 130)) = 0x2080000000"
proof -
  obtain table where t: "boot_start 0x80201000 0x80210000 0 0x88000000 (\<lambda>_. zero_entry) = Some (\<lparr>ho_satp = SATP_MODE_SV39 OR drop_bit 12 0x80201000,
      ho_stvec = as_map 0x80210000, ho_a0 = 0, ho_a1 = as_map 0x88000000\<rparr>, table)"
    "\<forall>i<64. get_next_page (as_pte (table (of_nat (128 + i)))) = as_map (get_page_size 2 * of_nat i)"
    using boot_loader_maps_kernel [of "0x80201000" "0x80210000" 0 "0x88000000" "0x2000101000" zero_state] by blast
  have "get_next_page (as_pte (table (of_nat (128 + 2)))) = as_map (get_page_size 2 * of_nat 2)" by (rule t(2) [rule_format]) simp
  then have "get_next_page (as_pte (table 130)) = 0x2080000000" by (simp add: as_map_def config_defs get_page_size_def)
  moreover have "SATP_MODE_SV39 OR drop_bit 12 0x80201000 = (0x8000000000080201 :: u64)" by (simp add: SATP_MODE_SV39_def drop_bit_eq_div)
  ultimately show ?thesis using t(1) by (simp add: as_map_def config_defs)
qed

end
