(* ===== verification/Syscalls.thy ===== *)
theory Syscalls
  imports Task_Init
begin

text \<open>
  The system calls (\<^verbatim>\<open>src/kernel/syscall.cpp\<close>, \<^verbatim>\<open>src/kernel/syscall/\<close> and \<^verbatim>\<open>src/arch/rv64/kernel/syscall.cpp\<close>) and
  the part of the user trap that handles them (\<^verbatim>\<open>_user_trap\<close> of \<^verbatim>\<open>src/arch/rv64/kernel/trap.cpp\<close>). Each handler
  looks up the capability its first argument names, checks its type and rights, calls the kernel
  operation and returns a result and an error code. The lemmas show which checks are
  enforced and which are not.

  The numbers of the system calls, capability types, error codes and registers belong to libcaprese
  and are the parameter \<open>abi\<close>; \<open>sys_table\<close> is the entry of the dispatch tables for a namespace and an id, \<open>None\<close>
  behind their end.
\<close>

subsection \<open>Interface\<close>

datatype sysns =
    SYSNS_SYSTEM | SYSNS_ARCH | SYSNS_CAP | SYSNS_MEM_CAP | SYSNS_TASK_CAP | SYSNS_ENDPOINT_CAP
  | SYSNS_PAGE_TABLE_CAP | SYSNS_VIRT_PAGE_CAP | SYSNS_ID_CAP

datatype syscall_t =
    SYS_SYSTEM_NULL | SYS_SYSTEM_CORE_ID | SYS_SYSTEM_PAGE_SIZE | SYS_SYSTEM_USER_SPACE_START
  | SYS_SYSTEM_USER_SPACE_END | SYS_SYSTEM_CAPS_PER_CAP_SPACE | SYS_SYSTEM_YIELD | SYS_SYSTEM_CAP_SIZE
  | SYS_SYSTEM_CAP_ALIGN | SYS_ARCH_MMU_MODE | SYS_CAP_TYPE | SYS_CAP_COPY | SYS_CAP_REVOKE | SYS_CAP_DESTROY
  | SYS_CAP_SAME | SYS_MEM_CAP_DEVICE | SYS_MEM_CAP_PHYS_ADDR | SYS_MEM_CAP_SIZE | SYS_MEM_CAP_USED_SIZE
  | SYS_MEM_CAP_CREATE_OBJECT | SYS_TASK_CAP_TID | SYS_TASK_CAP_KILLABLE | SYS_TASK_CAP_SWITCHABLE
  | SYS_TASK_CAP_SUSPENDABLE | SYS_TASK_CAP_RESUMABLE | SYS_TASK_CAP_KILL | SYS_TASK_CAP_SWITCH
  | SYS_TASK_CAP_SUSPEND | SYS_TASK_CAP_RESUME | SYS_TASK_CAP_GET_REG | SYS_TASK_CAP_SET_REG
  | SYS_TASK_CAP_TRANSFER_CAP | SYS_TASK_CAP_DELEGATE_CAP | SYS_TASK_CAP_GET_FREE_SLOT_COUNT
  | SYS_TASK_CAP_GET_CAP_SPACE_COUNT | SYS_TASK_CAP_GET_CAP_SPACE_EXT_COUNT | SYS_TASK_CAP_INSERT_CAP_SPACE
  | SYS_TASK_CAP_EXTEND_CAP_SPACE | SYS_TASK_CAP_SET_KILL_NOTIFY | SYS_ENDPOINT_CAP_SEND_SHORT
  | SYS_ENDPOINT_CAP_SEND_LONG | SYS_ENDPOINT_CAP_RECEIVE | SYS_ENDPOINT_CAP_REPLY
  | SYS_ENDPOINT_CAP_NB_SEND_SHORT | SYS_ENDPOINT_CAP_NB_SEND_LONG | SYS_ENDPOINT_CAP_NB_RECEIVE
  | SYS_ENDPOINT_CAP_CALL | SYS_ENDPOINT_CAP_REPLY_AND_RECEIVE | SYS_PAGE_TABLE_CAP_MAPPED
  | SYS_PAGE_TABLE_CAP_LEVEL | SYS_PAGE_TABLE_CAP_MAP_TABLE | SYS_PAGE_TABLE_CAP_UNMAP_TABLE
  | SYS_PAGE_TABLE_CAP_MAP_PAGE | SYS_PAGE_TABLE_CAP_UNMAP_PAGE | SYS_PAGE_TABLE_CAP_REMAP_PAGE
  | SYS_PAGE_TABLE_CAP_VIRT_ADDR_BASE | SYS_VIRT_PAGE_CAP_MAPPED | SYS_VIRT_PAGE_CAP_READABLE
  | SYS_VIRT_PAGE_CAP_WRITABLE | SYS_VIRT_PAGE_CAP_EXECUTABLE | SYS_VIRT_PAGE_CAP_LEVEL
  | SYS_VIRT_PAGE_CAP_PHYS_ADDR | SYS_VIRT_PAGE_CAP_VIRT_ADDR | SYS_ID_CAP_CREATE | SYS_ID_CAP_COMPARE

record sys_abi =
  abi_msg :: msg_abi
  cap_type_of :: "u64 \<Rightarrow> cap_type_t"
  cap_type_code :: "cap_type_t \<Rightarrow> u64"
  errno_code :: "errno_t \<Rightarrow> u64"
  LAST_REGISTER :: u64
  RISCV_MMU_SV39 :: u64
  core_id :: u64
  ns_table :: "u64 \<Rightarrow> sysns option"
  sys_table :: "sysns \<Rightarrow> u64 \<Rightarrow> syscall_t option"
  max_revoke :: nat

text \<open>
  \<open>max_revoke\<close> bounds the loop of \<^verbatim>\<open>revoke_cap\<close>; it stands for the number of slots of the machine. A handler gets the
  arguments as a function of their index.
\<close>

type_synonym syscall_args_t = "nat \<Rightarrow> u64"

record sysret_t =
  sys_result :: u64
  sys_error :: errno_t

definition sysret_s_ok :: "u64 \<Rightarrow> sysret_t" where "sysret_s_ok r = \<lparr>sys_result = r, sys_error = SYS_S_OK\<rparr>"

definition sysret_e :: "errno_t \<Rightarrow> sysret_t" where "sysret_e e = \<lparr>sys_result = 0, sys_error = e\<rparr>"

definition ret_ok :: "u64 \<Rightarrow> kstate \<Rightarrow> sysret_t run" where "ret_ok r s = Done (sysret_s_ok r) s"

definition ret_error :: "errno_t \<Rightarrow> kstate \<Rightarrow> sysret_t run" where "ret_error e s = Done (sysret_e e) s"

definition errno_to_sysret :: "kstate \<Rightarrow> sysret_t run" where "errno_to_sysret s = ret_error (errno s) s"

text \<open>The end of most handlers: success with the result 0, or the error the operation left.\<close>

definition ret_bool :: "bool \<Rightarrow> kstate \<Rightarrow> sysret_t run" where
  "ret_bool ok s = (if ok then ret_ok 0 s else errno_to_sysret s)"

definition ret_slot :: "addr \<Rightarrow> kstate \<Rightarrow> sysret_t run" where
  "ret_slot slot s =
     (if slot = 0 then errno_to_sysret s
      else case get_cap_slot_index slot s of None \<Rightarrow> Stop | Some i \<Rightarrow> ret_ok i s)"

subsection \<open>Looking up the capability\<close>

text \<open>The function at the head of each of the files: the slot, or null and an error code.\<close>

definition lookup_typed :: "cap_type_t \<Rightarrow> syscall_args_t \<Rightarrow> kstate \<Rightarrow> (addr \<times> kstate) option" where
  "lookup_typed type args s = do {
     (slot, s) \<leftarrow> lookup_cap (current_task s) (args 0) s;
     if slot = 0 then Some (0, s)
     else if get_cap_type (cap_at s slot) \<noteq> type then Some (0, s\<lparr>errno := SYS_E_CAP_TYPE\<rparr>)
     else Some (slot, s)
   }"

definition lookup_mem_cap :: "syscall_args_t \<Rightarrow> kstate \<Rightarrow> (addr \<times> kstate) option" where
  "lookup_mem_cap = lookup_typed CAP_MEM"

definition lookup_task_cap :: "syscall_args_t \<Rightarrow> kstate \<Rightarrow> (addr \<times> kstate) option" where
  "lookup_task_cap = lookup_typed CAP_TASK"

definition lookup_endpoint_cap :: "syscall_args_t \<Rightarrow> kstate \<Rightarrow> (addr \<times> kstate) option" where
  "lookup_endpoint_cap = lookup_typed CAP_ENDPOINT"

definition lookup_page_table_cap :: "syscall_args_t \<Rightarrow> kstate \<Rightarrow> (addr \<times> kstate) option" where
  "lookup_page_table_cap = lookup_typed CAP_PAGE_TABLE"

definition lookup_virt_page_cap :: "syscall_args_t \<Rightarrow> kstate \<Rightarrow> (addr \<times> kstate) option" where
  "lookup_virt_page_cap = lookup_typed CAP_VIRT_PAGE"

text \<open>\<^verbatim>\<open>if (cap_slot == nullptr) return errno_to_sysret();\<close> and the rest of the handler.\<close>

definition with_slot :: "(addr \<times> kstate) option \<Rightarrow> (addr \<Rightarrow> kstate \<Rightarrow> sysret_t run) \<Rightarrow> sysret_t run" where
  "with_slot m f = rbind (lift_run m) (\<lambda>slot s. if slot = 0 then errno_to_sysret s else f slot s)"

definition with_mem :: "syscall_args_t \<Rightarrow> kstate \<Rightarrow> (memory_cap \<Rightarrow> kstate \<Rightarrow> sysret_t run) \<Rightarrow> sysret_t run" where
  "with_mem args s f = with_slot (lookup_mem_cap args s) (\<lambda>slot s. case cap_at s slot of MemoryCap m \<Rightarrow> f m s | _ \<Rightarrow> Stop)"

definition with_task :: "syscall_args_t \<Rightarrow> kstate \<Rightarrow> (task_cap \<Rightarrow> kstate \<Rightarrow> sysret_t run) \<Rightarrow> sysret_t run" where
  "with_task args s f = with_slot (lookup_task_cap args s) (\<lambda>slot s. case cap_at s slot of TaskCap t \<Rightarrow> f t s | _ \<Rightarrow> Stop)"

definition with_endpoint :: "syscall_args_t \<Rightarrow> kstate \<Rightarrow> (addr \<Rightarrow> kstate \<Rightarrow> sysret_t run) \<Rightarrow> sysret_t run" where
  "with_endpoint args s f =
     with_slot (lookup_endpoint_cap args s) (\<lambda>slot s. case cap_at s slot of EndpointCap e \<Rightarrow> f (ec_endpoint e) s | _ \<Rightarrow> Stop)"

definition with_page_table :: "syscall_args_t \<Rightarrow> kstate \<Rightarrow> (page_table_cap \<Rightarrow> kstate \<Rightarrow> sysret_t run) \<Rightarrow> sysret_t run" where
  "with_page_table args s f =
     with_slot (lookup_page_table_cap args s) (\<lambda>slot s. case cap_at s slot of PageTableCap p \<Rightarrow> f p s | _ \<Rightarrow> Stop)"

definition with_virt_page :: "syscall_args_t \<Rightarrow> kstate \<Rightarrow> (virt_page_cap \<Rightarrow> kstate \<Rightarrow> sysret_t run) \<Rightarrow> sysret_t run" where
  "with_virt_page args s f =
     with_slot (lookup_virt_page_cap args s) (\<lambda>slot s. case cap_at s slot of VirtPageCap p \<Rightarrow> f p s | _ \<Rightarrow> Stop)"

subsection \<open>The system namespace\<close>

definition invoke_sys_system_null :: "syscall_args_t \<Rightarrow> kstate \<Rightarrow> sysret_t run" where
  "invoke_sys_system_null _ s = ret_ok 0 s"

definition invoke_sys_system_core_id :: "sys_abi \<Rightarrow> syscall_args_t \<Rightarrow> kstate \<Rightarrow> sysret_t run" where
  "invoke_sys_system_core_id abi _ s = ret_ok (core_id abi) s"

definition invoke_sys_system_page_size :: "syscall_args_t \<Rightarrow> kstate \<Rightarrow> sysret_t run" where
  "invoke_sys_system_page_size _ s = ret_ok PAGE_SIZE s"

definition invoke_sys_system_user_space_start :: "syscall_args_t \<Rightarrow> kstate \<Rightarrow> sysret_t run" where
  "invoke_sys_system_user_space_start _ s = ret_ok CONFIG_USER_SPACE_BASE s"

definition invoke_sys_system_user_space_end :: "syscall_args_t \<Rightarrow> kstate \<Rightarrow> sysret_t run" where
  "invoke_sys_system_user_space_end _ s = ret_ok (CONFIG_USER_SPACE_BASE + CONFIG_USER_SPACE_SIZE) s"

definition invoke_sys_system_caps_per_cap_space :: "syscall_args_t \<Rightarrow> kstate \<Rightarrow> sysret_t run" where
  "invoke_sys_system_caps_per_cap_space _ s = ret_ok NUM_SLOTS s"

definition invoke_sys_system_yield :: "syscall_args_t \<Rightarrow> kstate \<Rightarrow> sysret_t run" where
  "invoke_sys_system_yield _ s = rbind (yield s) (\<lambda>_ s. ret_ok 0 s)"

definition invoke_sys_system_cap_size :: "sys_abi \<Rightarrow> syscall_args_t \<Rightarrow> kstate \<Rightarrow> sysret_t run" where
  "invoke_sys_system_cap_size abi args s = 
     (if args 0 > cap_type_code abi CAP_ZOMBIE then ret_error SYS_E_ILL_ARGS s
      else ret_ok (get_cap_size (cap_type_of abi (args 0))) s)"

definition invoke_sys_system_cap_align :: "sys_abi \<Rightarrow> syscall_args_t \<Rightarrow> kstate \<Rightarrow> sysret_t run" where
  "invoke_sys_system_cap_align abi args s = 
     (if args 0 > cap_type_code abi CAP_ZOMBIE then ret_error SYS_E_ILL_ARGS s
      else ret_ok (get_cap_align (cap_type_of abi (args 0))) s)"

definition invoke_sys_arch_mmu_mode :: "sys_abi \<Rightarrow> syscall_args_t \<Rightarrow> kstate \<Rightarrow> sysret_t run" where
  "invoke_sys_arch_mmu_mode abi _ s = ret_ok (RISCV_MMU_SV39 abi) s"

subsection \<open>Capabilities\<close>

definition invoke_sys_cap_type :: "sys_abi \<Rightarrow> syscall_args_t \<Rightarrow> kstate \<Rightarrow> sysret_t run" where
  "invoke_sys_cap_type abi args s = 
     rbind (lift_run (lookup_cap (current_task s) (args 0) s)) (\<lambda>slot s.
     if slot = 0 then
       if errno s = SYS_S_OK then ret_ok (cap_type_code abi CAP_NULL) s else errno_to_sysret s
     else ret_ok (cap_type_code abi (get_cap_type (cap_at s slot))) s)"

definition invoke_sys_cap_copy :: "syscall_args_t \<Rightarrow> kstate \<Rightarrow> sysret_t run" where
  "invoke_sys_cap_copy args s = 
     with_slot (lookup_cap (current_task s) (args 0) s) (\<lambda>slot s.
     rbind (lift_run (copy_cap slot s)) ret_slot)"

definition invoke_sys_cap_revoke :: "sys_abi \<Rightarrow> syscall_args_t \<Rightarrow> kstate \<Rightarrow> sysret_t run" where
  "invoke_sys_cap_revoke abi args s = 
     with_slot (lookup_cap (current_task s) (args 0) s) (\<lambda>slot s.
     rbind (revoke_cap (max_revoke abi) (abi_msg abi) slot s) ret_bool)"

definition invoke_sys_cap_destroy :: "sys_abi \<Rightarrow> syscall_args_t \<Rightarrow> kstate \<Rightarrow> sysret_t run" where
  "invoke_sys_cap_destroy abi args s = 
     with_slot (lookup_cap (current_task s) (args 0) s) (\<lambda>slot s.
     rbind (destroy_cap (max_revoke abi) (abi_msg abi) slot s) ret_bool)"

definition invoke_sys_cap_same :: "syscall_args_t \<Rightarrow> kstate \<Rightarrow> sysret_t run" where
  "invoke_sys_cap_same args s = 
     with_slot (lookup_cap (current_task s) (args 0) s) (\<lambda>lhs s.
     with_slot (lookup_cap (current_task s) (args 1) s) (\<lambda>rhs s.
     case is_same_cap lhs rhs s of None \<Rightarrow> Stop | Some same \<Rightarrow> ret_ok (of_bool same) s))"

subsection \<open>Memory capabilities\<close>

definition invoke_sys_mem_cap_device :: "syscall_args_t \<Rightarrow> kstate \<Rightarrow> sysret_t run" where
  "invoke_sys_mem_cap_device args s = with_mem args s (\<lambda>m s. ret_ok (of_bool (mem_device m)) s)"

definition invoke_sys_mem_cap_phys_addr :: "syscall_args_t \<Rightarrow> kstate \<Rightarrow> sysret_t run" where
  "invoke_sys_mem_cap_phys_addr args s = with_mem args s (\<lambda>m s. ret_ok (ucast (mem_phys_addr m)) s)"

definition invoke_sys_mem_cap_size :: "syscall_args_t \<Rightarrow> kstate \<Rightarrow> sysret_t run" where
  "invoke_sys_mem_cap_size args s = with_mem args s (\<lambda>m s. ret_ok (ucast (mem_size m)) s)"

definition invoke_sys_mem_cap_used_size :: "syscall_args_t \<Rightarrow> kstate \<Rightarrow> sysret_t run" where
  "invoke_sys_mem_cap_used_size args s = with_mem args s (\<lambda>m s. ret_ok (ucast (mem_used_size m)) s)"

definition invoke_sys_mem_cap_create_object :: "sys_abi \<Rightarrow> syscall_args_t \<Rightarrow> kstate \<Rightarrow> sysret_t run" where
  "invoke_sys_mem_cap_create_object abi args s = 
     with_slot (lookup_mem_cap args s) (\<lambda>slot s.
     rbind (lift_run (create_object (current_task s) slot (cap_type_of abi (args 1)) (map args [2..<7]) s)) ret_slot)"

subsection \<open>Task capabilities\<close>

definition invoke_sys_task_cap_tid :: "syscall_args_t \<Rightarrow> kstate \<Rightarrow> sysret_t run" where
  "invoke_sys_task_cap_tid args s = with_task args s (\<lambda>tc s. ret_ok (ucast (t_tid (tasks s (tc_task tc)))) s)"

definition invoke_sys_task_cap_killable :: "syscall_args_t \<Rightarrow> kstate \<Rightarrow> sysret_t run" where
  "invoke_sys_task_cap_killable args s = with_task args s (\<lambda>tc s. ret_ok (of_bool (tc_killable tc)) s)"

definition invoke_sys_task_cap_switchable :: "syscall_args_t \<Rightarrow> kstate \<Rightarrow> sysret_t run" where
  "invoke_sys_task_cap_switchable args s = with_task args s (\<lambda>tc s. ret_ok (of_bool (tc_switchable tc)) s)"

definition invoke_sys_task_cap_suspendable :: "syscall_args_t \<Rightarrow> kstate \<Rightarrow> sysret_t run" where
  "invoke_sys_task_cap_suspendable args s = with_task args s (\<lambda>tc s. ret_ok (of_bool (tc_suspendable tc)) s)"

definition invoke_sys_task_cap_resumable :: "syscall_args_t \<Rightarrow> kstate \<Rightarrow> sysret_t run" where
  "invoke_sys_task_cap_resumable args s = with_task args s (\<lambda>tc s. ret_ok (of_bool (tc_resumable tc)) s)"

definition invoke_sys_task_cap_kill :: "sys_abi \<Rightarrow> syscall_args_t \<Rightarrow> kstate \<Rightarrow> sysret_t run" where
  "invoke_sys_task_cap_kill abi args s = 
     with_task args s (\<lambda>tc s.
     if \<not> tc_killable tc then ret_error SYS_E_CAP_STATE s
     else rbind (kill_task (abi_msg abi) (tc_task tc) (ucast (args 1)) s) (\<lambda>_ s. ret_ok 0 s))"

definition invoke_sys_task_cap_switch :: "syscall_args_t \<Rightarrow> kstate \<Rightarrow> sysret_t run" where
  "invoke_sys_task_cap_switch args s = 
     with_task args s (\<lambda>tc s.
     if \<not> tc_switchable tc then ret_error SYS_E_CAP_STATE s
     else rbind (lift_run (do {
         guard_task (tc_task tc) s;
         if t_state (tasks s (tc_task tc)) \<noteq> ready then Some (False, s)
         else do { s \<leftarrow> remove_ready_queue (tc_task tc) s; Some (True, s) }
       })) (\<lambda>ok s.
       if \<not> ok then ret_error SYS_E_ILL_STATE s
       else rbind (switch_task (tc_task tc) s) (\<lambda>_ s. ret_ok 0 s)))"

definition invoke_sys_task_cap_suspend :: "syscall_args_t \<Rightarrow> kstate \<Rightarrow> sysret_t run" where
  "invoke_sys_task_cap_suspend args s = 
     with_task args s (\<lambda>tc s.
     if \<not> tc_suspendable tc then ret_error SYS_E_CAP_STATE s
     else rbind (suspend_task (tc_task tc) s) (\<lambda>_ s. ret_ok 0 s))"

definition invoke_sys_task_cap_resume :: "syscall_args_t \<Rightarrow> kstate \<Rightarrow> sysret_t run" where
  "invoke_sys_task_cap_resume args s = 
     with_task args s (\<lambda>tc s.
     if \<not> tc_resumable tc then ret_error SYS_E_CAP_STATE s
     else rbind (lift_state (resume_task (tc_task tc) s)) (\<lambda>_ s. ret_ok 0 s))"

definition invoke_sys_task_cap_get_reg :: "sys_abi \<Rightarrow> syscall_args_t \<Rightarrow> kstate \<Rightarrow> sysret_t run" where
  "invoke_sys_task_cap_get_reg abi args s = 
     with_task args s (\<lambda>tc s.
     if \<not> tc_register_gettable tc then ret_error SYS_E_CAP_STATE s
     else if t_state (tasks s (tc_task tc)) \<noteq> suspended then ret_error SYS_E_ILL_STATE s
     else if args 1 > LAST_REGISTER abi then ret_error SYS_E_ILL_ARGS s
     else ret_ok (get_register (LAST_REGISTER abi) (tc_task tc) (args 1) s) s)"

definition invoke_sys_task_cap_set_reg :: "sys_abi \<Rightarrow> syscall_args_t \<Rightarrow> kstate \<Rightarrow> sysret_t run" where
  "invoke_sys_task_cap_set_reg abi args s = 
     with_task args s (\<lambda>tc s.
     if \<not> tc_register_settable tc then ret_error SYS_E_CAP_STATE s
     else if t_state (tasks s (tc_task tc)) \<noteq> suspended then ret_error SYS_E_ILL_STATE s
     else if args 1 > LAST_REGISTER abi then ret_error SYS_E_ILL_ARGS s
     else let (old_value, s) = set_register (LAST_REGISTER abi) (tc_task tc) (args 1) (args 2) s in ret_ok old_value s)"

definition invoke_sys_task_cap_transfer_cap :: "syscall_args_t \<Rightarrow> kstate \<Rightarrow> sysret_t run" where
  "invoke_sys_task_cap_transfer_cap args s = 
     with_task args s (\<lambda>tc s.
     if t_state (tasks s (tc_task tc)) \<noteq> suspended then ret_error SYS_E_ILL_STATE s
     else with_slot (lookup_cap (current_task s) (args 1) s) (\<lambda>src_slot s.
       rbind (lift_run (transfer_cap (tc_task tc) src_slot s)) ret_slot))"

definition invoke_sys_task_cap_delegate_cap :: "syscall_args_t \<Rightarrow> kstate \<Rightarrow> sysret_t run" where
  "invoke_sys_task_cap_delegate_cap args s = 
     with_task args s (\<lambda>tc s.
     if t_state (tasks s (tc_task tc)) \<noteq> suspended then ret_error SYS_E_ILL_STATE s
     else with_slot (lookup_cap (current_task s) (args 1) s) (\<lambda>src_slot s.
       rbind (lift_run (delegate_cap (tc_task tc) src_slot s)) ret_slot))"

definition invoke_sys_task_cap_get_free_slot_count :: "syscall_args_t \<Rightarrow> kstate \<Rightarrow> sysret_t run" where
  "invoke_sys_task_cap_get_free_slot_count args s = with_task args s (\<lambda>tc s. ret_ok (t_free_slots_count (tasks s (tc_task tc))) s)"

definition invoke_sys_task_cap_get_cap_space_count :: "syscall_args_t \<Rightarrow> kstate \<Rightarrow> sysret_t run" where
  "invoke_sys_task_cap_get_cap_space_count args s = with_task args s (\<lambda>tc s. ret_ok (ucast (t_num_cap_space (tasks s (tc_task tc)))) s)"

definition invoke_sys_task_cap_get_cap_space_ext_count :: "syscall_args_t \<Rightarrow> kstate \<Rightarrow> sysret_t run" where
  "invoke_sys_task_cap_get_cap_space_ext_count args s = with_task args s (\<lambda>tc s. ret_ok (ucast (t_num_extension (tasks s (tc_task tc)))) s)"

definition invoke_sys_task_cap_insert_cap_space :: "syscall_args_t \<Rightarrow> kstate \<Rightarrow> sysret_t run" where
  "invoke_sys_task_cap_insert_cap_space args s = 
     with_slot (lookup_task_cap args s) (\<lambda>slot s.
     with_slot (lookup_cap (current_task s) (args 1) s) (\<lambda>page_slot s.
     if get_cap_type (cap_at s page_slot) \<noteq> CAP_CAP_SPACE then ret_error SYS_E_CAP_TYPE s
     else rbind (lift_run (insert_cap_space_cap slot page_slot s)) ret_bool))"

definition invoke_sys_task_cap_extend_cap_space :: "syscall_args_t \<Rightarrow> kstate \<Rightarrow> sysret_t run" where
  "invoke_sys_task_cap_extend_cap_space args s = 
     with_slot (lookup_task_cap args s) (\<lambda>slot s.
     with_slot (lookup_cap (current_task s) (args 1) s) (\<lambda>page_slot s.
     if get_cap_type (cap_at s page_slot) \<noteq> CAP_PAGE_TABLE then ret_error SYS_E_CAP_TYPE s
     else rbind (lift_run (extend_cap_space_cap slot page_slot s)) ret_bool))"

definition invoke_sys_task_cap_set_kill_notify :: "syscall_args_t \<Rightarrow> kstate \<Rightarrow> sysret_t run" where
  "invoke_sys_task_cap_set_kill_notify args s = 
     with_slot (lookup_task_cap args s) (\<lambda>slot s.
     with_slot (lookup_cap (current_task s) (args 1) s) (\<lambda>ep_slot s.
     case (cap_at s ep_slot, cap_at s slot) of
       (EndpointCap e, TaskCap tc) \<Rightarrow>
         rbind (lift_state (set_kill_notify (tc_task tc) (ec_endpoint e) s)) (\<lambda>_ s. ret_ok 0 s)
     | _ \<Rightarrow> ret_error SYS_E_CAP_TYPE s))"

subsection \<open>Endpoint capabilities\<close>

definition invoke_sys_endpoint_cap_send_short :: "sys_abi \<Rightarrow> syscall_args_t \<Rightarrow> kstate \<Rightarrow> sysret_t run" where
  "invoke_sys_endpoint_cap_send_short abi args s = 
     with_endpoint args s (\<lambda>e s. rbind (ipc_send_short (abi_msg abi) True e (\<lambda>i. args (i + 1)) s) ret_bool)"

definition invoke_sys_endpoint_cap_send_long :: "sys_abi \<Rightarrow> syscall_args_t \<Rightarrow> kstate \<Rightarrow> sysret_t run" where
  "invoke_sys_endpoint_cap_send_long abi args s = 
     with_endpoint args s (\<lambda>e s. rbind (ipc_send_long (abi_msg abi) True e (args 1) s) ret_bool)"

definition invoke_sys_endpoint_cap_receive :: "sys_abi \<Rightarrow> syscall_args_t \<Rightarrow> kstate \<Rightarrow> sysret_t run" where
  "invoke_sys_endpoint_cap_receive abi args s = 
     with_endpoint args s (\<lambda>e s. rbind (ipc_receive (abi_msg abi) True e (args 1) s) ret_bool)"

definition invoke_sys_endpoint_cap_nb_send_short :: "sys_abi \<Rightarrow> syscall_args_t \<Rightarrow> kstate \<Rightarrow> sysret_t run" where
  "invoke_sys_endpoint_cap_nb_send_short abi args s = 
     with_endpoint args s (\<lambda>e s. rbind (ipc_send_short (abi_msg abi) False e (\<lambda>i. args (i + 1)) s) ret_bool)"

definition invoke_sys_endpoint_cap_nb_send_long :: "sys_abi \<Rightarrow> syscall_args_t \<Rightarrow> kstate \<Rightarrow> sysret_t run" where
  "invoke_sys_endpoint_cap_nb_send_long abi args s = 
     with_endpoint args s (\<lambda>e s. rbind (ipc_send_long (abi_msg abi) False e (args 1) s) ret_bool)"

definition invoke_sys_endpoint_cap_nb_receive :: "sys_abi \<Rightarrow> syscall_args_t \<Rightarrow> kstate \<Rightarrow> sysret_t run" where
  "invoke_sys_endpoint_cap_nb_receive abi args s = 
     with_endpoint args s (\<lambda>e s. rbind (ipc_receive (abi_msg abi) False e (args 1) s) ret_bool)"

definition invoke_sys_endpoint_cap_reply :: "sys_abi \<Rightarrow> syscall_args_t \<Rightarrow> kstate \<Rightarrow> sysret_t run" where
  "invoke_sys_endpoint_cap_reply abi args s = 
     with_endpoint args s (\<lambda>e s. rbind (lift_run (ipc_reply (abi_msg abi) e (args 1) s)) ret_bool)"

definition invoke_sys_endpoint_cap_call :: "sys_abi \<Rightarrow> syscall_args_t \<Rightarrow> kstate \<Rightarrow> sysret_t run" where
  "invoke_sys_endpoint_cap_call abi args s = 
     with_endpoint args s (\<lambda>e s. rbind (ipc_call (abi_msg abi) e (args 1) s) ret_bool)"

definition invoke_sys_endpoint_cap_reply_and_receive :: "sys_abi \<Rightarrow> syscall_args_t \<Rightarrow> kstate \<Rightarrow> sysret_t run" where
  "invoke_sys_endpoint_cap_reply_and_receive abi args s = 
     with_endpoint args s (\<lambda>e s.
     rbind (lift_run (ipc_reply (abi_msg abi) e (args 1) s)) (\<lambda>ok s.
     if \<not> ok then errno_to_sysret s
     else rbind (ipc_receive (abi_msg abi) True e (args 1) s) ret_bool))"

subsection \<open>Page table and page capabilities\<close>

definition invoke_sys_page_table_cap_mapped :: "syscall_args_t \<Rightarrow> kstate \<Rightarrow> sysret_t run" where
  "invoke_sys_page_table_cap_mapped args s = with_page_table args s (\<lambda>pt s. ret_ok (of_bool (pt_mapped pt)) s)"

definition invoke_sys_page_table_cap_level :: "syscall_args_t \<Rightarrow> kstate \<Rightarrow> sysret_t run" where
  "invoke_sys_page_table_cap_level args s = 
     with_page_table args s (\<lambda>pt s. if \<not> pt_mapped pt then ret_error SYS_E_CAP_STATE s else ret_ok (ucast (pt_level pt)) s)"

definition invoke_sys_page_table_cap_map_table :: "syscall_args_t \<Rightarrow> kstate \<Rightarrow> sysret_t run" where
  "invoke_sys_page_table_cap_map_table args s = 
     with_slot (lookup_page_table_cap args s) (\<lambda>slot s.
     rbind (lift_run (lookup_cap (current_task s) (args 2) s)) (\<lambda>child s.
     rbind (lift_run (map_page_table_cap slot (args 1) child s)) ret_bool))"

definition invoke_sys_page_table_cap_unmap_table :: "syscall_args_t \<Rightarrow> kstate \<Rightarrow> sysret_t run" where
  "invoke_sys_page_table_cap_unmap_table args s = 
     with_slot (lookup_page_table_cap args s) (\<lambda>slot s.
     rbind (lift_run (lookup_cap (current_task s) (args 2) s)) (\<lambda>child s.
     rbind (lift_run (unmap_page_table_cap slot (args 1) child s)) ret_bool))"

definition invoke_sys_page_table_cap_map_page :: "syscall_args_t \<Rightarrow> kstate \<Rightarrow> sysret_t run" where
  "invoke_sys_page_table_cap_map_page args s = 
     with_slot (lookup_page_table_cap args s) (\<lambda>slot s.
     rbind (lift_run (lookup_cap (current_task s) (args 5) s)) (\<lambda>page s.
     rbind (lift_run (map_virt_page_cap slot (args 1) page (args 2 \<noteq> 0) (args 3 \<noteq> 0) (args 4 \<noteq> 0) s)) ret_bool))"

definition invoke_sys_page_table_cap_unmap_page :: "syscall_args_t \<Rightarrow> kstate \<Rightarrow> sysret_t run" where
  "invoke_sys_page_table_cap_unmap_page args s = 
     with_slot (lookup_page_table_cap args s) (\<lambda>slot s.
     rbind (lift_run (lookup_cap (current_task s) (args 2) s)) (\<lambda>page s.
     rbind (lift_run (unmap_virt_page_cap slot (args 1) page s)) ret_bool))"

definition invoke_sys_page_table_cap_remap_page :: "syscall_args_t \<Rightarrow> kstate \<Rightarrow> sysret_t run" where
  "invoke_sys_page_table_cap_remap_page args s = 
     with_slot (lookup_page_table_cap args s) (\<lambda>slot s.
     rbind (lift_run (lookup_cap (current_task s) (args 5) s)) (\<lambda>page s.
     rbind (lift_run (lookup_cap (current_task s) (args 6) s)) (\<lambda>old s.
     rbind (lift_run (remap_virt_page_cap slot (args 1) page (args 2 \<noteq> 0) (args 3 \<noteq> 0) (args 4 \<noteq> 0) old s)) ret_bool)))"

definition invoke_sys_page_table_cap_virt_addr_base :: "syscall_args_t \<Rightarrow> kstate \<Rightarrow> sysret_t run" where
  "invoke_sys_page_table_cap_virt_addr_base args s = 
     with_page_table args s (\<lambda>pt s.
     if \<not> pt_mapped pt then ret_error SYS_E_CAP_STATE s else ret_ok (ucast (pt_virt_addr_base pt)) s)"

definition invoke_sys_virt_page_cap_mapped :: "syscall_args_t \<Rightarrow> kstate \<Rightarrow> sysret_t run" where
  "invoke_sys_virt_page_cap_mapped args s = with_virt_page args s (\<lambda>vp s. ret_ok (of_bool (vp_mapped vp)) s)"

definition invoke_sys_virt_page_cap_readable :: "syscall_args_t \<Rightarrow> kstate \<Rightarrow> sysret_t run" where
  "invoke_sys_virt_page_cap_readable args s = with_virt_page args s (\<lambda>vp s. ret_ok (of_bool (vp_readable vp)) s)"

definition invoke_sys_virt_page_cap_writable :: "syscall_args_t \<Rightarrow> kstate \<Rightarrow> sysret_t run" where
  "invoke_sys_virt_page_cap_writable args s = with_virt_page args s (\<lambda>vp s. ret_ok (of_bool (vp_writable vp)) s)"

definition invoke_sys_virt_page_cap_executable :: "syscall_args_t \<Rightarrow> kstate \<Rightarrow> sysret_t run" where
  "invoke_sys_virt_page_cap_executable args s = with_virt_page args s (\<lambda>vp s. ret_ok (of_bool (vp_executable vp)) s)"

definition invoke_sys_virt_page_cap_level :: "syscall_args_t \<Rightarrow> kstate \<Rightarrow> sysret_t run" where
  "invoke_sys_virt_page_cap_level args s = with_virt_page args s (\<lambda>vp s. ret_ok (ucast (vp_level vp)) s)"

definition invoke_sys_virt_page_cap_phys_addr :: "syscall_args_t \<Rightarrow> kstate \<Rightarrow> sysret_t run" where
  "invoke_sys_virt_page_cap_phys_addr args s = with_virt_page args s (\<lambda>vp s. ret_ok (ucast (vp_phys_addr vp)) s)"

definition invoke_sys_virt_page_cap_virt_addr :: "syscall_args_t \<Rightarrow> kstate \<Rightarrow> sysret_t run" where
  "invoke_sys_virt_page_cap_virt_addr args s = 
     with_virt_page args s (\<lambda>vp s. if \<not> vp_mapped vp then ret_error SYS_E_CAP_STATE s else ret_ok (vp_address vp) s)"

subsection \<open>Id capabilities\<close>

definition invoke_sys_id_cap_create :: "syscall_args_t \<Rightarrow> kstate \<Rightarrow> sysret_t run" where
  "invoke_sys_id_cap_create _ s = 
     rbind (lift_run (do {
       let task = current_task s;
       guard_task task s;
       (slot, s) \<leftarrow> pop_free_slots task s;
       if slot = 0 then Some (0, s)
       else do {
         (result, s) \<leftarrow> create_id_object slot s;
         if result = 0 then do { s \<leftarrow> push_free_slots task slot s; Some (0, s) } else Some (result, s)
       }
     })) (\<lambda>slot s. if slot = 0 then ret_error SYS_E_OUT_OF_CAP_SPACE s else ret_slot slot s)"

definition invoke_sys_id_cap_compare :: "syscall_args_t \<Rightarrow> kstate \<Rightarrow> sysret_t run" where
  "invoke_sys_id_cap_compare args s = 
     rbind (lift_state (do { guard_task (current_task s) s; Some s })) (\<lambda>_ s.
     with_slot (lookup_cap (current_task s) (args 0) s) (\<lambda>lhs s.
     if get_cap_type (cap_at s lhs) \<noteq> CAP_ID then ret_error SYS_E_CAP_TYPE s
     else with_slot (lookup_cap (current_task s) (args 1) s) (\<lambda>rhs s.
     if get_cap_type (cap_at s rhs) \<noteq> CAP_ID then ret_error SYS_E_CAP_TYPE s
     else case compare_id_cap lhs rhs s of None \<Rightarrow> Stop | Some r \<Rightarrow> ret_ok (of_int r) s)))"

subsection \<open>Dispatch\<close>

definition run_syscall :: "sys_abi \<Rightarrow> syscall_t \<Rightarrow> syscall_args_t \<Rightarrow> kstate \<Rightarrow> sysret_t run" where
  "run_syscall abi sc =
     (case sc of
        SYS_SYSTEM_NULL \<Rightarrow> invoke_sys_system_null
      | SYS_SYSTEM_CORE_ID \<Rightarrow> invoke_sys_system_core_id abi
      | SYS_SYSTEM_PAGE_SIZE \<Rightarrow> invoke_sys_system_page_size
      | SYS_SYSTEM_USER_SPACE_START \<Rightarrow> invoke_sys_system_user_space_start
      | SYS_SYSTEM_USER_SPACE_END \<Rightarrow> invoke_sys_system_user_space_end
      | SYS_SYSTEM_CAPS_PER_CAP_SPACE \<Rightarrow> invoke_sys_system_caps_per_cap_space
      | SYS_SYSTEM_YIELD \<Rightarrow> invoke_sys_system_yield
      | SYS_SYSTEM_CAP_SIZE \<Rightarrow> invoke_sys_system_cap_size abi
      | SYS_SYSTEM_CAP_ALIGN \<Rightarrow> invoke_sys_system_cap_align abi
      | SYS_ARCH_MMU_MODE \<Rightarrow> invoke_sys_arch_mmu_mode abi
      | SYS_CAP_TYPE \<Rightarrow> invoke_sys_cap_type abi
      | SYS_CAP_COPY \<Rightarrow> invoke_sys_cap_copy
      | SYS_CAP_REVOKE \<Rightarrow> invoke_sys_cap_revoke abi
      | SYS_CAP_DESTROY \<Rightarrow> invoke_sys_cap_destroy abi
      | SYS_CAP_SAME \<Rightarrow> invoke_sys_cap_same
      | SYS_MEM_CAP_DEVICE \<Rightarrow> invoke_sys_mem_cap_device
      | SYS_MEM_CAP_PHYS_ADDR \<Rightarrow> invoke_sys_mem_cap_phys_addr
      | SYS_MEM_CAP_SIZE \<Rightarrow> invoke_sys_mem_cap_size
      | SYS_MEM_CAP_USED_SIZE \<Rightarrow> invoke_sys_mem_cap_used_size
      | SYS_MEM_CAP_CREATE_OBJECT \<Rightarrow> invoke_sys_mem_cap_create_object abi
      | SYS_TASK_CAP_TID \<Rightarrow> invoke_sys_task_cap_tid
      | SYS_TASK_CAP_KILLABLE \<Rightarrow> invoke_sys_task_cap_killable
      | SYS_TASK_CAP_SWITCHABLE \<Rightarrow> invoke_sys_task_cap_switchable
      | SYS_TASK_CAP_SUSPENDABLE \<Rightarrow> invoke_sys_task_cap_suspendable
      | SYS_TASK_CAP_RESUMABLE \<Rightarrow> invoke_sys_task_cap_resumable
      | SYS_TASK_CAP_KILL \<Rightarrow> invoke_sys_task_cap_kill abi
      | SYS_TASK_CAP_SWITCH \<Rightarrow> invoke_sys_task_cap_switch
      | SYS_TASK_CAP_SUSPEND \<Rightarrow> invoke_sys_task_cap_suspend
      | SYS_TASK_CAP_RESUME \<Rightarrow> invoke_sys_task_cap_resume
      | SYS_TASK_CAP_GET_REG \<Rightarrow> invoke_sys_task_cap_get_reg abi
      | SYS_TASK_CAP_SET_REG \<Rightarrow> invoke_sys_task_cap_set_reg abi
      | SYS_TASK_CAP_TRANSFER_CAP \<Rightarrow> invoke_sys_task_cap_transfer_cap
      | SYS_TASK_CAP_DELEGATE_CAP \<Rightarrow> invoke_sys_task_cap_delegate_cap
      | SYS_TASK_CAP_GET_FREE_SLOT_COUNT \<Rightarrow> invoke_sys_task_cap_get_free_slot_count
      | SYS_TASK_CAP_GET_CAP_SPACE_COUNT \<Rightarrow> invoke_sys_task_cap_get_cap_space_count
      | SYS_TASK_CAP_GET_CAP_SPACE_EXT_COUNT \<Rightarrow> invoke_sys_task_cap_get_cap_space_ext_count
      | SYS_TASK_CAP_INSERT_CAP_SPACE \<Rightarrow> invoke_sys_task_cap_insert_cap_space
      | SYS_TASK_CAP_EXTEND_CAP_SPACE \<Rightarrow> invoke_sys_task_cap_extend_cap_space
      | SYS_TASK_CAP_SET_KILL_NOTIFY \<Rightarrow> invoke_sys_task_cap_set_kill_notify
      | SYS_ENDPOINT_CAP_SEND_SHORT \<Rightarrow> invoke_sys_endpoint_cap_send_short abi
      | SYS_ENDPOINT_CAP_SEND_LONG \<Rightarrow> invoke_sys_endpoint_cap_send_long abi
      | SYS_ENDPOINT_CAP_RECEIVE \<Rightarrow> invoke_sys_endpoint_cap_receive abi
      | SYS_ENDPOINT_CAP_REPLY \<Rightarrow> invoke_sys_endpoint_cap_reply abi
      | SYS_ENDPOINT_CAP_NB_SEND_SHORT \<Rightarrow> invoke_sys_endpoint_cap_nb_send_short abi
      | SYS_ENDPOINT_CAP_NB_SEND_LONG \<Rightarrow> invoke_sys_endpoint_cap_nb_send_long abi
      | SYS_ENDPOINT_CAP_NB_RECEIVE \<Rightarrow> invoke_sys_endpoint_cap_nb_receive abi
      | SYS_ENDPOINT_CAP_CALL \<Rightarrow> invoke_sys_endpoint_cap_call abi
      | SYS_ENDPOINT_CAP_REPLY_AND_RECEIVE \<Rightarrow> invoke_sys_endpoint_cap_reply_and_receive abi
      | SYS_PAGE_TABLE_CAP_MAPPED \<Rightarrow> invoke_sys_page_table_cap_mapped
      | SYS_PAGE_TABLE_CAP_LEVEL \<Rightarrow> invoke_sys_page_table_cap_level
      | SYS_PAGE_TABLE_CAP_MAP_TABLE \<Rightarrow> invoke_sys_page_table_cap_map_table
      | SYS_PAGE_TABLE_CAP_UNMAP_TABLE \<Rightarrow> invoke_sys_page_table_cap_unmap_table
      | SYS_PAGE_TABLE_CAP_MAP_PAGE \<Rightarrow> invoke_sys_page_table_cap_map_page
      | SYS_PAGE_TABLE_CAP_UNMAP_PAGE \<Rightarrow> invoke_sys_page_table_cap_unmap_page
      | SYS_PAGE_TABLE_CAP_REMAP_PAGE \<Rightarrow> invoke_sys_page_table_cap_remap_page
      | SYS_PAGE_TABLE_CAP_VIRT_ADDR_BASE \<Rightarrow> invoke_sys_page_table_cap_virt_addr_base
      | SYS_VIRT_PAGE_CAP_MAPPED \<Rightarrow> invoke_sys_virt_page_cap_mapped
      | SYS_VIRT_PAGE_CAP_READABLE \<Rightarrow> invoke_sys_virt_page_cap_readable
      | SYS_VIRT_PAGE_CAP_WRITABLE \<Rightarrow> invoke_sys_virt_page_cap_writable
      | SYS_VIRT_PAGE_CAP_EXECUTABLE \<Rightarrow> invoke_sys_virt_page_cap_executable
      | SYS_VIRT_PAGE_CAP_LEVEL \<Rightarrow> invoke_sys_virt_page_cap_level
      | SYS_VIRT_PAGE_CAP_PHYS_ADDR \<Rightarrow> invoke_sys_virt_page_cap_phys_addr
      | SYS_VIRT_PAGE_CAP_VIRT_ADDR \<Rightarrow> invoke_sys_virt_page_cap_virt_addr
      | SYS_ID_CAP_CREATE \<Rightarrow> invoke_sys_id_cap_create
      | SYS_ID_CAP_COMPARE \<Rightarrow> invoke_sys_id_cap_compare)"

text \<open>The registers a0 to a7 of a trap frame.\<close>

definition REG_A0 :: nat where "REG_A0 = 9"
definition REG_A1 :: nat where "REG_A1 = 10"
definition REG_A7 :: nat where "REG_A7 = 16"
definition REG_SEPC :: nat where "REG_SEPC = 31"

definition get_syscall_args :: "kstate \<Rightarrow> syscall_args_t \<times> u64" where
  "get_syscall_args s =
     (let f = t_frame (tasks s (current_task s)) in (\<lambda>i. f (REG_A0 + i), f REG_A7))"

text \<open>
  \<open>dispatch\<close> is the common text of the functions of the namespaces: an id behind the end of the table is refused,
  any other runs its entry.
\<close>

definition dispatch :: "sys_abi \<Rightarrow> sysns \<Rightarrow> u64 \<Rightarrow> syscall_args_t \<Rightarrow> kstate \<Rightarrow> sysret_t run" where
  "dispatch abi ns i args s =
     (case sys_table abi ns i of None \<Rightarrow> ret_error SYS_E_ILL_CODE s | Some sc \<Rightarrow> run_syscall abi sc args s)"

definition invoke_syscall_system :: "sys_abi \<Rightarrow> u64 \<Rightarrow> syscall_args_t \<Rightarrow> kstate \<Rightarrow> sysret_t run" where
  "invoke_syscall_system abi = dispatch abi SYSNS_SYSTEM"

definition invoke_syscall_arch :: "sys_abi \<Rightarrow> u64 \<Rightarrow> syscall_args_t \<Rightarrow> kstate \<Rightarrow> sysret_t run" where
  "invoke_syscall_arch abi = dispatch abi SYSNS_ARCH"

definition invoke_syscall_cap :: "sys_abi \<Rightarrow> u64 \<Rightarrow> syscall_args_t \<Rightarrow> kstate \<Rightarrow> sysret_t run" where
  "invoke_syscall_cap abi = dispatch abi SYSNS_CAP"

definition invoke_syscall_mem_cap :: "sys_abi \<Rightarrow> u64 \<Rightarrow> syscall_args_t \<Rightarrow> kstate \<Rightarrow> sysret_t run" where
  "invoke_syscall_mem_cap abi = dispatch abi SYSNS_MEM_CAP"

definition invoke_syscall_task_cap :: "sys_abi \<Rightarrow> u64 \<Rightarrow> syscall_args_t \<Rightarrow> kstate \<Rightarrow> sysret_t run" where
  "invoke_syscall_task_cap abi = dispatch abi SYSNS_TASK_CAP"

definition invoke_syscall_endpoint_cap :: "sys_abi \<Rightarrow> u64 \<Rightarrow> syscall_args_t \<Rightarrow> kstate \<Rightarrow> sysret_t run" where
  "invoke_syscall_endpoint_cap abi = dispatch abi SYSNS_ENDPOINT_CAP"

definition invoke_syscall_page_table_cap :: "sys_abi \<Rightarrow> u64 \<Rightarrow> syscall_args_t \<Rightarrow> kstate \<Rightarrow> sysret_t run" where
  "invoke_syscall_page_table_cap abi = dispatch abi SYSNS_PAGE_TABLE_CAP"

definition invoke_syscall_virt_page_cap :: "sys_abi \<Rightarrow> u64 \<Rightarrow> syscall_args_t \<Rightarrow> kstate \<Rightarrow> sysret_t run" where
  "invoke_syscall_virt_page_cap abi = dispatch abi SYSNS_VIRT_PAGE_CAP"

definition invoke_syscall_id_cap :: "sys_abi \<Rightarrow> u64 \<Rightarrow> syscall_args_t \<Rightarrow> kstate \<Rightarrow> sysret_t run" where
  "invoke_syscall_id_cap abi = dispatch abi SYSNS_ID_CAP"

text \<open>The table of the namespaces.\<close>

definition ns_entry :: "sys_abi \<Rightarrow> sysns \<Rightarrow> u64 \<Rightarrow> syscall_args_t \<Rightarrow> kstate \<Rightarrow> sysret_t run" where
  "ns_entry abi n =
     (case n of
        SYSNS_SYSTEM \<Rightarrow> invoke_syscall_system abi
      | SYSNS_ARCH \<Rightarrow> invoke_syscall_arch abi
      | SYSNS_CAP \<Rightarrow> invoke_syscall_cap abi
      | SYSNS_MEM_CAP \<Rightarrow> invoke_syscall_mem_cap abi
      | SYSNS_TASK_CAP \<Rightarrow> invoke_syscall_task_cap abi
      | SYSNS_ENDPOINT_CAP \<Rightarrow> invoke_syscall_endpoint_cap abi
      | SYSNS_PAGE_TABLE_CAP \<Rightarrow> invoke_syscall_page_table_cap abi
      | SYSNS_VIRT_PAGE_CAP \<Rightarrow> invoke_syscall_virt_page_cap abi
      | SYSNS_ID_CAP \<Rightarrow> invoke_syscall_id_cap abi)"

definition invoke_syscall :: "sys_abi \<Rightarrow> kstate \<Rightarrow> sysret_t run" where
  "invoke_syscall abi s =
     (let (args, code) = get_syscall_args s; ns = drop_bit 16 code AND 0xffff; i = code AND 0xffff in
      case ns_table abi ns of
        None \<Rightarrow> ret_error SYS_E_ILL_CODE s
      | Some n \<Rightarrow> ns_entry abi n i args s)"

text \<open>
  The trap of an environment call. The result goes to the frame of the task that is current when the handler
  returns; the program counter moves behind the instruction.
\<close>

definition user_trap_call :: "sys_abi \<Rightarrow> kstate \<Rightarrow> unit run" where
  "user_trap_call abi s =
     rbind (invoke_syscall abi s) (\<lambda>ret s.
     Done () (upd_task (current_task s) (\<lambda>t. t\<lparr>t_frame := (t_frame t)(REG_A0 := sys_result ret,
       REG_A1 := errno_code abi (sys_error ret), REG_SEPC := t_frame t REG_SEPC + 4)\<rparr>) s))"

definition REG_STACK :: nat where "REG_STACK = 34"

text \<open>The way back: the frame gets the top of the task's kernel stack.\<close>

definition return_to_user :: "kstate \<Rightarrow> kstate" where
  "return_to_user s =
     upd_task (current_task s) (\<lambda>t. t\<lparr>t_frame := (t_frame t)(REG_STACK := current_task s + PAGE_SIZE)\<rparr>) s"

definition SCAUSE_EXCEPTION_CODE :: u64 where "SCAUSE_EXCEPTION_CODE = 0x7fffffffffffffff"
definition SCAUSE_INTERRUPT :: u64 where "SCAUSE_INTERRUPT = 0x8000000000000000"
definition SCAUSE_SUPERVISOR_EXTERNAL_INTERRUPT :: u64 where "SCAUSE_SUPERVISOR_EXTERNAL_INTERRUPT = 0x9"
definition SCAUSE_ENVIRONMENT_CALL_FROM_U_MODE :: u64 where "SCAUSE_ENVIRONMENT_CALL_FROM_U_MODE = 0x8"

text \<open>The whole handler: an external interrupt is ignored, every other interrupt or exception stops the kernel.\<close>

definition user_trap :: "sys_abi \<Rightarrow> u64 \<Rightarrow> kstate \<Rightarrow> unit run" where
  "user_trap abi scause s =
     rbind (if scause AND SCAUSE_INTERRUPT \<noteq> 0
       then rassert (scause AND SCAUSE_EXCEPTION_CODE = SCAUSE_SUPERVISOR_EXTERNAL_INTERRUPT) (Done () s)
       else rassert (scause AND SCAUSE_EXCEPTION_CODE = SCAUSE_ENVIRONMENT_CALL_FROM_U_MODE) (user_trap_call abi s))
     (\<lambda>_ s. Done () (return_to_user s))"

lemma ns_entry_dispatch: "ns_entry abi n = dispatch abi n"
  by (cases n) (simp_all add: ns_entry_def invoke_syscall_system_def invoke_syscall_arch_def invoke_syscall_cap_def
    invoke_syscall_mem_cap_def invoke_syscall_task_cap_def invoke_syscall_endpoint_cap_def
    invoke_syscall_page_table_cap_def invoke_syscall_virt_page_cap_def invoke_syscall_id_cap_def)

subsection \<open>Authority\<close>

text \<open>The type of capability the first argument of a system call has to name.\<close>

definition cap_arg_type :: "syscall_t \<Rightarrow> cap_type_t option" where
  "cap_arg_type sc =
     (case sc of
        SYS_MEM_CAP_DEVICE \<Rightarrow> Some CAP_MEM
      | SYS_MEM_CAP_PHYS_ADDR \<Rightarrow> Some CAP_MEM
      | SYS_MEM_CAP_SIZE \<Rightarrow> Some CAP_MEM
      | SYS_MEM_CAP_USED_SIZE \<Rightarrow> Some CAP_MEM
      | SYS_MEM_CAP_CREATE_OBJECT \<Rightarrow> Some CAP_MEM
      | SYS_TASK_CAP_TID \<Rightarrow> Some CAP_TASK
      | SYS_TASK_CAP_KILLABLE \<Rightarrow> Some CAP_TASK
      | SYS_TASK_CAP_SWITCHABLE \<Rightarrow> Some CAP_TASK
      | SYS_TASK_CAP_SUSPENDABLE \<Rightarrow> Some CAP_TASK
      | SYS_TASK_CAP_RESUMABLE \<Rightarrow> Some CAP_TASK
      | SYS_TASK_CAP_KILL \<Rightarrow> Some CAP_TASK
      | SYS_TASK_CAP_SWITCH \<Rightarrow> Some CAP_TASK
      | SYS_TASK_CAP_SUSPEND \<Rightarrow> Some CAP_TASK
      | SYS_TASK_CAP_RESUME \<Rightarrow> Some CAP_TASK
      | SYS_TASK_CAP_GET_REG \<Rightarrow> Some CAP_TASK
      | SYS_TASK_CAP_SET_REG \<Rightarrow> Some CAP_TASK
      | SYS_TASK_CAP_TRANSFER_CAP \<Rightarrow> Some CAP_TASK
      | SYS_TASK_CAP_DELEGATE_CAP \<Rightarrow> Some CAP_TASK
      | SYS_TASK_CAP_GET_FREE_SLOT_COUNT \<Rightarrow> Some CAP_TASK
      | SYS_TASK_CAP_GET_CAP_SPACE_COUNT \<Rightarrow> Some CAP_TASK
      | SYS_TASK_CAP_GET_CAP_SPACE_EXT_COUNT \<Rightarrow> Some CAP_TASK
      | SYS_TASK_CAP_INSERT_CAP_SPACE \<Rightarrow> Some CAP_TASK
      | SYS_TASK_CAP_EXTEND_CAP_SPACE \<Rightarrow> Some CAP_TASK
      | SYS_TASK_CAP_SET_KILL_NOTIFY \<Rightarrow> Some CAP_TASK
      | SYS_ENDPOINT_CAP_SEND_SHORT \<Rightarrow> Some CAP_ENDPOINT
      | SYS_ENDPOINT_CAP_SEND_LONG \<Rightarrow> Some CAP_ENDPOINT
      | SYS_ENDPOINT_CAP_RECEIVE \<Rightarrow> Some CAP_ENDPOINT
      | SYS_ENDPOINT_CAP_REPLY \<Rightarrow> Some CAP_ENDPOINT
      | SYS_ENDPOINT_CAP_NB_SEND_SHORT \<Rightarrow> Some CAP_ENDPOINT
      | SYS_ENDPOINT_CAP_NB_SEND_LONG \<Rightarrow> Some CAP_ENDPOINT
      | SYS_ENDPOINT_CAP_NB_RECEIVE \<Rightarrow> Some CAP_ENDPOINT
      | SYS_ENDPOINT_CAP_CALL \<Rightarrow> Some CAP_ENDPOINT
      | SYS_ENDPOINT_CAP_REPLY_AND_RECEIVE \<Rightarrow> Some CAP_ENDPOINT
      | SYS_PAGE_TABLE_CAP_MAPPED \<Rightarrow> Some CAP_PAGE_TABLE
      | SYS_PAGE_TABLE_CAP_LEVEL \<Rightarrow> Some CAP_PAGE_TABLE
      | SYS_PAGE_TABLE_CAP_MAP_TABLE \<Rightarrow> Some CAP_PAGE_TABLE
      | SYS_PAGE_TABLE_CAP_UNMAP_TABLE \<Rightarrow> Some CAP_PAGE_TABLE
      | SYS_PAGE_TABLE_CAP_MAP_PAGE \<Rightarrow> Some CAP_PAGE_TABLE
      | SYS_PAGE_TABLE_CAP_UNMAP_PAGE \<Rightarrow> Some CAP_PAGE_TABLE
      | SYS_PAGE_TABLE_CAP_REMAP_PAGE \<Rightarrow> Some CAP_PAGE_TABLE
      | SYS_PAGE_TABLE_CAP_VIRT_ADDR_BASE \<Rightarrow> Some CAP_PAGE_TABLE
      | SYS_VIRT_PAGE_CAP_MAPPED \<Rightarrow> Some CAP_VIRT_PAGE
      | SYS_VIRT_PAGE_CAP_READABLE \<Rightarrow> Some CAP_VIRT_PAGE
      | SYS_VIRT_PAGE_CAP_WRITABLE \<Rightarrow> Some CAP_VIRT_PAGE
      | SYS_VIRT_PAGE_CAP_EXECUTABLE \<Rightarrow> Some CAP_VIRT_PAGE
      | SYS_VIRT_PAGE_CAP_LEVEL \<Rightarrow> Some CAP_VIRT_PAGE
      | SYS_VIRT_PAGE_CAP_PHYS_ADDR \<Rightarrow> Some CAP_VIRT_PAGE
      | SYS_VIRT_PAGE_CAP_VIRT_ADDR \<Rightarrow> Some CAP_VIRT_PAGE
      | _ \<Rightarrow> None)"

lemmas cap_handler_defs =
  invoke_sys_mem_cap_device_def invoke_sys_mem_cap_phys_addr_def invoke_sys_mem_cap_size_def
  invoke_sys_mem_cap_used_size_def invoke_sys_mem_cap_create_object_def invoke_sys_task_cap_tid_def
  invoke_sys_task_cap_killable_def invoke_sys_task_cap_switchable_def invoke_sys_task_cap_suspendable_def
  invoke_sys_task_cap_resumable_def invoke_sys_task_cap_kill_def invoke_sys_task_cap_switch_def
  invoke_sys_task_cap_suspend_def invoke_sys_task_cap_resume_def invoke_sys_task_cap_get_reg_def
  invoke_sys_task_cap_set_reg_def invoke_sys_task_cap_transfer_cap_def invoke_sys_task_cap_delegate_cap_def
  invoke_sys_task_cap_get_free_slot_count_def invoke_sys_task_cap_get_cap_space_count_def
  invoke_sys_task_cap_get_cap_space_ext_count_def invoke_sys_task_cap_insert_cap_space_def
  invoke_sys_task_cap_extend_cap_space_def invoke_sys_task_cap_set_kill_notify_def
  invoke_sys_endpoint_cap_send_short_def invoke_sys_endpoint_cap_send_long_def
  invoke_sys_endpoint_cap_receive_def invoke_sys_endpoint_cap_nb_send_short_def
  invoke_sys_endpoint_cap_nb_send_long_def invoke_sys_endpoint_cap_nb_receive_def
  invoke_sys_endpoint_cap_reply_def invoke_sys_endpoint_cap_call_def
  invoke_sys_endpoint_cap_reply_and_receive_def invoke_sys_page_table_cap_mapped_def
  invoke_sys_page_table_cap_level_def invoke_sys_page_table_cap_map_table_def
  invoke_sys_page_table_cap_unmap_table_def invoke_sys_page_table_cap_map_page_def
  invoke_sys_page_table_cap_unmap_page_def invoke_sys_page_table_cap_remap_page_def
  invoke_sys_page_table_cap_virt_addr_base_def invoke_sys_virt_page_cap_mapped_def
  invoke_sys_virt_page_cap_readable_def invoke_sys_virt_page_cap_writable_def
  invoke_sys_virt_page_cap_executable_def invoke_sys_virt_page_cap_level_def
  invoke_sys_virt_page_cap_phys_addr_def invoke_sys_virt_page_cap_virt_addr_def

lemmas lookup_defs = lookup_mem_cap_def lookup_task_cap_def lookup_endpoint_cap_def lookup_page_table_cap_def
  lookup_virt_page_cap_def

lemmas with_defs = with_mem_def with_task_def with_endpoint_def with_page_table_def with_virt_page_def

lemma with_slot_null [simp]: "with_slot (Some (0, s')) f = Done (sysret_e (errno s')) s'"
  by (simp add: with_slot_def errno_to_sysret_def ret_error_def)

lemma with_slot_slot: "slot \<noteq> 0 \<Longrightarrow> with_slot (Some (slot, s')) f = f slot s'"
  by (simp add: with_slot_def)

lemma errno_same: "\<exists>e. s = s\<lparr>errno := e\<rparr>" for s :: kstate
  by (intro exI [of _ "errno s"]) simp

lemma lookup_cap_frame:
  "lookup_cap t d s = Some (x, s') \<Longrightarrow> (if x = 0 then \<exists>e. s' = s\<lparr>errno := e\<rparr> else s' = s)"
  by (auto simp: lookup_cap_def bind_Some_iff split: if_splits intro: errno_same)

lemma lookup_typed_refuses:
  assumes "lookup_cap (current_task s) (args 0) s = Some (slot, s1)" "slot = 0 \<or> get_cap_type (cap_at s slot) \<noteq> ty"
  shows "lookup_typed ty args s = Some (0, s\<lparr>errno := if slot = 0 then errno s1 else SYS_E_CAP_TYPE\<rparr>)"
proof (cases "slot = 0")
  case True
  then show ?thesis using assms(1) lookup_cap_frame [OF assms(1)] by (auto simp: lookup_typed_def)
next
  case False
  then show ?thesis using assms lookup_cap_frame [OF assms(1)] by (simp add: lookup_typed_def)
qed

lemma run_syscall_null:
  assumes "cap_arg_type sc = Some ty" "lookup_typed ty args s = Some (0, s')"
  shows "run_syscall abi sc args s = Done (sysret_e (errno s')) s'"
  using assms by (cases sc) (simp_all add: cap_arg_type_def run_syscall_def cap_handler_defs with_defs lookup_defs)

text \<open>
  C1: no capability, no operation. For every system call on a memory, task, endpoint, page table or page
  capability, when the descriptor in the first argument leads \<^verbatim>\<open>lookup_cap\<close> to null or to a capability of
  another type, the call returns at once: with the error code the lookup left in \<^verbatim>\<open>errno\<close> when it found no slot, with
  \<^verbatim>\<open>SYS_E_CAP_TYPE\<close> otherwise. That code is in \<^verbatim>\<open>errno\<close> afterwards, and the state is as before but for it.
\<close>

theorem syscall_needs_capability:
  assumes "cap_arg_type sc = Some ty" "lookup_cap (current_task s) (args 0) s = Some (slot, s1)"
    "slot = 0 \<or> get_cap_type (cap_at s slot) \<noteq> ty" "e = (if slot = 0 then errno s1 else SYS_E_CAP_TYPE)"
  shows "run_syscall abi sc args s = Done (sysret_e e) (s\<lparr>errno := e\<rparr>)"
  using run_syscall_null [OF assms(1) lookup_typed_refuses [of s args slot s1 ty, OF assms(2,3)], of abi] assms(4) by simp

text \<open>The right a system call on a task capability requires.\<close>

fun task_right :: "syscall_t \<Rightarrow> (task_cap \<Rightarrow> bool) option" where
  "task_right SYS_TASK_CAP_KILL = Some tc_killable"
| "task_right SYS_TASK_CAP_SWITCH = Some tc_switchable"
| "task_right SYS_TASK_CAP_SUSPEND = Some tc_suspendable"
| "task_right SYS_TASK_CAP_RESUME = Some tc_resumable"
| "task_right SYS_TASK_CAP_GET_REG = Some tc_register_gettable"
| "task_right SYS_TASK_CAP_SET_REG = Some tc_register_settable"
| "task_right _ = None"

text \<open>
  C2: the rights of a task capability are enforced: killing, switching to, suspending and resuming a
  task and reading and writing its registers are refused with \<^verbatim>\<open>SYS_E_CAP_STATE\<close>, and nothing changes, when the
  capability does not have the right.
\<close>

theorem task_rights_enforced:
  assumes "task_right sc = Some r" "lookup_typed CAP_TASK args s = Some (slot, s)" "slot \<noteq> 0"
    "cap_at s slot = TaskCap tc" "\<not> r tc"
  shows "run_syscall abi sc args s = Done (sysret_e SYS_E_CAP_STATE) s"
  using assms
  by (cases sc) (auto simp: run_syscall_def cap_handler_defs with_task_def lookup_task_cap_def with_slot_slot ret_error_def)

text \<open>
  The rights of an endpoint capability and the right to set a kill notification are not enforced: a send through
  a capability that is not sendable, a receive through one that is not receivable and a kill notification set through
  a task capability that is not notifiable are carried out all the same.
\<close>

theorem endpoint_rights_ignored:
  assumes "lookup_typed CAP_ENDPOINT args s = Some (slot, s)" "slot \<noteq> 0" "cap_at s slot = EndpointCap e"
    "\<not> ec_sendable e" "\<not> ec_receivable e"
  shows "run_syscall abi SYS_ENDPOINT_CAP_SEND_LONG args s = rbind (ipc_send_long (abi_msg abi) True (ec_endpoint e) (args 1) s) ret_bool \<and>
    run_syscall abi SYS_ENDPOINT_CAP_RECEIVE args s = rbind (ipc_receive (abi_msg abi) True (ec_endpoint e) (args 1) s) ret_bool"
  using assms by (simp add: run_syscall_def cap_handler_defs with_endpoint_def lookup_endpoint_cap_def with_slot_slot)

subsection \<open>Registers and switching through system calls\<close>

text \<open>The parts of the state a lookup reads.\<close>

definition lookup_same :: "kstate \<Rightarrow> kstate \<Rightarrow> bool" where
  "lookup_same s s' \<longleftrightarrow> tables s' = tables s \<and> current_task s' = current_task s \<and> cap_at s' = cap_at s \<and>
     (let t = current_task s in t_state (tasks s' t) = t_state (tasks s t) \<and> t_lock (tasks s' t) = t_lock (tasks s t) \<and>
       t_tid (tasks s' t) = t_tid (tasks s t) \<and> t_num_cap_space (tasks s' t) = t_num_cap_space (tasks s t) \<and>
       t_root_page_table (tasks s' t) = t_root_page_table (tasks s t))"

lemma lookup_cap_cong:
  assumes "lookup_cap t d s = Some (x, s1)" "x \<noteq> 0" "lookup_same s s'" "t = current_task s"
  shows "lookup_cap t d s' = Some (x, s')"
proof -
  have w: "walk_check r va ls s' = walk_check r va ls s" for r va ls
    using assms(3) by (intro walk_check_cong) (simp add: lookup_same_def)
  have l: "lock_free_for s' t = lock_free_for s t"
    using assms(3,4) by (simp add: lookup_same_def lock_free_for_def current_tid_def)
  from assms(3,4) have e: "cap_at s' = cap_at s" "t_state (tasks s' t) = t_state (tasks s t)"
    "t_num_cap_space (tasks s' t) = t_num_cap_space (tasks s t)" "t_root_page_table (tasks s' t) = t_root_page_table (tasks s t)"
    by (simp_all add: lookup_same_def)
  show ?thesis using assms(1,2) unfolding lookup_cap_def
    by (simp add: w l e split: if_splits) (auto simp: e(1) elim!: bind_SomeE split: if_splits)
qed

lemma lookup_typed_cong:
  assumes "lookup_typed ty args s = Some (slot, s)" "slot \<noteq> 0" "lookup_same s s'"
  shows "lookup_typed ty args s' = Some (slot, s')"
proof -
  from assms(1,2) have l: "lookup_cap (current_task s) (args 0) s = Some (slot, s)" "get_cap_type (cap_at s slot) = ty"
    unfolding lookup_typed_def by (auto elim!: bind_SomeE dest: lookup_cap_frame split: if_splits prod.splits)
  from lookup_cap_cong [OF l(1) assms(2,3) refl] l(2) assms(2,3) show ?thesis by (simp add: lookup_typed_def lookup_same_def)
qed

text \<open>
  C40: what a debugger writes it reads. With a capability that allows both, \<^verbatim>\<open>sys_task_cap_set_reg\<close> on a suspended task
  succeeds and returns the old value, \<^verbatim>\<open>sys_task_cap_get_reg\<close> of the same register then returns the value written, and
  no other register changes.
\<close>

theorem set_reg_get_reg:
  assumes "lookup_typed CAP_TASK args s = Some (slot, s)" "slot \<noteq> 0" "cap_at s slot = TaskCap tc"
    "tc_register_gettable tc" "tc_register_settable tc" "t_state (tasks s (tc_task tc)) = suspended" "args 1 \<le> LAST_REGISTER abi"
  shows "\<exists>s'. run_syscall abi SYS_TASK_CAP_SET_REG args s = Done (sysret_s_ok (t_frame (tasks s (tc_task tc)) (unat (args 1)))) s' \<and>
    run_syscall abi SYS_TASK_CAP_GET_REG args s' = Done (sysret_s_ok (args 2)) s' \<and>
    (\<forall>r. r \<noteq> unat (args 1) \<longrightarrow> t_frame (tasks s' (tc_task tc)) r = t_frame (tasks s (tc_task tc)) r)"
proof -
  let ?s' = "upd_task (tc_task tc) (\<lambda>t. t\<lparr>t_frame := (t_frame t)(unat (args 1) := args 2)\<rparr>) s"
  have l: "lookup_typed CAP_TASK args ?s' = Some (slot, ?s')" by (rule lookup_typed_cong [OF assms(1,2)]) (simp add: lookup_same_def)
  have r: "\<not> LAST_REGISTER abi < args 1" using assms(7) by simp
  have "run_syscall abi SYS_TASK_CAP_SET_REG args s = Done (sysret_s_ok (t_frame (tasks s (tc_task tc)) (unat (args 1)))) ?s'"
    using assms r by (simp add: run_syscall_def cap_handler_defs with_task_def lookup_task_cap_def with_slot_slot
        set_register_def ret_ok_def)
  moreover have "run_syscall abi SYS_TASK_CAP_GET_REG args ?s' = Done (sysret_s_ok (args 2)) ?s'"
    using assms r l by (simp add: run_syscall_def cap_handler_defs with_task_def lookup_task_cap_def with_slot_slot
        get_register_def ret_ok_def)
  ultimately show ?thesis by (intro exI [of _ ?s']) simp
qed

text \<open>
  C24: \<^verbatim>\<open>sys_task_cap_switch\<close> hands the processor to a chosen task. Through a switchable capability of a ready task,
  whatever its place in the ready queue, the call switches to that task, which is running and current; the caller
  is ready and last in the queue, and the tasks in between keep their order.
\<close>

theorem sys_switch_hands_over:
  assumes "lookup_typed CAP_TASK args s = Some (slot, s)" "slot \<noteq> 0" "cap_at s slot = TaskCap tc" "tc_switchable tc"
    "ready_q s (as @ tc_task tc # bs)" "lock_free_for s (tc_task tc)"
    "off_queue s (current_task s) (as @ tc_task tc # bs)"
  shows "\<exists>s' k. run_syscall abi SYS_TASK_CAP_SWITCH args s = Switch s' k \<and> current_task s' = tc_task tc \<and>
    t_state (tasks s' (tc_task tc)) = running \<and> t_state (tasks s' (current_task s)) = ready \<and>
    ready_q s' (as @ bs @ [current_task s])"
proof -
  let ?t = "tc_task tc" and ?c = "current_task s" let ?r = "rq.q_remove ?t s"
  note rm = ready_q_remove [OF assms(5)]
  have t: "t_state (tasks s ?t) = ready" "?t \<noteq> 0" "?t \<noteq> ?c" "?t \<notin> set (as @ bs)"
    using assms(5,7) rq.isq_neighbours(5) [of s as ?t bs]
    by (auto simp: ready_q_def off_queue_def rq.isq_def rq.on_chain_def dest: dchain_distinct)
  have "off_queue ?r (current_task ?r) (as @ bs)"
    using assms(5,7) rq.isq_remove_others [of s as ?t bs ?c] by (simp add: off_queue_def ready_q_def)
  from switch_task_state [OF rm(2) this, of ?t] t obtain k where
    k: "switch_task ?t ?r = Switch (switched ?t ?c ?r) k" "ready_q (switched ?t ?c ?r) ((as @ bs) @ [?c])" by auto
  have "run_syscall abi SYS_TASK_CAP_SWITCH args s = Switch (switched ?t ?c ?r) (\<lambda>s'. rbind (k s') (\<lambda>_ s. ret_ok 0 s))"
    using assms(1-4,6) rm(1) t k(1) by (simp add: run_syscall_def cap_handler_defs with_task_def lookup_task_cap_def with_slot_slot)
  then show ?thesis using k(2) t(3)
    by (intro exI [of _ "switched ?t ?c ?r"] exI [of _ "\<lambda>s'. rbind (k s') (\<lambda>_ s. ret_ok 0 s)"]) simp
qed

text \<open>
  A system call with a code that no table has is harmless: the trap handler returns to the same task with the error
  \<^verbatim>\<open>SYS_E_ILL_CODE\<close> in a1, 0 in a0, the program counter behind the instruction and the kernel stack in the
  frame; nothing else changes.
\<close>

theorem bad_syscall_harmless:
  assumes "get_syscall_args s = (args, code)"
    "Option.bind (ns_table abi (drop_bit 16 code AND 0xffff)) (\<lambda>n. sys_table abi n (code AND 0xffff)) = None"
  shows "user_trap abi SCAUSE_ENVIRONMENT_CALL_FROM_U_MODE s = Done () (upd_task (current_task s) (\<lambda>t. t\<lparr>t_frame := (t_frame t)
       (REG_A0 := 0, REG_A1 := errno_code abi SYS_E_ILL_CODE, REG_SEPC := t_frame t REG_SEPC + 4,
        REG_STACK := current_task s + PAGE_SIZE)\<rparr>) s)"
proof -
  have "invoke_syscall abi s = ret_error SYS_E_ILL_CODE s"
    using assms by (auto simp: invoke_syscall_def ns_entry_dispatch dispatch_def bind_eq_None_conv split: option.split)
  then show ?thesis
    by (simp add: user_trap_def user_trap_call_def ret_error_def sysret_e_def return_to_user_def SCAUSE_INTERRUPT_def
      SCAUSE_EXCEPTION_CODE_def SCAUSE_ENVIRONMENT_CALL_FROM_U_MODE_def upd_task_def rassert_def)
qed

text \<open>A task whose slot 5 holds a task capability for 0x3000, and the interface with the numbers of the source's order.\<close>

definition demo_sys_abi :: sys_abi where
  "demo_sys_abi = \<lparr>abi_msg = demo_abi, cap_type_of = (\<lambda>_. CAP_UNKNOWN), cap_type_code = (\<lambda>_. 0), errno_code = (\<lambda>e. if e = SYS_S_OK then 0 else 1),
     LAST_REGISTER = 31, RISCV_MMU_SV39 = 1, core_id = 0,
     ns_table = (\<lambda>n. if n = 2 then Some SYSNS_CAP else None),
     sys_table = (\<lambda>n i. if i = 0 then Some SYS_CAP_TYPE else None), max_revoke = 10\<rparr>"

lemma demo_sys_lookup:
  assumes "get_cap_type c = ty" "c \<noteq> NullCap"
  shows "\<exists>s. lookup_typed ty (\<lambda>_. 5) s = Some (slot_addr 0x2000005000 5, s) \<and> cap_at s (slot_addr 0x2000005000 5) = c \<and>
    current_task s = 0x2000004000 \<and> alive s 0x2000004000 \<and> space_at s 0x2000004000 0 0x2000005000 \<and>
    t_num_cap_space (tasks s 0x2000004000) = 1"
proof -
  obtain s where s: "alive s 0x2000004000" "space_at s 0x2000004000 0 0x2000005000"
    "unat (t_num_cap_space (tasks s 0x2000004000)) = 1" "current_task s = 0x2000004000" using demo_lookup_state by blast
  let ?x = "slot_addr 0x2000005000 5" let ?s = "set_cap ?x c s"
  have n: "t_num_cap_space (tasks s 0x2000004000) = 1" using s(3) by (intro word_unatI) simp
  have "lookup_cap 0x2000004000 5 ?s = Some (?x, ?s)"
    using lookup_cap_slot [of ?s "0x2000004000" 0 "0x2000005000" 5] s assms by simp
  moreover have "?x \<noteq> 0" by (simp add: slot_addr_def SLOT_OFFSET_def SLOT_SIZE_def)
  ultimately have "lookup_typed ty (\<lambda>_. 5) ?s = Some (?x, ?s)" using s(4) assms(1) by (simp add: lookup_typed_def)
  with s n show ?thesis by (intro exI [of _ ?s]) simp
qed

lemma demo_slot_nonnull: "slot_addr 0x2000005000 5 \<noteq> 0"
  by (simp add: slot_addr_def SLOT_OFFSET_def SLOT_SIZE_def)

theorem syscall_needs_capability_witness:
  "\<exists>s. run_syscall demo_sys_abi SYS_TASK_CAP_KILL (\<lambda>_. 5) s = Done (sysret_e SYS_E_CAP_TYPE) (s\<lparr>errno := SYS_E_CAP_TYPE\<rparr>)"
proof -
  let ?x = "slot_addr 0x2000005000 5"
  obtain s where s: "lookup_typed CAP_ZOMBIE (\<lambda>_. 5) s = Some (?x, s)" "cap_at s ?x = ZombieCap"
    using demo_sys_lookup [of ZombieCap CAP_ZOMBIE] by auto
  from s(1) have "lookup_cap (current_task s) 5 s = Some (?x, s)"
    using demo_slot_nonnull unfolding lookup_typed_def
    by (auto elim!: bind_SomeE dest: lookup_cap_frame split: if_splits prod.splits)
  from syscall_needs_capability [of SYS_TASK_CAP_KILL CAP_TASK s "\<lambda>_. 5" ?x s SYS_E_CAP_TYPE demo_sys_abi, OF _ this] s(2) show ?thesis
    using demo_slot_nonnull by (auto simp: cap_arg_type_def)
qed

definition no_rights :: task_cap where
  "no_rights = \<lparr>tc_killable = False, tc_switchable = False, tc_suspendable = False, tc_resumable = False,
     tc_register_gettable = False, tc_register_settable = False, tc_kill_notifiable = False, tc_task = 0x3000\<rparr>"

theorem task_rights_enforced_witness:
  "\<exists>s. cap_at s (slot_addr 0x2000005000 5) = TaskCap no_rights \<and>
    run_syscall demo_sys_abi SYS_TASK_CAP_KILL (\<lambda>_. 5) s = Done (sysret_e SYS_E_CAP_STATE) s"
proof -
  obtain s where s: "lookup_typed CAP_TASK (\<lambda>_. 5) s = Some (slot_addr 0x2000005000 5, s)"
    "cap_at s (slot_addr 0x2000005000 5) = TaskCap no_rights" using demo_sys_lookup [of "TaskCap no_rights" CAP_TASK] by auto
  have "\<not> tc_killable no_rights" by (simp add: no_rights_def)
  from task_rights_enforced [of SYS_TASK_CAP_KILL tc_killable, OF _ s(1) demo_slot_nonnull s(2) this, of demo_sys_abi] s(2)
  show ?thesis by (intro exI [of _ s]) simp
qed

theorem endpoint_rights_ignored_witness:
  "\<exists>s. run_syscall demo_sys_abi SYS_ENDPOINT_CAP_SEND_LONG (\<lambda>_. 5) s = rbind (ipc_send_long demo_abi True 0x5000 5 s) ret_bool \<and>
    cap_at s (slot_addr 0x2000005000 5) = EndpointCap \<lparr>ec_sendable = False, ec_receivable = False, ec_endpoint = 0x5000\<rparr>"
proof -
  let ?e = "\<lparr>ec_sendable = False, ec_receivable = False, ec_endpoint = 0x5000\<rparr>"
  obtain s where s: "lookup_typed CAP_ENDPOINT (\<lambda>_. 5) s = Some (slot_addr 0x2000005000 5, s)"
    "cap_at s (slot_addr 0x2000005000 5) = EndpointCap ?e" using demo_sys_lookup [of "EndpointCap ?e" CAP_ENDPOINT] by auto
  from endpoint_rights_ignored [OF s(1) demo_slot_nonnull s(2), of demo_sys_abi] s(2)
  show ?thesis by (intro exI [of _ s]) (simp add: demo_sys_abi_def)
qed

theorem bad_syscall_harmless_witness:
  "\<exists>s'. user_trap demo_sys_abi SCAUSE_ENVIRONMENT_CALL_FROM_U_MODE demo_sched = Done () s' \<and> t_frame (tasks s' 0x2000) REG_SEPC = 4 \<and> t_frame (tasks s' 0x2000) REG_A1 = 1"
proof -
  have "get_syscall_args demo_sched = (\<lambda>_. 0, 0)" by (simp add: get_syscall_args_def) (simp add: demo_sched_def zero_task_def)
  from bad_syscall_harmless [OF this, of demo_sys_abi] show ?thesis
    by (simp add: demo_sys_abi_def) (simp add: demo_sched_def zero_task_def REG_SEPC_def REG_A1_def REG_STACK_def)
qed

definition all_rights :: task_cap where
  "all_rights = \<lparr>tc_killable = True, tc_switchable = True, tc_suspendable = True, tc_resumable = True,
     tc_register_gettable = True, tc_register_settable = True, tc_kill_notifiable = True, tc_task = 0x3000\<rparr>"

theorem set_reg_get_reg_witness:
  "\<exists>s s'. run_syscall demo_sys_abi SYS_TASK_CAP_SET_REG (\<lambda>_. 5) s = Done (sysret_s_ok 0) s' \<and>
    run_syscall demo_sys_abi SYS_TASK_CAP_GET_REG (\<lambda>_. 5) s' = Done (sysret_s_ok 5) s'"
proof -
  let ?x = "slot_addr 0x2000005000 5"
  obtain s where s: "lookup_typed CAP_TASK (\<lambda>_. 5) s = Some (?x, s)" "cap_at s ?x = TaskCap all_rights"
    "current_task s = 0x2000004000" using demo_sys_lookup [of "TaskCap all_rights" CAP_TASK] by auto
  let ?s = "upd_task 0x3000 (\<lambda>_. zero_task\<lparr>t_state := suspended\<rparr>) s"
  have "lookup_typed CAP_TASK (\<lambda>_. 5) ?s = Some (?x, ?s)"
    by (rule lookup_typed_cong [OF s(1) demo_slot_nonnull]) (simp add: lookup_same_def s(3))
  from set_reg_get_reg [OF this demo_slot_nonnull, of all_rights demo_sys_abi] s(2) show ?thesis
    by (auto simp: all_rights_def demo_sys_abi_def zero_task_def)
qed

theorem sys_switch_hands_over_witness:
  "\<exists>s s' k. run_syscall demo_sys_abi SYS_TASK_CAP_SWITCH (\<lambda>_. 5) s = Switch s' k \<and> current_task s' = 0x3000 \<and>
    ready_q s' [0x2000004000]"
proof -
  let ?x = "slot_addr 0x2000005000 5"
  obtain s where s: "lookup_typed CAP_TASK (\<lambda>_. 5) s = Some (?x, s)" "cap_at s ?x = TaskCap all_rights"
    "current_task s = 0x2000004000" using demo_sys_lookup [of "TaskCap all_rights" CAP_TASK] by auto
  let ?s = "(upd_task 0x2000004000 (\<lambda>x. x\<lparr>t_prev_ready_task := 0, t_next_ready_task := 0\<rparr>)
      (upd_task 0x3000 (\<lambda>_. zero_task\<lparr>t_state := ready\<rparr>) s))\<lparr>ready_queue := \<lparr>q_head = 0x3000, q_tail = 0x3000\<rparr>\<rparr>"
  have l: "lookup_typed CAP_TASK (\<lambda>_. 5) ?s = Some (?x, ?s)"
    by (rule lookup_typed_cong [OF s(1) demo_slot_nonnull]) (simp add: lookup_same_def s(3) cap_at_def fun_eq_iff)
  have c: "cap_at ?s ?x = TaskCap all_rights" "tc_switchable all_rights" "tc_task all_rights = 0x3000" "current_task ?s = 0x2000004000"
    using s(2,3) by (simp_all add: all_rights_def cap_at_def)
  have q: "ready_q ?s ([] @ 0x3000 # [])" "lock_free_for ?s 0x3000" "off_queue ?s 0x2000004000 ([] @ 0x3000 # [])"
    by (simp_all add: ready_q_def rq.isq_def rq.on_chain_def rnext_def rprev_def zero_task_def lock_free_for_def off_queue_def)
  show ?thesis using sys_switch_hands_over [OF l demo_slot_nonnull c(1,2), unfolded c(3,4), OF q, of demo_sys_abi] by auto
qed

end
