(* ===== verification/Isolation.thy ===== *)
theory Isolation
  imports Syscalls
begin

text \<open>
  The upper half of every address space belongs to the kernel: the entries from 128 on of a root page table map the
  physical memory and the capability space (\<^verbatim>\<open>src/kernel/start.cpp\<close>, \<^verbatim>\<open>src/kernel/task.cpp\<close>). The
  system calls on page tables and pages (\<^verbatim>\<open>src/kernel/syscall/page_table_cap.cpp\<close>,
  \<^verbatim>\<open>src/kernel/syscall/virt_page_cap.cpp\<close>) check the virtual address against
  \<^verbatim>\<open>CONFIG_KERNEL_SPACE_BASE\<close> to keep user tasks out of it. This theory states what the check is for: a
  sequence of these calls, by any tasks and in any order, leaves the kernel half of a root table alone, also when capabilities
  are passed between tasks meanwhile. The proof is an invariant of the reachable states. Before that the calls are shown to return
  whatever arguments they get. The last part shows the one assumption of the invariant the code does not
  establish itself, and what a task can do without it.
\<close>

subsection \<open>Steps that keep a view\<close>

text \<open>
  A step relation with an invariant under which each step leaves a part of the state, its view, as it is: then every
  sequence of steps does.
\<close>

locale guarded_view =
  fixes step :: "'s \<Rightarrow> 's \<Rightarrow> bool"
    and inv :: "'s \<Rightarrow> bool"
    and view :: "'s \<Rightarrow> 'v"
  assumes step_inv: "step s t \<Longrightarrow> inv s \<Longrightarrow> inv t"
    and step_view: "step s t \<Longrightarrow> inv s \<Longrightarrow> view t = view s"
begin

lemma steps_inv: "step\<^sup>*\<^sup>* s t \<Longrightarrow> inv s \<Longrightarrow> inv t"
  by (induction rule: rtranclp_induct) (auto dest: step_inv)

lemma steps_view: "step\<^sup>*\<^sup>* s t \<Longrightarrow> inv s \<Longrightarrow> view t = view s"
  by (induction rule: rtranclp_induct) (auto dest: step_view steps_inv)

end

subsection \<open>The invariant\<close>

text \<open>The page an entry leads to once it is set to \<open>q\<close>.\<close>

definition page_of :: "addr \<Rightarrow> addr" where
  "page_of q = get_next_page (set_next_page q zero_pte)"

lemma get_next_page_set [simp]: "get_next_page (set_next_page q p) = page_of q"
  by (simp add: page_of_def get_next_page_def set_next_page_def)

definition kernel_half :: "page_table_t \<Rightarrow> page_table_t" where
  "kernel_half tab = (\<lambda>i. if i < 128 then zero_pte else tab i)"

lemma kernel_half_upd [simp]: "i < 128 \<Longrightarrow> kernel_half (tab(i := p)) = kernel_half tab"
  by (auto simp: kernel_half_def)

text \<open>
  A capability that cannot reach the kernel half of the root table \<open>R\<close>: a capability for \<open>R\<close> itself is mapped,
  covers the whole address space and stays that way; a page capability is not for the frame of \<open>R\<close>, nor for a frame
  that an entry of the kernel half points to.
\<close>

definition points_to :: "page_table_t \<Rightarrow> addr \<Rightarrow> bool" where
  "points_to tab p \<longleftrightarrow> (\<exists>i. is_enabled (tab i) \<and> get_next_page (tab i) = p)"

fun half_cap :: "addr \<Rightarrow> page_table_t \<Rightarrow> capability_t \<Rightarrow> bool" where
  "half_cap R half (PageTableCap pt) \<longleftrightarrow>
     (page_of (pt_table pt) = R \<longrightarrow> pt_mapped pt \<and> pt_level pt = 2 \<and> pt_virt_addr_base pt = 0)"
| "half_cap R half (VirtPageCap vp) \<longleftrightarrow>
     page_of (as_map (ucast (vp_phys_addr vp))) \<noteq> R \<and> \<not> points_to half (as_map (ucast (vp_phys_addr vp)))"
| "half_cap R half _ \<longleftrightarrow> True"

definition half_inv :: "addr \<Rightarrow> kstate \<Rightarrow> bool" where
  "half_inv R s \<longleftrightarrow> page_of R = R \<and> (\<forall>z. half_cap R (kernel_half (tables s R)) (cap_at s z)) \<and>
     (\<forall>t. \<not> points_to (tables s t) R)"

lemma half_invD:
  assumes "half_inv R s"
  shows "page_of R = R" "half_cap R (kernel_half (tables s R)) (cap_at s z)"
    "is_enabled (tables s t i) \<Longrightarrow> get_next_page (tables s t i) \<noteq> R"
  using assms by (auto simp: half_inv_def points_to_def)

lemma half_inv_cong:
  "cap_at s' = cap_at s \<Longrightarrow> tables s' = tables s \<Longrightarrow> half_inv R s' = half_inv R s"
  by (simp add: half_inv_def)

text \<open>The effect of all the operations: one entry, below the kernel half if it is of \<open>R\<close>, and one capability.\<close>

lemma half_inv_update:
  assumes inv: "half_inv R s" and low: "t = R \<Longrightarrow> i < 128"
    and page: "is_enabled (f (tables s t i)) \<Longrightarrow> get_next_page (f (tables s t i)) \<noteq> R"
  shows "half_inv R (upd_pte t i f s)" "kernel_half (tables (upd_pte t i f s) R) = kernel_half (tables s R)"
proof -
  show k: "kernel_half (tables (upd_pte t i f s) R) = kernel_half (tables s R)" using low by auto
  show "half_inv R (upd_pte t i f s)"
    unfolding half_inv_def k using inv page by (auto simp: half_inv_def points_to_def)
qed

lemma half_inv_set_cap:
  assumes "half_inv R s" "half_cap R (kernel_half (tables s R)) c"
  shows "half_inv R (set_cap z c s)"
  using assms by (auto simp: half_inv_def)

definition guards :: "addr \<Rightarrow> kstate \<Rightarrow> ('a \<times> kstate) option \<Rightarrow> bool" where
  "guards R s r \<longleftrightarrow> (\<forall>x s'. r = Some (x, s') \<longrightarrow> half_inv R s' \<and> kernel_half (tables s' R) = kernel_half (tables s R))"

lemma guards_simps [simp]:
  "guards R s None" "guards R s (fail e s) \<longleftrightarrow> half_inv R s"
  "guards R s (Some (x, s')) \<longleftrightarrow> half_inv R s' \<and> kernel_half (tables s' R) = kernel_half (tables s R)"
  using half_inv_cong [of "s\<lparr>errno := e\<rparr>" s R] by (auto simp: guards_def fail_def cap_at_def)

subsection \<open>The address check\<close>

text \<open>An index of the root table whose address is below the kernel space lies in the lower half.\<close>

lemma root_index_low:
  assumes "pt_level pt = 2" "pt_virt_addr_base pt = 0" "index < 512"
    and "\<not> CONFIG_KERNEL_SPACE_BASE \<le> child_va pt (pt_level pt) index"
  shows "index < 128"
proof -
  have "unat (child_va pt (pt_level pt) index) < 2 ^ 37"
    using assms(4) by (simp add: not_le word_less_nat_alt config_defs)
  then show ?thesis
    using assms(1-3) by (simp add: unat_child_va get_page_size_bit_def word_less_nat_alt)
qed

lemma root_index_low_cap:
  assumes "half_inv R s" "cap_at s z = PageTableCap pt" "pt_table pt = R" "index < 512"
    and "\<not> CONFIG_KERNEL_SPACE_BASE \<le> child_va pt (pt_level pt) index"
  shows "index < 128"
  using half_invD(1) [OF assms(1)] half_invD(2) [OF assms(1), of z] assms by (intro root_index_low [of pt]) auto

subsection \<open>The operations\<close>

lemma guards_map_page_table:
  assumes inv: "half_inv R s"
  shows "guards R s (map_page_table_cap pts index cs s)"
proof -
  { fix pt child
    assume c: "cap_at s pts = PageTableCap pt" "cap_at s cs = PageTableCap child" "\<not> pt_mapped child"
      and i: "\<not> 512 \<le> index" "\<not> CONFIG_KERNEL_SPACE_BASE \<le> child_va pt (pt_level pt) index"
    let ?f = "\<lambda>pte. enable (set_next_page (pt_table child) (set_flags no_flags pte))"
    let ?s = "upd_pte (pt_table pt) index ?f s"
    let ?c = "PageTableCap (child\<lparr>pt_mapped := True, pt_level := pt_level pt - 1,
      pt_virt_addr_base := ucast (child_va pt (pt_level pt) index), pt_parent_table := pt_table pt\<rparr>)"
    have new: "page_of (pt_table child) \<noteq> R" using half_invD(2) [OF inv, of cs] c by auto
    have s: "half_inv R ?s" "kernel_half (tables ?s R) = kernel_half (tables s R)"
      using root_index_low_cap [OF inv c(1)] i new by (intro half_inv_update [OF inv]; simp add: not_le)+
    have "half_inv R (set_cap cs ?c ?s)" using s(1) new by (intro half_inv_set_cap) auto
    with s(2) have "guards R s (Some (True, set_cap cs ?c ?s))" by simp }
  then show ?thesis using inv
    by (simp add: map_page_table_cap_def split: if_split capability_t.split del: guards_simps(3) upd_pte_simps)
qed

lemma page_of_next [simp]: "page_of (get_next_page p) = get_next_page p"
proof -
  let ?w = "ucast (pte_next_page_number p) :: u64"
  have w: "unat ?w = unat (pte_next_page_number p)" "unat (pte_next_page_number p) < 2 ^ 44"
    using unsigned_less [of "pte_next_page_number p"]
    by (simp_all add: unsigned_ucast_eq take_bit_nat_eq_self unsigned_less [THEN less_trans])
  then have "unat (push_bit 12 ?w) = unat ?w * 4096" by (simp add: push_bit_eq_mult unat_word_ariths)
  with w have "unat (as_phys (get_next_page p)) = unat (pte_next_page_number p) * 4096"
    by (simp add: get_next_page_def)
  with w(2) show ?thesis unfolding page_of_def by (intro get_next_page_set_next_page) simp_all
qed

lemma guards_unmap_page_table:
  assumes inv: "half_inv R s"
  shows "guards R s (unmap_page_table_cap pts index cs s)"
proof -
  { fix pt child
    assume c: "cap_at s pts = PageTableCap pt" "cap_at s cs = PageTableCap child"
      and i: "\<not> 512 \<le> index" "\<not> CONFIG_KERNEL_SPACE_BASE \<le> child_va pt (pt_level pt) index"
      and e: "is_enabled (tables s (pt_table pt) index)" "get_next_page (tables s (pt_table pt) index) = pt_table child"
    let ?s = "upd_pte (pt_table pt) index disable s"
    let ?c = "PageTableCap (child\<lparr>pt_mapped := False, pt_parent_table := 0\<rparr>)"
    have old: "page_of (pt_table child) \<noteq> R" using half_invD(3) [OF inv e(1)] e(2) page_of_next by metis
    have s: "half_inv R ?s" "kernel_half (tables ?s R) = kernel_half (tables s R)"
      using root_index_low_cap [OF inv c(1)] i by (intro half_inv_update [OF inv]; simp add: not_le)+
    have "half_inv R (set_cap cs ?c ?s)" using s(1) old by (intro half_inv_set_cap) auto
    with s(2) have "guards R s (Some (True, set_cap cs ?c ?s))" by simp }
  then show ?thesis using inv
    by (simp add: unmap_page_table_cap_def split: if_split capability_t.split del: guards_simps(3) upd_pte_simps)
qed

text \<open>A page capability that is safe stays safe whatever its mapping is.\<close>

lemma half_cap_page:
  assumes "half_cap R half (VirtPageCap vp)" "vp_phys_addr vp' = vp_phys_addr vp"
  shows "half_cap R half (VirtPageCap vp')"
  using assms by simp

lemma half_inv_page_entry:
  assumes inv: "half_inv R s" and c: "cap_at s pts = PageTableCap pt" "cap_at s vs = VirtPageCap vp"
    and i: "index < 512" "\<not> CONFIG_KERNEL_SPACE_BASE \<le> child_va pt (vp_level vp) index" "vp_level vp = pt_level pt"
    and f: "f = (\<lambda>pte. enable (set_next_page (as_map (ucast (vp_phys_addr vp))) (set_flags fl pte)))"
    and vp: "vp_phys_addr vp' = vp_phys_addr vp"
  shows "half_inv R (set_cap vs (VirtPageCap vp') (upd_pte (pt_table pt) index f s))"
    "kernel_half (tables (upd_pte (pt_table pt) index f s) R) = kernel_half (tables s R)"
proof -
  have new: "half_cap R (kernel_half (tables s R)) (VirtPageCap vp)" using half_invD(2) [OF inv, of vs] c by simp
  have s: "half_inv R (upd_pte (pt_table pt) index f s)"
    "kernel_half (tables (upd_pte (pt_table pt) index f s) R) = kernel_half (tables s R)"
    using root_index_low_cap [OF inv c(1)] i new by (intro half_inv_update [OF inv]; simp add: f)+
  show "kernel_half (tables (upd_pte (pt_table pt) index f s) R) = kernel_half (tables s R)" by (rule s(2))
  show "half_inv R (set_cap vs (VirtPageCap vp') (upd_pte (pt_table pt) index f s))"
    using s half_cap_page [OF new vp] by (intro half_inv_set_cap) simp_all
qed

text \<open>An entry that leads to the frame of a page capability is not in the kernel half of \<open>R\<close>: it may be disabled.\<close>

lemma half_inv_page_disable:
  assumes inv: "half_inv R s" and c: "cap_at s vs = VirtPageCap vp"
    and e: "is_enabled (tables s t i)" "get_next_page (tables s t i) = as_map (ucast (vp_phys_addr vp))"
  shows "half_inv R (upd_pte t i disable s)" "kernel_half (tables (upd_pte t i disable s) R) = kernel_half (tables s R)"
proof -
  have "i < 128" if "t = R"
  proof (rule ccontr)
    assume "\<not> i < 128"
    then have "points_to (kernel_half (tables s R)) (as_map (ucast (vp_phys_addr vp)))"
      using e that by (auto simp: points_to_def kernel_half_def intro!: exI [of _ i])
    then show False using half_invD(2) [OF inv, of vs] c by simp
  qed
  then show "half_inv R (upd_pte t i disable s)" "kernel_half (tables (upd_pte t i disable s) R) = kernel_half (tables s R)"
    by (auto intro: half_inv_update [OF inv])
qed

lemma guards_map_virt_page:
  assumes inv: "half_inv R s"
  shows "guards R s (map_virt_page_cap pts index vs r w x s)"
proof -
  { fix pt vp and s0 :: kstate and vp' :: virt_page_cap
    assume c: "cap_at s pts = PageTableCap pt" "cap_at s vs = VirtPageCap vp"
      and i: "\<not> 512 \<le> index" "\<not> CONFIG_KERNEL_SPACE_BASE \<le> child_va pt (pt_level pt) index" "vp_level vp = pt_level pt"
      and z: "tables s0 = tables s" "cap_at s0 = cap_at s" and p: "vp_phys_addr vp' = vp_phys_addr vp"
    have inv0: "half_inv R s0" using inv half_inv_cong [OF z(2,1)] by simp
    have "guards R s (Some (True, set_cap vs (VirtPageCap vp') (upd_pte (pt_table pt) index (\<lambda>pte. enable (set_next_page
        (as_map (ucast (vp_phys_addr vp))) (set_flags (page_flags r w x) pte))) s0)))"
      using half_inv_page_entry [OF inv0 _ _ _ _ i(3) refl p, of pts vs index "page_flags r w x"] c i z
      by (simp add: not_le del: upd_pte_simps) }
  then show ?thesis using inv
    by (auto simp: map_virt_page_cap_def not_le split: if_split capability_t.split simp del: guards_simps(3) upd_pte_simps)
qed

lemma guards_unmap_virt_page:
  assumes inv: "half_inv R s"
  shows "guards R s (unmap_virt_page_cap pts index vs s)"
proof -
  { fix pt :: page_table_cap and vp
    assume c: "cap_at s vs = VirtPageCap vp" and e: "is_enabled (tables s (pt_table pt) index)"
      "get_next_page (tables s (pt_table pt) index) = as_map (ucast (vp_phys_addr vp))"
    note d = half_inv_page_disable [OF inv c e]
    have "half_cap R (kernel_half (tables (upd_pte (pt_table pt) index disable s) R))
        (VirtPageCap (vp\<lparr>vp_mapped := False, vp_parent_table := 0\<rparr>))"
      unfolding d(2) using half_invD(2) [OF inv, of vs] c by simp
    with d have "guards R s (Some (True, set_cap vs (VirtPageCap (vp\<lparr>vp_mapped := False, vp_parent_table := 0\<rparr>))
        (upd_pte (pt_table pt) index disable s)))"
      using half_inv_set_cap [OF d(1)] by (simp del: upd_pte_simps) }
  then show ?thesis using inv
    by (simp add: unmap_virt_page_cap_def split: if_split capability_t.split del: guards_simps(3) upd_pte_simps)
qed

lemma guards_remap_virt_page:
  assumes inv: "half_inv R s"
  shows "guards R s (remap_virt_page_cap nts index vs r w x ots s)"
proof -
  { fix pt vp and old :: page_table_cap and vp' :: virt_page_cap
    assume c: "cap_at s nts = PageTableCap pt" "cap_at s vs = VirtPageCap vp"
      and i: "\<not> 512 \<le> index" "\<not> CONFIG_KERNEL_SPACE_BASE \<le> child_va pt (vp_level vp) index" "vp_level vp = pt_level pt"
      and e: "is_enabled (tables s (pt_table old) (ucast (vp_index vp)))"
        "get_next_page (tables s (pt_table old) (ucast (vp_index vp))) = as_map (ucast (vp_phys_addr vp))"
      and p: "vp_phys_addr vp' = vp_phys_addr vp"
    let ?s = "upd_pte (pt_table old) (ucast (vp_index vp)) disable s"
    note d = half_inv_page_disable [OF inv c(2) e]
    have "guards R s (Some (True, set_cap vs (VirtPageCap vp') (upd_pte (pt_table pt) index (\<lambda>pte. enable (set_next_page
        (as_map (ucast (vp_phys_addr vp))) (set_flags (page_flags r w x) pte))) ?s)))"
      using half_inv_page_entry [OF d(1) _ _ _ i(2,3) refl p, of nts vs "page_flags r w x"] c i d(2)
      by (simp add: not_le del: upd_pte_simps(1)) }
  then show ?thesis using inv
    by (auto simp: remap_virt_page_cap_def not_le split: if_split capability_t.split simp del: guards_simps(3) upd_pte_simps)
qed

lemmas guards_map_ops = guards_map_page_table guards_unmap_page_table guards_map_virt_page
  guards_unmap_virt_page guards_remap_virt_page

subsection \<open>The system calls\<close>

text \<open>The outcome of a handler that does not switch tasks.\<close>

definition run_guards :: "addr \<Rightarrow> kstate \<Rightarrow> 'a run \<Rightarrow> bool" where
  "run_guards R s r \<longleftrightarrow> (case r of Stop \<Rightarrow> True | Switch _ _ \<Rightarrow> False
     | Done x s' \<Rightarrow> half_inv R s' \<and> kernel_half (tables s' R) = kernel_half (tables s R))"

lemma run_guards_simps [simp]:
  "run_guards R s Stop" "run_guards R s (ret_ok v s) \<longleftrightarrow> half_inv R s" "run_guards R s (ret_error e s) \<longleftrightarrow> half_inv R s"
  "run_guards R s (errno_to_sysret s) \<longleftrightarrow> half_inv R s" "run_guards R s (ret_bool b s) \<longleftrightarrow> half_inv R s"
  by (simp_all add: run_guards_def ret_ok_def ret_error_def errno_to_sysret_def ret_bool_def)

lemma run_guards_bind:
  assumes "guards R s m" "\<And>x s1. half_inv R s1 \<Longrightarrow> run_guards R s1 (f x s1)"
  shows "run_guards R s (rbind (lift_run m) f)"
proof (cases m)
  case (Some xs)
  then obtain x s1 where m: "m = Some (x, s1)" by (cases xs) simp
  with assms(1) have "half_inv R s1" "kernel_half (tables s1 R) = kernel_half (tables s R)" by (simp_all add: guards_def)
  with assms(2) [of s1 x] m show ?thesis by (simp add: run_guards_def lift_run_def split: run.splits)
qed (simp add: lift_run_def)

lemma guards_lookup_cap: "half_inv R s \<Longrightarrow> guards R s (lookup_cap t d s)"
  unfolding guards_def using half_inv_cong [of "s\<lparr>errno := e\<rparr>" s R for e]
  by (auto dest!: lookup_cap_frame simp: cap_at_def split: if_splits)

lemma guards_lookup_typed:
  assumes "half_inv R s"
  shows "guards R s (lookup_typed ty args s)"
proof -
  have "half_inv R (s'\<lparr>errno := e\<rparr>) = half_inv R s'" for s' e by (rule half_inv_cong) (auto simp: cap_at_def)
  with guards_lookup_cap [OF assms, of "current_task s" "args 0"] show ?thesis
    by (auto simp: guards_def lookup_typed_def bind_Some_iff split: if_splits)
qed

lemma run_guards_slot:
  assumes "half_inv R s" "\<And>slot s1. half_inv R s1 \<Longrightarrow> run_guards R s1 (f slot s1)"
  shows "run_guards R s (with_slot (lookup_typed ty args s) f)"
  unfolding with_slot_def by (rule run_guards_bind) (auto simp: guards_lookup_typed assms)

lemmas mapping_handler_defs = run_syscall_def lookup_page_table_cap_def lookup_virt_page_cap_def
  with_page_table_def with_virt_page_def
  invoke_sys_page_table_cap_mapped_def invoke_sys_page_table_cap_level_def
  invoke_sys_page_table_cap_map_table_def invoke_sys_page_table_cap_unmap_table_def
  invoke_sys_page_table_cap_map_page_def invoke_sys_page_table_cap_unmap_page_def
  invoke_sys_page_table_cap_remap_page_def invoke_sys_page_table_cap_virt_addr_base_def
  invoke_sys_virt_page_cap_mapped_def invoke_sys_virt_page_cap_readable_def
  invoke_sys_virt_page_cap_writable_def invoke_sys_virt_page_cap_executable_def
  invoke_sys_virt_page_cap_level_def invoke_sys_virt_page_cap_phys_addr_def
  invoke_sys_virt_page_cap_virt_addr_def

definition mapping_call :: "syscall_t \<Rightarrow> bool" where
  "mapping_call sc \<longleftrightarrow> cap_arg_type sc = Some CAP_PAGE_TABLE \<or> cap_arg_type sc = Some CAP_VIRT_PAGE"

lemma mapping_call_guards:
  assumes "mapping_call sc" "half_inv R s"
  shows "run_guards R s (run_syscall abi sc args s)"
  using assms
  by (cases sc) (auto simp: mapping_call_def cap_arg_type_def mapping_handler_defs guards_map_ops guards_lookup_cap
      intro!: run_guards_slot run_guards_bind split: capability_t.split)

subsection \<open>The calls return\<close>

text \<open>
  A handler that was started in \<open>s\<close> returns: with a result, or with an error and nothing but \<^verbatim>\<open>errno\<close> changed;
  no capability comes to stand for another thing.
\<close>

definition returns :: "kstate \<Rightarrow> sysret_t run \<Rightarrow> bool" where
  "returns s r \<longleftrightarrow> (\<exists>x s'. r = Done x s' \<and> (sys_error x \<noteq> SYS_S_OK \<longrightarrow> (\<exists>e. s' = s\<lparr>errno := e\<rparr>)) \<and>
     (\<forall>z. same_thing (cap_at s z) (cap_at s' z)))"

lemma cap_at_errno [simp]: "cap_at (s\<lparr>errno := e\<rparr>) = cap_at s"
  by (simp add: cap_at_def fun_eq_iff)

lemma settled_errno [simp]: "settled (s\<lparr>errno := e\<rparr>) r = settled s r"
  by (simp add: settled_def)

lemma returns_simps [simp]:
  "returns s (ret_ok v (s\<lparr>errno := e\<rparr>))" "returns s (ret_error c (s\<lparr>errno := e\<rparr>))" "returns s (errno_to_sysret (s\<lparr>errno := e\<rparr>))"
  by (auto simp: returns_def ret_ok_def ret_error_def errno_to_sysret_def)

lemma returns_settled:
  assumes "settled s m"
  shows "returns s (rbind (lift_run m) ret_bool)"
proof -
  obtain ok s' where m: "m = Some (ok, s')" using assms by (auto simp: settled_def)
  show ?thesis
  proof (cases ok)
    case True
    then show ?thesis using assms m by (auto simp: settled_def returns_def lift_run_def ret_bool_def ret_ok_def sysret_s_ok_def)
  next
    case False
    then obtain e where "s' = s\<lparr>errno := e\<rparr>" using assms m by (auto simp: settled_def)
    with False m show ?thesis by (simp add: lift_run_def ret_bool_def)
  qed
qed

text \<open>A live task whose capability spaces are all mapped in its page tables.\<close>

definition spaces_mapped :: "kstate \<Rightarrow> addr \<Rightarrow> bool" where
  "spaces_mapped s t \<longleftrightarrow> alive s t \<and> (\<exists>page. \<forall>k. unat k < unat (t_num_cap_space (tasks s t)) \<longrightarrow> space_at s t k (page k))"

lemma lookup_cap_returns:
  assumes "spaces_mapped s (current_task s)"
  shows "\<exists>x e'. lookup_cap (current_task s) d (s\<lparr>errno := e\<rparr>) = Some (x, s\<lparr>errno := e'\<rparr>)"
proof -
  let ?s = "s\<lparr>errno := e\<rparr>" and ?t = "current_task s"
  obtain page where a: "alive s ?t" "\<And>k. unat k < unat (t_num_cap_space (tasks s ?t)) \<Longrightarrow> space_at s ?t k (page k)"
    using assms by (auto simp: spaces_mapped_def)
  have al: "alive ?s ?t" using a(1) by (simp add: alive_def task_ok_def lock_free_for_def current_tid_def)
  have "walk_check r va ls ?s = walk_check r va ls s" for r va ls by (rule walk_check_cong) simp
  then have "space_at ?s ?t k p = space_at s ?t k p" for k p by (simp add: space_at_def)
  with a(2) have "lookup_cap ?t d ?s = Some (0, ?s\<lparr>errno := SYS_E_ILL_ARGS\<rparr>) \<or> lookup_cap ?t d ?s = Some (0, ?s\<lparr>errno := SYS_S_OK\<rparr>) \<or>
    (\<exists>x. lookup_cap ?t d ?s = Some (x, ?s))"
    using lookup_cap_below [OF al, of page d] lookup_cap_beyond [OF al, of d]
    by (cases "unat d < 101 * unat (t_num_cap_space (tasks s ?t))") (auto split: if_splits)
  then show ?thesis by auto
qed

lemma returns_lookup:
  assumes "spaces_mapped s (current_task s)" "\<And>x e'. returns s (f x (s\<lparr>errno := e'\<rparr>))"
  shows "returns s (rbind (lift_run (lookup_cap (current_task s) d (s\<lparr>errno := e\<rparr>))) f)"
  using lookup_cap_returns [OF assms(1), of d e] assms(2) by (auto simp: lift_run_def)

lemma returns_slot:
  assumes "spaces_mapped s (current_task s)"
    "\<And>slot e'. slot \<noteq> 0 \<Longrightarrow> get_cap_type (cap_at s slot) = ty \<Longrightarrow> returns s (f slot (s\<lparr>errno := e'\<rparr>))"
  shows "returns s (with_slot (lookup_typed ty args s) f)"
proof -
  obtain x e' where l: "lookup_cap (current_task s) (args 0) s = Some (x, s\<lparr>errno := e'\<rparr>)"
    using lookup_cap_returns [OF assms(1), of "args 0" "errno s"] by auto
  show ?thesis using l assms(2) [of x e']
    by (cases "x = 0"; cases "get_cap_type (cap_at s x) = ty") (simp_all add: lookup_typed_def with_slot_def lift_run_def)
qed

lemma get_cap_type_mapping:
  "get_cap_type c = CAP_PAGE_TABLE \<longleftrightarrow> (\<exists>pt. c = PageTableCap pt)" "get_cap_type c = CAP_VIRT_PAGE \<longleftrightarrow> (\<exists>vp. c = VirtPageCap vp)"
  by (cases c; simp)+

lemma map_ops_return:
  assumes "get_cap_type (cap_at s pts) = CAP_PAGE_TABLE" "pts \<noteq> 0" "\<And>z p. cap_at s z = PageTableCap p \<Longrightarrow> pt_table p \<noteq> 0"
  shows "returns s (rbind (lift_run (map_page_table_cap pts index cs (s\<lparr>errno := e\<rparr>))) ret_bool)"
    "returns s (rbind (lift_run (unmap_page_table_cap pts index cs (s\<lparr>errno := e\<rparr>))) ret_bool)"
    "returns s (rbind (lift_run (map_virt_page_cap pts index cs r w x (s\<lparr>errno := e\<rparr>))) ret_bool)"
    "returns s (rbind (lift_run (unmap_virt_page_cap pts index cs (s\<lparr>errno := e\<rparr>))) ret_bool)"
    "returns s (rbind (lift_run (remap_virt_page_cap pts index cs r w x ots (s\<lparr>errno := e\<rparr>))) ret_bool)"
proof -
  obtain pt where pt: "cap_at (s\<lparr>errno := e\<rparr>) pts = PageTableCap pt" using assms(1) by (auto simp: get_cap_type_mapping)
  have "settled (s\<lparr>errno := e\<rparr>) m \<Longrightarrow> returns s (rbind (lift_run m) ret_bool)" for m using returns_settled [of s m] by simp
  note this [OF map_ops_settled(1) [OF pt assms(2)]] this [OF map_ops_settled(2) [OF pt assms(2)]]
    this [OF map_ops_settled(3) [OF pt assms(2)]] this [OF map_ops_settled(4) [OF pt assms(2)]]
    this [OF map_ops_settled(5) [OF pt assms(2)]]
  with assms(3) show "returns s (rbind (lift_run (map_page_table_cap pts index cs (s\<lparr>errno := e\<rparr>))) ret_bool)"
    "returns s (rbind (lift_run (unmap_page_table_cap pts index cs (s\<lparr>errno := e\<rparr>))) ret_bool)"
    "returns s (rbind (lift_run (map_virt_page_cap pts index cs r w x (s\<lparr>errno := e\<rparr>))) ret_bool)"
    "returns s (rbind (lift_run (unmap_virt_page_cap pts index cs (s\<lparr>errno := e\<rparr>))) ret_bool)"
    "returns s (rbind (lift_run (remap_virt_page_cap pts index cs r w x ots (s\<lparr>errno := e\<rparr>))) ret_bool)"
    by simp_all
qed

text \<open>
  C33: no argument of a mapping system call confuses the types of capabilities. The mapping operations assert the type
  of their page table slot and read the capability as a page table, so a slot of another type would stop the
  kernel. When the capability spaces of the calling task are mapped and page table capabilities have their tables, every system
  call on a page table or page capability returns, whatever descriptors and values the task passes; when it
  returns an error nothing but \<^verbatim>\<open>errno\<close> changed, and in any case each slot holds a capability of the type it had, for the
  same table or the same page.
\<close>

theorem mapping_calls_return:
  assumes "mapping_call sc" "spaces_mapped s (current_task s)" "\<forall>z pt. cap_at s z = PageTableCap pt \<longrightarrow> pt_table pt \<noteq> 0"
  shows "\<exists>x s'. run_syscall abi sc args s = Done x s' \<and> (sys_error x \<noteq> SYS_S_OK \<longrightarrow> (\<exists>e. s' = s\<lparr>errno := e\<rparr>)) \<and>
    (\<forall>z. get_cap_type (cap_at s' z) = get_cap_type (cap_at s z) \<and> same_thing (cap_at s z) (cap_at s' z))"
proof -
  have "returns s (run_syscall abi sc args s)"
    using assms(1,3)
    by (cases sc) (auto simp: mapping_call_def cap_arg_type_def mapping_handler_defs get_cap_type_mapping
        intro!: returns_slot [OF assms(2)] returns_lookup [OF assms(2)] map_ops_return)
  then show ?thesis unfolding returns_def using same_thing_type by metis
qed

subsection \<open>Operations that move capabilities\<close>

text \<open>
  A step that changes no page table and makes no capability for one, nor for a page: it may move, copy and drop such
  capabilities and do anything to the others.
\<close>

definition moves_only :: "kstate \<Rightarrow> kstate \<Rightarrow> bool" where
  "moves_only s s' \<longleftrightarrow> tables s' = tables s \<and> (\<forall>z. cap_at s' z \<in> range (cap_at s) \<or>
     get_cap_type (cap_at s' z) \<noteq> CAP_PAGE_TABLE \<and> get_cap_type (cap_at s' z) \<noteq> CAP_VIRT_PAGE)"

lemma moves_only_keep: "tables s' = tables s \<Longrightarrow> cap_at s' = cap_at s \<Longrightarrow> moves_only s s'"
  by (simp add: moves_only_def)

lemma moves_only_trans:
  assumes "moves_only s s1" "moves_only s1 s2"
  shows "moves_only s s2"
  using assms unfolding moves_only_def by (metis rangeE)

lemma moves_only_set_cap:
  assumes "moves_only s s1" "c \<in> range (cap_at s) \<or> c = NullCap \<or> c = ZombieCap"
  shows "moves_only s (set_cap x c s1)"
  using assms by (auto simp: moves_only_def)

lemma half_cap_other:
  "get_cap_type c \<noteq> CAP_PAGE_TABLE \<Longrightarrow> get_cap_type c \<noteq> CAP_VIRT_PAGE \<Longrightarrow> half_cap R half c"
  by (cases c) simp_all

lemma moves_only_simps [simp]:
  "moves_only s s" "moves_only s (upd_task t f s') = moves_only s s'" "moves_only s (s'\<lparr>errno := e\<rparr>) = moves_only s s'"
proof -
  have "cap_at (s'\<lparr>errno := e\<rparr>) = cap_at s'" by (simp add: cap_at_def fun_eq_iff)
  then show "moves_only s s" "moves_only s (upd_task t f s') = moves_only s s'" "moves_only s (s'\<lparr>errno := e\<rparr>) = moves_only s s'"
    by (simp_all add: moves_only_def)
qed

lemma moves_only_guards:
  assumes "moves_only s s'" "half_inv R s"
  shows "half_inv R s'" "kernel_half (tables s' R) = kernel_half (tables s R)"
proof -
  have t: "tables s' = tables s" using assms(1) by (simp add: moves_only_def)
  have "half_cap R (kernel_half (tables s R)) (cap_at s' z)" for z
  proof (cases "cap_at s' z \<in> range (cap_at s)")
    case True
    then obtain y where "cap_at s' z = cap_at s y" by blast
    then show ?thesis using half_invD(2) [OF assms(2), of y] by simp
  next
    case False
    then show ?thesis using assms(1) unfolding moves_only_def by (blast intro: half_cap_other)
  qed
  with assms(2) t show "half_inv R s'" "kernel_half (tables s' R) = kernel_half (tables s R)"
    by (simp_all add: half_inv_def)
qed

lemma chain_ops_move:
  "insert_after x y s = Some s' \<Longrightarrow> moves_only s s'" "insert_before x y s = Some s' \<Longrightarrow> moves_only s s'"
  "erase_this x s = Some (r, s') \<Longrightarrow> moves_only s s'" "replace x y s = Some s' \<Longrightarrow> moves_only s s'"
  by (auto simp: slot_op_defs bind_Some_iff Let_def split: if_splits prod.splits intro!: moves_only_keep)

lemma push_free_slots_moves:
  assumes "push_free_slots t x s = Some s'"
  shows "moves_only s s'"
proof -
  let ?link = "\<lambda>s1. if t_free_slots (tasks s1 t) \<noteq> 0 then insert_before (t_free_slots (tasks s1 t)) x (set_cap x NullCap s1)
    else Some (set_cap x NullCap s1)"
  let ?f = "\<lambda>ts. ts\<lparr>t_free_slots := x, t_free_slots_count := t_free_slots_count ts + 1\<rparr>"
  obtain r s1 where s1: "erase_this x s = Some (r, s1)"
    using assms by (cases "erase_this x s") (auto simp: push_free_slots_def bind_Some_iff)
  obtain s2 where s2: "?link s1 = Some s2"
    using assms s1 by (cases "?link s1") (auto simp: push_free_slots_def make_null_cap_def bind_Some_iff Let_def split: if_splits)
  have s': "s' = upd_task t ?f s2"
    using assms s1 s2 by (auto simp: push_free_slots_def make_null_cap_def bind_Some_iff Let_def split: if_splits)
  have "moves_only s (set_cap x NullCap s1)" using chain_ops_move(3) [OF s1] by (intro moves_only_set_cap) simp_all
  moreover have "moves_only (set_cap x NullCap s1) s2" using s2 chain_ops_move(2) by (auto split: if_splits)
  ultimately show ?thesis using moves_only_trans [of s] by (simp add: s')
qed

lemma insert_cap_moves:
  assumes "insert_cap t c s = Some (x, s')" "c \<in> range (cap_at s)"
  shows "moves_only s s'"
proof -
  have pop: "moves_only s s1" if "pop_free_slots t s = Some (y, s1)" for y s1
    using that chain_ops_move(3) [of _ s] by (auto simp: pop_free_slots_def bind_Some_iff Let_def split: if_splits prod.splits)
  from assms(1) consider "s' = s\<lparr>errno := SYS_E_ILL_STATE\<rparr>"
    | (popped) s1 where "pop_free_slots t s = Some (x, s1)" "s' = set_cap x c s1"
    | (full) y s1 where "pop_free_slots t s = Some (y, s1)" "s' = s1\<lparr>errno := SYS_E_OUT_OF_CAP_SPACE\<rparr>"
    by (auto simp: insert_cap_def bind_Some_iff split: if_splits prod.splits)
  then show ?thesis
  proof cases
    case popped
    then show ?thesis using moves_only_set_cap [OF pop] assms(2) by blast
  qed (use pop in auto)
qed

lemma transfer_only_moves:
  assumes "transfer_cap t x s = Some (y, s')"
  shows "moves_only s s'"
proof -
  from assms consider e where "s' = s\<lparr>errno := e\<rparr>" | (full) "insert_cap t (cap_at s x) s = Some (0, s')"
    | (passed) s1 s2 where "insert_cap t (cap_at s x) s = Some (y, s1)" "replace y x s1 = Some s2"
        "push_free_slots (slot_task s x) x s2 = Some s'"
    by (auto simp: transfer_cap_def bind_Some_iff Let_def split: if_splits option.splits prod.splits)
  then show ?thesis
  proof cases
    case passed
    from insert_cap_moves [OF passed(1)] chain_ops_move(4) [OF passed(2)] push_free_slots_moves [OF passed(3)]
    show ?thesis using moves_only_trans by blast
  qed (use insert_cap_moves [of t "cap_at s x" s 0 s'] in simp_all)
qed

lemma delegate_only_moves:
  assumes "delegate_cap t x s = Some (y, s')"
  shows "moves_only s s'"
proof -
  from assms consider e where "s' = s\<lparr>errno := e\<rparr>" | (full) "insert_cap t (cap_at s x) s = Some (0, s')"
    | (passed) s1 where "insert_cap t (cap_at s x) s = Some (y, s1)" "insert_after x y (set_cap x ZombieCap s1) = Some s'"
    by (auto simp: delegate_cap_def make_zombie_cap_def bind_Some_iff Let_def split: if_splits option.splits prod.splits)
  then show ?thesis
  proof cases
    case passed
    from insert_cap_moves [OF passed(1)] have "moves_only s (set_cap x ZombieCap s1)" by (intro moves_only_set_cap) simp_all
    with chain_ops_move(1) [OF passed(2)] show ?thesis using moves_only_trans by blast
  qed (use insert_cap_moves [of t "cap_at s x" s 0 s'] in simp_all)
qed

lemma copy_only_moves:
  assumes "copy_cap x s = Some (y, s')"
  shows "moves_only s s'"
proof -
  let ?t = "slot_task s x" and ?c = "cap_at s x"
  have ins: "moves_only s s2" if "insert_cap ?t ?c s = Some (z, s2)" for z s2 using insert_cap_moves [OF that] by simp
  have aft: "moves_only s s3" if "insert_cap ?t ?c s = Some (z, s2)" "insert_after x z s2 = Some s3" for z s2 s3
    using ins [OF that(1)] chain_ops_move(1) [OF that(2)] moves_only_trans by blast
  show ?thesis using assms ins aft
    by (cases ?c) (auto simp: copy_cap_def bind_Some_iff Let_def split: if_splits prod.splits)
qed

subsection \<open>Sequences of calls\<close>

text \<open>
  One step is a system call on page tables or pages by the running task; the transfer, delegation or copy of a capability
  between tasks, by a system call or with a message; or anything else that changes no page table and makes
  no capability for a page table or a page: the execution of a task, a switch to another one, messages without
  capabilities, timers, the creation of endpoints.
\<close>

inductive mapping_step :: "sys_abi \<Rightarrow> kstate \<Rightarrow> kstate \<Rightarrow> bool" for abi where
  call: "mapping_call sc \<Longrightarrow> run_syscall abi sc args s = Done r s' \<Longrightarrow> mapping_step abi s s'"
| transfer: "transfer_cap t x s = Some (y, s') \<Longrightarrow> mapping_step abi s s'"
| delegate: "delegate_cap t x s = Some (y, s') \<Longrightarrow> mapping_step abi s s'"
| copy: "copy_cap x s = Some (y, s') \<Longrightarrow> mapping_step abi s s'"
| other: "moves_only s s' \<Longrightarrow> mapping_step abi s s'"

interpretation half: guarded_view "mapping_step abi" "half_inv R" "\<lambda>s. kernel_half (tables s R)" for abi R
proof
  fix s t assume st: "mapping_step abi s t" and inv: "half_inv R s"
  from st have "half_inv R t \<and> kernel_half (tables t R) = kernel_half (tables s R)"
  proof (cases rule: mapping_step.cases)
    case (call sc args r)
    then show ?thesis using mapping_call_guards [of sc R s abi args] inv by (simp add: run_guards_def)
  qed (use inv transfer_only_moves delegate_only_moves copy_only_moves moves_only_guards in blast)+
  then show "half_inv R t" "kernel_half (tables t R) = kernel_half (tables s R)" by simp_all
qed

text \<open>
  C3: the kernel half of an address space is out of reach of the mapping system calls. Let every capability for a
  root table be mapped and cover the whole address space, let no page capability stand for the frame of the table or for a
  frame the kernel half points to, and let no entry of any table lead to the root table. Then after any sequence of
  system calls on page tables and pages, by any tasks, between which capabilities are transferred, delegated and copied
  and the kernel does other work that changes no page table and makes no page table or page capability, every
  entry of the kernel half of the root table is what it was.
\<close>

theorem kernel_half_protected:
  assumes "(mapping_step abi)\<^sup>*\<^sup>* s s'" "half_inv R s" "128 \<le> i"
  shows "tables s' R i = tables s R i"
  using half.steps_view [OF assms(1,2)] assms(3) by (auto simp: kernel_half_def fun_eq_iff not_less split: if_splits)

subsection \<open>A task and its address space\<close>

text \<open>
  A running task at 0x2000004000 whose root table at 0x2000010000 maps one capability space (entry 192) and, with its
  entry 131, the physical memory from 3 GiB on. Slot 5 holds the capability for the root table, slot 6 the page \<open>vp\<close>.
\<close>

definition giga_pte :: "u64 \<Rightarrow> pte_t" where
  "giga_pte p = enable (set_next_page (as_map p) (set_flags \<lparr>fl_readable = True, fl_writable = True,
     fl_executable = True, fl_user = False, fl_global = True\<rparr> zero_pte))"

definition table_pte :: "addr \<Rightarrow> pte_t" where
  "table_pte t = enable (set_next_page t (set_flags no_flags zero_pte))"

definition root_cap :: page_table_cap where
  "root_cap = \<lparr>pt_mapped = True, pt_level = 2, pt_virt_addr_base = 0, pt_table = 0x2000010000, pt_parent_table = 0\<rparr>"

definition iso_tables :: "addr \<Rightarrow> page_table_t" where
  "iso_tables = (\<lambda>_. zero_page_table)(
     0x2000010000 := zero_page_table(131 := giga_pte 0xC0000000, 192 := table_pte 0x2000011000),
     0x2000011000 := zero_page_table(0 := table_pte 0x2000012000),
     0x2000012000 := zero_page_table(0 := table_pte 0x2000005000))"

definition iso_state :: "virt_page_cap \<Rightarrow> kstate" where
  "iso_state vp = set_cap (slot_addr 0x2000005000 5) (PageTableCap root_cap)
     (set_cap (slot_addr 0x2000005000 6) (VirtPageCap vp)
       (zero_state\<lparr>tables := iso_tables, current_task := 0x2000004000, tasks := (\<lambda>_. zero_task)(0x2000004000 :=
          zero_task\<lparr>t_tid := 1, t_state := running, t_num_cap_space := 1, t_root_page_table := 0x2000010000\<rparr>)\<rparr>))"

definition iso_page :: "2 word \<Rightarrow> 36 word \<Rightarrow> bool \<Rightarrow> virt_page_cap" where
  "iso_page level p m = \<lparr>vp_mapped = m, vp_device = True, vp_readable = True, vp_writable = True,
     vp_executable = False, vp_level = level, vp_index = 0, vp_phys_addr = p, vp_address = 0, vp_parent_table = 0\<rparr>"

lemma iso_page_of [simp]:
  "page_of 0x2000010000 = 0x2000010000" "page_of 0x2000011000 = 0x2000011000" "page_of 0x2000012000 = 0x2000012000"
  "page_of 0x2000005000 = 0x2000005000" "page_of 0x2040000000 = 0x2040000000" "page_of 0x20C0000000 = 0x20C0000000"
  by (simp_all add: page_of_def mapped_page_pte mapped_page_def as_phys_def config_defs get_next_page_set_next_page
      del: get_next_page_set)

lemma iso_alive: "alive (iso_state vp) 0x2000004000"
  by (simp add: alive_def task_ok_def lock_free_for_def current_tid_def rlock_def free_lock_def iso_state_def zero_task_def)

lemma iso_space: "space_at (iso_state vp) 0x2000004000 0 0x2000005000"
  by (simp add: space_at_def iso_state_def iso_tables_def walk_check.simps walk_def space_va_def config_defs
      get_page_table_index_def get_page_size_bit_def table_pte_def zero_task_def)

lemma iso_slots [simp]:
  "slot_addr 0x2000005000 5 \<noteq> 0" "slot_addr 0x2000005000 6 \<noteq> 0"
  "slot_addr 0x2000005000 5 \<noteq> slot_addr 0x2000005000 6" "slot_addr 0x2000005000 6 \<noteq> slot_addr 0x2000005000 5"
  by (simp_all add: slot_addr_def SLOT_OFFSET_def SLOT_SIZE_def)

lemma iso_state_simps [simp]:
  "current_task (iso_state vp) = 0x2000004000" "tables (iso_state vp) = iso_tables"
  "cap_at (iso_state vp) (slot_addr 0x2000005000 5) = PageTableCap root_cap"
  "cap_at (iso_state vp) (slot_addr 0x2000005000 6) = VirtPageCap vp"
  by (simp_all add: iso_state_def)

lemma iso_lookup:
  "lookup_cap 0x2000004000 5 (iso_state vp) = Some (slot_addr 0x2000005000 5, iso_state vp)"
  "lookup_cap 0x2000004000 6 (iso_state vp) = Some (slot_addr 0x2000005000 6, iso_state vp)"
proof -
  have n: "t_num_cap_space (tasks (iso_state vp) 0x2000004000) = 1" by (simp add: iso_state_def)
  from lookup_cap_slot [OF iso_alive iso_space, of vp 5] lookup_cap_slot [OF iso_alive iso_space, of vp 6]
  show "lookup_cap 0x2000004000 5 (iso_state vp) = Some (slot_addr 0x2000005000 5, iso_state vp)"
    "lookup_cap 0x2000004000 6 (iso_state vp) = Some (slot_addr 0x2000005000 6, iso_state vp)" by (simp_all add: n)
qed

lemma iso_points:
  "points_to (iso_tables t) p \<Longrightarrow> p \<in> {0x20C0000000, 0x2000011000, 0x2000012000, 0x2000005000}"
  by (auto simp: points_to_def iso_tables_def giga_pte_def table_pte_def as_map_def config_defs split: if_splits)

lemma iso_kernel_points:
  "points_to (kernel_half (iso_tables t)) p \<Longrightarrow> p \<in> {0x20C0000000, 0x2000011000, 0x2000012000, 0x2000005000}"
  by (rule iso_points) (auto simp: points_to_def kernel_half_def split: if_splits)

lemma iso_inv: "half_inv 0x2000010000 (iso_state (iso_page 2 0x40000000 False))"
proof -
  have "half_cap 0x2000010000 (kernel_half (iso_tables 0x2000010000)) (cap_at (iso_state (iso_page 2 0x40000000 False)) z)" for z
    using iso_kernel_points [of "0x2000010000" "0x2040000000"]
    by (auto simp: iso_state_def root_cap_def iso_page_def as_map_def config_defs zero_state_def cap_at_def zero_slot_def set_cap_def)
  then show ?thesis using iso_points by (fastforce simp: half_inv_def)
qed

lemma iso_spaces: "spaces_mapped (iso_state vp) 0x2000004000"
proof -
  have "t_num_cap_space (tasks (iso_state vp) 0x2000004000) = 1" by (simp add: iso_state_def)
  then show ?thesis unfolding spaces_mapped_def
    using iso_alive iso_space by (auto simp: unat_eq_0 intro!: exI [of _ "\<lambda>_. 0x2000005000"])
qed

text \<open>The task passes its page capability where a page table is meant.\<close>

theorem mapping_calls_return_witness:
  "\<exists>x s'. run_syscall demo_sys_abi SYS_PAGE_TABLE_CAP_MAP_TABLE ((\<lambda>_. 0)(0 := 6, 1 := 3, 2 := 5))
     (iso_state (iso_page 2 0x40000000 False)) = Done x s' \<and>
   cap_at s' (slot_addr 0x2000005000 6) = VirtPageCap (iso_page 2 0x40000000 False)"
proof -
  let ?s = "iso_state (iso_page 2 0x40000000 False)" and ?x = "slot_addr 0x2000005000 6"
  have "mapping_call SYS_PAGE_TABLE_CAP_MAP_TABLE" by (simp add: mapping_call_def cap_arg_type_def)
  moreover have "\<forall>z pt. cap_at ?s z = PageTableCap pt \<longrightarrow> pt_table pt \<noteq> 0"
    by (auto simp: iso_state_def root_cap_def zero_state_def cap_at_def zero_slot_def set_cap_def)
  ultimately obtain x s' where r: "run_syscall demo_sys_abi SYS_PAGE_TABLE_CAP_MAP_TABLE ((\<lambda>_. 0)(0 := 6, 1 := 3, 2 := 5)) ?s = Done x s'"
    using mapping_calls_return [of SYS_PAGE_TABLE_CAP_MAP_TABLE ?s demo_sys_abi "(\<lambda>_. 0)(0 := 6, 1 := 3, 2 := 5)"] iso_spaces by auto
  from r have "s' = ?s\<lparr>errno := SYS_E_CAP_TYPE\<rparr>"
    by (simp add: mapping_handler_defs with_slot_def lookup_typed_def lift_run_def iso_lookup errno_to_sysret_def ret_error_def)
  with r show ?thesis by simp
qed

text \<open>The task maps the giga page from 1 GiB on with the index 3, in its lower half: the entries 131 and 192 stay.\<close>

theorem kernel_half_protected_witness:
  "\<exists>r s'. run_syscall demo_sys_abi SYS_PAGE_TABLE_CAP_MAP_PAGE ((\<lambda>_. 0)(0 := 5, 1 := 3, 2 := 1, 3 := 1, 5 := 6))
       (iso_state (iso_page 2 0x40000000 False)) = Done r s' \<and>
     sys_error r = SYS_S_OK \<and> is_enabled (tables s' 0x2000010000 3) \<and>
     tables s' 0x2000010000 131 = giga_pte 0xC0000000 \<and> tables s' 0x2000010000 192 = table_pte 0x2000011000"
proof -
  let ?s = "iso_state (iso_page 2 0x40000000 False)"
  let ?args = "(\<lambda>_. 0)(0 := 5, 1 := 3, 2 := 1, 3 := 1, 5 := 6) :: nat \<Rightarrow> u64"
  have can: "can_map_page ?s (slot_addr 0x2000005000 5) 3 (slot_addr 0x2000005000 6) root_cap (iso_page 2 0x40000000 False)"
    by (simp add: can_map_page_def root_cap_def iso_page_def child_va_def config_defs iso_tables_def zero_page_table_def)
  from map_virt_page_cap_success [OF can, of True True False] obtain s' where s':
    "map_virt_page_cap (slot_addr 0x2000005000 5) 3 (slot_addr 0x2000005000 6) True True False ?s = Some (True, s')"
    "tables s' = tables (upd_pte (pt_table root_cap) 3 (\<lambda>pte. enable (set_next_page
       (as_map (ucast (vp_phys_addr (iso_page 2 0x40000000 False)))) (set_flags (page_flags True True False) pte))) ?s)" by metis
  then have run: "run_syscall demo_sys_abi SYS_PAGE_TABLE_CAP_MAP_PAGE ?args ?s = Done (sysret_s_ok 0) s'"
    by (simp add: mapping_handler_defs with_slot_def lookup_typed_def lift_run_def iso_lookup ret_bool_def ret_ok_def)
  then have step: "(mapping_step demo_sys_abi)\<^sup>*\<^sup>* ?s s'"
    by (intro r_into_rtranclp mapping_step.call) (simp_all add: mapping_call_def cap_arg_type_def)
  note keep = kernel_half_protected [OF step iso_inv]
  have "is_enabled (tables s' 0x2000010000 3)" using s'(2) by (simp add: root_cap_def)
  with run keep [of 131] keep [of 192] show ?thesis by (simp add: iso_tables_def sysret_s_ok_def)
qed

subsection \<open>The missing level check\<close>

text \<open>
  \<^verbatim>\<open>unmap_virt_page_cap\<close> reaches into the kernel half. It computes the address it checks from the level of
  the page, and unlike \<^verbatim>\<open>map_virt_page_cap\<close> does not compare that level with the one of the page table. With a
  mapped 4 KiB page and a table based at 0 every index passes the check: if the frame of the page is the one an
  entry of the table leads to, be it one of the kernel's giga pages, the entry is disabled and the call succeeds.
\<close>

theorem unmap_page_skips_level:
  assumes "cap_at s pts = PageTableCap pt" "cap_at s vs = VirtPageCap vp" "pts \<noteq> 0" "vs \<noteq> 0"
    and "pt_virt_addr_base pt = 0" "pt_table pt \<noteq> 0" "index < 512" "vp_level vp = 0" "vp_mapped vp"
    and "is_enabled (tables s (pt_table pt) index)" "get_next_page (tables s (pt_table pt) index) = as_map (ucast (vp_phys_addr vp))"
  shows "\<exists>s'. unmap_virt_page_cap pts index vs s = Some (True, s') \<and> \<not> is_enabled (tables s' (pt_table pt) index)"
proof -
  have "unat (child_va pt (vp_level vp) index) < 2 ^ 37"
    using assms(5,7,8) by (simp add: unat_child_va get_page_size_bit_def word_less_nat_alt)
  then have "\<not> CONFIG_KERNEL_SPACE_BASE \<le> child_va pt (vp_level vp) index"
    by (simp add: not_le word_less_nat_alt config_defs)
  with assms show ?thesis by (simp add: unmap_virt_page_cap_def less_not_ge)
qed

text \<open>
  The task of the example, with a 4 KiB page whose frame is at 3 GiB: one system call disables entry 131, through
  which the kernel sees that memory.
\<close>

theorem unmap_page_skips_level_witness:
  "\<exists>r s'. run_syscall demo_sys_abi SYS_PAGE_TABLE_CAP_UNMAP_PAGE ((\<lambda>_. 0)(0 := 5, 1 := 131, 2 := 6))
       (iso_state (iso_page 0 0xC0000000 True)) = Done r s' \<and>
     sys_error r = SYS_S_OK \<and> \<not> is_enabled (tables s' 0x2000010000 131)"
proof -
  let ?s = "iso_state (iso_page 0 0xC0000000 True)"
  have e: "iso_tables 0x2000010000 131 = giga_pte 0xC0000000" by (simp add: iso_tables_def)
  from unmap_page_skips_level [of ?s "slot_addr 0x2000005000 5" root_cap "slot_addr 0x2000005000 6" "iso_page 0 0xC0000000 True" 131]
  obtain s' where "unmap_virt_page_cap (slot_addr 0x2000005000 5) 131 (slot_addr 0x2000005000 6) ?s = Some (True, s')"
    "\<not> is_enabled (tables s' 0x2000010000 131)"
    by (auto simp: root_cap_def iso_page_def e giga_pte_def as_map_def config_defs)
  then show ?thesis
    by (simp add: mapping_handler_defs with_slot_def lookup_typed_def lift_run_def iso_lookup ret_bool_def ret_ok_def sysret_s_ok_def)
qed

end
