(* ===== verification/Syscall_Tables.thy ===== *)
theory Syscall_Tables
  imports Syscalls
begin

text \<open>
  The tables that lead from the code of a system call to its handler: \<^verbatim>\<open>ns_table\<close> of \<^verbatim>\<open>src/kernel/syscall.cpp\<close> and the
  tables of the headers \<^verbatim>\<open>include/kernel/syscall/ns_*.h\<close>. The theory of system calls names a call by its
  constant and leaves the tables to a parameter; here the tables are those of the source, with the numbers
  of the constants, which \<^verbatim>\<open>libcaprese/syscall.h\<close> defines, as parameters. The lemmas show that every code finds the
  handler of its constant.
\<close>

subsection \<open>Tables\<close>

type_synonym sys_handler = "syscall_args_t \<Rightarrow> kstate \<Rightarrow> sysret_t run"
type_synonym sys_entry = "u64 \<times> sys_handler"

text \<open>
  An array with designated initializers: \<open>sys C & 0xffff\<close> is the place of the entry for \<open>C\<close>. Its size is one more than
  the largest place, and a place that nothing was given for holds a null pointer.
\<close>

definition place :: "u64 \<Rightarrow> nat" where
  "place code = unat (code AND 0xffff)"

definition table_size :: "(nat \<times> 'a) list \<Rightarrow> nat" where
  "table_size t = Suc (fold max (map fst t) 0)"

definition places :: "sys_entry list \<Rightarrow> (nat \<times> sys_handler) list" where
  "places t = map (\<lambda>(code, h). (place code, h)) t"

definition sysns_system_table :: "sys_abi \<Rightarrow> (syscall_t \<Rightarrow> u64) \<Rightarrow> sys_entry list" where
  "sysns_system_table abi sys =
     [(sys SYS_SYSTEM_NULL, invoke_sys_system_null), (sys SYS_SYSTEM_CORE_ID, invoke_sys_system_core_id abi),
      (sys SYS_SYSTEM_PAGE_SIZE, invoke_sys_system_page_size),
      (sys SYS_SYSTEM_USER_SPACE_START, invoke_sys_system_user_space_start),
      (sys SYS_SYSTEM_USER_SPACE_END, invoke_sys_system_user_space_end),
      (sys SYS_SYSTEM_CAPS_PER_CAP_SPACE, invoke_sys_system_caps_per_cap_space),
      (sys SYS_SYSTEM_YIELD, invoke_sys_system_yield), (sys SYS_SYSTEM_CAP_SIZE, invoke_sys_system_cap_size abi),
      (sys SYS_SYSTEM_CAP_ALIGN, invoke_sys_system_cap_align abi)]"

definition sysns_arch_table :: "sys_abi \<Rightarrow> (syscall_t \<Rightarrow> u64) \<Rightarrow> sys_entry list" where
  "sysns_arch_table abi sys =
     [(sys SYS_ARCH_MMU_MODE, invoke_sys_arch_mmu_mode abi)]"

definition sysns_cap_table :: "sys_abi \<Rightarrow> (syscall_t \<Rightarrow> u64) \<Rightarrow> sys_entry list" where
  "sysns_cap_table abi sys =
     [(sys SYS_CAP_TYPE, invoke_sys_cap_type abi), (sys SYS_CAP_COPY, invoke_sys_cap_copy),
      (sys SYS_CAP_REVOKE, invoke_sys_cap_revoke abi), (sys SYS_CAP_DESTROY, invoke_sys_cap_destroy abi),
      (sys SYS_CAP_SAME, invoke_sys_cap_same)]"

definition sysns_mem_cap_table :: "sys_abi \<Rightarrow> (syscall_t \<Rightarrow> u64) \<Rightarrow> sys_entry list" where
  "sysns_mem_cap_table abi sys =
     [(sys SYS_MEM_CAP_DEVICE, invoke_sys_mem_cap_device),
      (sys SYS_MEM_CAP_PHYS_ADDR, invoke_sys_mem_cap_phys_addr), (sys SYS_MEM_CAP_SIZE, invoke_sys_mem_cap_size),
      (sys SYS_MEM_CAP_USED_SIZE, invoke_sys_mem_cap_used_size),
      (sys SYS_MEM_CAP_CREATE_OBJECT, invoke_sys_mem_cap_create_object abi)]"

definition sysns_task_cap_table :: "sys_abi \<Rightarrow> (syscall_t \<Rightarrow> u64) \<Rightarrow> sys_entry list" where
  "sysns_task_cap_table abi sys =
     [(sys SYS_TASK_CAP_TID, invoke_sys_task_cap_tid), (sys SYS_TASK_CAP_KILLABLE, invoke_sys_task_cap_killable),
      (sys SYS_TASK_CAP_SWITCHABLE, invoke_sys_task_cap_switchable),
      (sys SYS_TASK_CAP_SUSPENDABLE, invoke_sys_task_cap_suspendable),
      (sys SYS_TASK_CAP_RESUMABLE, invoke_sys_task_cap_resumable),
      (sys SYS_TASK_CAP_KILL, invoke_sys_task_cap_kill abi), (sys SYS_TASK_CAP_SWITCH, invoke_sys_task_cap_switch),
      (sys SYS_TASK_CAP_SUSPEND, invoke_sys_task_cap_suspend),
      (sys SYS_TASK_CAP_RESUME, invoke_sys_task_cap_resume),
      (sys SYS_TASK_CAP_GET_REG, invoke_sys_task_cap_get_reg abi),
      (sys SYS_TASK_CAP_SET_REG, invoke_sys_task_cap_set_reg abi),
      (sys SYS_TASK_CAP_TRANSFER_CAP, invoke_sys_task_cap_transfer_cap),
      (sys SYS_TASK_CAP_DELEGATE_CAP, invoke_sys_task_cap_delegate_cap),
      (sys SYS_TASK_CAP_GET_FREE_SLOT_COUNT, invoke_sys_task_cap_get_free_slot_count),
      (sys SYS_TASK_CAP_GET_CAP_SPACE_COUNT, invoke_sys_task_cap_get_cap_space_count),
      (sys SYS_TASK_CAP_GET_CAP_SPACE_EXT_COUNT, invoke_sys_task_cap_get_cap_space_ext_count),
      (sys SYS_TASK_CAP_INSERT_CAP_SPACE, invoke_sys_task_cap_insert_cap_space),
      (sys SYS_TASK_CAP_EXTEND_CAP_SPACE, invoke_sys_task_cap_extend_cap_space),
      (sys SYS_TASK_CAP_SET_KILL_NOTIFY, invoke_sys_task_cap_set_kill_notify)]"

definition sysns_endpoint_cap_table :: "sys_abi \<Rightarrow> (syscall_t \<Rightarrow> u64) \<Rightarrow> sys_entry list" where
  "sysns_endpoint_cap_table abi sys =
     [(sys SYS_ENDPOINT_CAP_SEND_SHORT, invoke_sys_endpoint_cap_send_short abi),
      (sys SYS_ENDPOINT_CAP_SEND_LONG, invoke_sys_endpoint_cap_send_long abi),
      (sys SYS_ENDPOINT_CAP_RECEIVE, invoke_sys_endpoint_cap_receive abi),
      (sys SYS_ENDPOINT_CAP_REPLY, invoke_sys_endpoint_cap_reply abi),
      (sys SYS_ENDPOINT_CAP_NB_SEND_SHORT, invoke_sys_endpoint_cap_nb_send_short abi),
      (sys SYS_ENDPOINT_CAP_NB_SEND_LONG, invoke_sys_endpoint_cap_nb_send_long abi),
      (sys SYS_ENDPOINT_CAP_NB_RECEIVE, invoke_sys_endpoint_cap_nb_receive abi),
      (sys SYS_ENDPOINT_CAP_CALL, invoke_sys_endpoint_cap_call abi),
      (sys SYS_ENDPOINT_CAP_REPLY_AND_RECEIVE, invoke_sys_endpoint_cap_reply_and_receive abi)]"

definition sysns_page_table_cap_table :: "sys_abi \<Rightarrow> (syscall_t \<Rightarrow> u64) \<Rightarrow> sys_entry list" where
  "sysns_page_table_cap_table abi sys =
     [(sys SYS_PAGE_TABLE_CAP_MAPPED, invoke_sys_page_table_cap_mapped),
      (sys SYS_PAGE_TABLE_CAP_LEVEL, invoke_sys_page_table_cap_level),
      (sys SYS_PAGE_TABLE_CAP_MAP_TABLE, invoke_sys_page_table_cap_map_table),
      (sys SYS_PAGE_TABLE_CAP_UNMAP_TABLE, invoke_sys_page_table_cap_unmap_table),
      (sys SYS_PAGE_TABLE_CAP_MAP_PAGE, invoke_sys_page_table_cap_map_page),
      (sys SYS_PAGE_TABLE_CAP_UNMAP_PAGE, invoke_sys_page_table_cap_unmap_page),
      (sys SYS_PAGE_TABLE_CAP_REMAP_PAGE, invoke_sys_page_table_cap_remap_page),
      (sys SYS_PAGE_TABLE_CAP_VIRT_ADDR_BASE, invoke_sys_page_table_cap_virt_addr_base)]"

definition sysns_virt_page_cap_table :: "sys_abi \<Rightarrow> (syscall_t \<Rightarrow> u64) \<Rightarrow> sys_entry list" where
  "sysns_virt_page_cap_table abi sys =
     [(sys SYS_VIRT_PAGE_CAP_MAPPED, invoke_sys_virt_page_cap_mapped),
      (sys SYS_VIRT_PAGE_CAP_READABLE, invoke_sys_virt_page_cap_readable),
      (sys SYS_VIRT_PAGE_CAP_WRITABLE, invoke_sys_virt_page_cap_writable),
      (sys SYS_VIRT_PAGE_CAP_EXECUTABLE, invoke_sys_virt_page_cap_executable),
      (sys SYS_VIRT_PAGE_CAP_LEVEL, invoke_sys_virt_page_cap_level),
      (sys SYS_VIRT_PAGE_CAP_PHYS_ADDR, invoke_sys_virt_page_cap_phys_addr),
      (sys SYS_VIRT_PAGE_CAP_VIRT_ADDR, invoke_sys_virt_page_cap_virt_addr)]"

definition sysns_id_cap_table :: "sys_abi \<Rightarrow> (syscall_t \<Rightarrow> u64) \<Rightarrow> sys_entry list" where
  "sysns_id_cap_table abi sys =
     [(sys SYS_ID_CAP_CREATE, invoke_sys_id_cap_create), (sys SYS_ID_CAP_COMPARE, invoke_sys_id_cap_compare)]"

text \<open>The text the functions of the namespaces share; calling through a null pointer stops the kernel.\<close>

definition invoke_entry :: "(nat \<times> sys_handler) list \<Rightarrow> nat \<Rightarrow> sys_handler" where
  "invoke_entry t i args s =
     (if table_size t \<le> i then ret_error SYS_E_ILL_CODE s
      else case map_of t i of None \<Rightarrow> Stop | Some h \<Rightarrow> h args s)"

definition sysns_tables :: "sys_abi \<Rightarrow> (syscall_t \<Rightarrow> u64) \<Rightarrow> sysns \<Rightarrow> sys_entry list" where
  "sysns_tables abi sys ns =
     (case ns of
        SYSNS_SYSTEM \<Rightarrow> sysns_system_table abi sys
      | SYSNS_ARCH \<Rightarrow> sysns_arch_table abi sys
      | SYSNS_CAP \<Rightarrow> sysns_cap_table abi sys
      | SYSNS_MEM_CAP \<Rightarrow> sysns_mem_cap_table abi sys
      | SYSNS_TASK_CAP \<Rightarrow> sysns_task_cap_table abi sys
      | SYSNS_ENDPOINT_CAP \<Rightarrow> sysns_endpoint_cap_table abi sys
      | SYSNS_PAGE_TABLE_CAP \<Rightarrow> sysns_page_table_cap_table abi sys
      | SYSNS_VIRT_PAGE_CAP \<Rightarrow> sysns_virt_page_cap_table abi sys
      | SYSNS_ID_CAP \<Rightarrow> sysns_id_cap_table abi sys)"

definition namespaces :: "sysns list" where
  "namespaces = [SYSNS_SYSTEM, SYSNS_ARCH, SYSNS_CAP, SYSNS_MEM_CAP, SYSNS_TASK_CAP, SYSNS_ENDPOINT_CAP,
     SYSNS_PAGE_TABLE_CAP, SYSNS_VIRT_PAGE_CAP, SYSNS_ID_CAP]"

definition namespace_table :: "(sysns \<Rightarrow> u64) \<Rightarrow> (nat \<times> sysns) list" where
  "namespace_table sysns = map (\<lambda>ns. (unat (drop_bit 16 (sysns ns)), ns)) namespaces"

definition invoke_syscall_code ::
  "sys_abi \<Rightarrow> (sysns \<Rightarrow> u64) \<Rightarrow> (syscall_t \<Rightarrow> u64) \<Rightarrow> kstate \<Rightarrow> sysret_t run" where
  "invoke_syscall_code abi sysns sys s =
     (let (args, code) = get_syscall_args s; ns = unat (drop_bit 16 code AND 0xffff); t = namespace_table sysns in
      if table_size t \<le> ns then ret_error SYS_E_ILL_CODE s
      else case map_of t ns of None \<Rightarrow> Stop
        | Some n \<Rightarrow> invoke_entry (places (sysns_tables abi sys n)) (place code) args s)"

subsection \<open>Codes find their handlers\<close>

text \<open>The namespace of a call, and the calls of a namespace in the order of the tables.\<close>

definition ns_of :: "syscall_t \<Rightarrow> sysns" where
  "ns_of sc = (case sc of
     SYS_SYSTEM_NULL \<Rightarrow> SYSNS_SYSTEM | SYS_SYSTEM_CORE_ID \<Rightarrow> SYSNS_SYSTEM
     | SYS_SYSTEM_PAGE_SIZE \<Rightarrow> SYSNS_SYSTEM | SYS_SYSTEM_USER_SPACE_START \<Rightarrow> SYSNS_SYSTEM
     | SYS_SYSTEM_USER_SPACE_END \<Rightarrow> SYSNS_SYSTEM
     | SYS_SYSTEM_CAPS_PER_CAP_SPACE \<Rightarrow> SYSNS_SYSTEM | SYS_SYSTEM_YIELD \<Rightarrow> SYSNS_SYSTEM
     | SYS_SYSTEM_CAP_SIZE \<Rightarrow> SYSNS_SYSTEM | SYS_SYSTEM_CAP_ALIGN \<Rightarrow> SYSNS_SYSTEM
     | SYS_ARCH_MMU_MODE \<Rightarrow> SYSNS_ARCH | SYS_CAP_TYPE \<Rightarrow> SYSNS_CAP
     | SYS_CAP_COPY \<Rightarrow> SYSNS_CAP | SYS_CAP_REVOKE \<Rightarrow> SYSNS_CAP
     | SYS_CAP_DESTROY \<Rightarrow> SYSNS_CAP | SYS_CAP_SAME \<Rightarrow> SYSNS_CAP
     | SYS_MEM_CAP_DEVICE \<Rightarrow> SYSNS_MEM_CAP | SYS_MEM_CAP_PHYS_ADDR \<Rightarrow> SYSNS_MEM_CAP
     | SYS_MEM_CAP_SIZE \<Rightarrow> SYSNS_MEM_CAP | SYS_MEM_CAP_USED_SIZE \<Rightarrow> SYSNS_MEM_CAP
     | SYS_MEM_CAP_CREATE_OBJECT \<Rightarrow> SYSNS_MEM_CAP | SYS_TASK_CAP_TID \<Rightarrow> SYSNS_TASK_CAP
     | SYS_TASK_CAP_KILLABLE \<Rightarrow> SYSNS_TASK_CAP | SYS_TASK_CAP_SWITCHABLE \<Rightarrow> SYSNS_TASK_CAP
     | SYS_TASK_CAP_SUSPENDABLE \<Rightarrow> SYSNS_TASK_CAP | SYS_TASK_CAP_RESUMABLE \<Rightarrow> SYSNS_TASK_CAP
     | SYS_TASK_CAP_KILL \<Rightarrow> SYSNS_TASK_CAP | SYS_TASK_CAP_SWITCH \<Rightarrow> SYSNS_TASK_CAP
     | SYS_TASK_CAP_SUSPEND \<Rightarrow> SYSNS_TASK_CAP | SYS_TASK_CAP_RESUME \<Rightarrow> SYSNS_TASK_CAP
     | SYS_TASK_CAP_GET_REG \<Rightarrow> SYSNS_TASK_CAP | SYS_TASK_CAP_SET_REG \<Rightarrow> SYSNS_TASK_CAP
     | SYS_TASK_CAP_TRANSFER_CAP \<Rightarrow> SYSNS_TASK_CAP
     | SYS_TASK_CAP_DELEGATE_CAP \<Rightarrow> SYSNS_TASK_CAP
     | SYS_TASK_CAP_GET_FREE_SLOT_COUNT \<Rightarrow> SYSNS_TASK_CAP
     | SYS_TASK_CAP_GET_CAP_SPACE_COUNT \<Rightarrow> SYSNS_TASK_CAP
     | SYS_TASK_CAP_GET_CAP_SPACE_EXT_COUNT \<Rightarrow> SYSNS_TASK_CAP
     | SYS_TASK_CAP_INSERT_CAP_SPACE \<Rightarrow> SYSNS_TASK_CAP
     | SYS_TASK_CAP_EXTEND_CAP_SPACE \<Rightarrow> SYSNS_TASK_CAP
     | SYS_TASK_CAP_SET_KILL_NOTIFY \<Rightarrow> SYSNS_TASK_CAP
     | SYS_ENDPOINT_CAP_SEND_SHORT \<Rightarrow> SYSNS_ENDPOINT_CAP
     | SYS_ENDPOINT_CAP_SEND_LONG \<Rightarrow> SYSNS_ENDPOINT_CAP
     | SYS_ENDPOINT_CAP_RECEIVE \<Rightarrow> SYSNS_ENDPOINT_CAP
     | SYS_ENDPOINT_CAP_REPLY \<Rightarrow> SYSNS_ENDPOINT_CAP
     | SYS_ENDPOINT_CAP_NB_SEND_SHORT \<Rightarrow> SYSNS_ENDPOINT_CAP
     | SYS_ENDPOINT_CAP_NB_SEND_LONG \<Rightarrow> SYSNS_ENDPOINT_CAP
     | SYS_ENDPOINT_CAP_NB_RECEIVE \<Rightarrow> SYSNS_ENDPOINT_CAP
     | SYS_ENDPOINT_CAP_CALL \<Rightarrow> SYSNS_ENDPOINT_CAP
     | SYS_ENDPOINT_CAP_REPLY_AND_RECEIVE \<Rightarrow> SYSNS_ENDPOINT_CAP
     | SYS_PAGE_TABLE_CAP_MAPPED \<Rightarrow> SYSNS_PAGE_TABLE_CAP
     | SYS_PAGE_TABLE_CAP_LEVEL \<Rightarrow> SYSNS_PAGE_TABLE_CAP
     | SYS_PAGE_TABLE_CAP_MAP_TABLE \<Rightarrow> SYSNS_PAGE_TABLE_CAP
     | SYS_PAGE_TABLE_CAP_UNMAP_TABLE \<Rightarrow> SYSNS_PAGE_TABLE_CAP
     | SYS_PAGE_TABLE_CAP_MAP_PAGE \<Rightarrow> SYSNS_PAGE_TABLE_CAP
     | SYS_PAGE_TABLE_CAP_UNMAP_PAGE \<Rightarrow> SYSNS_PAGE_TABLE_CAP
     | SYS_PAGE_TABLE_CAP_REMAP_PAGE \<Rightarrow> SYSNS_PAGE_TABLE_CAP
     | SYS_PAGE_TABLE_CAP_VIRT_ADDR_BASE \<Rightarrow> SYSNS_PAGE_TABLE_CAP
     | SYS_VIRT_PAGE_CAP_MAPPED \<Rightarrow> SYSNS_VIRT_PAGE_CAP
     | SYS_VIRT_PAGE_CAP_READABLE \<Rightarrow> SYSNS_VIRT_PAGE_CAP
     | SYS_VIRT_PAGE_CAP_WRITABLE \<Rightarrow> SYSNS_VIRT_PAGE_CAP
     | SYS_VIRT_PAGE_CAP_EXECUTABLE \<Rightarrow> SYSNS_VIRT_PAGE_CAP
     | SYS_VIRT_PAGE_CAP_LEVEL \<Rightarrow> SYSNS_VIRT_PAGE_CAP
     | SYS_VIRT_PAGE_CAP_PHYS_ADDR \<Rightarrow> SYSNS_VIRT_PAGE_CAP
     | SYS_VIRT_PAGE_CAP_VIRT_ADDR \<Rightarrow> SYSNS_VIRT_PAGE_CAP | SYS_ID_CAP_CREATE \<Rightarrow> SYSNS_ID_CAP
     | SYS_ID_CAP_COMPARE \<Rightarrow> SYSNS_ID_CAP)"

definition sys_names :: "sysns \<Rightarrow> syscall_t list" where
  "sys_names ns = (case ns of
        SYSNS_SYSTEM \<Rightarrow>
          [SYS_SYSTEM_NULL, SYS_SYSTEM_CORE_ID, SYS_SYSTEM_PAGE_SIZE, SYS_SYSTEM_USER_SPACE_START,
           SYS_SYSTEM_USER_SPACE_END, SYS_SYSTEM_CAPS_PER_CAP_SPACE, SYS_SYSTEM_YIELD, SYS_SYSTEM_CAP_SIZE,
           SYS_SYSTEM_CAP_ALIGN]
      | SYSNS_ARCH \<Rightarrow>
          [SYS_ARCH_MMU_MODE]
      | SYSNS_CAP \<Rightarrow>
          [SYS_CAP_TYPE, SYS_CAP_COPY, SYS_CAP_REVOKE, SYS_CAP_DESTROY, SYS_CAP_SAME]
      | SYSNS_MEM_CAP \<Rightarrow>
          [SYS_MEM_CAP_DEVICE, SYS_MEM_CAP_PHYS_ADDR, SYS_MEM_CAP_SIZE, SYS_MEM_CAP_USED_SIZE,
           SYS_MEM_CAP_CREATE_OBJECT]
      | SYSNS_TASK_CAP \<Rightarrow>
          [SYS_TASK_CAP_TID, SYS_TASK_CAP_KILLABLE, SYS_TASK_CAP_SWITCHABLE, SYS_TASK_CAP_SUSPENDABLE,
           SYS_TASK_CAP_RESUMABLE, SYS_TASK_CAP_KILL, SYS_TASK_CAP_SWITCH, SYS_TASK_CAP_SUSPEND,
           SYS_TASK_CAP_RESUME, SYS_TASK_CAP_GET_REG, SYS_TASK_CAP_SET_REG, SYS_TASK_CAP_TRANSFER_CAP,
           SYS_TASK_CAP_DELEGATE_CAP, SYS_TASK_CAP_GET_FREE_SLOT_COUNT, SYS_TASK_CAP_GET_CAP_SPACE_COUNT,
           SYS_TASK_CAP_GET_CAP_SPACE_EXT_COUNT, SYS_TASK_CAP_INSERT_CAP_SPACE, SYS_TASK_CAP_EXTEND_CAP_SPACE,
           SYS_TASK_CAP_SET_KILL_NOTIFY]
      | SYSNS_ENDPOINT_CAP \<Rightarrow>
          [SYS_ENDPOINT_CAP_SEND_SHORT, SYS_ENDPOINT_CAP_SEND_LONG, SYS_ENDPOINT_CAP_RECEIVE,
           SYS_ENDPOINT_CAP_REPLY, SYS_ENDPOINT_CAP_NB_SEND_SHORT, SYS_ENDPOINT_CAP_NB_SEND_LONG,
           SYS_ENDPOINT_CAP_NB_RECEIVE, SYS_ENDPOINT_CAP_CALL, SYS_ENDPOINT_CAP_REPLY_AND_RECEIVE]
      | SYSNS_PAGE_TABLE_CAP \<Rightarrow>
          [SYS_PAGE_TABLE_CAP_MAPPED, SYS_PAGE_TABLE_CAP_LEVEL, SYS_PAGE_TABLE_CAP_MAP_TABLE,
           SYS_PAGE_TABLE_CAP_UNMAP_TABLE, SYS_PAGE_TABLE_CAP_MAP_PAGE, SYS_PAGE_TABLE_CAP_UNMAP_PAGE,
           SYS_PAGE_TABLE_CAP_REMAP_PAGE, SYS_PAGE_TABLE_CAP_VIRT_ADDR_BASE]
      | SYSNS_VIRT_PAGE_CAP \<Rightarrow>
          [SYS_VIRT_PAGE_CAP_MAPPED, SYS_VIRT_PAGE_CAP_READABLE, SYS_VIRT_PAGE_CAP_WRITABLE,
           SYS_VIRT_PAGE_CAP_EXECUTABLE, SYS_VIRT_PAGE_CAP_LEVEL, SYS_VIRT_PAGE_CAP_PHYS_ADDR,
           SYS_VIRT_PAGE_CAP_VIRT_ADDR]
      | SYSNS_ID_CAP \<Rightarrow>
          [SYS_ID_CAP_CREATE, SYS_ID_CAP_COMPARE])"

lemma sysns_tables_names: "sysns_tables abi sys ns = map (\<lambda>sc. (sys sc, run_syscall abi sc)) (sys_names ns)"
  by (cases ns) (simp_all add: sysns_tables_def sys_names_def run_syscall_def sysns_system_table_def sysns_arch_table_def
      sysns_cap_table_def sysns_mem_cap_table_def sysns_task_cap_table_def sysns_endpoint_cap_table_def
      sysns_page_table_cap_table_def sysns_virt_page_cap_table_def sysns_id_cap_table_def)

lemma sys_names_ns: "sc \<in> set (sys_names (ns_of sc))"
  by (cases sc) (simp_all add: ns_of_def sys_names_def)

lemma sys_names_only: "sc \<in> set (sys_names ns) \<Longrightarrow> ns_of sc = ns"
  by (cases ns) (auto simp: ns_of_def sys_names_def)

lemma fold_max_start: "m \<le> n \<Longrightarrow> m \<le> fold max xs n" for m n :: nat
  by (induction xs arbitrary: n) (auto simp: le_max_iff_disj)

lemma fold_max_ge: "x \<in> set xs \<Longrightarrow> x \<le> fold max xs n" for x n :: nat
  by (induction xs arbitrary: n) (auto intro: fold_max_start)

lemma table_size_less: "(i, h) \<in> set t \<Longrightarrow> i < table_size t"
  using fold_max_ge [of i "map fst t" 0] by (force simp: table_size_def)

lemma map_of_inj: "sc \<in> set xs \<Longrightarrow> inj_on f (set xs) \<Longrightarrow> map_of (map (\<lambda>x. (f x, g x)) xs) (f sc) = Some (g sc)"
  by (induction xs) (auto simp: inj_on_def)

text \<open>
  What the numbering of \<^verbatim>\<open>libcaprese\<close> promises: a code carries its namespace in the upper half and a number of its own in the
  lower half, and the namespaces have different numbers.
\<close>

definition good_numbers :: "(sysns \<Rightarrow> u64) \<Rightarrow> (syscall_t \<Rightarrow> u64) \<Rightarrow> bool" where
  "good_numbers sysns sys \<longleftrightarrow> inj (\<lambda>ns. drop_bit 16 (sysns ns)) \<and>
     (\<forall>sc. drop_bit 16 (sys sc) AND 0xffff = drop_bit 16 (sysns (ns_of sc))) \<and>
     (\<forall>sc sc'. ns_of sc = ns_of sc' \<and> sys sc AND 0xffff = sys sc' AND 0xffff \<longrightarrow> sc = sc')"

text \<open>
  C6: every system call reaches its own handler. With the code of a call in register a7 the two tables of the source lead to the
  handler of that call, which gets the arguments from the trap frame.
\<close>

theorem syscall_code_dispatches:
  assumes good: "good_numbers sysns sys" and code: "snd (get_syscall_args s) = sys sc"
  shows "invoke_syscall_code abi sysns sys s = run_syscall abi sc (fst (get_syscall_args s)) s"
proof -
  let ?n = "ns_of sc" and ?t = "namespace_table sysns"
  let ?e = "places (sysns_tables abi sys ?n)" and ?i = "unat (drop_bit 16 (sysns ?n))"
  have ns: "?n \<in> set namespaces" by (cases ?n) (simp_all add: namespaces_def)
  have inj: "inj_on (\<lambda>ns. unat (drop_bit 16 (sysns ns))) (set namespaces)"
    using good by (auto simp: good_numbers_def inj_on_def dest!: word_unatI)
  then have t: "map_of ?t ?i = Some ?n" using map_of_inj [OF ns inj, of id] by (simp add: namespace_table_def)
  have e: "?e = map (\<lambda>x. (place (sys x), run_syscall abi x)) (sys_names ?n)"
    by (simp add: places_def sysns_tables_names)
  have "inj_on (\<lambda>x. place (sys x)) (set (sys_names ?n))"
    using good sys_names_only by (auto simp: good_numbers_def inj_on_def place_def dest!: word_unatI)
  then have h: "map_of ?e (place (sys sc)) = Some (run_syscall abi sc)" unfolding e by (intro map_of_inj sys_names_ns)
  have "?i < table_size ?t" "place (sys sc) < table_size ?e" using t h by (auto dest!: map_of_SomeD intro: table_size_less)
  with good code t h show ?thesis
    by (simp add: invoke_syscall_code_def invoke_entry_def good_numbers_def case_prod_beta not_le)
qed

subsection \<open>A numbering\<close>

text \<open>Namespaces and calls numbered in the order of the source.\<close>

definition position :: "'a \<Rightarrow> 'a list \<Rightarrow> nat" where
  "position x xs = length (takeWhile (\<lambda>y. y \<noteq> x) xs)"

definition demo_sysns :: "sysns \<Rightarrow> u64" where
  "demo_sysns ns = push_bit 16 (of_nat (position ns namespaces))"

definition demo_sys :: "syscall_t \<Rightarrow> u64" where
  "demo_sys sc = demo_sysns (ns_of sc) + of_nat (position sc (sys_names (ns_of sc)))"

lemma demo_sys_places:
  "sys_names (ns_of sc) ! unat (demo_sys sc AND 0xffff) = sc \<and>
   drop_bit 16 (demo_sys sc) AND 0xffff = drop_bit 16 (demo_sysns (ns_of sc))"
  by (cases sc) (simp_all add: demo_sys_def demo_sysns_def ns_of_def sys_names_def position_def namespaces_def)

lemma demo_numbers: "good_numbers demo_sysns demo_sys"
proof -
  have "namespaces ! unat (drop_bit 16 (demo_sysns ns)) = ns" for ns
    by (cases ns) (simp_all add: demo_sysns_def position_def namespaces_def)
  then have "inj (\<lambda>ns. drop_bit 16 (demo_sysns ns))" by (intro injI) metis
  moreover have "sc = sc'" if "ns_of sc = ns_of sc'" "demo_sys sc AND 0xffff = demo_sys sc' AND 0xffff" for sc sc'
    using that demo_sys_places by metis
  ultimately show ?thesis using demo_sys_places by (auto simp: good_numbers_def)
qed

theorem syscall_code_dispatches_witness:
  "\<exists>s. snd (get_syscall_args s) = 0x60004 \<and> invoke_syscall_code demo_sys_abi demo_sysns demo_sys s =
     invoke_sys_page_table_cap_map_page (fst (get_syscall_args s)) s"
proof -
  let ?s = "zero_state\<lparr>tasks := (\<lambda>_. zero_task\<lparr>t_frame := (\<lambda>_. 0x60004)\<rparr>)\<rparr>"
  have "demo_sys SYS_PAGE_TABLE_CAP_MAP_PAGE = 0x60004"
    by (simp add: demo_sys_def demo_sysns_def ns_of_def sys_names_def position_def namespaces_def)
  moreover have "snd (get_syscall_args ?s) = 0x60004" by (simp add: get_syscall_args_def)
  ultimately show ?thesis using syscall_code_dispatches [OF demo_numbers, of ?s SYS_PAGE_TABLE_CAP_MAP_PAGE demo_sys_abi]
    by (intro exI [of _ ?s]) (simp add: run_syscall_def)
qed

end
