(* ===== verification/Csr.thy ===== *)
theory Csr
  imports Syscalls
begin

text \<open>
  The control registers of the machine as \<^verbatim>\<open>include/arch/rv64/kernel/arch/csr.h\<close> describes them. The
  constants that the functions of the kernel use elsewhere (of \<^verbatim>\<open>scause\<close> and the mode of \<^verbatim>\<open>satp\<close>) are defined with these
  functions. The lemmas show that the fields of a register do not overlap, that the causes of traps are told
  apart, and that the address of a root page table can be read back from \<^verbatim>\<open>satp\<close>.
\<close>

subsection \<open>Constants\<close>

definition SSTATUS_SD :: u64 where "SSTATUS_SD = push_bit 63 1"
definition SSTATUS_UXL :: u64 where "SSTATUS_UXL = push_bit 32 3"
definition SSTATUS_MXR :: u64 where "SSTATUS_MXR = push_bit 19 1"
definition SSTATUS_SUM :: u64 where "SSTATUS_SUM = push_bit 18 1"
definition SSTATUS_XS :: u64 where "SSTATUS_XS = push_bit 15 3"
definition SSTATUS_FS :: u64 where "SSTATUS_FS = push_bit 13 3"
definition SSTATUS_VS :: u64 where "SSTATUS_VS = push_bit 9 3"
definition SSTATUS_SPP :: u64 where "SSTATUS_SPP = push_bit 8 1"
definition SSTATUS_UBE :: u64 where "SSTATUS_UBE = push_bit 6 1"
definition SSTATUS_SPIE :: u64 where "SSTATUS_SPIE = push_bit 5 1"
definition SSTATUS_SIE :: u64 where "SSTATUS_SIE = push_bit 1 1"
definition SSTATUS_FS_VS_XS_OFF :: u64 where "SSTATUS_FS_VS_XS_OFF = 0"
definition SSTATUS_FS_VS_XS_INITIAL :: u64 where "SSTATUS_FS_VS_XS_INITIAL = 1"
definition SSTATUS_FS_VS_XS_CLEAN :: u64 where "SSTATUS_FS_VS_XS_CLEAN = 2"
definition SSTATUS_FS_VS_XS_DIRTY :: u64 where "SSTATUS_FS_VS_XS_DIRTY = 3"
definition STVEC_MODE :: u64 where "STVEC_MODE = 3"
definition STVEC_BASE :: u64 where "STVEC_BASE = NOT STVEC_MODE"
definition STVEC_MODE_DIRECT :: u64 where "STVEC_MODE_DIRECT = 0"
definition STVEC_MODE_VECTOR :: u64 where "STVEC_MODE_VECTOR = 1"
definition SIP_SEIP :: u64 where "SIP_SEIP = push_bit 9 1"
definition SIP_STIP :: u64 where "SIP_STIP = push_bit 5 1"
definition SIP_SSIP :: u64 where "SIP_SSIP = push_bit 1 1"
definition SIE_SEIE :: u64 where "SIE_SEIE = push_bit 9 1"
definition SIE_STIE :: u64 where "SIE_STIE = push_bit 5 1"
definition SIE_SSIE :: u64 where "SIE_SSIE = push_bit 1 1"
definition SCAUSE_SUPERVISOR_SOFTWARE_INTERRUPT :: u64 where "SCAUSE_SUPERVISOR_SOFTWARE_INTERRUPT = 0x1"
definition SCAUSE_SUPERVISOR_TIMER_INTERRUPT :: u64 where "SCAUSE_SUPERVISOR_TIMER_INTERRUPT = 0x5"
definition SCAUSE_INSTRUCTION_ADDRESS_MISALIGNED :: u64 where "SCAUSE_INSTRUCTION_ADDRESS_MISALIGNED = 0x0"
definition SCAUSE_INSTRUCTION_ACCESS_FAULT :: u64 where "SCAUSE_INSTRUCTION_ACCESS_FAULT = 0x1"
definition SCAUSE_ILLEGAL_INSTRUCTION :: u64 where "SCAUSE_ILLEGAL_INSTRUCTION = 0x2"
definition SCAUSE_BREAKPOINT :: u64 where "SCAUSE_BREAKPOINT = 0x3"
definition SCAUSE_LOAD_ADDRESS_MISALIGNED :: u64 where "SCAUSE_LOAD_ADDRESS_MISALIGNED = 0x4"
definition SCAUSE_LOAD_ACCESS_FAULT :: u64 where "SCAUSE_LOAD_ACCESS_FAULT = 0x5"
definition SCAUSE_STORE_AMO_ADDRESS_MISALIGNED :: u64 where "SCAUSE_STORE_AMO_ADDRESS_MISALIGNED = 0x6"
definition SCAUSE_STORE_AMO_ACCESS_FAULT :: u64 where "SCAUSE_STORE_AMO_ACCESS_FAULT = 0x7"
definition SCAUSE_ENVIRONMENT_CALL_FROM_S_MODE :: u64 where "SCAUSE_ENVIRONMENT_CALL_FROM_S_MODE = 0x9"
definition SCAUSE_ENVIRONMENT_CALL_FROM_M_MODE :: u64 where "SCAUSE_ENVIRONMENT_CALL_FROM_M_MODE = 0xB"
definition SCAUSE_INSTRUCTION_PAGE_FAULT :: u64 where "SCAUSE_INSTRUCTION_PAGE_FAULT = 0xC"
definition SCAUSE_LOAD_PAGE_FAULT :: u64 where "SCAUSE_LOAD_PAGE_FAULT = 0xD"
definition SCAUSE_STORE_AMO_PAGE_FAULT :: u64 where "SCAUSE_STORE_AMO_PAGE_FAULT = 0xF"
definition SATP_PPN :: u64 where "SATP_PPN = push_bit 44 1 - 1"
definition SATP_ASID :: u64 where "SATP_ASID = (push_bit 60 1 - 1) AND NOT SATP_PPN"
definition SATP_MODE :: u64 where "SATP_MODE = push_bit 60 15"
definition SATP_MODE_BARE :: u64 where "SATP_MODE_BARE = push_bit 60 0"
definition SATP_MODE_SV48 :: u64 where "SATP_MODE_SV48 = push_bit 60 9"

lemmas csr_defs = SCAUSE_EXCEPTION_CODE_def SCAUSE_INTERRUPT_def SCAUSE_SUPERVISOR_EXTERNAL_INTERRUPT_def
  SCAUSE_ENVIRONMENT_CALL_FROM_U_MODE_def SATP_MODE_SV39_def
  SSTATUS_SD_def SSTATUS_UXL_def SSTATUS_MXR_def SSTATUS_SUM_def
  SSTATUS_XS_def SSTATUS_FS_def SSTATUS_VS_def SSTATUS_SPP_def
  SSTATUS_UBE_def SSTATUS_SPIE_def SSTATUS_SIE_def SSTATUS_FS_VS_XS_OFF_def
  SSTATUS_FS_VS_XS_INITIAL_def SSTATUS_FS_VS_XS_CLEAN_def SSTATUS_FS_VS_XS_DIRTY_def STVEC_MODE_def
  STVEC_BASE_def STVEC_MODE_DIRECT_def STVEC_MODE_VECTOR_def SIP_SEIP_def
  SIP_STIP_def SIP_SSIP_def SIE_SEIE_def SIE_STIE_def
  SIE_SSIE_def SCAUSE_SUPERVISOR_SOFTWARE_INTERRUPT_def SCAUSE_SUPERVISOR_TIMER_INTERRUPT_def SCAUSE_INSTRUCTION_ADDRESS_MISALIGNED_def
  SCAUSE_INSTRUCTION_ACCESS_FAULT_def SCAUSE_ILLEGAL_INSTRUCTION_def SCAUSE_BREAKPOINT_def SCAUSE_LOAD_ADDRESS_MISALIGNED_def
  SCAUSE_LOAD_ACCESS_FAULT_def SCAUSE_STORE_AMO_ADDRESS_MISALIGNED_def SCAUSE_STORE_AMO_ACCESS_FAULT_def SCAUSE_ENVIRONMENT_CALL_FROM_S_MODE_def
  SCAUSE_ENVIRONMENT_CALL_FROM_M_MODE_def SCAUSE_INSTRUCTION_PAGE_FAULT_def SCAUSE_LOAD_PAGE_FAULT_def SCAUSE_STORE_AMO_PAGE_FAULT_def
  SATP_PPN_def SATP_ASID_def SATP_MODE_def SATP_MODE_BARE_def
  SATP_MODE_SV48_def

subsection \<open>Fields\<close>

text \<open>No two masks of the list have a bit in common.\<close>

fun separate_masks :: "u64 list \<Rightarrow> bool" where
  "separate_masks [] \<longleftrightarrow> True"
| "separate_masks (m # ms) \<longleftrightarrow> list_all (\<lambda>k. m AND k = 0) ms \<and> separate_masks ms"

lemma sstatus_fields: "separate_masks [SSTATUS_SD, SSTATUS_UXL, SSTATUS_MXR, SSTATUS_SUM, SSTATUS_XS, SSTATUS_FS,
    SSTATUS_VS, SSTATUS_SPP, SSTATUS_UBE, SSTATUS_SPIE, SSTATUS_SIE]"
  by (simp add: csr_defs)

lemma stvec_fields: "separate_masks [STVEC_MODE, STVEC_BASE]" "STVEC_MODE OR STVEC_BASE = - 1"
  by (simp_all add: csr_defs)

lemma scause_fields: "separate_masks [SCAUSE_EXCEPTION_CODE, SCAUSE_INTERRUPT]" "SCAUSE_EXCEPTION_CODE OR SCAUSE_INTERRUPT = - 1"
  by (simp_all add: csr_defs)

lemma satp_fields: "separate_masks [SATP_PPN, SATP_ASID, SATP_MODE]" "(SATP_PPN OR SATP_ASID) OR SATP_MODE = - 1"
  by (simp_all add: csr_defs)

lemma exception_codes_distinct: "distinct [SCAUSE_INSTRUCTION_ADDRESS_MISALIGNED, SCAUSE_INSTRUCTION_ACCESS_FAULT,
    SCAUSE_ILLEGAL_INSTRUCTION, SCAUSE_BREAKPOINT, SCAUSE_LOAD_ADDRESS_MISALIGNED, SCAUSE_LOAD_ACCESS_FAULT,
    SCAUSE_STORE_AMO_ADDRESS_MISALIGNED, SCAUSE_STORE_AMO_ACCESS_FAULT, SCAUSE_ENVIRONMENT_CALL_FROM_U_MODE,
    SCAUSE_ENVIRONMENT_CALL_FROM_S_MODE, SCAUSE_ENVIRONMENT_CALL_FROM_M_MODE, SCAUSE_INSTRUCTION_PAGE_FAULT,
    SCAUSE_LOAD_PAGE_FAULT, SCAUSE_STORE_AMO_PAGE_FAULT]"
  by (simp add: csr_defs)

subsection \<open>The address space register\<close>

lemma satp_parts:
  assumes "take_bit 44 x = x"
  shows "(SATP_MODE_SV39 OR x) AND SATP_PPN = x" "(SATP_MODE_SV39 OR x) AND SATP_MODE = SATP_MODE_SV39"
    "(SATP_MODE_SV39 OR x) AND SATP_ASID = 0"
proof -
  have x: "x AND mask 44 = x" using assms by (simp add: take_bit_eq_mask)
  have p: "SATP_PPN = mask 44" by (simp add: SATP_PPN_def mask_eq_exp_minus_1)
  have k: "x AND m = x AND (mask 44 AND m)" for m using x by (metis and.assoc)
  show "(SATP_MODE_SV39 OR x) AND SATP_PPN = x" unfolding p using x by (simp add: bit.conj_disj_distrib2 SATP_MODE_SV39_def mask_eq_exp_minus_1)
  show "(SATP_MODE_SV39 OR x) AND SATP_MODE = SATP_MODE_SV39" "(SATP_MODE_SV39 OR x) AND SATP_ASID = 0"
    using k [of SATP_MODE] k [of SATP_ASID] by (simp_all add: bit.conj_disj_distrib2 csr_defs mask_eq_exp_minus_1)
qed

text \<open>
  C28: \<^verbatim>\<open>satp\<close> names the root page table. The value that \<^verbatim>\<open>arch_init_task\<close> leaves in the frame of a task selects three-level
  translation with address space 0, and its page number is the one of the root page table: the hardware walks the table that the
  kernel keeps for the task.
\<close>

theorem satp_names_root:
  assumes "arch_init_task task payload s = Some s'" "mapped_page (t_root_page_table (tasks s task))"
    and "satp = t_frame (tasks s' task) REG_SATP"
  shows "as_map (push_bit PAGE_SIZE_BIT (satp AND SATP_PPN)) = t_root_page_table (tasks s task) \<and>
    satp AND SATP_MODE = SATP_MODE_SV39 \<and> satp AND SATP_ASID = 0"
proof -
  let ?r = "t_root_page_table (tasks s task)" let ?x = "drop_bit 12 (as_phys ?r)"
  have r: "unat (as_phys ?r) < 2 ^ 36" "4096 dvd unat (as_phys ?r)" using assms(2) by (simp_all add: mapped_page_def)
  have "unat ?x < 2 ^ 44" using r(1) by (simp add: unat_drop_bit)
  then have t: "take_bit 44 ?x = ?x" by (intro word_unatI) (simp add: unsigned_take_bit_eq take_bit_nat_eq_self)
  have "unat (push_bit 12 ?x) = unat (as_phys ?r)" using r by (simp add: push_bit_eq_mult unat_word_ariths unat_drop_bit)
  then have "push_bit 12 ?x = as_phys ?r" by (rule word_unatI)
  moreover have "satp = SATP_MODE_SV39 OR ?x" using assms(1,3) by (auto simp: arch_init_task_def bind_Some_iff)
  ultimately show ?thesis using satp_parts [OF t] by simp
qed

theorem satp_names_root_witness:
  "\<exists>s'. arch_init_task 0x2000004000 return_to_user_mode (zero_state\<lparr>tasks := (\<lambda>_. zero_task\<lparr>t_root_page_table := 0x2000010000\<rparr>)\<rparr>) = Some s' \<and>
     as_map (push_bit 12 (t_frame (tasks s' 0x2000004000) REG_SATP AND SATP_PPN)) = 0x2000010000"
proof -
  let ?s = "zero_state\<lparr>tasks := (\<lambda>_. zero_task\<lparr>t_root_page_table := 0x2000010000\<rparr>)\<rparr>"
  obtain s' where s': "arch_init_task 0x2000004000 return_to_user_mode ?s = Some s'" by (simp add: arch_init_task_def)
  from satp_names_root [OF this _ refl] s' show ?thesis by (simp add: mapped_page_def as_phys_def config_defs)
qed

end
