(* ===== verification/Trap_Entry.thy ===== *)
theory Trap_Entry
  imports Csr
begin

text \<open>
  The assembler of the kernel: entry and exit of traps (\<^verbatim>\<open>src/arch/rv64/kernel/trap.S\<close>) and the switch of
  contexts (\<^verbatim>\<open>src/arch/rv64/kernel/context.S\<close>). The instructions these files use get a small semantics over
  the registers, control registers and memory of a hart, and the routines are their instruction lists. The lemmas show
  what the rest of the development takes for granted: a trap stores the registers of the task in its frame at
  the places \<^verbatim>\<open>frame_t\<close> gives them, the return loads them from there, and a task that is switched back to
  continues where it left.
\<close>

subsection \<open>Harts\<close>

datatype csr_t = CSR_SSTATUS | CSR_SIE | CSR_STVEC | CSR_SSCRATCH | CSR_SEPC | CSR_SATP

text \<open>Memory is read and written in aligned words of 8 bytes, addressed by their first byte.\<close>

record hart_t =
  pc :: addr
  user_mode :: bool
  x_regs :: "nat \<Rightarrow> u64"
  csrs :: "csr_t \<Rightarrow> u64"
  dwords :: "addr \<Rightarrow> u64"

datatype instr =
    Ld nat u64 nat          \<comment> \<open>\<^verbatim>\<open>ld rd, off(rs)\<close>\<close>
  | Sd nat u64 nat          \<comment> \<open>\<^verbatim>\<open>sd rs2, off(rs1)\<close>\<close>
  | Csrw csr_t nat          \<comment> \<open>\<^verbatim>\<open>csrw csr, rs\<close>\<close>
  | Csrr nat csr_t          \<comment> \<open>\<^verbatim>\<open>csrr rd, csr\<close>\<close>
  | Csrrw nat csr_t nat     \<comment> \<open>\<^verbatim>\<open>csrrw rd, csr, rs\<close>\<close>
  | Mv nat nat              \<comment> \<open>\<^verbatim>\<open>mv rd, rs\<close>\<close>
  | La nat addr             \<comment> \<open>\<^verbatim>\<open>la rd, symbol\<close>\<close>
  | Addi nat nat u64        \<comment> \<open>\<^verbatim>\<open>addi rd, rs, imm\<close>\<close>
  | Sfence                  \<comment> \<open>\<^verbatim>\<open>sfence.vma zero, zero\<close>\<close>

definition set_x :: "nat \<Rightarrow> u64 \<Rightarrow> hart_t \<Rightarrow> hart_t" where
  "set_x r v h = h\<lparr>x_regs := (x_regs h)(r := v)\<rparr>"

definition set_csr :: "csr_t \<Rightarrow> u64 \<Rightarrow> hart_t \<Rightarrow> hart_t" where
  "set_csr c v h = h\<lparr>csrs := (csrs h)(c := v)\<rparr>"

definition set_dword :: "addr \<Rightarrow> u64 \<Rightarrow> hart_t \<Rightarrow> hart_t" where
  "set_dword a v h = h\<lparr>dwords := (dwords h)(a := v)\<rparr>"

lemmas hart_defs = set_x_def set_csr_def set_dword_def

fun exec1 :: "instr \<Rightarrow> hart_t \<Rightarrow> hart_t" where
  "exec1 (Ld rd off rs) h = set_x rd (dwords h (x_regs h rs + off)) h"
| "exec1 (Sd rs2 off rs1) h = set_dword (x_regs h rs1 + off) (x_regs h rs2) h"
| "exec1 (Csrw c rs) h = set_csr c (x_regs h rs) h"
| "exec1 (Csrr rd c) h = set_x rd (csrs h c) h"
| "exec1 (Csrrw rd c rs) h = set_x rd (csrs h c) (set_csr c (x_regs h rs) h)"
| "exec1 (Mv rd rs) h = set_x rd (x_regs h rs) h"
| "exec1 (La rd a) h = set_x rd a h"
| "exec1 (Addi rd rs imm) h = set_x rd (x_regs h rs + imm) h"
| "exec1 Sfence h = h"

definition exec :: "instr list \<Rightarrow> hart_t \<Rightarrow> hart_t" where
  "exec is h = fold exec1 is h"

text \<open>The names of the registers.\<close>

abbreviation (input) x_ra :: nat where "x_ra \<equiv> 1"
abbreviation (input) x_sp :: nat where "x_sp \<equiv> 2"
abbreviation (input) x_gp :: nat where "x_gp \<equiv> 3"
abbreviation (input) x_tp :: nat where "x_tp \<equiv> 4"
abbreviation (input) x_t0 :: nat where "x_t0 \<equiv> 5"
abbreviation (input) x_t1 :: nat where "x_t1 \<equiv> 6"
abbreviation (input) x_t2 :: nat where "x_t2 \<equiv> 7"
abbreviation (input) x_s0 :: nat where "x_s0 \<equiv> 8"
abbreviation (input) x_s1 :: nat where "x_s1 \<equiv> 9"
abbreviation (input) x_a0 :: nat where "x_a0 \<equiv> 10"
abbreviation (input) x_a1 :: nat where "x_a1 \<equiv> 11"
abbreviation (input) x_a2 :: nat where "x_a2 \<equiv> 12"
abbreviation (input) x_a3 :: nat where "x_a3 \<equiv> 13"
abbreviation (input) x_a4 :: nat where "x_a4 \<equiv> 14"
abbreviation (input) x_a5 :: nat where "x_a5 \<equiv> 15"
abbreviation (input) x_a6 :: nat where "x_a6 \<equiv> 16"
abbreviation (input) x_a7 :: nat where "x_a7 \<equiv> 17"
abbreviation (input) x_s2 :: nat where "x_s2 \<equiv> 18"
abbreviation (input) x_s3 :: nat where "x_s3 \<equiv> 19"
abbreviation (input) x_s4 :: nat where "x_s4 \<equiv> 20"
abbreviation (input) x_s5 :: nat where "x_s5 \<equiv> 21"
abbreviation (input) x_s6 :: nat where "x_s6 \<equiv> 22"
abbreviation (input) x_s7 :: nat where "x_s7 \<equiv> 23"
abbreviation (input) x_s8 :: nat where "x_s8 \<equiv> 24"
abbreviation (input) x_s9 :: nat where "x_s9 \<equiv> 25"
abbreviation (input) x_s10 :: nat where "x_s10 \<equiv> 26"
abbreviation (input) x_s11 :: nat where "x_s11 \<equiv> 27"
abbreviation (input) x_t3 :: nat where "x_t3 \<equiv> 28"
abbreviation (input) x_t4 :: nat where "x_t4 \<equiv> 29"
abbreviation (input) x_t5 :: nat where "x_t5 \<equiv> 30"
abbreviation (input) x_t6 :: nat where "x_t6 \<equiv> 31"

subsection \<open>Control registers\<close>

text \<open>
  The hardware's part of a trap from user mode and of \<^verbatim>\<open>sret\<close>, by the privileged architecture manual:
  the trap records where it came from and whether interrupts were on, and turns them off; \<^verbatim>\<open>sret\<close> goes back.
\<close>

definition take_trap :: "hart_t \<Rightarrow> hart_t" where
  "take_trap h = (let st = csrs h CSR_SSTATUS in
     h\<lparr>pc := csrs h CSR_STVEC, user_mode := False, csrs := (csrs h)(CSR_SEPC := pc h,
       CSR_SSTATUS := set_bit 5 (unset_bit 1 (unset_bit 8 st)) AND (if bit st 1 then - 1 else NOT SSTATUS_SPIE))\<rparr>)"

definition sret :: "hart_t \<Rightarrow> hart_t" where
  "sret h = (let st = csrs h CSR_SSTATUS in
     h\<lparr>pc := csrs h CSR_SEPC, user_mode := \<not> bit st 8, csrs := (csrs h)(
       CSR_SSTATUS := set_bit 5 (unset_bit 8 (if bit st 5 then set_bit 1 st else unset_bit 1 st)))\<rparr>)"

text \<open>The functions of \<^verbatim>\<open>trap.cpp\<close> that work on control registers.\<close>

definition enable_trap :: "hart_t \<Rightarrow> hart_t" where
  "enable_trap h = (let sie = csrs h CSR_SIE; sie = sie OR SIE_SEIE; sie = sie OR SIE_STIE; sie = sie OR SIE_SSIE
     in set_csr CSR_SIE sie h)"

definition disable_trap :: "hart_t \<Rightarrow> hart_t" where
  "disable_trap h = (let sie = csrs h CSR_SIE; sie = sie AND NOT SIE_SEIE; sie = sie AND NOT SIE_STIE;
     sie = sie AND NOT SIE_SSIE in set_csr CSR_SIE sie h)"

definition set_trap_handler :: "addr \<Rightarrow> hart_t \<Rightarrow> hart_t" where
  "set_trap_handler handler h = set_csr CSR_STVEC handler h"

definition user_sstatus :: "hart_t \<Rightarrow> hart_t" where
  "user_sstatus h = (let st = csrs h CSR_SSTATUS; st = st AND NOT SSTATUS_SIE; st = st AND NOT SSTATUS_SPP;
     st = st OR SSTATUS_SPIE in set_csr CSR_SSTATUS st h)"

subsection \<open>The routines\<close>

text \<open>\<^verbatim>\<open>_return_to_user_mode\<close> up to its \<^verbatim>\<open>sret\<close>, which enters user mode at \<^verbatim>\<open>sepc\<close>.\<close>

definition return_to_user_code :: "addr \<Rightarrow> instr list" where
  "return_to_user_code utrap =
    [Csrw CSR_SSCRATCH x_a0, Ld x_t0 248 x_a0, Ld x_t1 256 x_a0, La x_t2 utrap, Csrw CSR_SEPC x_t0,
     Csrw CSR_STVEC x_t2, Sd x_tp 264 x_a0, Sfence, Csrw CSR_SATP x_t1, Sfence, Ld x_ra 0 x_a0, Ld x_sp 8 x_a0,
     Ld x_gp 16 x_a0, Ld x_tp 24 x_a0, Ld x_t0 32 x_a0, Ld x_t1 40 x_a0, Ld x_t2 48 x_a0, Ld x_s0 56 x_a0,
     Ld x_s1 64 x_a0, Ld x_a1 80 x_a0, Ld x_a2 88 x_a0, Ld x_a3 96 x_a0, Ld x_a4 104 x_a0, Ld x_a5 112 x_a0,
     Ld x_a6 120 x_a0, Ld x_a7 128 x_a0, Ld x_s2 136 x_a0, Ld x_s3 144 x_a0, Ld x_s4 152 x_a0, Ld x_s5 160 x_a0,
     Ld x_s6 168 x_a0, Ld x_s7 176 x_a0, Ld x_s8 184 x_a0, Ld x_s9 192 x_a0, Ld x_s10 200 x_a0,
     Ld x_s11 208 x_a0, Ld x_t3 216 x_a0, Ld x_t4 224 x_a0, Ld x_t5 232 x_a0, Ld x_t6 240 x_a0, Ld x_a0 72 x_a0]"

text \<open>\<^verbatim>\<open>user_trap\<close>, entered by the hardware on a trap from user mode, up to the jump to \<^verbatim>\<open>_user_trap\<close>.\<close>

definition user_trap_code :: "addr \<Rightarrow> instr list" where
  "user_trap_code ktrap =
    [Csrrw x_a0 CSR_SSCRATCH x_a0, Sd x_ra 0 x_a0, Sd x_sp 8 x_a0, Sd x_gp 16 x_a0, Sd x_tp 24 x_a0,
     Sd x_t0 32 x_a0, Sd x_t1 40 x_a0, Sd x_t2 48 x_a0, Sd x_s0 56 x_a0, Sd x_s1 64 x_a0, Sd x_a1 80 x_a0,
     Sd x_a2 88 x_a0, Sd x_a3 96 x_a0, Sd x_a4 104 x_a0, Sd x_a5 112 x_a0, Sd x_a6 120 x_a0, Sd x_a7 128 x_a0,
     Sd x_s2 136 x_a0, Sd x_s3 144 x_a0, Sd x_s4 152 x_a0, Sd x_s5 160 x_a0, Sd x_s6 168 x_a0, Sd x_s7 176 x_a0,
     Sd x_s8 184 x_a0, Sd x_s9 192 x_a0, Sd x_s10 200 x_a0, Sd x_s11 208 x_a0, Sd x_t3 216 x_a0,
     Sd x_t4 224 x_a0, Sd x_t5 232 x_a0, Sd x_t6 240 x_a0, Csrr x_t0 CSR_SEPC, Csrr x_t1 CSR_SATP,
     Sd x_t0 248 x_a0, Sd x_t1 256 x_a0, Ld x_tp 264 x_a0, Ld x_sp 272 x_a0, Mv x_t0 x_a0,
     Csrr x_a0 CSR_SSCRATCH, Sd x_a0 72 x_t0, La x_t0 ktrap, Csrw CSR_STVEC x_t0]"

text \<open>
  \<^verbatim>\<open>kernel_trap\<close> up to the call of \<^verbatim>\<open>_kernel_trap\<close>, which panics: the restoring half behind it is never reached.
\<close>

definition kernel_trap_code :: "instr list" where
  "kernel_trap_code =
    [Addi x_sp x_sp (-256), Sd x_ra 0 x_sp, Sd x_sp 8 x_sp, Sd x_gp 16 x_sp, Sd x_tp 24 x_sp, Sd x_t0 32 x_sp,
     Sd x_t1 40 x_sp, Sd x_t2 48 x_sp, Sd x_s0 56 x_sp, Sd x_s1 64 x_sp, Sd x_a0 72 x_sp, Sd x_a1 80 x_sp,
     Sd x_a2 88 x_sp, Sd x_a3 96 x_sp, Sd x_a4 104 x_sp, Sd x_a5 112 x_sp, Sd x_a6 120 x_sp, Sd x_a7 128 x_sp,
     Sd x_s2 136 x_sp, Sd x_s3 144 x_sp, Sd x_s4 152 x_sp, Sd x_s5 160 x_sp, Sd x_s6 168 x_sp, Sd x_s7 176 x_sp,
     Sd x_s8 184 x_sp, Sd x_s9 192 x_sp, Sd x_s10 200 x_sp, Sd x_s11 208 x_sp, Sd x_t3 216 x_sp,
     Sd x_t4 224 x_sp, Sd x_t5 232 x_sp, Sd x_t6 240 x_sp]"

text \<open>\<^verbatim>\<open>_switch_context\<close> stores to the old context and runs on into \<^verbatim>\<open>_load_context\<close>.\<close>

definition load_context_code :: "instr list" where
  "load_context_code =
    [Ld x_ra 0 x_a0, Ld x_sp 8 x_a0, Ld x_s0 16 x_a0, Ld x_s1 24 x_a0, Ld x_s2 32 x_a0, Ld x_s3 40 x_a0,
     Ld x_s4 48 x_a0, Ld x_s5 56 x_a0, Ld x_s6 64 x_a0, Ld x_s7 72 x_a0, Ld x_s8 80 x_a0, Ld x_s9 88 x_a0,
     Ld x_s10 96 x_a0, Ld x_s11 104 x_a0]"

definition save_context_code :: "instr list" where
  "save_context_code =
    [Sd x_ra 0 x_a1, Sd x_sp 8 x_a1, Sd x_s0 16 x_a1, Sd x_s1 24 x_a1, Sd x_s2 32 x_a1, Sd x_s3 40 x_a1,
     Sd x_s4 48 x_a1, Sd x_s5 56 x_a1, Sd x_s6 64 x_a1, Sd x_s7 72 x_a1, Sd x_s8 80 x_a1, Sd x_s9 88 x_a1,
     Sd x_s10 96 x_a1, Sd x_s11 104 x_a1]"

definition switch_context_code :: "instr list" where
  "switch_context_code = save_context_code @ load_context_code"

text \<open>
  The end of \<^verbatim>\<open>return_to_user_mode\<close>: the status, and the frame of the current task handed to
  \<^verbatim>\<open>_return_to_user_mode\<close> in a0. The frame's stack word is set by \<open>return_to_user\<close> in the model of the kernel.
\<close>

definition return_to_user_hart :: "addr \<Rightarrow> addr \<Rightarrow> hart_t \<Rightarrow> hart_t" where
  "return_to_user_hart utrap frame h = sret (exec (return_to_user_code utrap) (set_x x_a0 frame (user_sstatus h)))"

definition enter_trap :: "addr \<Rightarrow> hart_t \<Rightarrow> hart_t" where
  "enter_trap ktrap h = exec (user_trap_code ktrap) (take_trap h)"

subsection \<open>Frames\<close>

definition frame_word :: "hart_t \<Rightarrow> addr \<Rightarrow> nat \<Rightarrow> u64" where
  "frame_word h frame i = dwords h (frame + 8 * of_nat i)"

definition REG_HARTID :: nat where "REG_HARTID = 33"

lemmas exec_defs = exec_def user_trap_code_def return_to_user_code_def hart_defs frame_word_def

text \<open>The registers x1 to x31.\<close>

definition user_regs :: "nat list" where
  "user_regs = [1, 2, 3, 4, 5, 6, 7, 8, 9, 10, 11, 12, 13, 14, 15, 16, 17, 18, 19, 20, 21, 22, 23, 24, 25, 26, 27, 28, 29, 30, 31]"

lemma user_regs_all: "list_all P user_regs \<longleftrightarrow> (\<forall>r. 1 \<le> r \<and> r \<le> 31 \<longrightarrow> P r)"
proof -
  have "user_regs = [1..<32]" by code_simp
  then have "set user_regs = {1..<32}" by (metis set_upt)
  then show ?thesis by (auto simp: list_all_iff)
qed

text \<open>The state of the hart behind the trap entry, in closed form: the registers x1 to x31 are in the frame in order.\<close>

lemma enter_trap_regs:
  assumes "csrs h CSR_SSCRATCH = frame"
  shows "list_all (\<lambda>r. frame_word (enter_trap ktrap h) frame (r - 1) = x_regs h r) user_regs"
  by (simp add: user_regs_def enter_trap_def take_trap_def exec_defs assms)

lemma enter_trap_rest:
  assumes "csrs h CSR_SSCRATCH = frame"
  shows "frame_word (enter_trap ktrap h) frame REG_SEPC = pc h"
    "frame_word (enter_trap ktrap h) frame REG_SATP = csrs h CSR_SATP"
    "x_regs (enter_trap ktrap h) x_tp = frame_word h frame REG_HARTID"
    "x_regs (enter_trap ktrap h) x_sp = frame_word h frame REG_STACK"
    "csrs (enter_trap ktrap h) CSR_STVEC = ktrap"
    "user_mode (enter_trap ktrap h) = False"
  by (simp_all add: enter_trap_def take_trap_def exec_defs assms REG_SEPC_def REG_SATP_def REG_HARTID_def REG_STACK_def)

lemma return_regs:
  "list_all (\<lambda>r. x_regs (return_to_user_hart utrap frame h) r = frame_word h frame (r - 1)) user_regs"
  by (simp add: user_regs_def return_to_user_hart_def sret_def user_sstatus_def exec_defs)

lemma return_rest:
  "pc (return_to_user_hart utrap frame h) = frame_word h frame REG_SEPC"
  "csrs (return_to_user_hart utrap frame h) CSR_SATP = frame_word h frame REG_SATP"
  "csrs (return_to_user_hart utrap frame h) CSR_SSCRATCH = frame"
  "csrs (return_to_user_hart utrap frame h) CSR_STVEC = utrap"
  "frame_word (return_to_user_hart utrap frame h) frame REG_HARTID = x_regs h x_tp"
  by (simp_all add: return_to_user_hart_def sret_def user_sstatus_def exec_defs
      REG_SEPC_def REG_SATP_def REG_HARTID_def)

text \<open>Enabling traps turns the three sources of interrupts on, disabling turns exactly these off again.\<close>

definition SIE_MASK :: u64 where "SIE_MASK = SIE_SEIE OR SIE_STIE OR SIE_SSIE"

lemma enable_disable_trap:
  "csrs (enable_trap h) CSR_SIE = csrs h CSR_SIE OR SIE_MASK"
  "csrs (disable_trap h) CSR_SIE = csrs h CSR_SIE AND NOT SIE_MASK"
  "csrs (disable_trap (enable_trap h)) CSR_SIE = csrs h CSR_SIE AND NOT SIE_MASK"
  by (rule bit_eqI; auto simp: enable_trap_def disable_trap_def set_csr_def SIE_MASK_def bit_or_iff bit_and_iff bit_not_iff)+

lemma return_mode:
  "user_mode (return_to_user_hart utrap frame h)" "bit (csrs (return_to_user_hart utrap frame h) CSR_SSTATUS) 1"
proof -
  define g where "g = exec (return_to_user_code utrap) (set_x x_a0 frame (user_sstatus h))"
  have "csrs g CSR_SSTATUS = ((csrs h CSR_SSTATUS AND NOT SSTATUS_SIE) AND NOT SSTATUS_SPP) OR SSTATUS_SPIE"
    by (simp add: g_def user_sstatus_def exec_defs)
  then have "\<not> bit (csrs g CSR_SSTATUS) 8" "bit (csrs g CSR_SSTATUS) 5"
    by (simp_all add: SSTATUS_SIE_def SSTATUS_SPP_def SSTATUS_SPIE_def bit_or_iff bit_and_iff bit_not_iff bit_push_bit_iff)
  then show "user_mode (return_to_user_hart utrap frame h)" "bit (csrs (return_to_user_hart utrap frame h) CSR_SSTATUS) 1"
    unfolding return_to_user_hart_def g_def [symmetric]
    by (simp_all add: sret_def bit_set_bit_iff bit_unset_bit_iff)
qed

text \<open>
  C5: a task does not notice a trap. A trap from user mode stores the task's program counter, registers and address
  space in its frame, and the kernel runs on with the core id and the kernel stack from the frame and its own trap
  vector. Whatever the kernel then does, a return with the frame in that state continues the task in user mode at the
  same place with all its registers and its address space, with interrupts on and ready for the next trap.
\<close>

theorem trap_return_transparent:
  assumes "csrs h CSR_SSCRATCH = frame" "h1 = enter_trap ktrap h"
    and "\<forall>i \<le> REG_SATP. frame_word k frame i = frame_word h1 frame i" "h2 = return_to_user_hart utrap frame k"
  shows "(x_regs h1 x_tp = frame_word h frame REG_HARTID \<and> x_regs h1 x_sp = frame_word h frame REG_STACK \<and>
      csrs h1 CSR_STVEC = ktrap \<and> \<not> user_mode h1) \<and>
    (user_mode h2 \<and> pc h2 = pc h \<and> list_all (\<lambda>r. x_regs h2 r = x_regs h r) user_regs \<and> csrs h2 CSR_SATP = csrs h CSR_SATP \<and>
      csrs h2 CSR_SSCRATCH = frame \<and> csrs h2 CSR_STVEC = utrap \<and> bit (csrs h2 CSR_SSTATUS) 1 \<and>
      frame_word h2 frame REG_HARTID = x_regs k x_tp)"
proof -
  have "list_all (\<lambda>r. x_regs h2 r = x_regs h r) user_regs"
    using enter_trap_regs [OF assms(1), of ktrap] return_regs [of utrap frame k] assms(2-4)
    by (fastforce simp: user_regs_all REG_SATP_def)
  then show ?thesis
    using enter_trap_rest [OF assms(1), of ktrap] return_rest [of utrap frame k] return_mode [of utrap frame k] assms(2-4)
    by (simp add: REG_SATP_def REG_SEPC_def)
qed

definition demo_hart :: hart_t where
  "demo_hart = \<lparr>pc = 0x1000, user_mode = True, x_regs = (\<lambda>r. 0x100 + of_nat r),
     csrs = (\<lambda>c. if c = CSR_SSCRATCH then 0x2000004070 else 0), dwords = (\<lambda>a. a)\<rparr>"

theorem trap_return_transparent_witness:
  "x_regs (return_to_user_hart 0x80 0x2000004070 (enter_trap 0x40 demo_hart)) 17 = 0x111 \<and>
   pc (return_to_user_hart 0x80 0x2000004070 (enter_trap 0x40 demo_hart)) = 0x1000"
proof -
  have s: "csrs demo_hart CSR_SSCRATCH = 0x2000004070" by (simp add: demo_hart_def)
  have "list_all (\<lambda>r. x_regs (return_to_user_hart 0x80 0x2000004070 (enter_trap 0x40 demo_hart)) r = x_regs demo_hart r) user_regs"
    "pc (return_to_user_hart 0x80 0x2000004070 (enter_trap 0x40 demo_hart)) = pc demo_hart"
    using trap_return_transparent [OF s refl _ refl, of "enter_trap 0x40 demo_hart" "0x40" "0x80"] by simp_all
  then show ?thesis by (simp add: user_regs_all demo_hart_def)
qed

subsection \<open>Contexts\<close>

text \<open>The registers a function has to keep, in the order of \<^verbatim>\<open>context_t\<close>: ra, sp and s0 to s11.\<close>

definition context_regs :: "nat list" where
  "context_regs = [1, 2, 8, 9, 18, 19, 20, 21, 22, 23, 24, 25, 26, 27]"

definition context_words :: "hart_t \<Rightarrow> addr \<Rightarrow> u64 list" where
  "context_words h c = map (\<lambda>i. dwords h (c + 8 * of_nat i)) [0, 1, 2, 3, 4, 5, 6, 7, 8, 9, 10, 11, 12, 13]"

lemma load_context_regs:
  "map (x_regs (exec load_context_code h)) context_regs = context_words h (x_regs h x_a0)"
  by (simp add: exec_def load_context_code_def hart_defs context_regs_def context_words_def)

lemma save_context_words:
  "context_words (exec save_context_code h) (x_regs h x_a1) = map (x_regs h) context_regs"
  by (simp add: exec_def save_context_code_def hart_defs context_regs_def context_words_def)

lemma save_context_x: "x_regs (exec save_context_code h) = x_regs h"
  by (simp add: exec_def save_context_code_def hart_defs)

lemma load_context_mem: "dwords (exec load_context_code h) = dwords h"
  by (simp add: exec_def load_context_code_def hart_defs)

lemma switch_context_exec: "exec switch_context_code h = exec load_context_code (exec save_context_code h)"
  by (simp add: exec_def switch_context_code_def)

text \<open>
  C27: switching contexts and back. \<^verbatim>\<open>_switch_context\<close> leaves in the old context the registers a call has to
  keep, among them the return address and the stack pointer. When another task later switches to this context, and
  the context still is as it was left, that switch returns to the old task with these registers as they were: to the old
  task it is an ordinary call that returned.
\<close>

theorem switch_context_back:
  assumes "x_regs h x_a1 = c" "h1 = exec switch_context_code h" "x_regs k x_a0 = c"
    and "context_words (exec save_context_code k) c = context_words h1 c"
  shows "map (x_regs (exec switch_context_code k)) context_regs = map (x_regs h) context_regs"
proof -
  have "context_words h1 c = map (x_regs h) context_regs"
    using save_context_words [of h] assms(1,2) load_context_mem by (simp add: switch_context_exec context_words_def)
  with assms(3,4) show ?thesis
    using load_context_regs [of "exec save_context_code k"] by (simp add: switch_context_exec save_context_x)
qed

theorem switch_context_back_witness:
  "\<exists>k. map (x_regs (exec switch_context_code k)) context_regs = map (x_regs demo_hart) context_regs"
proof -
  let ?h1 = "exec switch_context_code demo_hart"
  let ?k = "set_x x_a1 0x2000009000 (set_x x_a0 0x10B ?h1)"
  have a1: "x_regs demo_hart x_a1 = 0x10B" by (simp add: demo_hart_def)
  have "context_words (exec save_context_code k) 0x10B = context_words k 0x10B" if "x_regs k x_a1 = 0x2000009000" for k
    using that by (simp add: exec_def save_context_code_def context_words_def hart_defs)
  from this [of ?k] have "context_words (exec save_context_code ?k) 0x10B = context_words ?h1 0x10B"
    by (simp add: set_x_def context_words_def)
  then show ?thesis using switch_context_back [OF a1 refl, of ?k] by (intro exI [of _ ?k]) (simp add: hart_defs)
qed

subsection \<open>A system call as the task sees it\<close>

definition frame_matches :: "hart_t \<Rightarrow> addr \<Rightarrow> frame_t \<Rightarrow> bool" where
  "frame_matches h frame f \<longleftrightarrow> (\<forall>i < 35. frame_word h frame i = f i)"

lemma frame_matches_reg: "frame_matches h frame f \<Longrightarrow> i < 35 \<Longrightarrow> frame_word h frame i = f i"
  by (simp add: frame_matches_def)

lemma trap_arguments:
  assumes "csrs h CSR_SSCRATCH = frame" "frame_matches (enter_trap ktrap h) frame (t_frame (tasks s (current_task s)))" "i < 7"
  shows "fst (get_syscall_args s) i = x_regs h (10 + i)" "snd (get_syscall_args s) = x_regs h 17"
proof -
  have "frame_word (enter_trap ktrap h) frame (r - 1) = x_regs h r" if "1 \<le> r" "r \<le> 31" for r
    using enter_trap_regs [OF assms(1), of ktrap] that by (simp add: user_regs_all)
  from this [of "10 + i"] this [of 17] frame_matches_reg [OF assms(2), of "9 + i"] frame_matches_reg [OF assms(2), of 16] assms(3)
  show "fst (get_syscall_args s) i = x_regs h (10 + i)" "snd (get_syscall_args s) = x_regs h 17"
    by (simp_all add: get_syscall_args_def REG_A0_def REG_A7_def)
qed

lemma user_trap_frame:
  assumes "invoke_syscall abi s = Done ret s1" "user_trap abi SCAUSE_ENVIRONMENT_CALL_FROM_U_MODE s = Done () s'"
  shows "t_frame (tasks s' (current_task s1)) = (t_frame (tasks s1 (current_task s1)))(REG_A0 := sys_result ret,
      REG_A1 := errno_code abi (sys_error ret), REG_SEPC := t_frame (tasks s1 (current_task s1)) REG_SEPC + 4,
      REG_STACK := current_task s1 + PAGE_SIZE)"
  using assms by (auto simp: user_trap_def user_trap_call_def csr_defs rassert_def return_to_user_def
      REG_A0_def REG_A1_def REG_SEPC_def REG_STACK_def)

text \<open>
  C4: a system call as the task sees it. The task executes an environment call with the code in a7 and the arguments from a0 on. The
  trap entry stores its registers in the frame from which the kernel reads code and arguments. When the handler is done and
  the task is current, the return gives it the result in a0 and the error in a1, behind the call, and every other register
  as it was, if the handler did not write to the frame itself.
\<close>

theorem syscall_round_trip:
  assumes h: "csrs h CSR_SSCRATCH = frame" "h1 = enter_trap ktrap h" "frame_matches h1 frame (t_frame (tasks s (current_task s)))"
    and call: "invoke_syscall abi s = Done ret s1" "current_task s1 = current_task s"
      "t_frame (tasks s1 (current_task s)) = t_frame (tasks s (current_task s))"
    and out: "user_trap abi SCAUSE_ENVIRONMENT_CALL_FROM_U_MODE s = Done () s'"
      "frame_matches k frame (t_frame (tasks s' (current_task s)))" "h2 = return_to_user_hart utrap frame k"
  shows "(\<forall>i < 7. fst (get_syscall_args s) i = x_regs h (10 + i)) \<and> snd (get_syscall_args s) = x_regs h 17 \<and>
    user_mode h2 \<and> pc h2 = pc h + 4 \<and> x_regs h2 10 = sys_result ret \<and> x_regs h2 11 = errno_code abi (sys_error ret) \<and>
    (\<forall>r. 1 \<le> r \<and> r \<le> 31 \<and> r \<noteq> 10 \<and> r \<noteq> 11 \<longrightarrow> x_regs h2 r = x_regs h r)"
proof -
  note f = user_trap_frame [OF call(1) out(1), unfolded call(2,3)]
  have save: "frame_word h1 frame (r - 1) = x_regs h r" if "1 \<le> r" "r \<le> 31" for r
    using enter_trap_regs [OF h(1), of ktrap] that h(2) by (simp add: user_regs_all)
  have load: "x_regs h2 r = frame_word k frame (r - 1)" if "1 \<le> r" "r \<le> 31" for r
    using return_regs [of utrap frame k] that out(3) by (simp add: user_regs_all)
  have word: "frame_word k frame i = t_frame (tasks s' (current_task s)) i"
      "frame_word h1 frame i = t_frame (tasks s (current_task s)) i" if "i < 35" for i
    using that frame_matches_reg [OF out(2)] frame_matches_reg [OF h(3)] by auto
  note regs = REG_A0_def REG_A1_def REG_SEPC_def REG_STACK_def
  have a: "x_regs h2 10 = sys_result ret" "x_regs h2 11 = errno_code abi (sys_error ret)"
    using load [of 10] load [of 11] word [of 9] word [of 10] f by (simp_all add: regs)
  have p: "pc h2 = pc h + 4" using return_rest(1) [of utrap frame k] enter_trap_rest(1) [OF h(1), of ktrap] word [of 31] f h(2) out(3)
    by (simp add: regs)
  have o: "x_regs h2 r = x_regs h r" if r: "1 \<le> r" "r \<le> 31" "r \<noteq> 10" "r \<noteq> 11" for r
  proof -
    have "r - 1 \<noteq> 9" "r - 1 \<noteq> 10" "r - 1 < 31" using r by linarith+
    then show ?thesis using load [OF r(1,2)] save [OF r(1,2)] word [of "r - 1"] f by (simp add: regs)
  qed
  have m: "frame_matches (enter_trap ktrap h) frame (t_frame (tasks s (current_task s)))" using h(2,3) by simp
  show ?thesis using trap_arguments(1) [OF h(1) m] trap_arguments(2) [OF h(1) m, of 0] a p o return_mode(1) [of utrap frame k] out(3) by simp
qed

text \<open>A call with a code that is in no table, by a task whose frame is at 0x2000004070.\<close>

theorem syscall_round_trip_witness:
  "\<exists>s s' k. user_trap demo_sys_abi SCAUSE_ENVIRONMENT_CALL_FROM_U_MODE s = Done () s' \<and>
     frame_matches k 0x2000004070 (t_frame (tasks s' (current_task s))) \<and>
     pc (return_to_user_hart 0x80 0x2000004070 k) = 0x1004 \<and>
     x_regs (return_to_user_hart 0x80 0x2000004070 k) 11 = 1 \<and> x_regs (return_to_user_hart 0x80 0x2000004070 k) 12 = 0x10C"
proof -
  let ?f = "0x2000004070" and ?h1 = "enter_trap 0x40 demo_hart"
  let ?s = "zero_state\<lparr>current_task := 0x2000004000, tasks := (\<lambda>_. zero_task\<lparr>t_frame := frame_word ?h1 0x2000004070\<rparr>)\<rparr>"
  have sc: "csrs demo_hart CSR_SSCRATCH = ?f" by (simp add: demo_hart_def)
  have m: "frame_matches ?h1 ?f (t_frame (tasks ?s (current_task ?s)))" by (simp add: frame_matches_def)
  have "snd (get_syscall_args ?s) = 0x111" using trap_arguments(2) [OF sc m, of 0] by (simp add: demo_hart_def)
  then have call: "invoke_syscall demo_sys_abi ?s = Done (sysret_e SYS_E_ILL_CODE) ?s"
    by (simp add: invoke_syscall_def case_prod_beta demo_sys_abi_def ret_error_def)
  then obtain s' where s': "user_trap demo_sys_abi SCAUSE_ENVIRONMENT_CALL_FROM_U_MODE ?s = Done () s'"
    by (simp add: user_trap_def user_trap_call_def csr_defs rassert_def)
  define k where "k = demo_hart\<lparr>dwords := (\<lambda>a. t_frame (tasks s' (current_task ?s)) (unat ((a - ?f) div 8)))\<rparr>"
  have "frame_matches k ?f (t_frame (tasks s' (current_task ?s)))"
  proof -
    have "unat (8 * of_nat i div 8 :: u64) = i" if "i < 35" for i
    proof -
      have "unat (8 * of_nat i :: u64) = 8 * i" using that by (simp add: unat_word_ariths unat_of_nat_u64)
      then show ?thesis by (simp add: unat_div)
    qed
    then show ?thesis by (simp add: frame_matches_def frame_word_def k_def)
  qed
  with syscall_round_trip [OF sc refl m call refl refl s' this refl, of "0x80"] s' show ?thesis
    by (intro exI [of _ ?s] exI [of _ s'] exI [of _ k])
      (simp add: sysret_e_def demo_sys_abi_def demo_hart_def)
qed

end
