(* ===== verification/Core_Storage.thy ===== *)
theory Core_Storage
  imports Trap_Entry Boot_Root
begin

text \<open>
  The core id (\<^verbatim>\<open>src/arch/rv64/kernel/core_id.cpp\<close>), kept in the register tp, and the storage that each core finds by it
  (\<^verbatim>\<open>include/kernel/cls.h\<close>, \<^verbatim>\<open>src/kernel/cls.cpp\<close>). The rest of the development has the current task as a field of its
  state; here the field is found: tp survives the execution of a task, and different cores get different storage.
\<close>

subsection \<open>Core ids\<close>

definition set_core_id :: "u64 \<Rightarrow> hart_t \<Rightarrow> hart_t" where
  "set_core_id c h = set_x x_tp c h"

definition get_core_id :: "hart_t \<Rightarrow> u64" where
  "get_core_id h = x_regs h x_tp"

lemma get_set_core_id [simp]: "get_core_id (set_core_id c h) = c"
  by (simp add: get_core_id_def set_core_id_def set_x_def)

text \<open>
  What \<^verbatim>\<open>setup\<close> of \<^verbatim>\<open>src/kernel/start.cpp\<close> does to the registers before anything else: the core id of the boot
  information and the trap vector of the boot phase.
\<close>

definition setup_early_trap :: "addr \<Rightarrow> hart_t \<Rightarrow> hart_t" where
  "setup_early_trap early_trap_handler h = set_trap_handler early_trap_handler h"

definition setup_hart :: "addr \<Rightarrow> boot_info_t \<Rightarrow> hart_t \<Rightarrow> hart_t" where
  "setup_hart early_trap_handler b h = setup_early_trap early_trap_handler (set_core_id (b_core_id b) h)"

lemma setup_hart_registers:
  "get_core_id (setup_hart early b h) = b_core_id b" "csrs (setup_hart early b h) CSR_STVEC = early"
  by (simp_all add: setup_hart_def setup_early_trap_def set_trap_handler_def set_core_id_def get_core_id_def set_x_def set_csr_def)

subsection \<open>Storage\<close>

text \<open>
  The offsets of the members; the structure is aligned to pages, so that its size is three pages.
\<close>

definition CONFIG_MAX_CORES :: nat where "CONFIG_MAX_CORES = 32"

record core_local_storage_t =
  idle_task_root_page_table :: addr
  idle_task_region :: addr
  idle_task_member :: addr
  current_task_member :: addr
  errno_member :: addr

definition core_local_storage :: "boot_objects \<Rightarrow> hart_t \<Rightarrow> core_local_storage_t" where
  "core_local_storage objs h = (let cls = get_cls objs (get_core_id h) in
     \<lparr>idle_task_root_page_table = cls, idle_task_region = cls + PAGE_SIZE, idle_task_member = cls + 2 * PAGE_SIZE,
      current_task_member = cls + 2 * PAGE_SIZE + 8, errno_member = cls + 2 * PAGE_SIZE + 16\<rparr>)"

text \<open>The address behind \<^verbatim>\<open>errno\<close>.\<close>

definition errno_location :: "boot_objects \<Rightarrow> hart_t \<Rightarrow> addr" where
  "errno_location objs h = errno_member (core_local_storage objs h)"

lemma unat_get_cls:
  assumes "unat (o_core_local_storages objs) + 12288 * CONFIG_MAX_CORES \<le> 2 ^ 64" "unat c < CONFIG_MAX_CORES"
  shows "unat (get_cls objs c) = unat (o_core_local_storages objs) + 12288 * unat c"
proof -
  have "12288 * unat c + 12288 \<le> 12288 * CONFIG_MAX_CORES" using assms(2) by simp
  with assms(1) have "unat (o_core_local_storages objs) + 12288 * unat c < 2 ^ 64" by linarith
  then show ?thesis by (simp add: get_cls_def unat_word_ariths)
qed

text \<open>
  A core keeps its storage. A task runs with tp of its own; when it traps, tp holds the core id again that the kernel had when it
  entered the task, as long as that word of the frame was not written to, so the kernel finds the same storage. The storages of
  different cores are disjoint and inside the array, for core ids below the configured number of cores. Nothing in the
  code keeps a larger id, which is the hart id of the machine, from being used.
\<close>

theorem core_storage_private:
  assumes "h2 = return_to_user_hart utrap frame k" "csrs u CSR_SSCRATCH = frame"
    and "frame_word u frame REG_HARTID = frame_word h2 frame REG_HARTID"
    and "unat (o_core_local_storages objs) + 12288 * CONFIG_MAX_CORES \<le> 2 ^ 64"
    and "unat (get_core_id k) < CONFIG_MAX_CORES" "unat d < CONFIG_MAX_CORES" "d \<noteq> get_core_id k"
  shows "core_local_storage objs (enter_trap ktrap u) = core_local_storage objs k \<and>
    (unat (get_cls objs (get_core_id k)) + 12288 \<le> unat (get_cls objs d) \<or>
     unat (get_cls objs d) + 12288 \<le> unat (get_cls objs (get_core_id k))) \<and>
    unat (get_cls objs d) + 12288 \<le> unat (o_core_local_storages objs) + 12288 * CONFIG_MAX_CORES"
proof -
  have "get_core_id (enter_trap ktrap u) = get_core_id k"
    using enter_trap_rest(3) [OF assms(2), of ktrap] return_rest(5) [of utrap frame k] assms(1,3) by (simp add: get_core_id_def)
  then have "core_local_storage objs (enter_trap ktrap u) = core_local_storage objs k" by (simp add: core_local_storage_def)
  moreover have "unat d \<noteq> unat (get_core_id k)" using assms(7) word_unatI by blast
  ultimately show ?thesis using unat_get_cls [OF assms(4,5)] unat_get_cls [OF assms(4,6)] assms(6) by linarith
qed

theorem core_storage_private_witness:
  "\<exists>objs. unat (get_cls objs 1) + 12288 \<le> unat (get_cls objs 0) \<or> unat (get_cls objs 0) + 12288 \<le> unat (get_cls objs 1)"
proof -
  define objs :: boot_objects where "objs = \<lparr>o_root_task = 0, o_cap_spaces = 0, o_root_page_table = 0, o_payload_page_tables = 0,
    o_stack_page_tables = 0, o_cap_space_page_tables = 0, o_core_local_storages = 0x80300000\<rparr>"
  then have objs: "o_core_local_storages objs = 0x80300000" by simp
  let ?k = "set_core_id 1 demo_hart" and ?f = "0x2000004070"
  let ?u = "set_csr CSR_SSCRATCH ?f (return_to_user_hart 0x80 ?f ?k)"
  have "unat (get_cls objs (get_core_id ?k)) + 12288 \<le> unat (get_cls objs 0) \<or> unat (get_cls objs 0) + 12288 \<le> unat (get_cls objs (get_core_id ?k))"
    using core_storage_private [OF refl, of ?u ?f "0x80" ?k objs 0]
    by (simp add: objs CONFIG_MAX_CORES_def set_csr_def frame_word_def)
  then show ?thesis by auto
qed

end
