(* ===== verification/Logging.thy ===== *)
theory Logging
  imports Task_Init
begin

text \<open>
  Log messages and the register dump: \<^verbatim>\<open>include/kernel/log.h\<close>, \<^verbatim>\<open>src/kernel/log.cpp\<close>,
  \<^verbatim>\<open>src/arch/rv64/kernel/dump.cpp\<close> and the names of the task states in \<^verbatim>\<open>include/kernel/task.h\<close>. The
  formatting of \<^verbatim>\<open>printf\<close> belongs to the C library and is a parameter, as are the switches of the build. A
  function of the source that prints is a function to the characters it prints.
\<close>

subsection \<open>Names of states\<close>

definition task_state_to_str :: "task_state_t \<Rightarrow> string" where
  "task_state_to_str state = (case state of unused \<Rightarrow> ''unused'' | running \<Rightarrow> ''running'' | ready \<Rightarrow> ''ready''
     | waiting \<Rightarrow> ''waiting'' | suspended \<Rightarrow> ''suspended'' | killed \<Rightarrow> ''killed'')"

definition ipc_state_to_str :: "ipc_state_t \<Rightarrow> string" where
  "ipc_state_to_str state = (case state of ipc_none \<Rightarrow> ''none'' | sending \<Rightarrow> ''sending'' | receiving \<Rightarrow> ''receiving''
     | calling \<Rightarrow> ''calling'' | canceled \<Rightarrow> ''canceled'')"

definition task_state_code :: "task_state_t \<Rightarrow> u64" where
  "task_state_code state = (case state of unused \<Rightarrow> 0 | running \<Rightarrow> 1 | ready \<Rightarrow> 2 | waiting \<Rightarrow> 3 | suspended \<Rightarrow> 4 | killed \<Rightarrow> 5)"

definition ipc_state_code :: "ipc_state_t \<Rightarrow> u64" where
  "ipc_state_code state = (case state of ipc_none \<Rightarrow> 0 | sending \<Rightarrow> 1 | receiving \<Rightarrow> 2 | calling \<Rightarrow> 3 | canceled \<Rightarrow> 4)"

subsection \<open>Messages\<close>

datatype log_level_t = LOG_DEBUG | LOG_INFO | LOG_WARNING | LOG_ERROR | LOG_FATAL

datatype printf_arg = PWord u64 | PTid tid_t | PStr string

record log_config =
  CONFIG_ANSI_ESC_SEQ :: bool
  CONFIG_LOG :: "log_level_t \<Rightarrow> bool"
  printf :: "string \<Rightarrow> printf_arg list \<Rightarrow> string"

text \<open>The escape sequences of the terminal, empty when they are not configured.\<close>

definition term_seq :: "log_config \<Rightarrow> string \<Rightarrow> string" where
  "term_seq cfg code = (if CONFIG_ANSI_ESC_SEQ cfg then CHR 0x1B # ''['' @ code @ ''m'' else [])"

definition TERM_COLOR_BLACK :: "log_config \<Rightarrow> string" where "TERM_COLOR_BLACK cfg = term_seq cfg ''30''"
definition TERM_COLOR_RED :: "log_config \<Rightarrow> string" where "TERM_COLOR_RED cfg = term_seq cfg ''31''"
definition TERM_COLOR_GREEN :: "log_config \<Rightarrow> string" where "TERM_COLOR_GREEN cfg = term_seq cfg ''32''"
definition TERM_COLOR_YELLOW :: "log_config \<Rightarrow> string" where "TERM_COLOR_YELLOW cfg = term_seq cfg ''33''"
definition TERM_COLOR_BLUE :: "log_config \<Rightarrow> string" where "TERM_COLOR_BLUE cfg = term_seq cfg ''34''"
definition TERM_COLOR_MAGENTA :: "log_config \<Rightarrow> string" where "TERM_COLOR_MAGENTA cfg = term_seq cfg ''35''"
definition TERM_COLOR_CYAN :: "log_config \<Rightarrow> string" where "TERM_COLOR_CYAN cfg = term_seq cfg ''36''"
definition TERM_COLOR_WHITE :: "log_config \<Rightarrow> string" where "TERM_COLOR_WHITE cfg = term_seq cfg ''37''"
definition TERM_STYLE_BOLD :: "log_config \<Rightarrow> string" where "TERM_STYLE_BOLD cfg = term_seq cfg ''1''"
definition TERM_STYLE_ITALIC :: "log_config \<Rightarrow> string" where "TERM_STYLE_ITALIC cfg = term_seq cfg ''3''"
definition TERM_STYLE_UNDERLINE :: "log_config \<Rightarrow> string" where "TERM_STYLE_UNDERLINE cfg = term_seq cfg ''4''"
definition TERM_RESET :: "log_config \<Rightarrow> string" where "TERM_RESET cfg = term_seq cfg ''0''"

definition level_str :: "log_config \<Rightarrow> log_level_t \<Rightarrow> string" where
  "level_str cfg level = (case level of
       LOG_DEBUG \<Rightarrow> TERM_COLOR_CYAN cfg @ ''[DEBUG] '' @ TERM_RESET cfg
     | LOG_INFO \<Rightarrow> TERM_COLOR_GREEN cfg @ ''[INFO]  '' @ TERM_RESET cfg
     | LOG_WARNING \<Rightarrow> TERM_COLOR_YELLOW cfg @ ''[WARN]  '' @ TERM_RESET cfg
     | LOG_ERROR \<Rightarrow> TERM_COLOR_RED cfg @ ''[ERROR] '' @ TERM_RESET cfg
     | LOG_FATAL \<Rightarrow> TERM_COLOR_RED cfg @ ''['' @ TERM_STYLE_BOLD cfg @ ''FATAL'' @ TERM_RESET cfg @
         TERM_COLOR_RED cfg @ ''] '' @ TERM_RESET cfg)"

definition lognl :: "log_config \<Rightarrow> string" where
  "lognl cfg = (if CONFIG_LOG cfg LOG_DEBUG \<or> CONFIG_LOG cfg LOG_INFO \<or> CONFIG_LOG cfg LOG_WARNING \<or>
     CONFIG_LOG cfg LOG_ERROR \<or> CONFIG_LOG cfg LOG_FATAL then [CHR 0x0A] else [])"

definition log_msg :: "log_config \<Rightarrow> kstate \<Rightarrow> log_level_t \<Rightarrow> string \<Rightarrow> string \<Rightarrow> printf_arg list \<Rightarrow> string" where
  "log_msg cfg s level tag fmt ap =
     printf cfg (level_str cfg level) [] @
     (if current_task s \<noteq> 0
      then printf cfg (TERM_COLOR_YELLOW cfg @ ''[tid=%02d] '' @ TERM_RESET cfg) [PTid (t_tid (tasks s (current_task s)))]
      else printf cfg (TERM_COLOR_YELLOW cfg @ ''[kernel] '' @ TERM_RESET cfg) []) @
     printf cfg (TERM_COLOR_MAGENTA cfg @ ''%s'' @ TERM_RESET cfg @ '': '') [PStr tag] @
     printf cfg fmt ap @ lognl cfg"

text \<open>The five functions differ in the switch they test.\<close>

definition logd :: "log_config \<Rightarrow> kstate \<Rightarrow> string \<Rightarrow> string \<Rightarrow> printf_arg list \<Rightarrow> string" where
  "logd cfg s tag fmt ap = (if CONFIG_LOG cfg LOG_DEBUG then log_msg cfg s LOG_DEBUG tag fmt ap else [])"

definition logi :: "log_config \<Rightarrow> kstate \<Rightarrow> string \<Rightarrow> string \<Rightarrow> printf_arg list \<Rightarrow> string" where
  "logi cfg s tag fmt ap = (if CONFIG_LOG cfg LOG_INFO then log_msg cfg s LOG_INFO tag fmt ap else [])"

definition logw :: "log_config \<Rightarrow> kstate \<Rightarrow> string \<Rightarrow> string \<Rightarrow> printf_arg list \<Rightarrow> string" where
  "logw cfg s tag fmt ap = (if CONFIG_LOG cfg LOG_WARNING then log_msg cfg s LOG_WARNING tag fmt ap else [])"

definition loge :: "log_config \<Rightarrow> kstate \<Rightarrow> string \<Rightarrow> string \<Rightarrow> printf_arg list \<Rightarrow> string" where
  "loge cfg s tag fmt ap = (if CONFIG_LOG cfg LOG_ERROR then log_msg cfg s LOG_ERROR tag fmt ap else [])"

definition logf :: "log_config \<Rightarrow> kstate \<Rightarrow> string \<Rightarrow> string \<Rightarrow> printf_arg list \<Rightarrow> string" where
  "logf cfg s tag fmt ap = (if CONFIG_LOG cfg LOG_FATAL then log_msg cfg s LOG_FATAL tag fmt ap else [])"

subsection \<open>The dump\<close>

text \<open>
  The registers as the inline assembler reads them. The model of a task has no register words in its saved context,
  so these words are given with the registers.
\<close>

datatype dump_csr = DUMP_FFLAGS | DUMP_FRM | DUMP_FCSR | DUMP_CYCLE | DUMP_TIME | DUMP_INSTRET | DUMP_SSTATUS | DUMP_SIE
  | DUMP_STVEC | DUMP_SCOUNTEREN | DUMP_SSCRATCH | DUMP_SEPC | DUMP_SCAUSE | DUMP_STVAL | DUMP_SIP | DUMP_SATP

record dump_regs =
  dx :: "nat \<Rightarrow> u64"
  dcsr :: "dump_csr \<Rightarrow> u64"
  dhpm :: "nat \<Rightarrow> u64"
  dctx :: "nat \<Rightarrow> u64"

type_synonym dump_line = "string \<times> printf_arg list"

definition dump_x :: "dump_regs \<Rightarrow> dump_line list" where
  "dump_x r =
     [(''--- Kernel Register Info ---'', []), (''x0  (zero):   %p'', [PWord (dx r 0)]),
      (''x1  (ra):     %p'', [PWord (dx r 1)]), (''x2  (sp):     %p'', [PWord (dx r 2)]),
      (''x3  (gp):     %p'', [PWord (dx r 3)]), (''x4  (tp):     %p'', [PWord (dx r 4)]),
      (''x5  (t0):     %p'', [PWord (dx r 5)]), (''x6  (t1):     %p'', [PWord (dx r 6)]),
      (''x7  (t2):     %p'', [PWord (dx r 7)]), (''x8  (s0/fp):  %p'', [PWord (dx r 8)]),
      (''x9  (s1):     %p'', [PWord (dx r 9)]), (''x10 (a0):     %p'', [PWord (dx r 10)]),
      (''x11 (a1):     %p'', [PWord (dx r 11)]), (''x12 (a2):     %p'', [PWord (dx r 12)]),
      (''x13 (a3):     %p'', [PWord (dx r 13)]), (''x14 (a4):     %p'', [PWord (dx r 14)]),
      (''x15 (a5):     %p'', [PWord (dx r 15)]), (''x16 (a6):     %p'', [PWord (dx r 16)]),
      (''x17 (a7):     %p'', [PWord (dx r 17)]), (''x18 (s2):     %p'', [PWord (dx r 18)]),
      (''x19 (s3):     %p'', [PWord (dx r 19)]), (''x20 (s4):     %p'', [PWord (dx r 20)]),
      (''x21 (s5):     %p'', [PWord (dx r 21)]), (''x22 (s6):     %p'', [PWord (dx r 22)]),
      (''x23 (s7):     %p'', [PWord (dx r 23)]), (''x24 (s8):     %p'', [PWord (dx r 24)]),
      (''x25 (s9):     %p'', [PWord (dx r 25)]), (''x26 (s10):    %p'', [PWord (dx r 26)]),
      (''x27 (s11):    %p'', [PWord (dx r 27)]), (''x28 (t3):     %p'', [PWord (dx r 28)]),
      (''x29 (t4):     %p'', [PWord (dx r 29)]), (''x30 (t5):     %p'', [PWord (dx r 30)]),
      (''x31 (t6):     %p'', [PWord (dx r 31)])]"

definition dump_ucsr :: "dump_regs \<Rightarrow> dump_line list" where
  "dump_ucsr r =
     [(''fflags:       %p'', [PWord (dcsr r DUMP_FFLAGS)]), (''frm:          %p'', [PWord (dcsr r DUMP_FRM)]),
      (''fcsr:         %p'', [PWord (dcsr r DUMP_FCSR)]), (''cycle:        %p'', [PWord (dcsr r DUMP_CYCLE)]),
      (''time:         %p'', [PWord (dcsr r DUMP_TIME)]), (''instret:      %p'', [PWord (dcsr r DUMP_INSTRET)]),
      (''hpmcounter3:  %p'', [PWord (dhpm r 0)]), (''hpmcounter4:  %p'', [PWord (dhpm r 1)]),
      (''hpmcounter5:  %p'', [PWord (dhpm r 2)]), (''hpmcounter6:  %p'', [PWord (dhpm r 3)]),
      (''hpmcounter7:  %p'', [PWord (dhpm r 4)]), (''hpmcounter8:  %p'', [PWord (dhpm r 5)]),
      (''hpmcounter9:  %p'', [PWord (dhpm r 6)]), (''hpmcounter10: %p'', [PWord (dhpm r 7)]),
      (''hpmcounter11: %p'', [PWord (dhpm r 8)]), (''hpmcounter12: %p'', [PWord (dhpm r 9)]),
      (''hpmcounter13: %p'', [PWord (dhpm r 10)]), (''hpmcounter14: %p'', [PWord (dhpm r 11)]),
      (''hpmcounter15: %p'', [PWord (dhpm r 12)]), (''hpmcounter16: %p'', [PWord (dhpm r 13)]),
      (''hpmcounter17: %p'', [PWord (dhpm r 14)]), (''hpmcounter18: %p'', [PWord (dhpm r 15)]),
      (''hpmcounter19: %p'', [PWord (dhpm r 16)]), (''hpmcounter20: %p'', [PWord (dhpm r 17)]),
      (''hpmcounter21: %p'', [PWord (dhpm r 18)]), (''hpmcounter22: %p'', [PWord (dhpm r 19)]),
      (''hpmcounter23: %p'', [PWord (dhpm r 20)]), (''hpmcounter24: %p'', [PWord (dhpm r 21)]),
      (''hpmcounter25: %p'', [PWord (dhpm r 22)]), (''hpmcounter26: %p'', [PWord (dhpm r 23)]),
      (''hpmcounter27: %p'', [PWord (dhpm r 24)]), (''hpmcounter28: %p'', [PWord (dhpm r 25)]),
      (''hpmcounter29: %p'', [PWord (dhpm r 26)]), (''hpmcounter30: %p'', [PWord (dhpm r 27)]),
      (''hpmcounter31: %p'', [PWord (dhpm r 28)])]"

definition dump_scsr :: "dump_regs \<Rightarrow> dump_line list" where
  "dump_scsr r =
     [(''sstatus:      %p'', [PWord (dcsr r DUMP_SSTATUS)]), (''sie:          %p'', [PWord (dcsr r DUMP_SIE)]),
      (''stvec:        %p'', [PWord (dcsr r DUMP_STVEC)]),
      (''scounteren:   %p'', [PWord (dcsr r DUMP_SCOUNTEREN)]),
      (''sscratch:     %p'', [PWord (dcsr r DUMP_SSCRATCH)]), (''sepc:         %p'', [PWord (dcsr r DUMP_SEPC)]),
      (''scause:       %p'', [PWord (dcsr r DUMP_SCAUSE)]), (''stval:        %p'', [PWord (dcsr r DUMP_STVAL)]),
      (''sip:          %p'', [PWord (dcsr r DUMP_SIP)])]"

definition dump_task_info :: "task_t \<Rightarrow> dump_line list" where
  "dump_task_info t =
     [(''--- Current Task Info ---'', []), (''tid:           %u'', [PTid (t_tid t)]),
      (''num cap space: %u'', [PWord (ucast (t_num_cap_space t))]),
      (''num extension: %u'', [PWord (ucast (t_num_extension t))]),
      (''num free slot: %llu'', [PWord (t_free_slots_count t)]),
      (''state:         %s (%d)'', [PStr (task_state_to_str (t_state t)), PWord (task_state_code (t_state t))]),
      (''ipc state:     %s (%d)'', [PStr (ipc_state_to_str (t_ipc_state t)), PWord (ipc_state_code (t_ipc_state t))])]"

definition dump_context :: "dump_regs \<Rightarrow> dump_line list" where
  "dump_context r =
     [(''context ra:    %p'', [PWord (dctx r 0)]), (''context sp:    %p'', [PWord (dctx r 1)]),
      (''context s0:    %p'', [PWord (dctx r 2)]), (''context s1:    %p'', [PWord (dctx r 3)]),
      (''context s2:    %p'', [PWord (dctx r 4)]), (''context s3:    %p'', [PWord (dctx r 5)]),
      (''context s4:    %p'', [PWord (dctx r 6)]), (''context s5:    %p'', [PWord (dctx r 7)]),
      (''context s6:    %p'', [PWord (dctx r 8)]), (''context s7:    %p'', [PWord (dctx r 9)]),
      (''context s8:    %p'', [PWord (dctx r 10)]), (''context s9:    %p'', [PWord (dctx r 11)]),
      (''context s10:   %p'', [PWord (dctx r 12)]), (''context s11:   %p'', [PWord (dctx r 13)])]"

definition dump_frame :: "task_t \<Rightarrow> dump_line list" where
  "dump_frame t =
     [(''frame ra:      %p'', [PWord (t_frame t 0)]), (''frame sp:      %p'', [PWord (t_frame t 1)]),
      (''frame gp:      %p'', [PWord (t_frame t 2)]), (''frame tp:      %p'', [PWord (t_frame t 3)]),
      (''frame t0:      %p'', [PWord (t_frame t 4)]), (''frame t1:      %p'', [PWord (t_frame t 5)]),
      (''frame t2:      %p'', [PWord (t_frame t 6)]), (''frame s0:      %p'', [PWord (t_frame t 7)]),
      (''frame s1:      %p'', [PWord (t_frame t 8)]), (''frame a0:      %p'', [PWord (t_frame t 9)]),
      (''frame a1:      %p'', [PWord (t_frame t 10)]), (''frame a2:      %p'', [PWord (t_frame t 11)]),
      (''frame a3:      %p'', [PWord (t_frame t 12)]), (''frame a4:      %p'', [PWord (t_frame t 13)]),
      (''frame a5:      %p'', [PWord (t_frame t 14)]), (''frame a6:      %p'', [PWord (t_frame t 15)]),
      (''frame a7:      %p'', [PWord (t_frame t 16)]), (''frame s2:      %p'', [PWord (t_frame t 17)]),
      (''frame s3:      %p'', [PWord (t_frame t 18)]), (''frame s4:      %p'', [PWord (t_frame t 19)]),
      (''frame s5:      %p'', [PWord (t_frame t 20)]), (''frame s6:      %p'', [PWord (t_frame t 21)]),
      (''frame s7:      %p'', [PWord (t_frame t 22)]), (''frame s8:      %p'', [PWord (t_frame t 23)]),
      (''frame s9:      %p'', [PWord (t_frame t 24)]), (''frame s10:     %p'', [PWord (t_frame t 25)]),
      (''frame s11:     %p'', [PWord (t_frame t 26)]), (''frame t3:      %p'', [PWord (t_frame t 27)]),
      (''frame t4:      %p'', [PWord (t_frame t 28)]), (''frame t5:      %p'', [PWord (t_frame t 29)]),
      (''frame t6:      %p'', [PWord (t_frame t 30)]), (''frame sepc:    %p'', [PWord (t_frame t 31)]),
      (''frame satp:    %p'', [PWord (t_frame t 32)]), (''frame hartid:  %p'', [PWord (t_frame t 33)]),
      (''frame stack:   %p'', [PWord (t_frame t 34)])]"

definition dump_lines :: "dump_regs \<Rightarrow> kstate \<Rightarrow> dump_line list" where
  "dump_lines r s = dump_x r @ dump_ucsr r @ dump_scsr r @
     (if current_task s \<noteq> 0
      then (let t = tasks s (current_task s) in dump_task_info t @ dump_context r @ dump_frame t)
      else [])"

definition dump :: "log_config \<Rightarrow> dump_regs \<Rightarrow> kstate \<Rightarrow> string" where
  "dump cfg r s = concat (map (\<lambda>(fmt, args). logf cfg s ''kernel/dump'' fmt args) (dump_lines r s))"

text \<open>What \<^verbatim>\<open>panic\<close> prints before it ends the program with \<^verbatim>\<open>_Exit\<close>, in the builds with \<^verbatim>\<open>NDEBUG\<close>; the others add the place to the format.\<close>

definition panic_output :: "log_config \<Rightarrow> dump_regs \<Rightarrow> kstate \<Rightarrow> string \<Rightarrow> printf_arg list \<Rightarrow> string" where
  "panic_output cfg r s fmt args =
     (if CONFIG_LOG cfg LOG_FATAL then logf cfg s ''log/panic'' fmt args @ dump cfg r s else [])"

text \<open>A trap while the kernel runs always panics.\<close>

definition kernel_trap_output :: "log_config \<Rightarrow> dump_regs \<Rightarrow> kstate \<Rightarrow> string" where
  "kernel_trap_output cfg r s = panic_output cfg r s ''Kernel trap!'' []"

text \<open>The trap vector during boot: a message, three registers, and a panic.\<close>

definition early_trap_output :: "log_config \<Rightarrow> dump_regs \<Rightarrow> kstate \<Rightarrow> string" where
  "early_trap_output cfg r s =
     logf cfg s ''KERNEL CRITICAL ERROR'' ''Reached the early trap handler.'' [] @
     logf cfg s ''KERNEL CRITICAL ERROR'' ''This error indicates a bug or improper behavior in the kernel.'' [] @
     logf cfg s ''KERNEL CRITICAL ERROR'' ''Detailed information and register dump will follow...'' [] @
     logf cfg s ''KERNEL CRITICAL ERROR'' ''scause: %p'' [PWord (dcsr r DUMP_SCAUSE)] @
     logf cfg s ''KERNEL CRITICAL ERROR'' ''sepc:   %p'' [PWord (dcsr r DUMP_SEPC)] @
     logf cfg s ''KERNEL CRITICAL ERROR'' ''stval:  %p'' [PWord (dcsr r DUMP_STVAL)] @
     panic_output cfg r s ''Early trap!'' []"

definition sysret_error_to_str :: "errno_t \<Rightarrow> string" where
  "sysret_error_to_str err =
     (case err of
        SYS_S_OK \<Rightarrow> ''SYS_S_OK''
      | SYS_E_UNKNOWN \<Rightarrow> ''SYS_E_UNKNOWN''
      | SYS_E_CAP_TYPE \<Rightarrow> ''SYS_E_CAP_TYPE''
      | SYS_E_CAP_STATE \<Rightarrow> ''SYS_E_CAP_STATE''
      | SYS_E_ILL_CODE \<Rightarrow> ''SYS_E_ILL_CODE''
      | SYS_E_ILL_ARGS \<Rightarrow> ''SYS_E_ILL_ARGS''
      | SYS_E_ILL_STATE \<Rightarrow> ''SYS_E_ILL_STATE''
      | SYS_E_CANCELED \<Rightarrow> ''SYS_E_CANCELED''
      | SYS_E_BLOCKED \<Rightarrow> ''SYS_E_BLOCKED''
      | SYS_E_OUT_OF_CAP_SPACE \<Rightarrow> ''SYS_E_OUT_OF_CAP_SPACE'')"

subsection \<open>What is printed\<close>

lemma sysret_error_to_str_inject: "sysret_error_to_str a = sysret_error_to_str b \<longleftrightarrow> a = b"
  by (cases a; cases b) (simp_all add: sysret_error_to_str_def)

lemma task_state_to_str_inject: "task_state_to_str a = task_state_to_str b \<longleftrightarrow> a = b"
  by (cases a; cases b) (simp_all add: task_state_to_str_def)

lemma ipc_state_to_str_inject: "ipc_state_to_str a = ipc_state_to_str b \<longleftrightarrow> a = b"
  by (cases a; cases b) (simp_all add: ipc_state_to_str_def)

lemma log_disabled:
  assumes "\<not> CONFIG_LOG cfg LOG_FATAL"
  shows "dump cfg r s = []" "panic_output cfg r s fmt args = []" "early_trap_output cfg r s = []"
  using assms by (auto simp: dump_def logf_def panic_output_def early_trap_output_def)

text \<open>A counting list that the simplifier computes.\<close>

lemma upt_35: "[0..<35] = [0, 1, 2, 3, 4, 5, 6, 7, 8, 9, 10, 11, 12, 13, 14, 15, 16, 17, 18, 19, 20, 21, 22, 23, 24, 25, 26, 27,
    28, 29, 30, 31, 32, 33, 34]" by code_simp

lemma upt_32: "[0..<32] = take 32 [0..<35]" "[0..<29] = take 29 [0..<35]" "[0..<14] = take 14 [0..<35]"
  by (simp_all add: take_upt)

definition supervisor_csrs :: "dump_csr list" where
  "supervisor_csrs = [DUMP_SSTATUS, DUMP_SIE, DUMP_STVEC, DUMP_SCOUNTEREN, DUMP_SSCRATCH, DUMP_SEPC, DUMP_SCAUSE, DUMP_STVAL, DUMP_SIP]"

text \<open>
  The register dump is complete and in order. Behind a heading it prints the values of x0 to x31, the counters, the
  supervisor registers, and for the current task the words of its context and all 35 words of its trap frame, each once and in
  the order of their declaration.
\<close>

theorem dump_in_order:
  "map snd (dump_x r) = [] # map (\<lambda>i. [PWord (dx r i)]) [0..<32] \<and>
   map snd (dump_ucsr r) = map (\<lambda>c. [PWord (dcsr r c)]) [DUMP_FFLAGS, DUMP_FRM, DUMP_FCSR, DUMP_CYCLE, DUMP_TIME, DUMP_INSTRET] @
     map (\<lambda>i. [PWord (dhpm r i)]) [0..<29] \<and>
   map snd (dump_scsr r) = map (\<lambda>c. [PWord (dcsr r c)]) supervisor_csrs \<and>
   map snd (dump_context r) = map (\<lambda>i. [PWord (dctx r i)]) [0..<14] \<and>
   map snd (dump_frame t) = map (\<lambda>i. [PWord (t_frame t i)]) [0..<35]"
proof (intro conjI)
  show "map snd (dump_x r) = [] # map (\<lambda>i. [PWord (dx r i)]) [0..<32]"
    unfolding upt_32 upt_35 by (simp add: dump_x_def)
  show "map snd (dump_ucsr r) = map (\<lambda>c. [PWord (dcsr r c)]) [DUMP_FFLAGS, DUMP_FRM, DUMP_FCSR, DUMP_CYCLE, DUMP_TIME, DUMP_INSTRET] @
      map (\<lambda>i. [PWord (dhpm r i)]) [0..<29]"
    unfolding upt_32 upt_35 by (simp add: dump_ucsr_def)
  show "map snd (dump_context r) = map (\<lambda>i. [PWord (dctx r i)]) [0..<14]"
    unfolding upt_32 upt_35 by (simp add: dump_context_def)
  show "map snd (dump_frame t) = map (\<lambda>i. [PWord (t_frame t i)]) [0..<35]"
    unfolding upt_35 by (simp add: dump_frame_def)
qed (simp add: dump_scsr_def supervisor_csrs_def)

text \<open>\<^verbatim>\<open>satp\<close> is read for the dump but never printed: the output is the same whatever it holds.\<close>

lemma dump_omits_satp: "dump cfg (r\<lparr>dcsr := (dcsr r)(DUMP_SATP := v)\<rparr>) s = dump cfg r s"
  by (simp add: dump_def dump_lines_def dump_x_def dump_ucsr_def dump_scsr_def dump_context_def)

end
