(* ===== verification/Signals.thy ===== *)
theory Signals
  imports Cap_Revoke
begin

text \<open>
  Signals of the C library (\<^verbatim>\<open>src/arch/rv64/libc/signal.cpp\<close>) and the function of the kernel that uses them,
  \<^verbatim>\<open>lookup_tid\<close> of \<^verbatim>\<open>src/kernel/task.cpp\<close>. The number of signals and their codes belong to the C library and are
  parameters. A handler is a value of its own that a parameter runs.
\<close>

subsection \<open>Handlers\<close>

datatype 'h sighandler = SIG_DFL | SIG_IGN | SIG_ERR | SIG_FUN 'h

datatype sig_errno = SIG_OK | EINVAL

record 'h sig_state =
  signal_handlers :: "int \<Rightarrow> 'h sighandler"
  signal_errno :: sig_errno

definition signal :: "int \<Rightarrow> int \<Rightarrow> 'h sighandler \<Rightarrow> 'h sig_state \<Rightarrow> 'h sighandler \<times> 'h sig_state" where
  "signal NSIG sig handler st =
     (if sig < 0 \<or> sig \<ge> NSIG then (SIG_ERR, st\<lparr>signal_errno := EINVAL\<rparr>)
      else (signal_handlers st sig, st\<lparr>signal_handlers := (signal_handlers st)(sig := handler)\<rparr>))"

text \<open>
  A handler is reset before it runs. \<open>None\<close> is the panic for an unhandled signal, or a handler that does not return.
\<close>

definition raise ::
  "int \<Rightarrow> ('h \<Rightarrow> int \<Rightarrow> 'h sig_state \<Rightarrow> 'h sig_state option) \<Rightarrow> int \<Rightarrow> 'h sig_state \<Rightarrow> (int \<times> 'h sig_state) option" where
  "raise NSIG run sig st =
     (if sig < 0 \<or> sig \<ge> NSIG then Some (- 1, st\<lparr>signal_errno := EINVAL\<rparr>)
      else case signal_handlers st sig of
        SIG_DFL \<Rightarrow> None
      | SIG_IGN \<Rightarrow> Some (0, st)
      | SIG_ERR \<Rightarrow> Some (- 1, st\<lparr>signal_errno := EINVAL\<rparr>)
      | SIG_FUN h \<Rightarrow> do {
          st \<leftarrow> run h sig (st\<lparr>signal_handlers := (signal_handlers st)(sig := SIG_DFL)\<rparr>);
          Some (0, st)
        })"

text \<open>
  A signal handler runs once. A handler installed for a valid signal is returned by the next \<^verbatim>\<open>signal\<close> and run by the
  next \<^verbatim>\<open>raise\<close> with the signal reset to its default, so that a second \<^verbatim>\<open>raise\<close> stops the kernel unless the handler
  installs itself again.
\<close>

theorem signal_runs_once:
  assumes "0 \<le> sig" "sig < NSIG" "signal NSIG sig (SIG_FUN h) st = (old, st1)"
  shows "old = signal_handlers st sig \<and> fst (signal NSIG sig old st1) = SIG_FUN h \<and>
    signal_handlers (snd (signal NSIG sig old st1)) = signal_handlers st \<and>
    raise NSIG (\<lambda>_ _ st. Some st) sig st1 = Some (0, st1\<lparr>signal_handlers := (signal_handlers st1)(sig := SIG_DFL)\<rparr>) \<and>
    raise NSIG run sig (st1\<lparr>signal_handlers := (signal_handlers st1)(sig := SIG_DFL)\<rparr>) = None"
proof -
  have "old = signal_handlers st sig" "st1 = st\<lparr>signal_handlers := (signal_handlers st)(sig := SIG_FUN h)\<rparr>"
    using assms by (auto simp: signal_def)
  with assms(1,2) show ?thesis by (simp add: signal_def raise_def)
qed

theorem signal_runs_once_witness:
  "fst (signal 32 11 SIG_DFL (snd (signal 32 11 (SIG_FUN True) \<lparr>signal_handlers = \<lambda>_. SIG_DFL, signal_errno = SIG_OK\<rparr>))) = SIG_FUN True"
  using signal_runs_once [of 11 32 True "\<lparr>signal_handlers = \<lambda>_. SIG_DFL, signal_errno = SIG_OK\<rparr>" SIG_DFL
      "snd (signal 32 11 (SIG_FUN True) \<lparr>signal_handlers = \<lambda>_. SIG_DFL, signal_errno = SIG_OK\<rparr>)"]
  by (simp add: signal_def)

subsection \<open>Looking up a task\<close>

definition CONFIG_CAPABILITY_SPACE_SIZE :: u64 where "CONFIG_CAPABILITY_SPACE_SIZE = 512 * 512 * 0x1000"

definition CONFIG_TASK_SPACE_BASE :: u64 where
  "CONFIG_TASK_SPACE_BASE = CONFIG_CAPABILITY_SPACE_BASE + CONFIG_CAPABILITY_SPACE_SIZE"

text \<open>
  \<open>accessible\<close> tells which addresses the address space of the kernel maps. A read of any other is a trap in the kernel,
  and the handler of these, \<^verbatim>\<open>_kernel_trap\<close>, panics; it raises no signal. The spinlock around the body is left out.
\<close>

definition lookup_tid ::
  "int \<Rightarrow> int \<Rightarrow> 'h \<Rightarrow> (addr \<Rightarrow> bool) \<Rightarrow> tid_t \<Rightarrow> kstate \<Rightarrow> 'h sig_state \<Rightarrow> (addr \<times> 'h sig_state) option" where
  "lookup_tid NSIG SIGSEGV lookup_tid_signal_handler accessible tid s st =
     (if tid_index tid = 0 then Some (0, st)
      else do {
        let (old_handler, st) = signal NSIG SIGSEGV (SIG_FUN lookup_tid_signal_handler) st;
        if old_handler = SIG_ERR then None
        else do {
          let task = CONFIG_TASK_SPACE_BASE + PAGE_SIZE * ucast (tid_index tid);
          cassert (accessible task);
          let task = (if t_state (tasks s task) = unused then 0 else task);
          let (_, st) = signal NSIG SIGSEGV old_handler st;
          Some (task, st)
        }
      })"

text \<open>
  \<^verbatim>\<open>lookup_tid\<close> finds a task and leaves the signal handlers alone. Where the page of the thread id's index is mapped it
  returns that page if a task is there and null if not, with the handlers as they were; where it is not mapped the kernel
  stops, although the comment in the source has the function return null. The generation in the thread id is never
  looked at, so an old id finds the task that came to its place.
\<close>

theorem lookup_tid_cases:
  assumes "0 \<le> SIGSEGV" "SIGSEGV < NSIG" "signal_handlers st SIGSEGV \<noteq> SIG_ERR" "tid_index tid \<noteq> 0"
    and "task = CONFIG_TASK_SPACE_BASE + PAGE_SIZE * ucast (tid_index tid)"
  shows "lookup_tid NSIG SIGSEGV h accessible tid s st =
      (if accessible task then Some (if t_state (tasks s task) = unused then 0 else task, st) else None) \<and>
    (tid_index tid' = tid_index tid \<longrightarrow>
      lookup_tid NSIG SIGSEGV h accessible tid' s st = lookup_tid NSIG SIGSEGV h accessible tid s st)"
  using assms by (simp add: lookup_tid_def signal_def)

text \<open>Ids 5 and 0x400005 differ in their generation only.\<close>

theorem lookup_tid_cases_witness:
  "lookup_tid 32 11 () (\<lambda>_. True) 0x400005 (zero_state\<lparr>tasks := (\<lambda>_. zero_task\<lparr>t_state := running\<rparr>)\<rparr>) \<lparr>signal_handlers = \<lambda>_. SIG_DFL, signal_errno = SIG_OK\<rparr> =
     Some (0x3040005000, \<lparr>signal_handlers = \<lambda>_. SIG_DFL, signal_errno = SIG_OK\<rparr>)"
  using lookup_tid_cases [of 11 32 "\<lparr>signal_handlers = \<lambda>_. SIG_DFL, signal_errno = SIG_OK\<rparr>" 5 "0x3040005000" "()" "\<lambda>_. True"
      "zero_state\<lparr>tasks := (\<lambda>_. zero_task\<lparr>t_state := running\<rparr>)\<rparr>" "0x400005"]
  by (simp add: tid_index_def CONFIG_TASK_SPACE_BASE_def CONFIG_CAPABILITY_SPACE_SIZE_def config_defs)

end
