(* ===== verification/Address.thy ===== *)
theory Address
  imports Page
begin

text \<open>
  The typed pointers of \<^verbatim>\<open>include/kernel/address.h\<close>: \<^verbatim>\<open>phys_ptr\<close>, \<^verbatim>\<open>virt_ptr\<close> and
  \<^verbatim>\<open>map_ptr\<close> share the operators of \<^verbatim>\<open>base_ptr\<close>, which work on the address \<^verbatim>\<open>_ptr\<close> and the size of
  the type pointed to. The other theories use plain addresses; this one shows that the operators are the arithmetic
  they stand for, as long as nothing wraps, and where the difference of two pointers is not.
\<close>

subsection \<open>Pointers\<close>

text \<open>
  The type argument of a pointer enters the operators through \<^verbatim>\<open>sizeof(T)\<close> only; \<^verbatim>\<open>void\<close> selects the overloads
  that count bytes.
\<close>

datatype ctype = Void | Sized u64

record base_ptr =
  raw :: addr

datatype strong_ordering = ord_less | ord_equal | ord_greater

definition compare_u64 :: "u64 \<Rightarrow> u64 \<Rightarrow> strong_ordering" where
  "compare_u64 a b = (if a < b then ord_less else if a = b then ord_equal else ord_greater)"

definition from_nullptr :: base_ptr where "from_nullptr = \<lparr>raw = 0\<rparr>"

definition from_raw :: "addr \<Rightarrow> base_ptr" where "from_raw p = \<lparr>raw = p\<rparr>"

definition as_type :: "base_ptr \<Rightarrow> base_ptr" where "as_type p = from_raw (raw p)"

definition ptr_eq :: "base_ptr \<Rightarrow> base_ptr \<Rightarrow> bool" where "ptr_eq p q \<longleftrightarrow> raw p = raw q"

definition ptr_eq_null :: "base_ptr \<Rightarrow> bool" where "ptr_eq_null p \<longleftrightarrow> raw p = 0"

definition ptr_eq_int :: "base_ptr \<Rightarrow> u64 \<Rightarrow> bool" where "ptr_eq_int p a \<longleftrightarrow> raw p = a"

definition ptr_compare :: "base_ptr \<Rightarrow> base_ptr \<Rightarrow> strong_ordering" where
  "ptr_compare p q = compare_u64 (raw p) (raw q)"

definition ptr_compare_null :: "base_ptr \<Rightarrow> strong_ordering" where
  "ptr_compare_null p = compare_u64 (raw p) 0"

definition ptr_compare_int :: "base_ptr \<Rightarrow> u64 \<Rightarrow> strong_ordering" where
  "ptr_compare_int p a = compare_u64 (raw p) a"

text \<open>An offset is of any integral type and is converted to the 64 bits of the address first: negative ones wrap.\<close>

fun ptr_add :: "ctype \<Rightarrow> base_ptr \<Rightarrow> u64 \<Rightarrow> base_ptr" where
  "ptr_add (Sized k) p offset = from_raw (raw p + k * offset)"
| "ptr_add Void p offset = from_raw (raw p + offset)"

fun ptr_sub :: "ctype \<Rightarrow> base_ptr \<Rightarrow> u64 \<Rightarrow> base_ptr" where
  "ptr_sub (Sized k) p offset = from_raw (raw p - k * offset)"
| "ptr_sub Void p offset = from_raw (raw p - offset)"

text \<open>The result is converted to \<^verbatim>\<open>ptrdiff_t\<close> after the division, which is the one of unsigned numbers.\<close>

fun ptr_diff :: "ctype \<Rightarrow> base_ptr \<Rightarrow> base_ptr \<Rightarrow> int" where
  "ptr_diff (Sized k) p q = sint ((raw p - raw q) div k)"
| "ptr_diff Void p q = sint (raw p - raw q)"

text \<open>\<^verbatim>\<open>+=\<close> and \<^verbatim>\<open>-=\<close> have no overload for \<^verbatim>\<open>void\<close>, for which \<^verbatim>\<open>sizeof\<close> is 1 in the compilers used.\<close>

definition sizeof :: "ctype \<Rightarrow> u64" where
  "sizeof t = (case t of Void \<Rightarrow> 1 | Sized k \<Rightarrow> k)"

definition ptr_add_assign :: "ctype \<Rightarrow> base_ptr \<Rightarrow> u64 \<Rightarrow> base_ptr" where
  "ptr_add_assign t p offset = p\<lparr>raw := raw p + sizeof t * offset\<rparr>"

definition ptr_sub_assign :: "ctype \<Rightarrow> base_ptr \<Rightarrow> u64 \<Rightarrow> base_ptr" where
  "ptr_sub_assign t p offset = p\<lparr>raw := raw p - sizeof t * offset\<rparr>"

text \<open>The address of the element that \<^verbatim>\<open>operator[]\<close> refers to; there is none for \<^verbatim>\<open>void\<close>.\<close>

definition ptr_index :: "u64 \<Rightarrow> base_ptr \<Rightarrow> u64 \<Rightarrow> addr" where
  "ptr_index k p index = raw p + k * index"

subsection \<open>Kinds of pointers\<close>

text \<open>
  The helper classes make \<^verbatim>\<open>0x1000_phys\<close> and \<^verbatim>\<open>make_phys_ptr(x)\<close> convert to whatever pointer type is needed.
\<close>

datatype ptr_helper = phys_ptr_helper addr | virt_ptr_helper addr | map_ptr_helper addr

definition make_phys_ptr :: "addr \<Rightarrow> ptr_helper" where "make_phys_ptr p = phys_ptr_helper p"
definition make_virt_ptr :: "addr \<Rightarrow> ptr_helper" where "make_virt_ptr p = virt_ptr_helper p"
definition make_map_ptr :: "addr \<Rightarrow> ptr_helper" where "make_map_ptr p = map_ptr_helper p"

text \<open>There is no conversion between virtual pointers and the others.\<close>

fun to_phys_ptr :: "ptr_helper \<Rightarrow> base_ptr option" where
  "to_phys_ptr (phys_ptr_helper p) = Some (from_raw p)"
| "to_phys_ptr (map_ptr_helper p) = Some (from_raw (as_phys p))"
| "to_phys_ptr (virt_ptr_helper p) = None"

fun to_map_ptr :: "ptr_helper \<Rightarrow> base_ptr option" where
  "to_map_ptr (phys_ptr_helper p) = Some (from_raw (as_map p))"
| "to_map_ptr (map_ptr_helper p) = Some (from_raw p)"
| "to_map_ptr (virt_ptr_helper p) = None"

fun to_virt_ptr :: "ptr_helper \<Rightarrow> base_ptr option" where
  "to_virt_ptr (virt_ptr_helper p) = Some (from_raw p)"
| "to_virt_ptr _ = None"

lemmas ptr_defs = from_nullptr_def from_raw_def as_type_def ptr_eq_def ptr_eq_null_def ptr_eq_int_def
  ptr_compare_def ptr_compare_null_def ptr_compare_int_def compare_u64_def ptr_add_assign_def ptr_sub_assign_def
  ptr_index_def sizeof_def

subsection \<open>Laws\<close>

lemma raw_simps [simp]: "raw (from_raw a) = a" "from_raw (raw p) = p" "raw from_nullptr = 0"
  by (simp_all add: ptr_defs)

lemma ptr_eq_iff [simp]: "ptr_eq p q \<longleftrightarrow> p = q"
  by (cases p; cases q) (simp add: ptr_eq_def)

lemma ptr_sub_add [simp]: "ptr_sub t (ptr_add t p n) n = p"
  by (cases t) simp_all

lemma ptr_add_assign_eq: "ptr_add_assign t p n = ptr_add t p n" "ptr_sub_assign t p n = ptr_sub t p n"
  by (cases t; simp add: ptr_defs)+

lemma ptr_index_add: "raw (ptr_add (Sized k) p n) = ptr_index k p n"
  by (simp add: ptr_index_def)

text \<open>The comparison is the order of the addresses.\<close>

lemma ptr_compare_cases:
  "ptr_compare p q = ord_less \<longleftrightarrow> raw p < raw q" "ptr_compare p q = ord_equal \<longleftrightarrow> ptr_eq p q"
  "ptr_compare p q = ord_greater \<longleftrightarrow> ptr_compare q p = ord_less"
  by (auto simp: ptr_compare_def compare_u64_def)

text \<open>A helper converts to the same place in both views of physical memory.\<close>

lemma helper_views:
  "to_phys_ptr h = Some p \<Longrightarrow> to_map_ptr h = Some q \<Longrightarrow> raw q = as_map (raw p) \<and> raw p = as_phys (raw q)"
  by (cases h) auto

subsection \<open>Differences\<close>

lemma sint_small: "unat (w :: u64) < 2 ^ 63 \<Longrightarrow> sint w = int (unat w)"
proof -
  assume "unat w < 2 ^ 63"
  then have "int (unat w) < int (2 ^ 63)" by (simp only: of_nat_less_iff)
  then have "int (unat w) < 2 ^ 63" by (simp only: of_nat_power of_nat_numeral)
  moreover have "- (2 ^ 63) \<le> int (unat w)" by (rule order_trans [OF _ of_nat_0_le_iff]) simp
  ultimately have "signed_take_bit 63 (int (unat w)) = int (unat w)" by (intro signed_take_bit_int_eq_self)
  moreover have "sint w = signed_take_bit 63 (int (unat w))" by (subst sint_uint) simp
  ultimately show ?thesis by simp
qed

lemma unat_uminus:
  fixes w :: u64
  assumes "0 < unat w"
  shows "unat (- w) = 2 ^ 64 - unat w"
proof -
  have "2 ^ 64 - unat w + unat w = 2 ^ 64" using unat_u64_less [of w] by simp
  then have "(of_nat (2 ^ 64 - unat w) :: u64) + of_nat (unat w) = of_nat (2 ^ 64)" by (metis of_nat_add)
  then have "(of_nat (2 ^ 64 - unat w) :: u64) + w = 0" by (simp del: of_nat_diff)
  then have "- w = of_nat (2 ^ 64 - unat w)" by (metis add_eq_0_iff2)
  then show ?thesis using assms unat_of_nat_u64 [of "2 ^ 64 - unat w"] by simp
qed

text \<open>
  Pointer differences count elements forwards. The difference between a pointer moved by \<open>n\<close> elements and the
  pointer itself is \<open>n\<close>, and moving back by it returns the pointer, when the elements lie in the address space.
\<close>

theorem ptr_diff_forward:
  assumes "0 < unat k" "unat (raw p) + unat k * n < 2 ^ 64" "n < 2 ^ 63"
  shows "ptr_diff (Sized k) (ptr_add (Sized k) p (of_nat n)) p = int n \<and>
    ptr_sub (Sized k) (ptr_add (Sized k) p (of_nat n)) (of_nat n) = p \<and>
    unat (raw (ptr_add (Sized k) p (of_nat n))) = unat (raw p) + unat k * n"
proof -
  have n: "unat (of_nat n :: u64) = n" using assms(3) by (intro unat_of_nat_u64) simp
  have kn: "unat (k * of_nat n) = unat k * n" using assms(2) n by (simp add: unat_word_ariths)
  then have "unat (k * of_nat n div k) = n" using assms(1) by (simp add: unat_div)
  then have "sint (k * of_nat n div k) = int n" using assms(3) by (simp add: sint_small)
  moreover have "unat (raw p + k * of_nat n) = unat (raw p) + unat k * n" using kn assms(2) by (simp add: unat_word_ariths)
  ultimately show ?thesis by simp
qed

text \<open>
  Pointer differences do not count backwards. The difference is divided as an unsigned number: for elements of more
  than one byte the difference to a later pointer is a large positive number in place of a negative one.
\<close>

theorem ptr_diff_backward:
  assumes "1 < unat k" "0 < n" "unat k * n \<le> unat (raw p)"
  shows "ptr_diff (Sized k) (ptr_sub (Sized k) p (of_nat n)) p = int ((2 ^ 64 - unat k * n) div unat k) \<and>
    0 \<le> ptr_diff (Sized k) (ptr_sub (Sized k) p (of_nat n)) p"
proof -
  have "n * 1 \<le> unat k * n" using assms(1) by simp
  then have kn: "unat k * n < 2 ^ 64" "n < 2 ^ 64" using assms(3) unat_u64_less [of "raw p"] by linarith+
  then have u: "unat (k * of_nat n) = unat k * n" by (simp add: unat_word_ariths unat_of_nat_u64)
  have pos: "0 < unat k * n" using assms by simp
  have "unat (- (k * of_nat n)) = 2 ^ 64 - unat k * n"
    using pos u unat_uminus [of "k * of_nat n"] by simp
  then have d: "unat (- (k * of_nat n) div k) = (2 ^ 64 - unat k * n) div unat k" by (simp add: unat_div)
  have "(2 ^ 64 - unat k * n) div unat k \<le> (2 ^ 64 - unat k * n) div 2" using assms(1) by (intro div_le_mono2) simp_all
  also have "\<dots> < 2 ^ 63" using pos kn(1) by (intro less_mult_imp_div_less) simp
  finally have "sint (- (k * of_nat n) div k) = int ((2 ^ 64 - unat k * n) div unat k)"
    using sint_small [of "- (k * of_nat n) div k"] unfolding d by blast
  then show ?thesis by simp
qed

theorem ptr_diff_forward_witness: "ptr_diff (Sized 8) (ptr_add (Sized 8) (from_raw 0x1000) (of_nat 3)) (from_raw 0x1000) = 3"
  using ptr_diff_forward [of 8 "from_raw 0x1000" 3] by simp

theorem ptr_diff_backward_witness:
  "ptr_diff (Sized 8) (ptr_sub (Sized 8) (from_raw 0x1000) (of_nat 1)) (from_raw 0x1000) = 0x1FFFFFFFFFFFFFFF"
  using ptr_diff_backward [of 8 1 "from_raw 0x1000"] by simp

end
