(* ===== verification/Firmware.thy ===== *)
theory Firmware
  imports Address
begin

text \<open>
  Calls to the supervisor binary interface (\<^verbatim>\<open>include/arch/rv64/kernel/arch/sbi.h\<close>), which the machine's firmware
  answers, and the functions of the C library built on them: the console (\<^verbatim>\<open>src/arch/rv64/libc/stdio.cpp\<close>, for
  the boot loader \<^verbatim>\<open>src/arch/rv64/boot/libc.cpp\<close>) and the end of the program
  (\<^verbatim>\<open>src/arch/rv64/libc/stdlib.cpp\<close>). The firmware is a parameter: a function from the argument registers at
  the \<^verbatim>\<open>ecall\<close> to these registers behind it. The lemmas show which request each wrapper makes.
\<close>

subsection \<open>Calls\<close>

record sbiret_t =
  sbi_error :: u64
  sbi_value :: u64

text \<open>The registers a0 to a7 by their number, and the firmware with a state of its own.\<close>

type_synonym areg_file = "nat \<Rightarrow> u64"
type_synonym 'w firmware = "areg_file \<Rightarrow> 'w \<Rightarrow> areg_file \<times> 'w"

record 'w machine =
  aregs :: areg_file
  world :: 'w

definition ecall :: "'w firmware \<Rightarrow> 'w machine \<Rightarrow> 'w machine" where
  "ecall fw m = (let (r, w) = fw (aregs m) (world m) in \<lparr>aregs = r, world = w\<rparr>)"

definition mv_a :: "nat \<Rightarrow> u64 \<Rightarrow> 'w machine \<Rightarrow> 'w machine" where
  "mv_a i v m = m\<lparr>aregs := (aregs m)(i := v)\<rparr>"

definition sbi_result :: "'w machine \<Rightarrow> sbiret_t \<times> 'w machine" where
  "sbi_result m = (\<lparr>sbi_error = aregs m 0, sbi_value = aregs m 1\<rparr>, m)"

definition sbicall0 :: "'w firmware \<Rightarrow> u64 \<Rightarrow> u64 \<Rightarrow> 'w machine \<Rightarrow> sbiret_t \<times> 'w machine" where
  "sbicall0 fw eid fid m =
     sbi_result (ecall fw (mv_a 6 fid (mv_a 7 eid m)))"

definition sbicall1 :: "'w firmware \<Rightarrow> u64 \<Rightarrow> u64 \<Rightarrow> u64 \<Rightarrow> 'w machine \<Rightarrow> sbiret_t \<times> 'w machine" where
  "sbicall1 fw eid fid arg0 m =
     sbi_result (ecall fw (mv_a 0 arg0 (mv_a 6 fid (mv_a 7 eid m))))"

definition sbicall2 :: "'w firmware \<Rightarrow> u64 \<Rightarrow> u64 \<Rightarrow> u64 \<Rightarrow> u64 \<Rightarrow> 'w machine \<Rightarrow> sbiret_t \<times> 'w machine" where
  "sbicall2 fw eid fid arg0 arg1 m =
     sbi_result (ecall fw (mv_a 1 arg1 (mv_a 0 arg0 (mv_a 6 fid (mv_a 7 eid m)))))"

definition sbicall3 :: "'w firmware \<Rightarrow> u64 \<Rightarrow> u64 \<Rightarrow> u64 \<Rightarrow> u64 \<Rightarrow> u64 \<Rightarrow> 'w machine \<Rightarrow> sbiret_t \<times> 'w machine" where
  "sbicall3 fw eid fid arg0 arg1 arg2 m =
     sbi_result (ecall fw (mv_a 2 arg2 (mv_a 1 arg1 (mv_a 0 arg0 (mv_a 6 fid (mv_a 7 eid m))))))"

definition sbicall4 :: "'w firmware \<Rightarrow> u64 \<Rightarrow> u64 \<Rightarrow> u64 \<Rightarrow> u64 \<Rightarrow> u64 \<Rightarrow> u64 \<Rightarrow> 'w machine \<Rightarrow> sbiret_t \<times> 'w machine" where
  "sbicall4 fw eid fid arg0 arg1 arg2 arg3 m =
     sbi_result (ecall fw (mv_a 3 arg3 (mv_a 2 arg2 (mv_a 1 arg1 (mv_a 0 arg0 (mv_a 6 fid (mv_a 7 eid m)))))))"

definition sbicall5 :: "'w firmware \<Rightarrow> u64 \<Rightarrow> u64 \<Rightarrow> u64 \<Rightarrow> u64 \<Rightarrow> u64 \<Rightarrow> u64 \<Rightarrow> u64 \<Rightarrow> 'w machine \<Rightarrow> sbiret_t \<times> 'w machine" where
  "sbicall5 fw eid fid arg0 arg1 arg2 arg3 arg4 m =
     sbi_result (ecall fw (mv_a 4 arg4 (mv_a 3 arg3 (mv_a 2 arg2 (mv_a 1 arg1 (mv_a 0 arg0 (mv_a 6 fid (mv_a 7 eid m))))))))"

definition sbicall6 :: "'w firmware \<Rightarrow> u64 \<Rightarrow> u64 \<Rightarrow> u64 \<Rightarrow> u64 \<Rightarrow> u64 \<Rightarrow> u64 \<Rightarrow> u64 \<Rightarrow> u64 \<Rightarrow> 'w machine \<Rightarrow> sbiret_t \<times> 'w machine" where
  "sbicall6 fw eid fid arg0 arg1 arg2 arg3 arg4 arg5 m =
     sbi_result (ecall fw (mv_a 5 arg5 (mv_a 4 arg4 (mv_a 3 arg3 (mv_a 2 arg2 (mv_a 1 arg1 (mv_a 0 arg0 (mv_a 6 fid (mv_a 7 eid m)))))))))"

subsection \<open>Wrappers\<close>

text \<open>Arguments of 32 bits are extended to the register: \<^verbatim>\<open>int\<close> with its sign, \<^verbatim>\<open>uint32_t\<close> and \<^verbatim>\<open>uint8_t\<close> with zeros.\<close>

definition sbi_console_putchar :: "'w firmware \<Rightarrow> 32 word \<Rightarrow> 'w machine \<Rightarrow> u64 \<times> 'w machine" where
  "sbi_console_putchar fw ch m = apfst sbi_error (sbicall1 fw 1 0 (scast ch) m)"

definition sbi_console_getchar :: "'w firmware \<Rightarrow> 'w machine \<Rightarrow> u64 \<times> 'w machine" where
  "sbi_console_getchar fw m = apfst sbi_error (sbicall0 fw 2 0 m)"

definition sbi_clear_ipi :: "'w firmware \<Rightarrow> 'w machine \<Rightarrow> u64 \<times> 'w machine" where
  "sbi_clear_ipi fw m = apfst sbi_error (sbicall0 fw 3 0 m)"

definition sbi_shutdown :: "'w firmware \<Rightarrow> 'w machine \<Rightarrow> unit \<times> 'w machine" where
  "sbi_shutdown fw m = apfst (\<lambda>_. ()) (sbicall0 fw 8 0 m)"

definition sbi_get_spec_version :: "'w firmware \<Rightarrow> 'w machine \<Rightarrow> sbiret_t \<times> 'w machine" where
  "sbi_get_spec_version fw m = sbicall0 fw 0x10 0 m"

definition sbi_get_impl_id :: "'w firmware \<Rightarrow> 'w machine \<Rightarrow> sbiret_t \<times> 'w machine" where
  "sbi_get_impl_id fw m = sbicall0 fw 0x10 1 m"

definition sbi_get_impl_version :: "'w firmware \<Rightarrow> 'w machine \<Rightarrow> sbiret_t \<times> 'w machine" where
  "sbi_get_impl_version fw m = sbicall0 fw 0x10 2 m"

definition sbi_probe_extension :: "'w firmware \<Rightarrow> u64 \<Rightarrow> 'w machine \<Rightarrow> sbiret_t \<times> 'w machine" where
  "sbi_probe_extension fw extension_id m = sbicall1 fw 0x10 3 extension_id m"

definition sbi_get_mvendorid :: "'w firmware \<Rightarrow> 'w machine \<Rightarrow> sbiret_t \<times> 'w machine" where
  "sbi_get_mvendorid fw m = sbicall0 fw 0x10 4 m"

definition sbi_get_marchid :: "'w firmware \<Rightarrow> 'w machine \<Rightarrow> sbiret_t \<times> 'w machine" where
  "sbi_get_marchid fw m = sbicall0 fw 0x10 5 m"

definition sbi_get_mimpid :: "'w firmware \<Rightarrow> 'w machine \<Rightarrow> sbiret_t \<times> 'w machine" where
  "sbi_get_mimpid fw m = sbicall0 fw 0x10 6 m"

definition sbi_set_timer :: "'w firmware \<Rightarrow> u64 \<Rightarrow> 'w machine \<Rightarrow> sbiret_t \<times> 'w machine" where
  "sbi_set_timer fw stime_value m = sbicall1 fw 0x54494D45 0 stime_value m"

definition sbi_send_ipi :: "'w firmware \<Rightarrow> u64 \<Rightarrow> u64 \<Rightarrow> 'w machine \<Rightarrow> sbiret_t \<times> 'w machine" where
  "sbi_send_ipi fw hart_mask hart_mask_base m = sbicall2 fw 0x735049 0 hart_mask hart_mask_base m"

definition sbi_remote_fence_i :: "'w firmware \<Rightarrow> u64 \<Rightarrow> u64 \<Rightarrow> 'w machine \<Rightarrow> sbiret_t \<times> 'w machine" where
  "sbi_remote_fence_i fw hart_mask hart_mask_base m = sbicall2 fw 0x52464E43 0 hart_mask hart_mask_base m"

definition sbi_remote_sfence_vma :: "'w firmware \<Rightarrow> u64 \<Rightarrow> u64 \<Rightarrow> u64 \<Rightarrow> u64 \<Rightarrow> 'w machine \<Rightarrow> sbiret_t \<times> 'w machine" where
  "sbi_remote_sfence_vma fw hart_mask hart_mask_base start_addr sz m = sbicall4 fw 0x52464E43 1 hart_mask hart_mask_base start_addr sz m"

definition sbi_remote_sfence_vma_asid :: "'w firmware \<Rightarrow> u64 \<Rightarrow> u64 \<Rightarrow> u64 \<Rightarrow> u64 \<Rightarrow> u64 \<Rightarrow> 'w machine \<Rightarrow> sbiret_t \<times> 'w machine" where
  "sbi_remote_sfence_vma_asid fw hart_mask hart_mask_base start_addr sz asid m = sbicall5 fw 0x52464E43 2 hart_mask hart_mask_base start_addr sz asid m"

definition sbi_remote_hfence_gvma_vmid :: "'w firmware \<Rightarrow> u64 \<Rightarrow> u64 \<Rightarrow> u64 \<Rightarrow> u64 \<Rightarrow> u64 \<Rightarrow> 'w machine \<Rightarrow> sbiret_t \<times> 'w machine" where
  "sbi_remote_hfence_gvma_vmid fw hart_mask hart_mask_base start_addr sz vmid m = sbicall5 fw 0x52464E43 3 hart_mask hart_mask_base start_addr sz vmid m"

definition sbi_remote_hfence_gvma :: "'w firmware \<Rightarrow> u64 \<Rightarrow> u64 \<Rightarrow> u64 \<Rightarrow> u64 \<Rightarrow> 'w machine \<Rightarrow> sbiret_t \<times> 'w machine" where
  "sbi_remote_hfence_gvma fw hart_mask hart_mask_base start_addr sz m = sbicall4 fw 0x52464E43 4 hart_mask hart_mask_base start_addr sz m"

definition sbi_remote_hfence_vvma_asid :: "'w firmware \<Rightarrow> u64 \<Rightarrow> u64 \<Rightarrow> u64 \<Rightarrow> u64 \<Rightarrow> u64 \<Rightarrow> 'w machine \<Rightarrow> sbiret_t \<times> 'w machine" where
  "sbi_remote_hfence_vvma_asid fw hart_mask hart_mask_base start_addr sz asid m = sbicall5 fw 0x52464E43 5 hart_mask hart_mask_base start_addr sz asid m"

definition sbi_remote_hfence_vvma :: "'w firmware \<Rightarrow> u64 \<Rightarrow> u64 \<Rightarrow> u64 \<Rightarrow> u64 \<Rightarrow> 'w machine \<Rightarrow> sbiret_t \<times> 'w machine" where
  "sbi_remote_hfence_vvma fw hart_mask hart_mask_base start_addr sz m = sbicall4 fw 0x52464E43 6 hart_mask hart_mask_base start_addr sz m"

definition sbi_hart_start :: "'w firmware \<Rightarrow> u64 \<Rightarrow> u64 \<Rightarrow> u64 \<Rightarrow> 'w machine \<Rightarrow> sbiret_t \<times> 'w machine" where
  "sbi_hart_start fw hartid start_addr opaque m = sbicall3 fw 0x48534D 0 hartid start_addr opaque m"

definition sbi_hart_stop :: "'w firmware \<Rightarrow> 'w machine \<Rightarrow> sbiret_t \<times> 'w machine" where
  "sbi_hart_stop fw m = sbicall0 fw 0x48534D 1 m"

definition sbi_hart_get_status :: "'w firmware \<Rightarrow> u64 \<Rightarrow> 'w machine \<Rightarrow> sbiret_t \<times> 'w machine" where
  "sbi_hart_get_status fw hartid m = sbicall1 fw 0x48534D 2 hartid m"

definition sbi_hart_suspend :: "'w firmware \<Rightarrow> 32 word \<Rightarrow> u64 \<Rightarrow> u64 \<Rightarrow> 'w machine \<Rightarrow> sbiret_t \<times> 'w machine" where
  "sbi_hart_suspend fw suspend_type resume_addr opaque m = sbicall3 fw 0x48534D 3 (ucast suspend_type) resume_addr opaque m"

definition sbi_system_reset :: "'w firmware \<Rightarrow> 32 word \<Rightarrow> 32 word \<Rightarrow> 'w machine \<Rightarrow> sbiret_t \<times> 'w machine" where
  "sbi_system_reset fw reset_type reset_reason m = sbicall2 fw 0x53525354 0 (ucast reset_type) (ucast reset_reason) m"

definition sbi_pmu_num_counters :: "'w firmware \<Rightarrow> 'w machine \<Rightarrow> sbiret_t \<times> 'w machine" where
  "sbi_pmu_num_counters fw m = sbicall0 fw 0x504D55 0 m"

definition sbi_pmu_counter_get_info :: "'w firmware \<Rightarrow> u64 \<Rightarrow> 'w machine \<Rightarrow> sbiret_t \<times> 'w machine" where
  "sbi_pmu_counter_get_info fw counter_idx m = sbicall1 fw 0x504D55 1 counter_idx m"

definition sbi_pmu_counter_config_matching :: "'w firmware \<Rightarrow> u64 \<Rightarrow> u64 \<Rightarrow> u64 \<Rightarrow> u64 \<Rightarrow> u64 \<Rightarrow> 'w machine \<Rightarrow> sbiret_t \<times> 'w machine" where
  "sbi_pmu_counter_config_matching fw counter_idx_base counter_idx_mask config_flags event_idx event_data m = sbicall5 fw 0x504D55 2 counter_idx_base counter_idx_mask config_flags event_idx event_data m"

definition sbi_pmu_counter_start :: "'w firmware \<Rightarrow> u64 \<Rightarrow> u64 \<Rightarrow> u64 \<Rightarrow> u64 \<Rightarrow> 'w machine \<Rightarrow> sbiret_t \<times> 'w machine" where
  "sbi_pmu_counter_start fw counter_idx_base counter_idx_mask start_flags initial_value m = sbicall4 fw 0x504D55 3 counter_idx_base counter_idx_mask start_flags initial_value m"

definition sbi_pmu_counter_stop :: "'w firmware \<Rightarrow> u64 \<Rightarrow> u64 \<Rightarrow> u64 \<Rightarrow> 'w machine \<Rightarrow> sbiret_t \<times> 'w machine" where
  "sbi_pmu_counter_stop fw counter_idx_base counter_idx_mask stop_flags m = sbicall3 fw 0x504D55 4 counter_idx_base counter_idx_mask stop_flags m"

definition sbi_pmu_counter_fw_read :: "'w firmware \<Rightarrow> u64 \<Rightarrow> 'w machine \<Rightarrow> sbiret_t \<times> 'w machine" where
  "sbi_pmu_counter_fw_read fw counter_idx m = sbicall1 fw 0x504D55 5 counter_idx m"

definition sbi_pmu_counter_fw_read_hi :: "'w firmware \<Rightarrow> u64 \<Rightarrow> 'w machine \<Rightarrow> sbiret_t \<times> 'w machine" where
  "sbi_pmu_counter_fw_read_hi fw counter_idx m = sbicall1 fw 0x504D55 6 counter_idx m"

definition sbi_debug_console_write :: "'w firmware \<Rightarrow> u64 \<Rightarrow> u64 \<Rightarrow> u64 \<Rightarrow> 'w machine \<Rightarrow> sbiret_t \<times> 'w machine" where
  "sbi_debug_console_write fw num_bytes base_addr_lo base_addr_hi m = sbicall3 fw 0x4442434E 0 num_bytes base_addr_lo base_addr_hi m"

definition sbi_debug_console_read :: "'w firmware \<Rightarrow> u64 \<Rightarrow> u64 \<Rightarrow> u64 \<Rightarrow> 'w machine \<Rightarrow> sbiret_t \<times> 'w machine" where
  "sbi_debug_console_read fw num_bytes base_addr_lo base_addr_hi m = sbicall3 fw 0x4442434E 1 num_bytes base_addr_lo base_addr_hi m"

definition sbi_debug_console_write_byte :: "'w firmware \<Rightarrow> byte \<Rightarrow> 'w machine \<Rightarrow> sbiret_t \<times> 'w machine" where
  "sbi_debug_console_write_byte fw byte m = sbicall1 fw 0x4442434E 2 (ucast byte) m"

definition sbi_system_suspend :: "'w firmware \<Rightarrow> 32 word \<Rightarrow> u64 \<Rightarrow> u64 \<Rightarrow> 'w machine \<Rightarrow> sbiret_t \<times> 'w machine" where
  "sbi_system_suspend fw sleep_type resume_addr opaque m = sbicall3 fw 0x53555350 0 (ucast sleep_type) resume_addr opaque m"

definition sbi_cppc_probe :: "'w firmware \<Rightarrow> 32 word \<Rightarrow> 'w machine \<Rightarrow> sbiret_t \<times> 'w machine" where
  "sbi_cppc_probe fw cppc_reg_id m = sbicall1 fw 0x43505043 0 (ucast cppc_reg_id) m"

definition sbi_cppc_read :: "'w firmware \<Rightarrow> 32 word \<Rightarrow> 'w machine \<Rightarrow> sbiret_t \<times> 'w machine" where
  "sbi_cppc_read fw cppc_reg_id m = sbicall1 fw 0x43505043 1 (ucast cppc_reg_id) m"

definition sbi_cppc_read_hi :: "'w firmware \<Rightarrow> 32 word \<Rightarrow> 'w machine \<Rightarrow> sbiret_t \<times> 'w machine" where
  "sbi_cppc_read_hi fw cppc_reg_id m = sbicall1 fw 0x43505043 2 (ucast cppc_reg_id) m"

definition sbi_cppc_write :: "'w firmware \<Rightarrow> 32 word \<Rightarrow> u64 \<Rightarrow> 'w machine \<Rightarrow> sbiret_t \<times> 'w machine" where
  "sbi_cppc_write fw cppc_reg_id val m = sbicall2 fw 0x43505043 3 (ucast cppc_reg_id) val m"

subsection \<open>The C library\<close>

definition stdio_read :: "'w machine \<Rightarrow> u64 \<times> 'w machine" where
  "stdio_read m = (0, m)"

definition stdio_write :: "'w firmware \<Rightarrow> addr \<Rightarrow> u64 \<Rightarrow> u64 \<Rightarrow> 'w machine \<Rightarrow> u64 \<times> 'w machine" where
  "stdio_write fw ptr size' nmemb m =
     (let (_, m) = sbi_debug_console_write fw (size' * nmemb) (as_phys ptr) 0 m in (size' * nmemb, m))"

definition stdio_ungetc :: "'w machine \<Rightarrow> 32 word \<times> 'w machine" where
  "stdio_ungetc m = (- 1, m)"

text \<open>The console of the boot loader, and the end of a program: \<^verbatim>\<open>_Exit\<close> asks for the shutdown again whenever the firmware returns.\<close>

definition boot_fputc :: "'w firmware \<Rightarrow> 32 word \<Rightarrow> 'w machine \<Rightarrow> 32 word \<times> 'w machine" where
  "boot_fputc fw ch m = (let (_, m) = sbi_console_putchar fw ch m in (ch, m))"

primrec exit_rounds :: "nat \<Rightarrow> 'w firmware \<Rightarrow> 'w machine \<Rightarrow> 'w machine" where
  "exit_rounds 0 fw m = m"
| "exit_rounds (Suc n) fw m = exit_rounds n fw (snd (sbi_shutdown fw m))"

subsection \<open>Requests\<close>

lemmas sbicall_defs = sbicall0_def sbicall1_def sbicall2_def sbicall3_def sbicall4_def sbicall5_def sbicall6_def
  sbi_result_def ecall_def mv_a_def

lemmas sbi_defs =
  sbi_console_putchar_def sbi_console_getchar_def sbi_clear_ipi_def sbi_shutdown_def
  sbi_get_spec_version_def sbi_get_impl_id_def sbi_get_impl_version_def sbi_probe_extension_def
  sbi_get_mvendorid_def sbi_get_marchid_def sbi_get_mimpid_def sbi_set_timer_def sbi_send_ipi_def
  sbi_remote_fence_i_def sbi_remote_sfence_vma_def sbi_remote_sfence_vma_asid_def
  sbi_remote_hfence_gvma_vmid_def sbi_remote_hfence_gvma_def sbi_remote_hfence_vvma_asid_def
  sbi_remote_hfence_vvma_def sbi_hart_start_def sbi_hart_stop_def sbi_hart_get_status_def
  sbi_hart_suspend_def sbi_system_reset_def sbi_pmu_num_counters_def sbi_pmu_counter_get_info_def
  sbi_pmu_counter_config_matching_def sbi_pmu_counter_start_def sbi_pmu_counter_stop_def
  sbi_pmu_counter_fw_read_def sbi_pmu_counter_fw_read_hi_def sbi_debug_console_write_def
  sbi_debug_console_read_def sbi_debug_console_write_byte_def sbi_system_suspend_def sbi_cppc_probe_def
  sbi_cppc_read_def sbi_cppc_read_hi_def sbi_cppc_write_def

text \<open>A firmware that only keeps the registers of each request.\<close>

definition recorder :: "areg_file list firmware" where
  "recorder r w = (r, w @ [r])"

definition fresh_machine :: "areg_file list machine" where
  "fresh_machine = \<lparr>aregs = (\<lambda>_. 0), world = []\<rparr>"

definition all_wrappers :: "'w firmware \<Rightarrow> 'w machine \<Rightarrow> 'w machine list" where
  "all_wrappers fw m =
     [snd (sbi_console_putchar fw 0 m), snd (sbi_console_getchar fw m), snd (sbi_clear_ipi fw m),
      snd (sbi_shutdown fw m), snd (sbi_get_spec_version fw m), snd (sbi_get_impl_id fw m),
      snd (sbi_get_impl_version fw m), snd (sbi_probe_extension fw 0 m), snd (sbi_get_mvendorid fw m),
      snd (sbi_get_marchid fw m), snd (sbi_get_mimpid fw m), snd (sbi_set_timer fw 0 m),
      snd (sbi_send_ipi fw 0 0 m), snd (sbi_remote_fence_i fw 0 0 m), snd (sbi_remote_sfence_vma fw 0 0 0 0 m),
      snd (sbi_remote_sfence_vma_asid fw 0 0 0 0 0 m), snd (sbi_remote_hfence_gvma_vmid fw 0 0 0 0 0 m),
      snd (sbi_remote_hfence_gvma fw 0 0 0 0 m), snd (sbi_remote_hfence_vvma_asid fw 0 0 0 0 0 m),
      snd (sbi_remote_hfence_vvma fw 0 0 0 0 m), snd (sbi_hart_start fw 0 0 0 m), snd (sbi_hart_stop fw m),
      snd (sbi_hart_get_status fw 0 m), snd (sbi_hart_suspend fw 0 0 0 m), snd (sbi_system_reset fw 0 0 m),
      snd (sbi_pmu_num_counters fw m), snd (sbi_pmu_counter_get_info fw 0 m),
      snd (sbi_pmu_counter_config_matching fw 0 0 0 0 0 m), snd (sbi_pmu_counter_start fw 0 0 0 0 m),
      snd (sbi_pmu_counter_stop fw 0 0 0 m), snd (sbi_pmu_counter_fw_read fw 0 m),
      snd (sbi_pmu_counter_fw_read_hi fw 0 m), snd (sbi_debug_console_write fw 0 0 0 m),
      snd (sbi_debug_console_read fw 0 0 0 m), snd (sbi_debug_console_write_byte fw 0 m),
      snd (sbi_system_suspend fw 0 0 0 m), snd (sbi_cppc_probe fw 0 m), snd (sbi_cppc_read fw 0 m),
      snd (sbi_cppc_read_hi fw 0 m), snd (sbi_cppc_write fw 0 0 m)]"

definition requests :: "areg_file list machine \<Rightarrow> (u64 \<times> u64) list" where
  "requests m = map (\<lambda>r. (r 7, r 6)) (world m)"

text \<open>
  Each wrapper makes one request of its own. Every function of the firmware interface enters the firmware exactly once,
  and no two of them with the same extension and function number.
\<close>

theorem sbi_requests_distinct:
  "list_all (\<lambda>m. length (requests m) = 1) (all_wrappers recorder fresh_machine) \<and>
   distinct (map requests (all_wrappers recorder fresh_machine))"
proof -
  have r: "requests (snd (sbicall0 recorder e f fresh_machine)) = [(e, f)]" "requests (snd (sbicall1 recorder e f a fresh_machine)) = [(e, f)]"
    "requests (snd (sbicall2 recorder e f a b fresh_machine)) = [(e, f)]" "requests (snd (sbicall3 recorder e f a b c fresh_machine)) = [(e, f)]"
    "requests (snd (sbicall4 recorder e f a b c d fresh_machine)) = [(e, f)]"
    "requests (snd (sbicall5 recorder e f a b c d g fresh_machine)) = [(e, f)]" for e f a b c d g
    by (simp_all add: sbicall_defs requests_def recorder_def fresh_machine_def)
  show ?thesis by (simp add: all_wrappers_def sbi_defs r)
qed

lemma exit_rounds_requests: "requests (exit_rounds n recorder m) = requests m @ replicate n (8, 0)"
  by (induction n arbitrary: m) (simp_all add: sbi_defs sbicall_defs requests_def recorder_def replicate_append_same)

subsection \<open>The console\<close>

text \<open>
  What the kernel relies on of the debug console extension: a write request appends the given number of bytes of physical
  memory to the console. The manual allows the firmware to write fewer bytes and say so in its result.
\<close>

record sbi_world =
  phys_mem :: "addr \<Rightarrow> byte"
  console :: "byte list"

definition phys_bytes :: "sbi_world \<Rightarrow> addr \<Rightarrow> nat \<Rightarrow> byte list" where
  "phys_bytes w p n = map (\<lambda>i. phys_mem w (p + of_nat i)) [0..<n]"

definition writes_console :: "sbi_world firmware \<Rightarrow> bool" where
  "writes_console fw \<longleftrightarrow> (\<forall>r w. r 7 = 0x4442434E \<longrightarrow> r 6 = 0 \<longrightarrow> r 2 = 0 \<longrightarrow>
     console (snd (fw r w)) = console w @ phys_bytes w (r 1) (unat (r 0)))"

text \<open>
  Output reaches the console. \<^verbatim>\<open>stdio_write\<close> hands the firmware the physical address of a buffer in the mapped
  space, so that with a firmware that writes all it is asked to, exactly the bytes of the buffer are appended to the console.
\<close>

theorem stdio_write_prints:
  assumes "writes_console fw"
  shows "fst (stdio_write fw ptr size' nmemb m) = size' * nmemb \<and>
    console (world (snd (stdio_write fw ptr size' nmemb m))) =
      console (world m) @ phys_bytes (world m) (as_phys ptr) (unat (size' * nmemb))"
  using assms by (simp add: writes_console_def stdio_write_def sbi_debug_console_write_def sbicall_defs case_prod_beta)

text \<open>
  \<^verbatim>\<open>stdio_write\<close> does not look at the result of the firmware: it reports the whole buffer as written even when the
  request failed or was cut short.
\<close>

lemma stdio_write_ignores_result: "fst (stdio_write fw ptr size' nmemb m) = size' * nmemb"
  by (simp add: stdio_write_def case_prod_beta)

definition demo_console :: "sbi_world firmware" where
  "demo_console r w = (r(0 := 0, 1 := r 0),
     if r 7 = 0x4442434E \<and> r 6 = 0 then w\<lparr>console := console w @ phys_bytes w (r 1) (unat (r 0))\<rparr> else w)"

theorem stdio_write_prints_witness:
  "console (world (snd (stdio_write demo_console (as_map 0x80000000) 1 2
     \<lparr>aregs = \<lambda>_. 0, world = \<lparr>phys_mem = (\<lambda>a. ucast a), console = [7]\<rparr>\<rparr>))) = [7, 0, 1]"
proof -
  have "writes_console demo_console" by (simp add: writes_console_def demo_console_def)
  from stdio_write_prints [OF this, of "as_map 0x80000000" 1 2] show ?thesis
    by (simp add: phys_bytes_def upt_conv_Cons)
qed

end
