(* ===== verification/Spec2Isabelle.thy ===== *)
theory Spec2Isabelle
  imports Boot_Start Boot_Loader Isolation Syscall_Tables Core_Storage Logging Signals Firmware
begin

text \<open>
  A verification development for caprese, a capability-based microkernel for RISC-V (\<^verbatim>\<open>src/\<close>; the C++ under
  \<^verbatim>\<open>src/src/kernel\<close>, \<^verbatim>\<open>src/include/kernel\<close> and their counterparts under \<^verbatim>\<open>arch/rv64\<close>).

  \<^bold>\<open>The program.\<close> A task holds capabilities in slots. A page of 101 slots is a capability space; the page table
  of the task maps its spaces, and a descriptor is 101 times the number of a space plus the index of a slot in it. The
  slots of capabilities that were derived from each other form a doubly linked chain; free slots form the
  free list of their task. Objects (memory, tasks, endpoints, page tables, pages, capability spaces) are
  made from memory capabilities. Tasks run in turn from a ready queue and exchange messages through
  endpoints, which keep a queue of senders and one of receivers. Everything is reached through system calls.

  \<^bold>\<open>State and failure.\<close> The state is the record \<open>kstate\<close> of the theory \<open>Kernel_State\<close>: one typed heap
  per kind of object, read by address (0 is the null pointer), the physical memory as bytes, the ready queue, the current
  and the idle task, the counters of thread ids and unique ids, and \<^verbatim>\<open>errno\<close>. A function of the source
  is a function on this state with a result in \<open>option\<close>; \<open>None\<close> is a failed assertion, a panic, a null
  dereference or an endless spin. A function that can switch to another task has a result in \<open>run\<close>:
  \<open>Done\<close> when it returns, \<open>Stop\<close> as \<open>None\<close> before, and \<open>Switch s k\<close> when the processor goes to another task in the state \<open>s\<close>; \<open>k\<close> is the rest
  of the function, applied to the state in which the task runs again. Errors that are reported are
  results and codes in \<^verbatim>\<open>errno\<close>. Machine integers and bit fields are words of their width.

  \<^bold>\<open>The theories\<close>, with what they model and show:

  \<^item> \<open>Prelude\<close>, \<open>Align\<close> (\<^verbatim>\<open>align.h\<close>), \<open>Page\<close> (\<^verbatim>\<open>page.h\<close>, \<^verbatim>\<open>address.h\<close>, the constants of the sv39 configuration), \<open>Caps\<close>
    (\<^verbatim>\<open>cap.h\<close>: the union of capabilities as a datatype and its constructors), \<open>Kernel_State\<close>.
  \<^item> \<open>Lock\<close> (\<^verbatim>\<open>lock.cpp\<close>): the locks as one core sees them, and the recursive lock as a step relation of the atomic
    accesses of \<^verbatim>\<open>lock\<close>, \<^verbatim>\<open>try_lock\<close> and \<^verbatim>\<open>unlock\<close>; mutual exclusion is an invariant of all interleavings for different non-zero thread ids.
  \<^item> \<open>DList\<close>, \<open>Slots\<close> (\<^verbatim>\<open>cap_slot_t\<close> of \<^verbatim>\<open>cap_space.cpp\<close>): the link operations refine insertion, removal and
    replacement on lists. The locale \<open>dlinks\<close> is the interface to two link fields; the slots and
    both kinds of task queues are interpretations of it.
  \<^item> \<open>Free_Slots\<close> (\<^verbatim>\<open>push_free_slots\<close>, \<^verbatim>\<open>pop_free_slots\<close>, \<^verbatim>\<open>insert_cap\<close>): the locale \<open>slot_stack\<close> is the contract, the free list its
    interpretation.
  \<^item> \<open>Cap_Space\<close> (\<^verbatim>\<open>insert_cap_space\<close>, \<^verbatim>\<open>extend_cap_space\<close>, \<^verbatim>\<open>lookup_cap\<close>, \<^verbatim>\<open>get_cap_slot_index\<close>): descriptors and slots correspond.
  \<^item> \<open>Cap_Objects\<close> (\<^verbatim>\<open>cap.cpp\<close>: creation of objects, ids, comparison), \<open>Cap_Map\<close> (\<^verbatim>\<open>cap.cpp\<close>: mapping, unmapping, remapping and
    destruction of what is mapped): containment of new memory, the wrap-around, uniqueness of ids,
    clean failures and round trips.
  \<^item> \<open>Cap_Derive\<close> (\<^verbatim>\<open>transfer_cap\<close>, \<^verbatim>\<open>delegate_cap\<close>, \<^verbatim>\<open>copy_cap\<close>), \<open>Cap_Revoke\<close> (\<^verbatim>\<open>revoke_cap\<close>, \<^verbatim>\<open>destroy_cap\<close>, the destructors and \<^verbatim>\<open>kill_task\<close>): the
    effect on the chain, and that revocation returns everything that was derived.
  \<^item> \<open>User_Memory\<close> (\<^verbatim>\<open>user_memory.cpp\<close>): the page-wise loops equal a byte-wise translation.
  \<^item> \<open>Queues\<close>, \<open>Sched\<close> (\<^verbatim>\<open>task.cpp\<close>): the locale \<open>queue_links\<close> builds head and tail pointers on \<open>dlinks\<close>, the locale \<open>fifo\<close>
    is the contract of a queue; the ready queue and the endpoint queues interpret both. Switching hands over, yielding is round robin.
  \<^item> \<open>Ipc\<close>, \<open>Ipc_Props\<close> (\<^verbatim>\<open>ipc.cpp\<close>): messages arrive, cancelling wakes everyone.
  \<^item> \<open>Task_Init\<close> (\<^verbatim>\<open>init_task\<close>, \<^verbatim>\<open>create_task_object\<close>, \<^verbatim>\<open>create_object\<close>, \<^verbatim>\<open>frame.cpp\<close>): a new task is complete.
  \<^item> \<open>Dtb\<close> (\<^verbatim>\<open>arch/dtb.cpp\<close>, \<^verbatim>\<open>dtb.h\<close>): the parser of the flattened device tree. An inductive relation says which bytes encode
    which tree; the walks over nodes and properties end and refine the walks over the abstract tree.
  \<^item> \<open>Regions\<close>, \<open>Boot_Memory\<close> (\<^verbatim>\<open>setup.cpp\<close>): at boot the memory capabilities cover exactly the memory the device tree names
    and that is not reserved. The two loops equal a reference that takes the largest aligned block that fits (\<open>blocks\<close>), so the pieces are
    a function of the tree and the reserved regions (\<open>boot_pieces\<close>).
  \<^item> \<open>Boot_Root\<close>, \<open>Boot_Setup\<close> (\<^verbatim>\<open>start.cpp\<close>, \<^verbatim>\<open>boot_info.cpp\<close>, the rest of \<^verbatim>\<open>setup.cpp\<close>): the root task gets its capabilities in order, its
    payload, stack and device tree are mapped, and it finds its boot information at its stack pointer.
  \<^item> \<open>Boot_Start\<close>: joins the steps of the boot. The property at the end of this theory states that \<^verbatim>\<open>arch_start\<close> as a whole does not panic,
    enters the payload of the root task, and leaves it a boot information in which every descriptor leads to its capability.
  \<^item> \<open>Boot_Loader\<close> (\<^verbatim>\<open>boot/start.cpp\<close>): the page table of the boot loader is the kernel's part of every task's address space.
  \<^item> \<open>Syscalls\<close> (\<^verbatim>\<open>syscall.cpp\<close>, \<^verbatim>\<open>syscall/\<close>, \<^verbatim>\<open>trap.cpp\<close>): all handlers, the dispatch and the trap; which capabilities and rights are
    required. \<open>Syscall_Tables\<close> (the headers of \<^verbatim>\<open>syscall/\<close>): the tables of the source lead every code to its handler.
  \<^item> \<open>Isolation\<close>: the system calls on page tables and pages return whatever they are given. Sequences of them, with capabilities
    transferred, delegated and copied in between, are a step relation; the locale \<open>guarded_view\<close> carries an invariant of single steps
    over to sequences, and its interpretation shows that these calls do not reach the kernel half of an address space. An example shows what the missing level check of \<^verbatim>\<open>unmap_virt_page_cap\<close> permits when the assumption on page capabilities fails.
  \<^item> \<open>Csr\<close> (\<^verbatim>\<open>csr.h\<close>), \<open>Trap_Entry\<close> (\<^verbatim>\<open>trap.S\<close>, \<^verbatim>\<open>context.S\<close>, the rest of \<^verbatim>\<open>trap.cpp\<close>): the registers and instructions below the kernel
    state. The trap entry and exit keep the registers of a task, a context switch comes back, and a system call as a whole does to the registers of
    the task what its handler returned.
  \<^item> \<open>Core_Storage\<close> (\<^verbatim>\<open>core_id.cpp\<close>, \<^verbatim>\<open>cls.cpp\<close>): the core id survives a task, and cores have storage of their own.
  \<^item> \<open>Address\<close> (\<^verbatim>\<open>address.h\<close>): the operators of the typed pointers. \<open>Firmware\<close> (\<^verbatim>\<open>sbi.h\<close>, the console): each wrapper makes its own
    request, output reaches the console. \<open>Logging\<close> (\<^verbatim>\<open>log.cpp\<close>, \<^verbatim>\<open>dump.cpp\<close>): messages and the register dump as the characters they print.
    \<open>Signals\<close> (\<^verbatim>\<open>signal.cpp\<close>, \<^verbatim>\<open>lookup_tid\<close>): signal handlers, and the lookup of a task by its thread id.

  \<^bold>\<open>Locks in the sequential theories.\<close> A \<^verbatim>\<open>lock_guard\<close> whose scope cannot leave the task is the check that
  the lock is not owned by another task (\<open>guard_task\<close>, \<open>guard_endpoint\<close>); the lock is as before at the end of the scope by
  \<open>rlock_runlock\<close>. A guard whose scope contains a switch is modelled by locking and unlocking (\<open>lock_task\<close>, \<open>unlock_task\<close>), so that
  a lock held across a switch is seen.

  \<^bold>\<open>Bounds.\<close> The loop of \<^verbatim>\<open>revoke_cap\<close> over a memory capability has fuel (\<open>destroy_back\<close>, \<open>max_revoke\<close> in the system calls),
  because each round may run other code. \<open>revoke_memory_releases_all\<close> shows that as many rounds as there are slots
  behind the capability are enough, so a bound of the number of slots of the machine suffices. All other loops
  are structural, have a termination proof, or are partial functions in \<open>option\<close> whose theorems show that they return.

  \<^bold>\<open>Parameters.\<close> The layout of messages (\<open>msg_abi\<close>) and the numbers of system calls, capability types, error
  codes and registers (\<open>sys_abi\<close>) and the layout of the boot information (\<open>boot_abi\<close>) belong to the library libcaprese, which is not part of
  the repository. The symbols of the linker script are the record \<open>layout\<close>, the static objects of the boot the record \<open>boot_objects\<close>.

  The firmware is a function from the argument registers to these registers (\<open>firmware\<close>), \<^verbatim>\<open>printf\<close> a field of \<open>log_config\<close>, and the numbers
  of the system calls in \<open>Syscall_Tables\<close> two functions with the properties \<open>good_numbers\<close>.

  \<^bold>\<open>Not modelled.\<close> The first instructions of kernel and boot loader (\<^verbatim>\<open>entry.S\<close>); the listing of the device tree in debug builds
  (\<^verbatim>\<open>dump_devices\<close>), which only prints; the buffers of the C library; the calls of the log functions inside the modelled functions, which
  print and change no state; the builds with sv48. The kernel state is the one of a single core: interleavings of several cores are modelled for
  the locks only. The theories of the kernel state keep a saved context abstract (the rest of the function that switched); \<open>Trap_Entry\<close> shows that
  the registers behind it are kept.
\<close>

section \<open>The boot of the kernel\<close>

text \<open>
  C11: the kernel boots. Let the device tree be usable (\<open>boot_tree_ok\<close>), the boot objects fresh (\<open>can_boot\<close>) and separate from each
  other, payload, stack and device tree such that they can be placed in the address space of the root task (\<open>can_place\<close>), and the
  capability spaces and the stack have room (\<open>boot_fits\<close>) for all the pieces \<open>cds\<close> of the machine's memory and devices, which the tree and the reserved
  regions determine. Then \<^verbatim>\<open>arch_start\<close> does not panic and jumps to user mode through the
  context of the root task: the root task is current, the idle task is ready, the program counter is the base of the payload, the
  payload is mapped there, and the boot information can be read in user memory at the aligned stack pointer, which
  is also the first argument. Each descriptor in it leads \<^verbatim>\<open>lookup_cap\<close> to the capability it stands for; the array lists the memory and
  devices, then the pages of payload and stack, then those of the device tree (\<open>boot_info_ok\<close>). The listed pieces make up the machine's
  free memory and its devices (\<open>boot_chunks\<close>).
\<close>

theorem arch_start_boots:
  assumes "b = init_boot_info objs hartid dtb" "can_boot b s" "separate objs b s" "boot_tree_ok l (mem s) dtb t"
    "can_place abi l b np ns nd ds de (mem s)"
    "distinct [unat (ba_REG_PROGRAM_COUNTER abi), unat (ba_REG_STACK_POINTER abi), unat (ba_REG_ARG_0 abi)]"
    "\<forall>r\<in>{ba_REG_PROGRAM_COUNTER abi, ba_REG_STACK_POINTER abi, ba_REG_ARG_0 abi}. r \<le> ba_LAST_REGISTER abi"
    "cds = boot_pieces l (mem s) dtb t" "boot_fits abi b np ns nd (length cds)"
  shows "boot_chunks l (mem s) dtb t cds \<and>
    (\<exists>bi' s' sp. arch_start abi l objs hartid dtb (bi, s) = Some (payload_context return_to_user_mode (b_root_task b + PAGE_SIZE), bi', s') \<and>
      current_task s' = b_root_task b \<and> idle_task s' = get_cls objs hartid + PAGE_SIZE \<and> t_state (tasks s' (idle_task s')) = ready \<and>
      get_register (ba_LAST_REGISTER abi) (b_root_task b) (ba_REG_PROGRAM_COUNTER abi) s' = ba_payload_base abi \<and>
      get_register (ba_LAST_REGISTER abi) (b_root_task b) (ba_REG_STACK_POINTER abi) s' = sp \<and>
      get_register (ba_LAST_REGISTER abi) (b_root_task b) (ba_REG_ARG_0 abi) s' = sp \<and> 16 dvd unat sp \<and>
      (\<forall>i<4096 * np. user_addr s' (b_root_task b) (ba_payload_base abi + of_nat i) = Some (payload_start l + of_nat i)) \<and>
      read_user_memory (b_root_task b) sp (get_root_boot_info_size abi bi') s' =
        Some (Some (map (ba_bytes abi bi') [0..<unat (get_root_boot_info_size abi bi')])) \<and>
      boot_info_ok abi l b np ns nd ds cds bi' s')"
proof -
  have b: "b_dtb b = dtb" "b_core_id b = hartid" by (simp_all add: assms(1) init_boot_info_def)
  note bf = boot_fits_slots [OF assms(2,9)]
  have mem: "\<exists>f s'. setup_cap_space l b (bi, s1) = Some (bi\<lparr>bi_mem_caps_offset := 0, bi_caps := f, bi_num_mem_caps := of_nat (length cds), bi_num_virt_page_caps := 0,
        bi_virt_page_caps_offset := of_nat (length cds)\<rparr>, s') \<and> stored (b_root_task b) (map (\<lambda>(d, c). chunk_cap d c) cds) xs s1 s' \<and>
        listed (bi\<lparr>bi_caps := f\<rparr>) (map (slot_desc s1) (take (length cds) xs))"
    if "mem s1 = mem s" "alive s1 (b_root_task b)" "free_list s1 (b_root_task b) xs" "length cds \<le> length xs" for bi xs s1
    using setup_cap_space_stored [of l s1 b t cds xs bi] assms(4,8) b bf(2) that by simp
  from root_task_and_memory [OF assms(2) mem bf(1), of bi] obtain b2 s0 s2 where
    s2: "do { st \<leftarrow> setup_root_task b (bi, s); setup_cap_space l b st } = Some (b2, s2)" "half_booted b cds s s0 b2 s2" by blast
  from payload_and_idle [OF s2(2) assms(3,5,9,6,7)] obtain bi' s' where
    s': "do { st \<leftarrow> setup_root_task_payload abi l b (b2, s2); setup_idle_task objs b st } = Some (bi', s')"
    and rl: "root_loaded abi l b np ns nd ds bi' s'" and r: "boot_info_ok abi l b np ns nd ds cds bi' s'"
      "t_context (tasks s' (b_root_task b)) = payload_context return_to_user_mode (b_root_task b + PAGE_SIZE)" "current_task s' = b_root_task b"
      "idle_task s' = get_cls objs (b_core_id b) + PAGE_SIZE" "t_state (tasks s' (idle_task s')) = ready" by blast
  have "setup_boot abi l objs b (bi, s) = Some (bi', s')" using s2(1) s' by (auto simp: setup_boot_def bind_eq_Some_conv)
  then have "arch_start abi l objs hartid dtb (bi, s) = Some (payload_context return_to_user_mode (b_root_task b + PAGE_SIZE), bi', s')"
    using r(2) by (simp add: arch_start_def start_root_def flip: assms(1))
  moreover note root_loaded_reads [OF assms(5) rl] rl [unfolded root_loaded_def Let_def]
  ultimately have "\<exists>bi' s' sp. arch_start abi l objs hartid dtb (bi, s) = Some (payload_context return_to_user_mode (b_root_task b + PAGE_SIZE), bi', s') \<and>
      current_task s' = b_root_task b \<and> idle_task s' = get_cls objs hartid + PAGE_SIZE \<and> t_state (tasks s' (idle_task s')) = ready \<and>
      get_register (ba_LAST_REGISTER abi) (b_root_task b) (ba_REG_PROGRAM_COUNTER abi) s' = ba_payload_base abi \<and>
      get_register (ba_LAST_REGISTER abi) (b_root_task b) (ba_REG_STACK_POINTER abi) s' = sp \<and>
      get_register (ba_LAST_REGISTER abi) (b_root_task b) (ba_REG_ARG_0 abi) s' = sp \<and> 16 dvd unat sp \<and>
      (\<forall>i<4096 * np. user_addr s' (b_root_task b) (ba_payload_base abi + of_nat i) = Some (payload_start l + of_nat i)) \<and>
      read_user_memory (b_root_task b) sp (get_root_boot_info_size abi bi') s' =
        Some (Some (map (ba_bytes abi bi') [0..<unat (get_root_boot_info_size abi bi')])) \<and>
      boot_info_ok abi l b np ns nd ds cds bi' s'"
    using r b by (intro exI [of _ bi'] exI [of _ s'] exI [of _ "baked_sp l (get_root_boot_info_size abi bi')"]) simp
  then show ?thesis using setup_memory_chunks(1) [OF assms(4)] assms(8) by simp
qed

subsection \<open>An example\<close>

text \<open>The static objects one after the other, with the device tree of the theory \<open>Dtb\<close> and two pages of stack.\<close>

definition demo_objects :: boot_objects where
  "demo_objects = \<lparr>o_root_task = 0x2000110000, o_cap_spaces = 0x2000100000, o_root_page_table = 0x2000108000, o_payload_page_tables = 0x2000109000,
     o_stack_page_tables = 0x200010b000, o_cap_space_page_tables = 0x200010d000, o_core_local_storages = 0x2000120000\<rparr>"

definition demo_image :: layout where
  "demo_image = demo_load\<lparr>root_task_stack_end := 0x2000086000\<rparr>"

lemma demo_init_boot_info:
  "init_boot_info demo_objects 0 0x2000001000 = \<lparr>b_core_id = 0, b_cap_count = 0, b_root_task = 0x2000110000, b_root_page_table = 0x2000108000,
     b_cap_spaces = [0x2000100000, 0x2000101000, 0x2000102000, 0x2000103000, 0x2000104000, 0x2000105000, 0x2000106000, 0x2000107000],
     b_payload_page_tables = [0x2000109000, 0x200010a000], b_stack_page_tables = [0x200010b000, 0x200010c000],
     b_cap_space_page_tables = [0x200010d000, 0x200010e000], b_dtb = 0x2000001000\<rparr>"
  by (simp add: init_boot_info_def demo_objects_def page_array_def CONFIG_ROOT_TASK_CAP_SPACES_def NUM_INTER_PAGE_TABLE_def level_defs upt_rec)

lemma demo_image_regions:
  "kernel_regions demo_image = [\<lparr>r_start = 0x81000, r_end = 0x82000\<rparr>, \<lparr>r_start = 0x83000, r_end = 0x84000\<rparr>, \<lparr>r_start = 0x84000, r_end = 0x86000\<rparr>]"
  by (simp add: kernel_regions_def demo_image_def demo_load_def as_phys_def config_defs)

lemma demo_objects_fresh:
  defines "s \<equiv> zero_state\<lparr>mem := demo_fdt\<rparr>" and "b \<equiv> init_boot_info demo_objects 0 0x2000001000"
  shows "can_boot b s" "separate demo_objects b s" "boot_tree_ok demo_image (mem s) 0x2000001000 demo_tree"
    "\<exists>de. can_place demo_boot_abi demo_image b 1 2 1 0x1000 de (mem s)"
proof -
  have m: "mapped_page 0x2000100000" "mapped_page 0x2000104000" "mapped_page 0x200010b000" "mapped_page 0x200010c000"
    "mapped_page 0x200010d000" "mapped_page 0x200010e000" by (simp_all add: mapped_page_def as_phys_def config_defs)
  show "can_boot b s"
    by (simp add: b_def s_def demo_init_boot_info can_boot_def can_init_def fresh_page_def zero_state_def zero_task_def m)
  have "get_cls demo_objects 0 = 0x2000120000" by (simp add: get_cls_def demo_objects_def)
  then show "separate demo_objects b s"
    by (simp add: b_def s_def demo_init_boot_info separate_def zero_state_def zero_task_def)
  show "boot_tree_ok demo_image (mem s) 0x2000001000 demo_tree"
    unfolding boot_tree_ok_def s_def
    by (simp add: demo_fdt_at demo_regs demo_boot_regions demo_image_regions CONFIG_MAX_RESERVED_REGIONS_def CONFIG_MAX_MEMORY_REGIONS_def)
  have "\<exists>de. get_dtb_region demo_fdt 0x2000001000 = Some (0x1000, de) \<and> (unat (de - 0x1000) + 4095) div 4096 = 1"
    by (simp add: get_dtb_region_def fdt_magic_def fdt_totalsize_def load_u32_def byteswap_def demo_fdt_def demo_bytes_def FDT_HEADER_MAGIC_def as_phys_def config_defs)
  then obtain de where de: "get_dtb_region demo_fdt 0x2000001000 = Some (0x1000, de)" "(unat (de - 0x1000) + 4095) div 4096 = 1" by blast
  then show "\<exists>de. can_place demo_boot_abi demo_image b 1 2 1 0x1000 de (mem s)"
    unfolding can_place_def Let_def b_def s_def demo_init_boot_info
    by (intro exI [of _ de]) (simp add: m demo_boot_abi_def demo_image_def demo_load_def in_table_def page_off_def as_phys_def config_defs)
qed

lemma demo_image_pieces: "boot_pieces demo_image demo_fdt 0x2000001000 demo_tree = [(False, 0x80000, 12), (False, 0x82000, 12)]"
proof -
  have "region_blocks \<lparr>r_start = 0x80000, r_end = 0x81000\<rparr> = [(0x80000, 12)]" "region_blocks \<lparr>r_start = 0x82000, r_end = 0x83000\<rparr> = [(0x82000, 12)]"
    by (rule region_blocks_eq; simp)+
  moreover have "region_blocks \<lparr>r_start = 0, r_end = 0\<rparr> = []" by (simp add: region_blocks_def blocks.simps)
  ultimately show ?thesis
    by (simp add: boot_pieces_def work_pieces_def boot_work_def demo_boot_regions demo_image_regions subtract_region_def)
qed

theorem arch_start_boots_witness:
  "\<exists>bi' s' sp. arch_start demo_boot_abi demo_image demo_objects 0 0x2000001000 (zero_boot_info, zero_state\<lparr>mem := demo_fdt\<rparr>) =
      Some (payload_context return_to_user_mode 0x2000111000, bi', s') \<and> current_task s' = 0x2000110000 \<and> idle_task s' = 0x2000121000 \<and>
    get_register 33 0x2000110000 31 s' = 0xa0000000 \<and> get_register 33 0x2000110000 1 s' = sp \<and> 16 dvd unat sp \<and>
    names s' 0x2000110000 (bi_caps bi' 0) (chunk_cap False (0x80000, 12)) \<and> names s' 0x2000110000 (bi_caps bi' 1) (chunk_cap False (0x82000, 12))"
proof -
  let ?b = "init_boot_info demo_objects 0 0x2000001000" and ?s = "zero_state\<lparr>mem := demo_fdt\<rparr>"
  let ?cds = "[(False, 0x80000, 12), (False, 0x82000, 12)] :: (bool \<times> addr \<times> 16 word) list"
  have v: "b_root_task ?b = 0x2000110000" "get_cls demo_objects 0 = 0x2000120000" "ba_LAST_REGISTER demo_boot_abi = 33" "ba_REG_PROGRAM_COUNTER demo_boot_abi = 31"
    "ba_REG_STACK_POINTER demo_boot_abi = 1" "ba_payload_base demo_boot_abi = 0xa0000000"
    by (simp add: demo_init_boot_info) (simp_all add: get_cls_def demo_objects_def demo_boot_abi_def)
  obtain de where pl: "can_place demo_boot_abi demo_image ?b 1 2 1 0x1000 de (mem ?s)" using demo_objects_fresh(4) by blast
  have cds: "?cds = boot_pieces demo_image (mem ?s) 0x2000001000 demo_tree" by (simp add: demo_image_pieces)
  have fits: "boot_fits demo_boot_abi ?b 1 2 1 (length ?cds)" by (simp add: boot_fits_def demo_init_boot_info demo_boot_abi_def)
  have regs: "distinct [unat (ba_REG_PROGRAM_COUNTER demo_boot_abi), unat (ba_REG_STACK_POINTER demo_boot_abi), unat (ba_REG_ARG_0 demo_boot_abi)]"
    "\<forall>r\<in>{ba_REG_PROGRAM_COUNTER demo_boot_abi, ba_REG_STACK_POINTER demo_boot_abi, ba_REG_ARG_0 demo_boot_abi}. r \<le> ba_LAST_REGISTER demo_boot_abi"
    by (simp_all add: demo_boot_abi_def)
  from arch_start_boots [OF refl demo_objects_fresh(1-3) pl regs cds fits, of zero_boot_info] obtain bi' s' sp where
    x: "arch_start demo_boot_abi demo_image demo_objects 0 0x2000001000 (zero_boot_info, ?s) = Some (payload_context return_to_user_mode 0x2000111000, bi', s')"
      "current_task s' = 0x2000110000" "idle_task s' = 0x2000121000" "get_register 33 0x2000110000 31 s' = 0xa0000000" "get_register 33 0x2000110000 1 s' = sp" "16 dvd unat sp"
      "boot_info_ok demo_boot_abi demo_image ?b 1 2 1 0x1000 ?cds bi' s'"
    unfolding v by auto
  have "names s' 0x2000110000 (bi_caps bi' 0) (chunk_cap False (0x80000, 12))" "names s' 0x2000110000 (bi_caps bi' 1) (chunk_cap False (0x82000, 12))"
    using boot_info_ok_mem [OF x(7), of 0] boot_info_ok_mem [OF x(7), of 1] unfolding v by simp_all
  with x show ?thesis by blast
qed

end
